(* ===== verification/Prelude.thy ===== *)
theory Prelude
  imports Main "HOL-Library.Word" "HOL-Library.Signed_Division"
begin

text \<open>
  Shared vocabulary of the development: bytes, the ways a C or C++ operation can leave defined
  behaviour (\<open>fault\<close>), results that may be such a fault (\<open>res\<close>), memory blocks and the copy
  \<open>blit\<close> that models \<open>memcpy\<close>, reads bounded by the extent of a buffer, and the little- and
  big-endian loads and byte swaps of \<open>arpa/inet.h\<close>. The lemmas are the ones several components
  need; the three collections below carry them into the component proofs.
\<close>

unbundle bit_operations_syntax

named_theorems res_simps \<open>unfolding rules of the result combinators\<close>
named_theorems mem_simps \<open>regions of memory after a copy\<close>
named_theorems byte_simps \<open>loads, stores and byte swaps\<close>

section \<open>Faults and results\<close>

datatype fault =
    Null_Deref
  | Oob_Read
  | Oob_Write
  | Uninit_Read
  | Use_After_Free
  | Double_Free
  | Div_By_Zero
  | Invalid_Free
  | Uncaught_Exception

type_synonym 'a res = "fault + 'a"

definition res_bind :: "'a res \<Rightarrow> ('a \<Rightarrow> 'b res) \<Rightarrow> 'b res" where
  "res_bind m f = (case m of Inl e \<Rightarrow> Inl e | Inr x \<Rightarrow> f x)"

definition no_fault :: "'a res \<Rightarrow> bool" where
  "no_fault m = (case m of Inl _ \<Rightarrow> False | Inr _ \<Rightarrow> True)"

lemma res_bind_simps [simp, res_simps]:
  "res_bind (Inl e) f = Inl e"
  "res_bind (Inr x) f = f x"
  by (simp_all add: res_bind_def)

lemma no_fault_simps [simp, res_simps]:
  "\<not> no_fault (Inl e)"
  "no_fault (Inr x)"
  by (simp_all add: no_fault_def)

lemma no_fault_iff: "no_fault m \<longleftrightarrow> (\<exists>x. m = Inr x)"
  by (cases m) auto

lemma res_bind_return [simp, res_simps]:
  "res_bind m Inr = m" "res_bind m' (\<lambda>(x, y). Inr (x, y)) = m'"
  by (cases m; simp) (cases m'; simp add: split_def)

lemma res_bind_Inr_iff [res_simps]:
  "res_bind m f = Inr y \<longleftrightarrow> (\<exists>x. m = Inr x \<and> f x = Inr y)"
  by (cases m) auto

lemma res_bind_no_fault [intro]:
  "no_fault m \<Longrightarrow> (\<And>x. m = Inr x \<Longrightarrow> no_fault (f x)) \<Longrightarrow> no_fault (res_bind m f)"
  by (cases m) auto

lemma res_bind_cong [fundef_cong]:
  "m = m' \<Longrightarrow> (\<And>x. m' = Inr x \<Longrightarrow> f x = g x) \<Longrightarrow> res_bind m f = res_bind m' g"
  by (cases m') auto

text \<open>The integer division of C: it truncates, and a division by zero is a fault.\<close>

definition cdiv :: "int \<Rightarrow> int \<Rightarrow> int res" where
  "cdiv a b = (if b = 0 then Inl Div_By_Zero else Inr (a sdiv b))"

lemma cdiv_pos [simp]: "0 < b \<Longrightarrow> 0 \<le> a \<Longrightarrow> cdiv a b = Inr (a div b)"
  by (cases "a = 0") (simp_all add: cdiv_def signed_divide_int_def)

text \<open>A C pointer to an object of its own: null, to a freed object, or to an object.\<close>

datatype 'a ptr = Null | Freed | To 'a

definition deref :: "'a ptr \<Rightarrow> 'a res" where
  "deref p = (case p of Null \<Rightarrow> Inl Null_Deref | Freed \<Rightarrow> Inl Use_After_Free | To x \<Rightarrow> Inr x)"

lemma deref_simps [simp, res_simps]:
  "deref Null = Inl Null_Deref" "deref Freed = Inl Use_After_Free" "deref (To x) = Inr x"
  by (simp_all add: deref_def)

section \<open>Bytes, buffers and memory blocks\<close>

type_synonym byte = "8 word"

text \<open>A read at an index of a buffer of known extent: a read outside it is a fault.\<close>

definition rd :: "'a list \<Rightarrow> nat \<Rightarrow> 'a res" where
  "rd b i = (if i < length b then Inr (b ! i) else Inl Oob_Read)"

lemma rd_in [simp]: "i < length b \<Longrightarrow> rd b i = Inr (b ! i)"
  by (simp add: rd_def)

lemma rd_out [simp]: "length b \<le> i \<Longrightarrow> rd b i = Inl Oob_Read"
  by (simp add: rd_def)

lemma rd_no_fault [simp]: "no_fault (rd b i) \<longleftrightarrow> i < length b"
  by (simp add: rd_def)

text \<open>
  A block of memory is a function from indices to cells: the cells beyond what was written keep
  the value they had, as the heap does. \<open>blit m off xs\<close> is \<open>memcpy(m + off, xs, |xs|)\<close> and
  \<open>region m off n\<close> the \<open>n\<close> cells from \<open>off\<close>.
\<close>

type_synonym 'a block = "nat \<Rightarrow> 'a"

definition blit :: "'a block \<Rightarrow> nat \<Rightarrow> 'a list \<Rightarrow> 'a block" where
  "blit m off xs = (\<lambda>i. if off \<le> i \<and> i < off + length xs then xs ! (i - off) else m i)"

definition region :: "'a block \<Rightarrow> nat \<Rightarrow> nat \<Rightarrow> 'a list" where
  "region m off n = map m [off..<off + n]"

lemma length_region [simp]: "length (region m off n) = n"
  by (simp add: region_def)

lemma region_0 [simp]: "region m off 0 = []"
  by (simp add: region_def)

lemma nth_region [simp]: "i < n \<Longrightarrow> region m off n ! i = m (off + i)"
  by (simp add: region_def)

lemma blit_Nil [simp]: "blit m off [] = m"
  by (rule ext) (auto simp: blit_def)

lemma blit_before [simp]: "i < off \<Longrightarrow> blit m off xs i = m i"
  by (simp add: blit_def)

lemma blit_after [simp]: "off + length xs \<le> i \<Longrightarrow> blit m off xs i = m i"
  by (simp add: blit_def)

lemma blit_inside [simp]: "off \<le> i \<Longrightarrow> i < off + length xs \<Longrightarrow> blit m off xs i = xs ! (i - off)"
  by (simp add: blit_def)

lemma region_add: "region m off (n + k) = region m off n @ region m (off + n) k"
  by (simp add: region_def upt_add_eq_append [of off "off + n" k] flip: add.assoc)

lemma region_blit_same [mem_simps]: "region (blit m off xs) off (length xs) = xs"
  by (rule nth_equalityI) auto

lemma region_blit_before [mem_simps]: "off + n \<le> off' \<Longrightarrow> region (blit m off' xs) off n = region m off n"
  by (rule nth_equalityI) auto

lemma region_blit_append [mem_simps]:
  "region (blit m n xs) 0 (n + length xs) = region m 0 n @ xs"
  by (simp add: region_add mem_simps)

lemma blit_blit_append [mem_simps]:
  "blit (blit m off xs) (off + length xs) ys = blit m off (xs @ ys)"
  by (rule ext) (auto simp: blit_def nth_append)

lemma region_take: "k \<le> n \<Longrightarrow> take k (region m off n) = region m off k"
  by (rule nth_equalityI) auto

lemma region_min: "region m off (min n k) = take k (region m off n)"
  by (rule nth_equalityI) auto

text \<open>
  A write of \<open>xs\<close> at \<open>off\<close> into a heap buffer of \<open>cap\<close> cells that may be a null pointer.
\<close>

definition blk_write :: "nat \<Rightarrow> 'a block option \<Rightarrow> nat \<Rightarrow> 'a list \<Rightarrow> 'a block option res" where
  "blk_write cap m off xs =
     (case m of None \<Rightarrow> Inl Null_Deref
      | Some b \<Rightarrow> if off + length xs \<le> cap then Inr (Some (blit b off xs)) else Inl Oob_Write)"

lemma blk_write_Some [simp]:
  "off + length xs \<le> cap \<Longrightarrow> blk_write cap (Some b) off xs = Inr (Some (blit b off xs))"
  by (simp add: blk_write_def)

lemma blk_write_None [simp]: "blk_write cap None off xs = Inl Null_Deref"
  by (simp add: blk_write_def)

section \<open>Goto\<close>

text \<open>
  A block with a \<open>goto fail\<close>: it goes on with a value, or jumps with the state at the jump.
\<close>

datatype ('s, 'a) ctl = Next 'a | Goto_Fail 's

definition ctl_bind ::
    "('s, 'a) ctl res \<Rightarrow> ('a \<Rightarrow> ('s, 'b) ctl res) \<Rightarrow> ('s, 'b) ctl res" where
  "ctl_bind m f = res_bind m (\<lambda>c. case c of Next x \<Rightarrow> f x | Goto_Fail s \<Rightarrow> Inr (Goto_Fail s))"

lemma ctl_bind_simps [simp]:
  "ctl_bind (Inl e) f = Inl e"
  "ctl_bind (Inr (Next x)) f = f x"
  "ctl_bind (Inr (Goto_Fail s)) f = Inr (Goto_Fail s)"
  by (simp_all add: ctl_bind_def)

lemma ctl_bind_assoc: "ctl_bind (ctl_bind m f) g = ctl_bind m (\<lambda>x. ctl_bind (f x) g)"
  by (cases m) (auto simp: ctl_bind_def split: ctl.split)

lemma ctl_bind_no_fault:
  "no_fault m \<Longrightarrow> (\<And>x. m = Inr (Next x) \<Longrightarrow> no_fault (f x)) \<Longrightarrow> no_fault (ctl_bind m f)"
  by (cases m) (auto simp: ctl_bind_def split: ctl.split)

lemma ctl_bind_Inr_cases:
  assumes "ctl_bind m f = Inr r"
  obtains (jump) s where "m = Inr (Goto_Fail s)" "r = Goto_Fail s"
    | (go) x where "m = Inr (Next x)" "f x = Inr r"
  using assms by (cases m) (auto simp: ctl_bind_def split: ctl.splits)

section \<open>Little- and big-endian words\<close>

text \<open>
  Android on ARM and x86 is little-endian: a load of a \<open>uint16_t\<close> or \<open>uint32_t\<close> puts the first
  byte in the low bits, and \<open>ntohs\<close>, \<open>htons\<close>, \<open>ntohl\<close>, \<open>htonl\<close> swap.
\<close>

definition le16 :: "byte \<Rightarrow> byte \<Rightarrow> 16 word" where
  "le16 b0 b1 = ucast b0 OR push_bit 8 (ucast b1)"

definition be16 :: "byte \<Rightarrow> byte \<Rightarrow> 16 word" where
  "be16 b0 b1 = le16 b1 b0"

definition le32 :: "byte \<Rightarrow> byte \<Rightarrow> byte \<Rightarrow> byte \<Rightarrow> 32 word" where
  "le32 b0 b1 b2 b3 =
     ucast b0 OR push_bit 8 (ucast b1) OR push_bit 16 (ucast b2) OR push_bit 24 (ucast b3)"

definition be32 :: "byte \<Rightarrow> byte \<Rightarrow> byte \<Rightarrow> byte \<Rightarrow> 32 word" where
  "be32 b0 b1 b2 b3 = le32 b3 b2 b1 b0"

definition byte_of :: "nat \<Rightarrow> 'a::len word \<Rightarrow> byte" where
  "byte_of k w = ucast (drop_bit (8 * k) w)"

definition swap16 :: "16 word \<Rightarrow> 16 word" where
  "swap16 w = le16 (byte_of 1 w) (byte_of 0 w)"

definition swap32 :: "32 word \<Rightarrow> 32 word" where
  "swap32 w = le32 (byte_of 3 w) (byte_of 2 w) (byte_of 1 w) (byte_of 0 w)"

lemma bit_byte_high [simp]: "8 \<le> n \<Longrightarrow> \<not> bit (b :: byte) n"
  using bit_imp_le_length [of b n] by auto

lemma byte_of_le16 [simp, byte_simps]:
  "byte_of 0 (le16 b0 b1) = b0" "byte_of 1 (le16 b0 b1) = b1" "byte_of (Suc 0) (le16 b0 b1) = b1"
  unfolding byte_of_def le16_def by (auto intro!: bit_word_eqI simp: bit_simps)

lemma le16_byte_of [simp, byte_simps]: "le16 (byte_of 0 w) (byte_of 1 w) = w"
  unfolding byte_of_def le16_def by (rule bit_word_eqI) (auto simp: bit_simps)

lemma byte_of_le32 [simp, byte_simps]:
  "byte_of 0 (le32 b0 b1 b2 b3) = b0" "byte_of 1 (le32 b0 b1 b2 b3) = b1"
  "byte_of 2 (le32 b0 b1 b2 b3) = b2" "byte_of 3 (le32 b0 b1 b2 b3) = b3"
  "byte_of (Suc 0) (le32 b0 b1 b2 b3) = b1"
  unfolding byte_of_def le32_def by (auto intro!: bit_word_eqI simp: bit_simps)

lemma le32_byte_of [simp, byte_simps]:
  "le32 (byte_of 0 w) (byte_of 1 w) (byte_of 2 w) (byte_of 3 w) = w"
proof (rule bit_word_eqI)
  fix n assume "n < LENGTH(32)"
  moreover have "n - 16 < 8 \<or> 24 + (n - 24) = n" by arith
  ultimately show "bit (le32 (byte_of 0 w) (byte_of 1 w) (byte_of 2 w) (byte_of 3 w)) n = bit w n"
    unfolding byte_of_def le32_def by (auto simp: bit_simps not_less)
qed

lemmas byte_of_Suc_0 [simp, byte_simps] =
  le16_byte_of [unfolded One_nat_def] le32_byte_of [unfolded One_nat_def]

lemma swap16_swap16 [simp, byte_simps]: "swap16 (swap16 w) = w"
  using le16_byte_of [of w] by (simp add: swap16_def)

lemma swap32_swap32 [simp, byte_simps]: "swap32 (swap32 w) = w"
  using le32_byte_of [of w] by (simp add: swap32_def)

lemma swap16_le16 [simp, byte_simps]: "swap16 (le16 a b) = be16 a b"
  by (simp add: swap16_def be16_def)

lemma swap32_le32 [simp, byte_simps]: "swap32 (le32 a b c d) = be32 a b c d"
  by (simp add: swap32_def be32_def)

lemma unat_byte_less [simp]: "unat (b :: byte) < 256"
  using unsigned_less [of b, where ?'a = nat] by simp

lemma unat_u16_less [simp]: "unat (w :: 16 word) < 65536"
  using unsigned_less [of w, where ?'a = nat] by simp

lemma unat_u16_le [simp]: "unat (w :: 16 word) \<le> 65535"
  using unat_u16_less [of w] by linarith

lemma unat_of_nat_small: "n < 2 ^ LENGTH('a) \<Longrightarrow> unat (of_nat n :: 'a::len word) = n"
  by (simp add: unat_of_nat)

section \<open>Lists\<close>

text \<open>The payload slice \<open>[off, off + n)\<close> of a buffer.\<close>

definition slice_of :: "'a list \<Rightarrow> nat \<Rightarrow> nat \<Rightarrow> 'a list" where
  "slice_of b off n = take n (drop off b)"

lemma length_slice_of [simp]: "off + n \<le> length b \<Longrightarrow> length (slice_of b off n) = n"
  by (simp add: slice_of_def)

lemma slice_of_append3 [simp]:
  "slice_of (xs @ ys @ zs) (length xs) (length ys) = ys"
  by (simp add: slice_of_def)

definition rd_slice :: "'a list \<Rightarrow> nat \<Rightarrow> nat \<Rightarrow> 'a list res" where
  "rd_slice b off n = (if off + n \<le> length b then Inr (slice_of b off n) else Inl Oob_Read)"

lemma rd_slice_in [simp]: "off + n \<le> length b \<Longrightarrow> rd_slice b off n = Inr (slice_of b off n)"
  by (simp add: rd_slice_def)

lemma drop_last_nth: "0 < length xs \<Longrightarrow> xs ! (length xs - 1) = last xs"
  by (cases xs rule: rev_cases) (auto simp: nth_append)

end
