(* ===== verification/Opus_Packet.thy ===== *)
theory Opus_Packet
  imports Prelude
begin

text \<open>
  The Opus packet layer that the encoder wrapper relies on: the table of contents byte, the frame
  size coding and the packet parser of \<open>opus/src/opus.c\<close>, the packet queries of
  \<open>opus/src/opus_decoder.c\<close>, and the repacketizer of \<open>opus/src/repacketizer.c\<close>. Packets are byte
  lists read at checked positions; an error code is a value, a read outside the packet a fault.
  The lemmas show that the parser stays inside the packet and its 48 frame slots for every input,
  that the frames it reports lie inside the packet, and that it inverts the repacketizer.
\<close>

section \<open>Error codes\<close>

datatype opus_error = OPUS_BAD_ARG | OPUS_INVALID_PACKET | OPUS_BUFFER_TOO_SMALL

type_synonym 'a ores = "(opus_error + 'a) res"

definition obind :: "'a ores \<Rightarrow> ('a \<Rightarrow> 'b ores) \<Rightarrow> 'b ores" where
  "obind m f = res_bind m (\<lambda>r. case r of Inl e \<Rightarrow> Inr (Inl e) | Inr x \<Rightarrow> f x)"

abbreviation ofail :: "opus_error \<Rightarrow> 'a ores" where "ofail e \<equiv> Inr (Inl e)"
abbreviation oret :: "'a \<Rightarrow> 'a ores" where "oret x \<equiv> Inr (Inr x)"

lemma obind_simps [simp]:
  "obind (Inl e) f = Inl e" "obind (ofail x) f = ofail x" "obind (oret y) f = f y"
  by (simp_all add: obind_def)

lemma obind_oret_iff [res_simps]: "obind m f = oret y \<longleftrightarrow> (\<exists>x. m = oret x \<and> f x = oret y)"
  by (auto simp: obind_def res_bind_def split: sum.splits)

section \<open>The table of contents byte\<close>

definition opus_packet_get_samples_per_frame :: "byte \<Rightarrow> int \<Rightarrow> int" where
  "opus_packet_get_samples_per_frame toc Fs =
     (if toc AND 0x80 \<noteq> 0 then
        (Fs * 2 ^ unat (drop_bit 3 toc AND 0x3)) div 400
      else if toc AND 0x60 = 0x60 then
        (if toc AND 0x08 \<noteq> 0 then Fs div 50 else Fs div 100)
      else
        let audiosize = unat (drop_bit 3 toc AND 0x3) in
        if audiosize = 3 then Fs * 60 div 1000 else (Fs * 2 ^ audiosize) div 100)"

datatype opus_bandwidth =
    OPUS_BANDWIDTH_NARROWBAND | OPUS_BANDWIDTH_MEDIUMBAND | OPUS_BANDWIDTH_WIDEBAND
  | OPUS_BANDWIDTH_SUPERWIDEBAND | OPUS_BANDWIDTH_FULLBAND

text \<open>The constants are consecutive, so the sums of the source are steps in this list.\<close>

definition bandwidth_at :: "nat \<Rightarrow> opus_bandwidth" where
  "bandwidth_at i =
     [OPUS_BANDWIDTH_NARROWBAND, OPUS_BANDWIDTH_MEDIUMBAND, OPUS_BANDWIDTH_WIDEBAND,
      OPUS_BANDWIDTH_SUPERWIDEBAND, OPUS_BANDWIDTH_FULLBAND] ! i"

definition opus_packet_get_bandwidth :: "byte \<Rightarrow> opus_bandwidth" where
  "opus_packet_get_bandwidth toc =
     (if toc AND 0x80 \<noteq> 0 then
        (let bandwidth = bandwidth_at (1 + unat (drop_bit 5 toc AND 0x3))
         in if bandwidth = OPUS_BANDWIDTH_MEDIUMBAND then OPUS_BANDWIDTH_NARROWBAND else bandwidth)
      else if toc AND 0x60 = 0x60 then
        (if toc AND 0x10 \<noteq> 0 then OPUS_BANDWIDTH_FULLBAND else OPUS_BANDWIDTH_SUPERWIDEBAND)
      else bandwidth_at (unat (drop_bit 5 toc AND 0x3)))"

definition opus_packet_get_nb_channels :: "byte \<Rightarrow> int" where
  "opus_packet_get_nb_channels toc = (if toc AND 0x4 \<noteq> 0 then 2 else 1)"

definition opus_packet_get_nb_frames :: "byte list \<Rightarrow> int \<Rightarrow> int ores" where
  "opus_packet_get_nb_frames packet len =
     (if len < 1 then ofail OPUS_BAD_ARG
      else res_bind (rd packet 0) (\<lambda>toc.
        let count = toc AND 0x3 in
        if count = 0 then oret 1
        else if count \<noteq> 3 then oret 2
        else if len < 2 then ofail OPUS_INVALID_PACKET
        else res_bind (rd packet 1) (\<lambda>ch. oret (uint (ch AND 0x3F)))))"

definition opus_packet_get_nb_samples :: "byte list \<Rightarrow> int \<Rightarrow> int \<Rightarrow> int ores" where
  "opus_packet_get_nb_samples packet len Fs =
     obind (opus_packet_get_nb_frames packet len) (\<lambda>count.
       res_bind (rd packet 0) (\<lambda>toc.
         let samples = count * opus_packet_get_samples_per_frame toc Fs in
         if samples * 25 > Fs * 3 then ofail OPUS_INVALID_PACKET else oret samples))"

section \<open>The frame size coding\<close>

definition encode_size :: "int \<Rightarrow> byte list" where
  "encode_size sz =
     (if sz < 252 then [of_int sz]
      else let d0 = (of_int (252 + sz mod 4) :: byte) in [d0, of_int ((sz - uint d0) div 4)])"

text \<open>The size and how many bytes it took, or \<open>None\<close> where the source returns \<open>-1\<close>.\<close>

definition parse_size :: "byte list \<Rightarrow> nat \<Rightarrow> int \<Rightarrow> (int \<times> nat) option res" where
  "parse_size b pos len =
     (if len < 1 then Inr None
      else res_bind (rd b pos) (\<lambda>d0.
        if d0 < 252 then Inr (Some (uint d0, 1))
        else if len < 2 then Inr None
        else res_bind (rd b (pos + 1)) (\<lambda>d1. Inr (Some (4 * uint d1 + uint d0, 2)))))"

section \<open>The packet parser\<close>

text \<open>
  A parsed packet: the ToC, where the frames begin and their sizes, the offset of the first frame
  and the length of the whole packet with its padding.
\<close>

record opus_parsed =
  op_toc :: byte
  op_sizes :: "int list"
  op_payload :: nat
  op_packet_offset :: int

definition op_count :: "opus_parsed \<Rightarrow> nat" where
  "op_count p = length (op_sizes p)"

definition op_frame_offsets :: "opus_parsed \<Rightarrow> int list" where
  "op_frame_offsets p = map (\<lambda>i. int (op_payload p) + sum_list (take i (op_sizes p))) [0..<op_count p]"

definition int16 :: "int \<Rightarrow> int" where
  "int16 = signed_take_bit 15"

text \<open>The padding loop: the position, the length left and the padding so far.\<close>

function opus_padding :: "byte list \<Rightarrow> nat \<Rightarrow> int \<Rightarrow> int \<Rightarrow> (nat \<times> int \<times> int) ores" where
  "opus_padding b pos len pad =
     (if len \<le> 0 then ofail OPUS_INVALID_PACKET
      else res_bind (rd b pos) (\<lambda>p.
        let tmp = (if p = 255 then 254 else uint p) in
        if p = 255 then opus_padding b (pos + 1) (len - 1 - tmp) (pad + tmp)
        else oret (pos + 1, len - 1 - tmp, pad + tmp)))"
  by pat_completeness auto
termination by (relation "measure (\<lambda>(b, pos, len, pad). nat len)") auto

declare opus_padding.simps [simp del]

text \<open>The sizes of all frames but the last of a VBR packet.\<close>

primrec opus_vbr_sizes ::
    "nat \<Rightarrow> byte list \<Rightarrow> nat \<Rightarrow> int \<Rightarrow> int \<Rightarrow> (int list \<times> nat \<times> int \<times> int) ores" where
  "opus_vbr_sizes 0 b pos len last_size = oret ([], pos, len, last_size)"
| "opus_vbr_sizes (Suc n) b pos len last_size =
     res_bind (parse_size b pos len) (\<lambda>r.
       case r of
         None \<Rightarrow> ofail OPUS_INVALID_PACKET
       | Some (sz, bytes) \<Rightarrow>
           let len = len - int bytes in
           if sz > len then ofail OPUS_INVALID_PACKET
           else obind (opus_vbr_sizes n b (pos + bytes) len (last_size - (int bytes + sz)))
             (\<lambda>(sizes, pos, len, last_size). oret (sz # sizes, pos, len, last_size)))"

text \<open>
  The switch on the frame count code: number of frames, whether they share one size, the sizes
  already known, and the cursor. The sizes are those of all frames but the last.
\<close>

record opus_head =
  oh_count :: nat
  oh_cbr :: bool
  oh_sizes :: "int list"
  oh_pos :: nat
  oh_len :: int
  oh_last :: int
  oh_pad :: int

definition opus_parse_many_sizes ::
    "byte list \<Rightarrow> int \<Rightarrow> bool \<Rightarrow> byte \<Rightarrow> nat \<Rightarrow> nat \<times> int \<times> int \<Rightarrow> opus_head ores" where
  "opus_parse_many_sizes b len0 self_delimited ch count c =
     (case c of (pos, len, pad) \<Rightarrow>
       if len < 0 then ofail OPUS_INVALID_PACKET
       else if ch AND 0x80 \<noteq> 0 then
         obind (opus_vbr_sizes (count - 1) b pos len len) (\<lambda>(sizes, pos, len, last_size).
           if last_size < 0 then ofail OPUS_INVALID_PACKET
           else oret \<lparr> oh_count = count, oh_cbr = False, oh_sizes = sizes, oh_pos = pos,
                       oh_len = len, oh_last = last_size, oh_pad = pad \<rparr>)
       else if \<not> self_delimited then
         (let last_size = len div int count in
          if last_size * int count \<noteq> len then ofail OPUS_INVALID_PACKET
          else oret \<lparr> oh_count = count, oh_cbr = True,
                      oh_sizes = replicate (count - 1) (int16 last_size), oh_pos = pos,
                      oh_len = len, oh_last = last_size, oh_pad = pad \<rparr>)
       else oret \<lparr> oh_count = count, oh_cbr = True, oh_sizes = [], oh_pos = pos,
                   oh_len = len, oh_last = len0, oh_pad = pad \<rparr>)"

definition opus_parse_many :: "byte list \<Rightarrow> int \<Rightarrow> bool \<Rightarrow> int \<Rightarrow> opus_head ores" where
  "opus_parse_many b len0 self_delimited framesize =
     (if len0 < 1 then ofail OPUS_INVALID_PACKET
      else res_bind (rd b 1) (\<lambda>ch.
        let count = unat (ch AND 0x3F); len = len0 - 1 in
        if count \<le> 0 \<or> framesize * int count > 5760 then ofail OPUS_INVALID_PACKET
        else obind (if ch AND 0x40 \<noteq> 0 then opus_padding b 2 len 0 else oret (2, len, 0))
          (opus_parse_many_sizes b len0 self_delimited ch count)))"

definition opus_parse_head :: "byte list \<Rightarrow> int \<Rightarrow> bool \<Rightarrow> byte \<Rightarrow> opus_head ores" where
  "opus_parse_head b len self_delimited toc =
     (let code = toc AND 0x3 in
      if code = 0 then
        oret \<lparr> oh_count = 1, oh_cbr = False, oh_sizes = [], oh_pos = 1, oh_len = len,
               oh_last = len, oh_pad = 0 \<rparr>
      else if code = 1 then
        (if self_delimited then
           oret \<lparr> oh_count = 2, oh_cbr = True, oh_sizes = [], oh_pos = 1, oh_len = len,
                  oh_last = len, oh_pad = 0 \<rparr>
         else if len mod 2 \<noteq> 0 then ofail OPUS_INVALID_PACKET
         else oret \<lparr> oh_count = 2, oh_cbr = True, oh_sizes = [int16 (len div 2)], oh_pos = 1,
                     oh_len = len, oh_last = len div 2, oh_pad = 0 \<rparr>)
      else if code = 2 then
        res_bind (parse_size b 1 len) (\<lambda>r.
          case r of
            None \<Rightarrow> ofail OPUS_INVALID_PACKET
          | Some (sz, bytes) \<Rightarrow>
              let len = len - int bytes in
              if sz > len then ofail OPUS_INVALID_PACKET
              else oret \<lparr> oh_count = 2, oh_cbr = False, oh_sizes = [sz], oh_pos = 1 + bytes,
                          oh_len = len, oh_last = len - sz, oh_pad = 0 \<rparr>)
      else opus_parse_many b len self_delimited (opus_packet_get_samples_per_frame toc 48000))"

definition opus_parse_sizes :: "byte list \<Rightarrow> bool \<Rightarrow> opus_head \<Rightarrow> (int list \<times> nat) ores" where
  "opus_parse_sizes b self_delimited h =
     (if self_delimited then
        res_bind (parse_size b (oh_pos h) (oh_len h)) (\<lambda>r.
          case r of
            None \<Rightarrow> ofail OPUS_INVALID_PACKET
          | Some (sz, bytes) \<Rightarrow>
              let len = oh_len h - int bytes; pos = oh_pos h + bytes in
              if sz > len then ofail OPUS_INVALID_PACKET
              else if oh_cbr h then
                if sz * int (oh_count h) > len then ofail OPUS_INVALID_PACKET
                else oret (replicate (oh_count h) sz, pos)
              else if int bytes + sz > oh_last h then ofail OPUS_INVALID_PACKET
              else oret (oh_sizes h @ [sz], pos))
      else if oh_last h > 1275 then ofail OPUS_INVALID_PACKET
      else oret (oh_sizes h @ [int16 (oh_last h)], oh_pos h))"

definition opus_packet_parse_impl :: "byte list \<Rightarrow> int \<Rightarrow> bool \<Rightarrow> opus_parsed ores" where
  "opus_packet_parse_impl b len self_delimited =
     (if len < 0 then ofail OPUS_BAD_ARG
      else if len = 0 then ofail OPUS_INVALID_PACKET
      else res_bind (rd b 0) (\<lambda>toc.
        obind (opus_parse_head b (len - 1) self_delimited toc) (\<lambda>h.
        obind (opus_parse_sizes b self_delimited h) (\<lambda>(sizes, pos).
          oret \<lparr> op_toc = toc, op_sizes = sizes, op_payload = pos,
                 op_packet_offset = oh_pad h + (int pos + sum_list sizes) \<rparr>))))"

definition opus_packet_parse :: "byte list \<Rightarrow> int \<Rightarrow> opus_parsed ores" where
  "opus_packet_parse b len = opus_packet_parse_impl b len False"

section \<open>What the parser guarantees\<close>

lemma int16_small: "0 \<le> x \<Longrightarrow> x < 32768 \<Longrightarrow> int16 x = x"
  by (simp add: int16_def signed_take_bit_int_eq_self)

definition oh_ok :: "int \<Rightarrow> bool \<Rightarrow> opus_head \<Rightarrow> bool" where
  "oh_ok L sd h \<longleftrightarrow>
     int (oh_pos h) + oh_len h + oh_pad h = L \<and> 0 \<le> oh_len h \<and> 0 \<le> oh_pad h \<and> 0 < oh_pos h
     \<and> 0 < oh_count h \<and> oh_count h \<le> 48
     \<and> ((if sd then \<not> oh_cbr h else oh_last h \<le> 1275) \<longrightarrow>
          0 \<le> oh_last h \<and> length (oh_sizes h) = oh_count h - 1
          \<and> (\<forall>x\<in>set (oh_sizes h). 0 \<le> x \<and> x \<le> 1275) \<and> sum_list (oh_sizes h) + oh_last h = oh_len h)"

lemma parse_size_ok:
  assumes "int pos + len \<le> int (length b)"
  shows "\<exists>r. parse_size b pos len = Inr r
    \<and> (\<forall>sz bytes. r = Some (sz, bytes) \<longrightarrow> 0 \<le> sz \<and> sz \<le> 1275 \<and> 0 < bytes \<and> bytes \<le> 2 \<and> int bytes \<le> len)"
proof -
  have u: "uint (d :: byte) \<le> 255" "0 \<le> uint d" for d
    using uint_bounded [of d] by simp_all
  have "4 * uint (d1 :: byte) + uint (d0 :: byte) \<le> 1275" for d0 d1
    using u [of d0] u [of d1] by linarith
  moreover have "d < 252 \<Longrightarrow> uint (d :: byte) \<le> 1275" for d using u(1) [of d] by linarith
  ultimately show ?thesis using assms u by (auto simp: parse_size_def)
qed

lemma opus_padding_ok:
  assumes "int pos + len + pad = L" "L \<le> int (length b)" "0 \<le> pad"
  shows "\<exists>r. opus_padding b pos len pad = Inr r
    \<and> (\<forall>p l q. r = Inr (p, l, q) \<longrightarrow> int p + l + q = L \<and> 0 \<le> q \<and> pos < p)"
  using assms
proof (induction b pos len pad rule: opus_padding.induct)
  case (1 b pos len pad)
  show ?case
  proof (cases "len \<le> 0")
    case True
    then show ?thesis by (subst opus_padding.simps) simp
  next
    case False
    then have rd: "rd b pos = Inr (b ! pos)" using "1.prems" by (intro rd_in) linarith
    show ?thesis
    proof (cases "b ! pos = 255")
      case True
      have "\<exists>r. opus_padding b (pos + 1) (len - 1 - 254) (pad + 254) = Inr r
        \<and> (\<forall>p l q. r = Inr (p, l, q) \<longrightarrow> int p + l + q = L \<and> 0 \<le> q \<and> pos + 1 < p)"
        using "1.IH" [OF False rd refl] True "1.prems" by simp
      then show ?thesis
        using False rd True by (subst opus_padding.simps) fastforce
    next
      case F: False
      then show ?thesis
        using False rd "1.prems" by (subst opus_padding.simps) (simp add: Let_def)
    qed
  qed
qed

lemma opus_vbr_sizes_ok:
  assumes "int pos + len + pad = L" "L \<le> int (length b)" "0 \<le> pad" "0 \<le> len"
  shows "\<exists>r. opus_vbr_sizes n b pos len last_size = Inr r
    \<and> (\<forall>ss p l q. r = Inr (ss, p, l, q) \<longrightarrow> int p + l + pad = L \<and> pos \<le> p \<and> 0 \<le> l \<and> length ss = n
       \<and> (\<forall>x\<in>set ss. 0 \<le> x \<and> x \<le> 1275) \<and> q + sum_list ss - l = last_size - len)"
  using assms
proof (induction n arbitrary: pos len last_size)
  case (Suc n)
  have le: "int pos + len \<le> int (length b)" using Suc.prems by linarith
  obtain r where r: "parse_size b pos len = Inr r"
    "\<And>sz bytes. r = Some (sz, bytes) \<Longrightarrow> 0 \<le> sz \<and> sz \<le> 1275 \<and> 0 < bytes \<and> bytes \<le> 2 \<and> int bytes \<le> len"
    using parse_size_ok [OF le] by blast
  show ?case
  proof (cases r)
    case None
    then show ?thesis using r by simp
  next
    case (Some x)
    obtain sz bytes where x: "x = (sz, bytes)" by force
    show ?thesis
    proof (cases "sz > len - int bytes")
      case True
      then show ?thesis using r Some x by simp
    next
      case False
      note b = r(2) [OF Some [unfolded x]]
      obtain r' where r': "opus_vbr_sizes n b (pos + bytes) (len - int bytes) (last_size - (int bytes + sz)) = Inr r'"
        "\<And>ss p l q. r' = Inr (ss, p, l, q) \<Longrightarrow> int p + l + pad = L \<and> pos + bytes \<le> p \<and> 0 \<le> l \<and> length ss = n
           \<and> (\<forall>x\<in>set ss. 0 \<le> x \<and> x \<le> 1275) \<and> q + sum_list ss - l = last_size - (int bytes + sz) - (len - int bytes)"
        using Suc.IH [of "pos + bytes" "len - int bytes" "last_size - (int bytes + sz)"] Suc.prems b by auto
      show ?thesis
      proof (cases r')
        case (Inl e)
        then show ?thesis using r r' Some x False by simp
      next
        case (Inr y)
        obtain ss p l q where y: "y = (ss, p, l, q)" by (cases y)
        have "opus_vbr_sizes (Suc n) b pos len last_size = Inr (Inr (sz # ss, p, l, q))"
          using r r' Some x False Inr y by simp
        then show ?thesis using r'(2) [OF Inr [unfolded y]] b by auto
      qed
    qed
  qed
qed simp

lemma samples_per_frame_48k: "120 \<le> opus_packet_get_samples_per_frame toc 48000"
proof -
  have "(48000 * 2 ^ n) div 400 = (120 * 2 ^ n :: int)" for n by simp
  moreover have "(48000 * 2 ^ n) div 100 = (480 * 2 ^ n :: int)" for n by simp
  moreover have "1 \<le> (2 ^ n :: int)" for n by simp
  moreover have "1 \<le> 4 * (2 ^ n :: int)" for n
  proof -
    have "0 < (2 ^ n :: int)" by simp
    then show ?thesis by linarith
  qed
  ultimately show ?thesis
    by (auto simp: opus_packet_get_samples_per_frame_def Let_def)
qed

lemma opus_parse_many_ok:
  assumes "1 + len = L" "L \<le> int (length b)" "120 \<le> framesize"
  shows "\<exists>r. opus_parse_many b len sd framesize = Inr r \<and> (\<forall>h. r = Inr h \<longrightarrow> oh_ok L sd h)"
proof (cases "len < 1")
  case True
  then show ?thesis by (simp add: opus_parse_many_def)
next
  case False
  define ch where "ch = b ! 1"
  define count where "count = unat (ch AND 0x3F)"
  have rd: "rd b 1 = Inr ch" unfolding ch_def by (rule rd_in) (use False assms in linarith)
  show ?thesis
  proof (cases "count \<le> 0 \<or> framesize * int count > 5760")
    case True
    then show ?thesis using False rd by (auto simp: opus_parse_many_def count_def)
  next
    case count: False
    have c48: "count \<le> 48"
    proof -
      have "120 * int count \<le> framesize * int count" using assms(3) by (simp add: mult_right_mono)
      then show ?thesis using count by linarith
    qed
    define pd where "pd = (if ch AND 0x40 \<noteq> 0 then opus_padding b 2 (len - 1) 0 else oret (2, len - 1, 0))"
    have "\<exists>r. pd = Inr r \<and> (\<forall>p l q. r = Inr (p, l, q) \<longrightarrow> int p + l + q = L \<and> 0 \<le> q \<and> 0 < p)"
      using opus_padding_ok [of 2 "len - 1" 0 L b] assms(1,2) unfolding pd_def by fastforce
    then obtain r where r: "pd = Inr r" "\<And>p l q. r = Inr (p, l, q) \<Longrightarrow> int p + l + q = L \<and> 0 \<le> q \<and> 0 < p"
      by blast
    have many: "opus_parse_many b len sd framesize = obind pd (opus_parse_many_sizes b len sd ch count)"
      using False rd count unfolding opus_parse_many_def pd_def count_def Let_def One_nat_def by simp
    show ?thesis
    proof (cases r)
      case (Inl e)
      then show ?thesis using r by (simp add: many)
    next
      case (Inr x)
      obtain p l q where x: "x = (p, l, q)" by (cases x)
      have k: "int p + l + q = L" "0 \<le> q" "0 < p" using r(2) [of p l q] Inr x by simp_all
      consider "l < 0" | "0 \<le> l" "ch AND 0x80 \<noteq> 0" | "0 \<le> l" "ch AND 0x80 = 0" "sd"
        | "0 \<le> l" "ch AND 0x80 = 0" "\<not> sd" by linarith
      then show ?thesis
      proof cases
        case 1
        then show ?thesis using r Inr x by (simp add: many opus_parse_many_sizes_def)
      next
        case 2
        obtain r' where r': "opus_vbr_sizes (count - 1) b p l l = Inr r'"
          "\<And>ss p' l' q'. r' = Inr (ss, p', l', q') \<Longrightarrow> int p' + l' + q = L \<and> p \<le> p' \<and> 0 \<le> l' \<and> length ss = count - 1
             \<and> (\<forall>x\<in>set ss. 0 \<le> x \<and> x \<le> 1275) \<and> q' + sum_list ss - l' = l - l"
          using opus_vbr_sizes_ok [OF k(1) assms(2) k(2) 2(1), of "count - 1" l] by blast
        show ?thesis
        proof (cases r')
          case e: (Inl e)
          then show ?thesis using r Inr x 2 r' by (simp add: many opus_parse_many_sizes_def)
        next
          case y: (Inr y)
          obtain ss p' l' q' where y': "y = (ss, p', l', q')" by (cases y)
          show ?thesis
            using r Inr x 2 r'(1) r'(2) [OF y [unfolded y']] y y' k count c48
            by (auto simp: many opus_parse_many_sizes_def oh_ok_def)
        qed
      next
        case 3
        then show ?thesis unfolding many using r Inr x k count c48 by (simp add: opus_parse_many_sizes_def oh_ok_def)
      next
        case 4
        have "0 < int count" using count by simp
        then have "0 \<le> l div int count" using 4(1) by (simp add: pos_imp_zdiv_nonneg_iff)
        then show ?thesis
          unfolding many using r Inr x k count c48 4
          by (auto simp: opus_parse_many_sizes_def oh_ok_def Let_def int16_small sum_list_replicate algebra_simps of_nat_diff)
      qed
    qed
  qed
qed

lemma opus_parse_head_ok:
  assumes "1 + len = L" "L \<le> int (length b)" "0 \<le> len"
  shows "\<exists>r. opus_parse_head b len sd toc = Inr r \<and> (\<forall>h. r = Inr h \<longrightarrow> oh_ok L sd h)"
proof -
  have le: "int 1 + len \<le> int (length b)" using assms by simp
  obtain r where r: "parse_size b 1 len = Inr r"
    "\<And>sz bytes. r = Some (sz, bytes) \<Longrightarrow> 0 \<le> sz \<and> sz \<le> 1275 \<and> 0 < bytes \<and> bytes \<le> 2 \<and> int bytes \<le> len"
    using parse_size_ok [OF le] by blast
  have many: "\<exists>r. opus_parse_many b len sd (opus_packet_get_samples_per_frame toc 48000) = Inr r
      \<and> (\<forall>h. r = Inr h \<longrightarrow> oh_ok L sd h)"
    by (rule opus_parse_many_ok [OF assms(1,2) samples_per_frame_48k])
  consider "toc AND 3 = 0" | "toc AND 3 = 1" | "toc AND 3 = 2"
    | "toc AND 3 \<noteq> 0" "toc AND 3 \<noteq> 1" "toc AND 3 \<noteq> 2" by blast
  then show ?thesis
  proof cases
    case 2
    have "0 \<le> len div 2" using assms(3) by simp
    moreover have "len div 2 + len div 2 = len" if "len mod 2 = 0" using that by presburger
    ultimately show ?thesis using 2 assms
      by (auto simp: opus_parse_head_def Let_def oh_ok_def int16_small)
  next
    case 3
    then show ?thesis using r assms
      by (cases r) (auto simp: opus_parse_head_def Let_def oh_ok_def)
  qed (use assms many in \<open>auto simp: opus_parse_head_def Let_def oh_ok_def\<close>)
qed

definition op_ok :: "int \<Rightarrow> opus_parsed \<Rightarrow> bool" where
  "op_ok L p \<longleftrightarrow> 0 < op_count p \<and> op_count p \<le> 48 \<and> (\<forall>x\<in>set (op_sizes p). 0 \<le> x \<and> x \<le> 1275)
     \<and> 0 < op_payload p \<and> int (op_payload p) + sum_list (op_sizes p) \<le> op_packet_offset p
     \<and> op_packet_offset p \<le> L"

lemma opus_parse_sizes_ok:
  assumes "oh_ok L sd h" "L \<le> int (length b)"
  shows "\<exists>r. opus_parse_sizes b sd h = Inr r
    \<and> (\<forall>ss pos. r = Inr (ss, pos) \<longrightarrow> length ss = oh_count h \<and> (\<forall>x\<in>set ss. 0 \<le> x \<and> x \<le> 1275)
         \<and> 0 < pos \<and> int pos + sum_list ss + oh_pad h \<le> L \<and> (\<not> sd \<longrightarrow> int pos + sum_list ss + oh_pad h = L))"
proof (cases sd)
  case False
  then show ?thesis using assms
    by (auto simp: opus_parse_sizes_def oh_ok_def int16_small)
next
  case True
  have le: "int (oh_pos h) + oh_len h \<le> int (length b)" using assms by (auto simp: oh_ok_def)
  obtain r where r: "parse_size b (oh_pos h) (oh_len h) = Inr r"
    "\<And>sz bytes. r = Some (sz, bytes) \<Longrightarrow> 0 \<le> sz \<and> sz \<le> 1275 \<and> 0 < bytes \<and> bytes \<le> 2 \<and> int bytes \<le> oh_len h"
    using parse_size_ok [OF le] by blast
  show ?thesis
  proof (cases r)
    case None
    then show ?thesis using True r by (simp add: opus_parse_sizes_def)
  next
    case (Some x)
    obtain sz bytes where x: "x = (sz, bytes)" by force
    note s = r(2) [OF Some [unfolded x]]
    show ?thesis
      using True r(1) Some x s assms(1)
      by (cases "oh_cbr h") (auto simp: opus_parse_sizes_def oh_ok_def Let_def sum_list_replicate mult.commute)
  qed
qed

lemma opus_packet_parse_impl_ok:
  assumes "len \<le> int (length b)"
  shows "\<exists>r. opus_packet_parse_impl b len sd = Inr r
    \<and> (\<forall>p. r = Inr p \<longrightarrow> op_ok len p \<and> op_toc p = b ! 0 \<and> (\<not> sd \<longrightarrow> op_packet_offset p = len))"
proof (cases "len \<le> 0")
  case True
  then show ?thesis by (auto simp: opus_packet_parse_impl_def)
next
  case False
  then have rd: "rd b 0 = Inr (b ! 0)" using assms by (intro rd_in) linarith
  obtain r where r: "opus_parse_head b (len - 1) sd (b ! 0) = Inr r" "\<And>h. r = Inr h \<Longrightarrow> oh_ok len sd h"
    using opus_parse_head_ok [of "len - 1" len b sd "b ! 0"] assms False by auto
  show ?thesis
  proof (cases r)
    case (Inl e)
    then show ?thesis using False rd r by (simp add: opus_packet_parse_impl_def)
  next
    case (Inr h)
    have h: "oh_ok len sd h" by (rule r(2) [OF Inr])
    obtain r' where r': "opus_parse_sizes b sd h = Inr r'"
      "\<And>ss pos. r' = Inr (ss, pos) \<Longrightarrow> length ss = oh_count h \<and> (\<forall>x\<in>set ss. 0 \<le> x \<and> x \<le> 1275)
         \<and> 0 < pos \<and> int pos + sum_list ss + oh_pad h \<le> len \<and> (\<not> sd \<longrightarrow> int pos + sum_list ss + oh_pad h = len)"
      using opus_parse_sizes_ok [OF h assms] by blast
    show ?thesis
    proof (cases r')
      case e: (Inl e)
      then show ?thesis using False rd r r' Inr by (simp add: opus_packet_parse_impl_def)
    next
      case y: (Inr y)
      obtain ss pos where y': "y = (ss, pos)" by force
      show ?thesis
        using False rd r(1) r'(1) r'(2) [OF y [unfolded y']] Inr y y' h
        by (auto simp: opus_packet_parse_impl_def op_ok_def op_count_def oh_ok_def)
    qed
  qed
qed

text \<open>
  C24: the Opus packet parser never reads outside the packet, whatever its bytes and framing; when it
  accepts, the packet holds between 1 and 48 frames (the slots the callers provide) of at most 1275
  bytes each, which lie, with the padding, inside the packet.
\<close>

theorem opus_parse_safe:
  assumes "len \<le> int (length b)"
  shows "\<exists>r. opus_packet_parse_impl b len sd = Inr r
    \<and> (\<forall>p. r = Inr p \<longrightarrow> 0 < op_count p \<and> op_count p \<le> 48
         \<and> (\<forall>x\<in>set (op_sizes p). 0 \<le> x \<and> x \<le> 1275)
         \<and> int (op_payload p) + sum_list (op_sizes p) \<le> op_packet_offset p \<and> op_packet_offset p \<le> len)"
  using opus_packet_parse_impl_ok [OF assms, of sd] by (auto simp: op_ok_def)

theorem opus_parse_safe_witness:
  "\<exists>r. opus_packet_parse_impl [0x03, 0xC2, 255, 1, 7, 8, 9] 7 False = Inr r
    \<and> (\<forall>p. r = Inr p \<longrightarrow> 0 < op_count p \<and> op_packet_offset p \<le> 7)"
  using opus_parse_safe [of 7 "[0x03, 0xC2, 255, 1, 7, 8, 9]" False] by auto

section \<open>The repacketizer\<close>

text \<open>
  The frames are kept by content: \<open>rp->frames[i]\<close> points into a packet that the caller keeps until
  the output is written.
\<close>

record opus_rp =
  rp_toc :: byte
  rp_frames :: "byte list list"
  rp_framesize :: int

definition opus_repacketizer_init :: "opus_rp \<Rightarrow> opus_rp" where
  "opus_repacketizer_init rp = rp\<lparr> rp_frames := [] \<rparr>"

definition opus_repacketizer_get_nb_frames :: "opus_rp \<Rightarrow> nat" where
  "opus_repacketizer_get_nb_frames rp = length (rp_frames rp)"

definition parsed_frames :: "byte list \<Rightarrow> opus_parsed \<Rightarrow> byte list list" where
  "parsed_frames b p = map (\<lambda>(off, sz). slice_of b (nat off) (nat sz)) (zip (op_frame_offsets p) (op_sizes p))"

text \<open>The result code with the state left behind: \<open>None\<close> is \<open>OPUS_OK\<close>.\<close>

definition opus_repacketizer_cat_impl ::
    "opus_rp \<Rightarrow> byte list \<Rightarrow> int \<Rightarrow> bool \<Rightarrow> (opus_error option \<times> opus_rp) res" where
  "opus_repacketizer_cat_impl rp data len self_delimited =
     (if len < 1 then Inr (Some OPUS_INVALID_PACKET, rp)
      else res_bind (rd data 0) (\<lambda>d0.
        if rp_frames rp \<noteq> [] \<and> rp_toc rp AND 0xFC \<noteq> d0 AND 0xFC then Inr (Some OPUS_INVALID_PACKET, rp)
        else
          let rp = (if rp_frames rp = []
                    then rp\<lparr> rp_toc := d0, rp_framesize := opus_packet_get_samples_per_frame d0 8000 \<rparr>
                    else rp)
          in res_bind (opus_packet_get_nb_frames data len) (\<lambda>r.
            case r of
              Inl _ \<Rightarrow> Inr (Some OPUS_INVALID_PACKET, rp)
            | Inr curr_nb_frames \<Rightarrow>
                if curr_nb_frames < 1 then Inr (Some OPUS_INVALID_PACKET, rp)
                else if (curr_nb_frames + int (length (rp_frames rp))) * rp_framesize rp > 960
                then Inr (Some OPUS_INVALID_PACKET, rp)
                else res_bind (opus_packet_parse_impl data len self_delimited) (\<lambda>r.
                  case r of
                    Inl e \<Rightarrow> Inr (Some e, rp)
                  | Inr p \<Rightarrow> Inr (None, rp\<lparr> rp_frames := rp_frames rp @ parsed_frames data p \<rparr>)))))"

definition frame_len :: "byte list \<Rightarrow> int" where
  "frame_len f = int (length f)"

definition size_extra :: "int \<Rightarrow> int" where
  "size_extra n = (if n \<ge> 252 then 1 else 0)"

text \<open>The header of codes 0 to 2 and the running total; three or more frames have none of these.\<close>

definition opus_short_header :: "byte \<Rightarrow> byte list list \<Rightarrow> int \<Rightarrow> int \<Rightarrow> (byte list \<times> int) ores" where
  "opus_short_header toc fs tot_size maxlen =
     (if length fs = 1 then
        let tot_size = tot_size + (frame_len (fs ! 0) + 1) in
        if tot_size > maxlen then ofail OPUS_BUFFER_TOO_SMALL
        else oret ([toc AND 0xFC], tot_size)
      else if length fs = 2 then
        if frame_len (fs ! 1) = frame_len (fs ! 0) then
          let tot_size = tot_size + (2 * frame_len (fs ! 0) + 1) in
          if tot_size > maxlen then ofail OPUS_BUFFER_TOO_SMALL
          else oret ([(toc AND 0xFC) OR 1], tot_size)
        else
          let tot_size = tot_size + (frame_len (fs ! 0) + frame_len (fs ! 1) + 2 + size_extra (frame_len (fs ! 0))) in
          if tot_size > maxlen then ofail OPUS_BUFFER_TOO_SMALL
          else oret ([(toc AND 0xFC) OR 2] @ encode_size (frame_len (fs ! 0)), tot_size)
      else oret ([], tot_size))"

definition pad_bytes :: "int \<Rightarrow> byte list" where
  "pad_bytes pad_amount =
     (if pad_amount \<noteq> 0 then
        let nb_255s = (pad_amount - 1) div 255
        in replicate (nat nb_255s) 255 @ [of_int (pad_amount - 255 * nb_255s - 1)]
      else [])"

text \<open>Code 3, with the padding of \<open>pad\<close>.\<close>

definition opus_long_header :: "byte \<Rightarrow> byte list list \<Rightarrow> int \<Rightarrow> int \<Rightarrow> bool \<Rightarrow> (byte list \<times> int) ores" where
  "opus_long_header toc fs tot_size maxlen pad =
     (let count = length fs;
          vbr = (\<exists>f \<in> set (tl fs). frame_len f \<noteq> frame_len (hd fs));
          tot_size = tot_size +
            (if vbr then 2 + sum_list (map (\<lambda>f. 1 + size_extra (frame_len f) + frame_len f) (butlast fs))
                         + frame_len (last fs)
             else int count * frame_len (hd fs) + 2)
      in if tot_size > maxlen then ofail OPUS_BUFFER_TOO_SMALL
      else
        let pad_amount = (if pad then maxlen - tot_size else 0);
            b1 = (of_nat count :: byte) OR (if vbr then 0x80 else 0) OR (if pad_amount \<noteq> 0 then 0x40 else 0)
        in oret ([(toc AND 0xFC) OR 3, b1] @ pad_bytes pad_amount
                 @ (if vbr then concat (map (\<lambda>f. encode_size (frame_len f)) (butlast fs)) else []),
                 tot_size + pad_amount))"

definition opus_repacketizer_out_range_impl ::
    "opus_rp \<Rightarrow> int \<Rightarrow> int \<Rightarrow> int \<Rightarrow> bool \<Rightarrow> bool \<Rightarrow> (byte list \<times> int) ores" where
  "opus_repacketizer_out_range_impl rp first stop maxlen self_delimited pad =
     (if first < 0 \<or> first \<ge> stop \<or> stop > int (length (rp_frames rp)) then ofail OPUS_BAD_ARG
      else
        let fs = take (nat (stop - first)) (drop (nat first) (rp_frames rp));
            tot0 = (if self_delimited then 1 + size_extra (frame_len (last fs)) else 0)
        in obind (opus_short_header (rp_toc rp) fs tot0 maxlen) (\<lambda>(hdr, tot_size).
           obind (if length fs > 2 \<or> (pad \<and> tot_size < maxlen)
                  then opus_long_header (rp_toc rp) fs tot0 maxlen pad
                  else oret (hdr, tot_size)) (\<lambda>(hdr, tot_size).
             let out = hdr @ (if self_delimited then encode_size (frame_len (last fs)) else []) @ concat fs
             in oret (out @ (if pad then replicate (nat maxlen - length out) 0 else []), tot_size))))"

definition opus_repacketizer_out_range :: "opus_rp \<Rightarrow> int \<Rightarrow> int \<Rightarrow> int \<Rightarrow> (byte list \<times> int) ores" where
  "opus_repacketizer_out_range rp first stop maxlen =
     opus_repacketizer_out_range_impl rp first stop maxlen False False"

definition opus_repacketizer_out :: "opus_rp \<Rightarrow> int \<Rightarrow> (byte list \<times> int) ores" where
  "opus_repacketizer_out rp maxlen =
     opus_repacketizer_out_range_impl rp 0 (int (length (rp_frames rp))) maxlen False False"

section \<open>The repacketizer against its buffer and the parser\<close>

lemma frame_len_simps [simp]: "0 \<le> frame_len f" "nat (frame_len f) = length f"
  by (simp_all add: frame_len_def)

lemma length_encode_size [simp]: "0 \<le> sz \<Longrightarrow> int (length (encode_size sz)) = 1 + size_extra sz"
  by (simp add: encode_size_def size_extra_def Let_def)

lemma uint_of_int_byte:
  assumes "0 \<le> x" "x < 256"
  shows "uint (of_int x :: byte) = x"
  using assms by (simp add: uint_word_of_int_eq take_bit_int_eq_self)

lemma encode_size_bytes:
  assumes "252 \<le> sz" "sz \<le> 1275"
  obtains d0 d1 where "encode_size sz = [d0, d1]" "252 \<le> uint d0" "4 * uint d1 + uint d0 = sz"
proof -
  let ?d0 = "of_int (252 + sz mod 4) :: byte" and ?q = "(sz - (252 + sz mod 4)) div 4"
  have "0 \<le> 252 + sz mod 4" "252 + sz mod 4 < 256" by presburger+
  then have u0: "uint ?d0 = 252 + sz mod 4" by (rule uint_of_int_byte)
  have q: "0 \<le> ?q" "?q < 256" using assms by presburger+
  then have u1: "uint (of_int ?q :: byte) = ?q" by (rule uint_of_int_byte)
  have "4 * ?q + (252 + sz mod 4) = sz" using assms by presburger
  then show thesis
    using that [of ?d0 "of_int ?q"] assms u0 u1 by (simp add: encode_size_def Let_def del: of_int_add of_int_numeral)
qed

lemma parse_size_encode:
  assumes "0 \<le> sz" "sz \<le> 1275" "b = pre @ encode_size sz @ post" "int (length (encode_size sz)) \<le> len"
  shows "parse_size b (length pre) len = Inr (Some (sz, length (encode_size sz)))"
proof (cases "sz < 252")
  case True
  then have e: "encode_size sz = [of_int sz]" by (simp add: encode_size_def)
  have u: "uint (of_int sz :: byte) = sz" using True assms(1) by (intro uint_of_int_byte) simp_all
  then have "(of_int sz :: byte) < 252" using True by (simp add: word_less_def)
  then show ?thesis using assms e u by (simp add: parse_size_def nth_append)
next
  case False
  then have "252 \<le> sz" by simp
  then obtain d0 d1 where e: "encode_size sz = [d0, d1]" "252 \<le> uint d0" "4 * uint d1 + uint d0 = sz"
    using encode_size_bytes assms(2) by blast
  have "\<not> d0 < 252" using e(2) by (simp add: word_less_def)
  then show ?thesis using assms e by (simp add: parse_size_def nth_append)
qed

lemma opus_vbr_sizes_encode:
  assumes "\<forall>f\<in>set fs. frame_len f \<le> 1275"
    "b = pre @ concat (map (\<lambda>f. encode_size (frame_len f)) fs) @ post"
    "int (length (concat (map (\<lambda>f. encode_size (frame_len f)) fs))) + sum_list (map frame_len fs) \<le> len"
  shows "opus_vbr_sizes (length fs) b (length pre) len last_size =
    oret (map frame_len fs, length pre + length (concat (map (\<lambda>f. encode_size (frame_len f)) fs)),
          len - int (length (concat (map (\<lambda>f. encode_size (frame_len f)) fs))),
          last_size - int (length (concat (map (\<lambda>f. encode_size (frame_len f)) fs))) - sum_list (map frame_len fs))"
  using assms
proof (induction fs arbitrary: pre len last_size)
  case (Cons f fs)
  let ?e = "encode_size (frame_len f)" and ?r = "concat (map (\<lambda>f. encode_size (frame_len f)) fs)"
  have s: "0 \<le> sum_list (map frame_len fs)" by (rule sum_list_nonneg) auto
  have le: "int (length ?e) + int (length ?r) + frame_len f + sum_list (map frame_len fs) \<le> len"
    using Cons.prems(3) by (simp del: length_encode_size)
  have "int (length ?e) \<le> len" using le s frame_len_simps(1) [of f] by linarith
  then have p: "parse_size b (length pre) len = Inr (Some (frame_len f, length ?e))"
    by (intro parse_size_encode [where post = "?r @ post"]) (use Cons.prems(1,2) in simp_all)
  have IH: "opus_vbr_sizes (length fs) b (length (pre @ ?e)) (len - int (length ?e)) (last_size - (int (length ?e) + frame_len f)) =
    oret (map frame_len fs, length (pre @ ?e) + length ?r, len - int (length ?e) - int (length ?r),
          last_size - (int (length ?e) + frame_len f) - int (length ?r) - sum_list (map frame_len fs))"
  proof (rule Cons.IH)
    show "int (length ?r) + sum_list (map frame_len fs) \<le> len - int (length ?e)"
      using le frame_len_simps(1) [of f] by linarith
  qed (use Cons.prems(1,2) in simp_all)
  have "frame_len f \<le> len - int (length ?e)" using le s by linarith
  then show ?case using p IH by (simp add: Let_def algebra_simps del: length_encode_size)
qed simp

lemma length_concat_frames: "int (length (concat fs)) = sum_list (map frame_len fs)"
  by (induction fs) (simp_all add: frame_len_def)

lemma length_concat_sizes:
  "int (length (concat (map (\<lambda>f. encode_size (frame_len f)) fs))) + sum_list (map frame_len fs) =
     sum_list (map (\<lambda>f. 1 + size_extra (frame_len f) + frame_len f) fs)"
  by (induction fs) simp_all

lemma frames_cbr:
  assumes "fs \<noteq> []" "\<not> (\<exists>f\<in>set (tl fs). frame_len f \<noteq> frame_len (hd fs))"
  shows "map frame_len fs = replicate (length fs) (frame_len (hd fs))"
proof -
  have "\<forall>n\<in>set (map frame_len fs). n = frame_len (hd fs)" using assms by (cases fs) auto
  then show ?thesis using replicate_length_same [of "map frame_len fs"] by simp
qed

lemma opus_short_header_length:
  assumes "opus_short_header toc fs tot0 maxlen = oret (hdr, tot)" "length fs = 1 \<or> length fs = 2"
  shows "int (length hdr) + int (length (concat fs)) = tot - tot0 \<and> tot \<le> maxlen"
proof -
  consider f where "fs = [f]" | f g where "fs = [f, g]"
    using assms(2) by (auto simp: length_Suc_conv numeral_2_eq_2)
  then show ?thesis unfolding length_concat_frames
  proof cases
    case 1
    then show "int (length hdr) + sum_list (map frame_len fs) = tot - tot0 \<and> tot \<le> maxlen"
      using assms(1) by (auto simp: opus_short_header_def Let_def split: if_splits)
  next
    case 2
    show "int (length hdr) + sum_list (map frame_len fs) = tot - tot0 \<and> tot \<le> maxlen"
    proof (cases "frame_len g = frame_len f")
      case True
      then show ?thesis
        using assms(1) 2 by (auto simp: opus_short_header_def Let_def split: if_splits)
    next
      case False
      then have "tot = tot0 + (frame_len f + frame_len g + 2 + size_extra (frame_len f))" "tot \<le> maxlen"
        "hdr = [(toc AND 0xFC) OR 2] @ encode_size (frame_len f)"
        using assms(1) 2 by (simp_all add: opus_short_header_def Let_def split: if_splits)
      then show ?thesis using 2 length_encode_size [of "frame_len f"] by simp
    qed
  qed
qed

lemma length_pad_bytes:
  assumes "0 \<le> n"
  shows "int (length (pad_bytes n)) \<le> n"
proof (cases "n = 0")
  case False
  have "n - 1 = 255 * ((n - 1) div 255) + (n - 1) mod 255" "0 \<le> (n - 1) mod 255" by simp_all
  moreover have "0 \<le> (n - 1) div 255" using False assms by (simp add: pos_imp_zdiv_nonneg_iff)
  ultimately have "(n - 1) div 255 + 1 \<le> n" "0 \<le> (n - 1) div 255" by linarith+
  then show ?thesis using False by (simp add: pad_bytes_def Let_def)
qed (simp add: pad_bytes_def)

lemma opus_long_header_length:
  assumes "opus_long_header toc fs tot0 maxlen pad = oret (hdr, tot)" "fs \<noteq> []"
  shows "int (length hdr) + int (length (concat fs)) \<le> tot - tot0 \<and> tot \<le> maxlen
    \<and> (\<not> pad \<longrightarrow> int (length hdr) + int (length (concat fs)) = tot - tot0) \<and> (pad \<longrightarrow> tot = maxlen)"
proof -
  let ?vbr = "\<exists>f\<in>set (tl fs). frame_len f \<noteq> frame_len (hd fs)"
  define t where "t = tot0 + (if ?vbr then 2 + sum_list (map (\<lambda>f. 1 + size_extra (frame_len f) + frame_len f) (butlast fs))
                         + frame_len (last fs)
             else int (length fs) * frame_len (hd fs) + 2)"
  define sz where "sz = (if ?vbr then concat (map (\<lambda>f. encode_size (frame_len f)) (butlast fs)) else [])"
  define p where "p = (if pad then maxlen - t else 0)"
  have body: "t = tot0 + 2 + int (length sz) + int (length (concat fs))"
  proof (cases ?vbr)
    case True
    have "sum_list (map frame_len fs) = sum_list (map frame_len (butlast fs)) + frame_len (last fs)"
      using assms(2) by (cases fs rule: rev_cases) simp_all
    then show ?thesis
      using True length_concat_sizes [of "butlast fs"] unfolding t_def sz_def length_concat_frames [of fs] by simp
  next
    case False
    then have "sum_list (map frame_len fs) = int (length fs) * frame_len (hd fs)"
      using frames_cbr [OF assms(2)] by (simp add: sum_list_replicate)
    then show ?thesis using False unfolding t_def sz_def length_concat_frames [of fs] by simp
  qed
  have "\<not> t > maxlen" and h: "tot = t + p" "length hdr = 2 + length (pad_bytes p) + length sz"
    using assms(1) unfolding opus_long_header_def Let_def t_def [symmetric] p_def [symmetric] sz_def [symmetric]
    by (auto split: if_splits)
  then have p: "0 \<le> p" "t + p \<le> maxlen" "pad \<longrightarrow> t + p = maxlen" "\<not> pad \<longrightarrow> p = 0"
    by (auto simp: p_def)
  have "int (length (pad_bytes p)) \<le> p" by (rule length_pad_bytes [OF p(1)])
  moreover have "\<not> pad \<longrightarrow> length (pad_bytes p) = 0" using p(4) by (simp add: pad_bytes_def)
  ultimately show ?thesis using h p body by auto
qed

lemma opus_out_range_length:
  assumes "opus_repacketizer_out_range_impl rp first stop maxlen sd pad = oret (out, tot)"
  shows "int (length out) = tot \<and> tot \<le> maxlen \<and> (pad \<longrightarrow> tot = maxlen)"
proof -
  define fs where "fs = take (nat (stop - first)) (drop (nat first) (rp_frames rp))"
  let ?tot0 = "if sd then 1 + size_extra (frame_len (last fs)) else 0"
  let ?sd = "if sd then encode_size (frame_len (last fs)) else []"
  have ok: "\<not> (first < 0 \<or> first \<ge> stop \<or> stop > int (length (rp_frames rp)))"
    using assms by (auto simp: opus_repacketizer_out_range_impl_def split: if_splits)
  then have "nat first < length (rp_frames rp)" "0 < nat (stop - first)" by linarith+
  then have ne: "fs \<noteq> []" unfolding fs_def by simp
  have sd: "int (length ?sd) = ?tot0" by simp
  obtain h t where ht: "opus_short_header (rp_toc rp) fs ?tot0 maxlen = oret (h, t)"
    using assms ok unfolding opus_repacketizer_out_range_impl_def fs_def [symmetric] Let_def
    by (auto simp: obind_oret_iff)
  let ?long = "length fs > 2 \<or> (pad \<and> t < maxlen)"
  have out: "obind (if ?long then opus_long_header (rp_toc rp) fs ?tot0 maxlen pad else oret (h, t)) (\<lambda>(hdr, tot_size).
        let out = hdr @ ?sd @ concat fs
        in oret (out @ (if pad then replicate (nat maxlen - length out) 0 else []), tot_size)) = oret (out, tot)"
    using assms ok ht unfolding opus_repacketizer_out_range_impl_def fs_def [symmetric] Let_def by simp
  show ?thesis
  proof (cases ?long)
    case True
    then obtain hdr where hdr: "opus_long_header (rp_toc rp) fs ?tot0 maxlen pad = oret (hdr, tot)"
      and o: "out = (hdr @ ?sd @ concat fs) @ (if pad then replicate (nat maxlen - length (hdr @ ?sd @ concat fs)) 0 else [])"
      using out by (auto simp: obind_oret_iff Let_def)
    show ?thesis
      using opus_long_header_length [OF hdr ne] sd unfolding o
        by (cases pad) (auto simp del: length_encode_size)
  next
    case False
    have "0 < length fs" using ne by simp
    then have l: "length fs = 1 \<or> length fs = 2" using False by linarith
    have o: "out = (h @ ?sd @ concat fs) @ (if pad then replicate (nat maxlen - length (h @ ?sd @ concat fs)) 0 else [])"
      "tot = t" using False out by (auto simp: Let_def)
    show ?thesis
      using opus_short_header_length [OF ht l] sd False unfolding o
      by (cases pad) (auto simp del: length_encode_size)
  qed
qed

text \<open>
  The repacketizer never writes behind the buffer it is given: when it succeeds, the bytes it
  writes are exactly as many as it returns and at most \<open>maxlen\<close>, and with padding they fill it.
\<close>

lemma opus_repacketizer_bounds:
  assumes "opus_repacketizer_out_range_impl rp first stop maxlen sd pad = oret (out, tot)"
  shows "int (length out) = tot \<and> tot \<le> maxlen \<and> (pad \<longrightarrow> tot = maxlen)"
  using assms by (rule opus_out_range_length)

lemma opus_repacketizer_bounds_witness:
  "\<exists>out tot. opus_repacketizer_out_range_impl \<lparr> rp_toc = 0xF8, rp_frames = [[1, 2], [3], [4, 5]], rp_framesize = 160 \<rparr>
       0 3 20 False True = oret (out, tot) \<and> length out = 20"
proof -
  let ?rp = "\<lparr> rp_toc = 0xF8, rp_frames = [[1, 2], [3], [4, 5]], rp_framesize = 160 \<rparr>"
  have "\<exists>out tot. opus_repacketizer_out_range_impl ?rp 0 3 20 False True = oret (out, tot)"
    by (simp add: opus_repacketizer_out_range_impl_def opus_short_header_def opus_long_header_def Let_def
        frame_len_def size_extra_def)
  then obtain out tot where "opus_repacketizer_out_range_impl ?rp 0 3 20 False True = oret (out, tot)" by blast
  with opus_repacketizer_bounds [OF this] show ?thesis by auto
qed

lemma parsed_frames_concat:
  assumes "op_sizes p = map frame_len fs" "op_payload p = length hdr" "b = hdr @ concat fs @ post"
  shows "parsed_frames b p = fs"
proof (rule nth_equalityI)
  show "length (parsed_frames b p) = length fs"
    using assms by (simp add: parsed_frames_def op_frame_offsets_def op_count_def)
next
  fix i assume "i < length (parsed_frames b p)"
  then have i: "i < length fs" using assms by (simp add: parsed_frames_def op_frame_offsets_def op_count_def)
  have "sum_list (take i (op_sizes p)) = int (length (concat (take i fs)))"
    unfolding assms(1) length_concat_frames by (simp add: take_map)
  then have "parsed_frames b p ! i = slice_of b (length hdr + length (concat (take i fs))) (length (fs ! i))"
    using i assms(1,2) by (simp add: parsed_frames_def op_frame_offsets_def op_count_def frame_len_def nat_int_add)
  moreover have b: "b = (hdr @ concat (take i fs)) @ fs ! i @ (concat (drop (Suc i) fs) @ post)"
    using i id_take_nth_drop [of i fs] unfolding assms(3)
    by (metis append.assoc concat.simps(2) concat_append)
  moreover have "slice_of b (length hdr + length (concat (take i fs))) (length (fs ! i)) = fs ! i"
    using slice_of_append3 [of "hdr @ concat (take i fs)" "fs ! i" "concat (drop (Suc i) fs) @ post"]
    by (subst b) simp
  ultimately show "parsed_frames b p ! i = fs ! i" by simp
qed

lemma toc_code_bits:
  fixes toc :: byte
  assumes "k \<in> {0, 1, 2, 3}"
  shows "(toc AND 0xFC OR k) AND 3 = k" "(toc AND 0xFC OR k) AND 0xFC = toc AND 0xFC"
  using assms by (auto simp: bit.conj_disj_distrib2 and.assoc)

lemma samples_per_frame_code:
  fixes toc :: byte
  assumes "k \<in> {0, 1, 2, 3}"
  shows "opus_packet_get_samples_per_frame (toc AND 0xFC OR k) Fs = opus_packet_get_samples_per_frame toc Fs"
proof -
  have d: "drop_bit 3 x AND 3 = drop_bit 3 (x AND 0x18)" for x :: byte by simp
  have "(toc AND 0xFC OR k) AND m = toc AND m" if "m \<in> {0x80, 0x60, 0x08, 0x18}" for m
    using that assms by (auto simp: bit.conj_disj_distrib2 and.assoc)
  then show ?thesis unfolding opus_packet_get_samples_per_frame_def d by simp
qed

lemma count_byte_bits:
  assumes "0 < n" "n \<le> 48" "v \<in> {0, 0x80}"
  shows "unat ((of_nat n OR v :: byte) AND 0x3F) = n" "(of_nat n OR v :: byte) AND 0x40 = 0"
    "(of_nat n OR v :: byte) AND 0x80 = v"
proof -
  have m: "(of_nat n :: byte) AND 0x3F = of_nat n"
  proof -
    have "(of_nat n :: byte) AND mask 6 = take_bit 6 (of_nat n)" by (simp only: take_bit_eq_mask)
    also have "\<dots> = of_nat (take_bit 6 n)" by (simp add: take_bit_of_nat)
    also have "take_bit 6 n = n" using assms by (simp add: take_bit_nat_eq_self)
    finally show ?thesis by (simp add: mask_eq_exp_minus_1)
  qed
  then have "(of_nat n :: byte) AND x = of_nat n AND (0x3F AND x)" for x
    by (metis and.assoc)
  from this [of "0x40"] this [of "0x80"] have z: "(of_nat n :: byte) AND 0x40 = 0" "(of_nat n :: byte) AND 0x80 = 0"
    by simp_all
  have u: "unat (of_nat n :: byte) = n" using assms by (simp add: unat_of_nat_small)
  show "unat ((of_nat n OR v :: byte) AND 0x3F) = n" "(of_nat n OR v :: byte) AND 0x40 = 0"
    "(of_nat n OR v :: byte) AND 0x80 = v"
    using assms(3) m z u by (auto simp: bit.conj_disj_distrib2)
qed

text \<open>The head of a packet the repacketizer wrote: the parser finds the frame sizes in it.\<close>

definition head_of :: "byte list list \<Rightarrow> byte list \<Rightarrow> opus_head \<Rightarrow> bool" where
  "head_of fs hdr h \<longleftrightarrow> oh_sizes h = map frame_len (butlast fs) \<and> oh_last h = frame_len (last fs)
     \<and> oh_pos h = length hdr \<and> oh_pad h = 0"

lemma parse_with_head:
  assumes "fs \<noteq> []" "\<forall>f\<in>set fs. frame_len f \<le> 1275" "hdr \<noteq> []"
    "opus_parse_head (hdr @ concat fs) (int (length (hdr @ concat fs)) - 1) False (hd hdr) = oret h" "head_of fs hdr h"
  shows "\<exists>p. opus_packet_parse (hdr @ concat fs) (int (length (hdr @ concat fs))) = oret p
    \<and> parsed_frames (hdr @ concat fs) p = fs \<and> op_toc p = hd hdr"
proof -
  let ?b = "hdr @ concat fs"
  have rd: "rd ?b 0 = Inr (hd hdr)" using assms(3) by (simp add: hd_conv_nth nth_append)
  have last: "frame_len (last fs) \<le> 1275" "0 \<le> frame_len (last fs)" using assms(1,2) by simp_all
  have "map frame_len (butlast fs) @ [frame_len (last fs)] = map frame_len fs"
    using assms(1) by (cases fs rule: rev_cases) simp_all
  then have s: "opus_parse_sizes ?b False h = oret (map frame_len fs, length hdr)"
    using assms(5) last by (simp add: opus_parse_sizes_def head_of_def int16_small)
  let ?p = "\<lparr> op_toc = hd hdr, op_sizes = map frame_len fs, op_payload = length hdr,
    op_packet_offset = 0 + (int (length hdr) + sum_list (map frame_len fs)) \<rparr>"
  have "opus_packet_parse ?b (int (length ?b)) = oret ?p"
    using assms(3-5) rd s
    by (simp add: opus_packet_parse_def opus_packet_parse_impl_def head_of_def del: length_append)
  moreover have "parsed_frames ?b ?p = fs" by (rule parsed_frames_concat [of _ _ hdr _ "[]"]) simp_all
  ultimately show ?thesis by auto
qed

lemma parse_short_header:
  assumes "opus_short_header toc fs 0 maxlen = oret (hdr, tot)" "length fs = 1 \<or> length fs = 2"
    "\<forall>f\<in>set fs. frame_len f \<le> 1275"
  shows "hdr \<noteq> [] \<and> (\<exists>h. opus_parse_head (hdr @ concat fs) (int (length (hdr @ concat fs)) - 1) False (hd hdr) = oret h
    \<and> head_of fs hdr h) \<and> hd hdr AND 0xFC = toc AND 0xFC"
proof -
  consider f where "fs = [f]" | f g where "fs = [f, g]" "frame_len g = frame_len f"
    | f g where "fs = [f, g]" "frame_len g \<noteq> frame_len f"
  proof -
    obtain f g where "fs = [f] \<or> fs = [f, g]"
      using assms(2) by (auto simp: length_Suc_conv numeral_2_eq_2)
    then show thesis using that by (cases "frame_len g = frame_len f") auto
  qed
  then show ?thesis
  proof cases
    case 1
    then have "hdr = [toc AND 0xFC OR 0]"
      using assms(1) by (auto simp: opus_short_header_def Let_def split: if_splits)
    then show ?thesis
      using 1 toc_code_bits [of 0 toc] by (simp add: opus_parse_head_def head_of_def frame_len_def del: or.right_neutral)
  next
    case 2
    then have "hdr = [toc AND 0xFC OR 1]"
      using assms(1) by (auto simp: opus_short_header_def Let_def split: if_splits)
    moreover have "length g = length f" using 2 by (simp add: frame_len_def)
    ultimately show ?thesis
      using 2 toc_code_bits [of 1 toc] assms(3)
      by (simp add: opus_parse_head_def head_of_def frame_len_def int16_small)
  next
    case 3
    then have h: "hdr = (toc AND 0xFC OR 2) # encode_size (frame_len f)"
      using assms(1) by (auto simp: opus_short_header_def Let_def split: if_splits)
    have "parse_size (hdr @ concat fs) (length [toc AND 0xFC OR 2]) (int (length (hdr @ concat fs)) - 1) =
        Inr (Some (frame_len f, length (encode_size (frame_len f))))"
      by (rule parse_size_encode [where post = "f @ g"]) (use assms(3) 3 h in \<open>simp_all del: length_encode_size\<close>)
    then show ?thesis
      using 3 toc_code_bits [of 2 toc] h
      by (simp add: opus_parse_head_def head_of_def frame_len_def Let_def del: length_encode_size)
  qed
qed

lemma parse_long_header:
  assumes "opus_long_header toc fs 0 maxlen False = oret (hdr, tot)" "fs \<noteq> []"
    "\<forall>f\<in>set fs. frame_len f \<le> 1275"
    "int (length fs) * opus_packet_get_samples_per_frame toc 48000 \<le> 5760"
  shows "hdr \<noteq> [] \<and> (\<exists>h. opus_parse_head (hdr @ concat fs) (int (length (hdr @ concat fs)) - 1) False (hd hdr) = oret h
    \<and> head_of fs hdr h) \<and> hd hdr AND 0xFC = toc AND 0xFC"
proof -
  let ?vbr = "\<exists>f\<in>set (tl fs). frame_len f \<noteq> frame_len (hd fs)" and ?n = "length fs"
  let ?toc = "toc AND 0xFC OR 3"
  define b1 where "b1 = (of_nat (length fs) :: byte) OR (if ?vbr then 0x80 else 0)"
  let ?sz = "if ?vbr then concat (map (\<lambda>f. encode_size (frame_len f)) (butlast fs)) else []"
  have h: "hdr = [?toc, b1] @ ?sz"
    using assms(1) by (auto simp: b1_def opus_long_header_def Let_def pad_bytes_def split: if_splits)
  let ?b = "hdr @ concat fs"
  have n: "0 < ?n" "?n \<le> 48"
  proof -
    have "int ?n * 120 \<le> int ?n * opus_packet_get_samples_per_frame toc 48000"
      by (rule mult_left_mono [OF samples_per_frame_48k]) simp
    then show "?n \<le> 48" using assms(4) by linarith
  qed (use assms(2) in simp)
  have bits: "unat (b1 AND 0x3F) = ?n" "b1 AND 0x40 = 0" "b1 AND 0x80 = (if ?vbr then 0x80 else 0)"
    using count_byte_bits [OF n, of "if ?vbr then 0x80 else 0"] by (auto simp: b1_def)
  have bits_int: "uint (b1 AND 0x3F) = int ?n" using bits(1) by (metis uint_nat)
  have toc: "?toc AND 3 = 3" "opus_packet_get_samples_per_frame ?toc 48000 = opus_packet_get_samples_per_frame toc 48000"
    using toc_code_bits [of 3 toc] samples_per_frame_code [of 3 toc] by simp_all
  have hdr: "hd hdr = ?toc" by (simp add: h)
  let ?len = "int (length ?b) - 2"
  have rd: "rd ?b 1 = Inr b1" "\<not> int (length ?b) - 1 < 1" by (simp_all add: h)
  have head: "opus_parse_head ?b (int (length ?b) - 1) False (hd hdr) =
      opus_parse_many_sizes ?b (int (length ?b) - 1) False b1 ?n (2, ?len, 0)"
    using toc rd bits bits_int n assms(4)
    by (simp add: opus_parse_head_def Let_def opus_parse_many_def hdr mult.commute del: One_nat_def length_append)
  have last: "concat fs = concat (butlast fs) @ last fs" "map frame_len fs = map frame_len (butlast fs) @ [frame_len (last fs)]"
    using assms(2) by (cases fs rule: rev_cases; simp)+
  have "\<exists>h. opus_parse_many_sizes ?b (int (length ?b) - 1) False b1 ?n (2, ?len, 0) = oret h \<and> head_of fs hdr h"
  proof (cases ?vbr)
    case True
    have len: "?len = int (length ?sz) + sum_list (map frame_len (butlast fs)) + frame_len (last fs)"
      using length_concat_frames [of fs] last(2) by (simp add: h)
    have "opus_vbr_sizes (length (butlast fs)) ?b (length [?toc, b1]) ?len ?len =
        oret (map frame_len (butlast fs), length [?toc, b1] + length ?sz, ?len - int (length ?sz),
              ?len - int (length ?sz) - sum_list (map frame_len (butlast fs)))"
      using opus_vbr_sizes_encode [of "butlast fs" ?b "[?toc, b1]" "concat fs" ?len ?len] assms(3) True len frame_len_simps(1) [of "last fs"]
      by (auto simp: h dest: in_set_butlastD simp del: frame_len_simps)
    then have vb: "opus_vbr_sizes (?n - 1) ?b 2 ?len ?len =
        oret (map frame_len (butlast fs), length hdr, ?len - int (length ?sz), frame_len (last fs))"
      using True len by (simp add: h numeral_2_eq_2)
    have nz: "b1 AND 0x80 \<noteq> 0" using True bits(3) by simp
    have "\<not> frame_len (last fs) < 0" "\<not> ?len < 0" by (simp_all add: h not_less)
    then show ?thesis
      using nz by (simp add: opus_parse_many_sizes_def head_of_def vb del: length_append One_nat_def)
  next
    case False
    have eq: "map frame_len fs = replicate ?n (frame_len (hd fs))" by (rule frames_cbr [OF assms(2) False])
    have "?len = int ?n * frame_len (hd fs)"
      using length_concat_frames [of fs] eq False by (simp add: h sum_list_replicate)
    moreover have "map frame_len (butlast fs) = replicate (?n - 1) (frame_len (hd fs))"
      using eq by (simp add: butlast_conv_take flip: take_map)
    moreover have "frame_len (last fs) = frame_len (hd fs)"
      using arg_cong [OF eq, of last] assms(2) n by (simp add: last_map)
    moreover have "frame_len (hd fs) \<le> 1275" using assms(2,3) by simp
    ultimately show ?thesis
      using False bits(3) n by (auto simp: opus_parse_many_sizes_def head_of_def h int16_small Let_def)
  qed
  moreover have "hdr \<noteq> []" "hd hdr AND 0xFC = toc AND 0xFC"
    using toc_code_bits(2) [of 3 toc] unfolding hdr by (simp_all add: h)
  ultimately show ?thesis unfolding head by blast
qed

text \<open>
  C23: the parser inverts the repacketizer: the packet written for any range of frames, whichever of
  the four framings it takes (one frame, two of equal or different size, many at constant or
  variable rate), parses back into exactly these frames under the same configuration bits.
\<close>

theorem opus_repacketize_parse:
  assumes "opus_repacketizer_out_range rp first stop maxlen = oret (out, tot)"
    and "\<forall>f\<in>set (rp_frames rp). length f \<le> 1275"
    and "(stop - first) * opus_packet_get_samples_per_frame (rp_toc rp) 48000 \<le> 5760"
  shows "\<exists>p. opus_packet_parse out tot = oret p
    \<and> parsed_frames out p = take (nat (stop - first)) (drop (nat first) (rp_frames rp))
    \<and> op_toc p AND 0xFC = rp_toc rp AND 0xFC"
proof -
  define fs where "fs = take (nat (stop - first)) (drop (nat first) (rp_frames rp))"
  have tot: "tot = int (length out)"
    using opus_out_range_length [of rp first stop maxlen False False out tot] assms(1)
    by (simp add: opus_repacketizer_out_range_def)
  have ok: "\<not> (first < 0 \<or> first \<ge> stop \<or> stop > int (length (rp_frames rp)))"
    using assms(1) by (auto simp: opus_repacketizer_out_range_def opus_repacketizer_out_range_impl_def split: if_splits)
  then have "length fs = nat (stop - first)" unfolding fs_def by (simp add: min_def) linarith
  then have ne: "fs \<noteq> []" and n: "int (length fs) = stop - first" using ok by auto
  have small: "\<forall>f\<in>set fs. frame_len f \<le> 1275"
    using assms(2) unfolding fs_def by (auto simp: frame_len_def dest!: in_set_takeD in_set_dropD)
  obtain h t where ht: "opus_short_header (rp_toc rp) fs 0 maxlen = oret (h, t)"
    using assms(1) ok unfolding opus_repacketizer_out_range_def opus_repacketizer_out_range_impl_def
      fs_def [symmetric] Let_def by (auto simp: obind_oret_iff)
  obtain hdr where out: "out = hdr @ concat fs"
    "if length fs > 2 then opus_long_header (rp_toc rp) fs 0 maxlen False = oret (hdr, tot) else hdr = h"
    using assms(1) ok ht unfolding opus_repacketizer_out_range_def opus_repacketizer_out_range_impl_def
      fs_def [symmetric] Let_def by (auto simp: obind_oret_iff split: if_splits)
  have "hdr \<noteq> [] \<and> (\<exists>h. opus_parse_head (hdr @ concat fs) (int (length (hdr @ concat fs)) - 1) False (hd hdr) = oret h
    \<and> head_of fs hdr h) \<and> hd hdr AND 0xFC = rp_toc rp AND 0xFC"
  proof (cases "length fs > 2")
    case True
    then show ?thesis using parse_long_header [OF _ ne small] out(2) assms(3) n by auto
  next
    case False
    moreover have "0 < length fs" using ne by simp
    ultimately have "length fs = 1 \<or> length fs = 2" by linarith
    then show ?thesis using parse_short_header [OF ht _ small] out(2) False by simp
  qed
  then show ?thesis
    using parse_with_head [OF ne small, of hdr] unfolding tot out(1) fs_def [symmetric] by force
qed

theorem opus_repacketize_parse_witness:
  "\<exists>out tot p. opus_repacketizer_out_range \<lparr> rp_toc = 0xF8, rp_frames = [[1, 2], [3], [4, 5]], rp_framesize = 160 \<rparr>
       0 3 20 = oret (out, tot) \<and> opus_packet_parse out tot = oret p \<and> parsed_frames out p = [[1, 2], [3], [4, 5]]"
proof -
  let ?rp = "\<lparr> rp_toc = 0xF8, rp_frames = [[1, 2], [3], [4, 5]], rp_framesize = 160 \<rparr>"
  have "\<exists>out tot. opus_repacketizer_out_range ?rp 0 3 20 = oret (out, tot)"
    by (simp add: opus_repacketizer_out_range_def opus_repacketizer_out_range_impl_def opus_short_header_def
        opus_long_header_def Let_def frame_len_def size_extra_def)
  then obtain out tot where "opus_repacketizer_out_range ?rp 0 3 20 = oret (out, tot)" by blast
  with opus_repacketize_parse [OF this] show ?thesis
    by (fastforce simp: opus_packet_get_samples_per_frame_def)
qed

end
