(* ===== verification/Opus_Enc.thy ===== *)
theory Opus_Enc
  imports Opus_Packet
begin

text \<open>
  The Opus encoder of the codec library: \<open>MediaCodec/jni/opusenc.c\<close> with \<open>opusenc.h\<close>, behind the
  interface of \<open>audioenc.c\<close>. PCM of any length is cut into frames of 20 ms that are queued, encoded
  and recycled. The linked lists are lists of frames that carry the address of their block, so that
  the walks of \<open>opus_enc_destroy\<close> can be checked against the set of live blocks; a division by a
  zero configuration field is a fault. \<open>libopus\<close>'s encoder, the allocator and the float computation
  of the audio level are parameters (\<open>opus_env\<close>). The lemmas show that no sample is lost, doubled
  or reordered between the calls and the encoder.
\<close>

section \<open>Configuration and sample arithmetic\<close>

record audio_enc_config =
  ac_sample_rate :: int
  ac_channels :: int
  ac_bits_per_sample :: int
  ac_bitrate :: int
  ac_enable_audio_level :: int

definition OPUS_SAMPLE_BITS :: int where "OPUS_SAMPLE_BITS = 16"
definition OPUS_MAX_PACKET :: int where "OPUS_MAX_PACKET = 1500"
definition OPUS_PACKET_DURATION :: int where "OPUS_PACKET_DURATION = 20"

definition get_sample_size :: "audio_enc_config \<Rightarrow> int \<Rightarrow> int" where
  "get_sample_size config samples = drop_bit 3 (ac_bits_per_sample config) * samples * ac_channels config"

definition get_sample_count :: "audio_enc_config \<Rightarrow> int \<Rightarrow> int res" where
  "get_sample_count config data_len_in_bytes =
     res_bind (cdiv data_len_in_bytes (drop_bit 3 (ac_bits_per_sample config)))
       (\<lambda>n. cdiv n (ac_channels config))"

definition get_sample_duration :: "audio_enc_config \<Rightarrow> int \<Rightarrow> int res" where
  "get_sample_duration config samples = cdiv (samples * 1000) (ac_sample_rate config)"

definition get_sample_ntp :: "audio_enc_config \<Rightarrow> int \<Rightarrow> int \<Rightarrow> int res" where
  "get_sample_ntp config samples ntp =
     res_bind (get_sample_duration config samples) (\<lambda>d. Inr (ntp + d))"

section \<open>State\<close>

text \<open>
  One queued frame: the block it lives in, the capacity of its sample buffer in bytes, the bytes,
  and the fields of \<open>AudioFrame\<close>.
\<close>

record audio_frame =
  af_addr :: nat
  af_cap :: nat
  af_data :: "byte block"
  af_samples :: int
  af_ntp :: int
  af_opaque :: int

text \<open>
  The encoder context with the configuration of its \<open>audio_enc_context\<close>. \<open>oe_next\<close> numbers the
  allocations, \<open>oe_live\<close> holds the blocks not yet freed.
\<close>

record 'e opus_enc =
  oe_config :: audio_enc_config
  oe_encoder :: "'e option"
  oe_dtx_mode :: int
  oe_frame_samples :: int
  oe_frames :: "audio_frame list"
  oe_free :: "audio_frame list"
  oe_cb_out :: bool
  oe_next :: nat
  oe_live :: "nat set"

record 'e opus_env =
  en_alloc :: "nat \<Rightarrow> bool"
  en_junk :: "nat \<Rightarrow> byte block"
  en_encode :: "'e \<Rightarrow> byte list \<Rightarrow> int \<Rightarrow> 'e \<times> int \<times> byte list"
  en_level :: "byte list \<Rightarrow> int"

text \<open>What the callback receives for one packet.\<close>

record audio_enc_frame_bs =
  bs_data :: "byte list"
  bs_data_len :: int
  bs_samples :: int
  bs_audio_level :: int
  bs_ntp :: int
  bs_opaque :: int

section \<open>The frame queue\<close>

text \<open>
  \<open>get_writable_frame\<close> leaves the frame to write to at the end of the queue; \<open>None\<close> is the null
  return of a failed allocation.
\<close>

definition get_writable_frame :: "'e opus_env \<Rightarrow> 'e opus_enc \<Rightarrow> 'e opus_enc option" where
  "get_writable_frame env s =
     (if oe_frames s \<noteq> [] \<and> af_samples (last (oe_frames s)) < oe_frame_samples s then Some s
      else case oe_free s of
        frame # rest \<Rightarrow>
          Some (s\<lparr> oe_free := rest, oe_frames := oe_frames s @ [frame\<lparr> af_samples := 0, af_ntp := - 1 \<rparr>] \<rparr>)
      | [] \<Rightarrow>
          if en_alloc env (oe_next s) then
            let frame = \<lparr> af_addr = oe_next s,
                          af_cap = nat (get_sample_size (oe_config s) (oe_frame_samples s)),
                          af_data = en_junk env (oe_next s), af_samples = 0, af_ntp = - 1, af_opaque = 0 \<rparr>
            in Some (s\<lparr> oe_frames := oe_frames s @ [frame], oe_next := oe_next s + 1,
                        oe_live := insert (oe_next s) (oe_live s) \<rparr>)
          else None)"

definition release_audio_frame :: "audio_frame \<Rightarrow> 'e opus_enc \<Rightarrow> 'e opus_enc" where
  "release_audio_frame frame s = s\<lparr> oe_free := frame # oe_free s \<rparr>"

text \<open>
  One round of the copy loop, at byte \<open>off\<close> of the input with \<open>left\<close> samples to go: \<open>None\<close> is the
  \<open>break\<close>, else the next offset, count and state.
\<close>

definition write_step ::
    "'e opus_env \<Rightarrow> byte list \<Rightarrow> int \<Rightarrow> int \<Rightarrow> int \<Rightarrow> int \<Rightarrow> int \<Rightarrow> 'e opus_enc
     \<Rightarrow> (int \<times> int \<times> 'e opus_enc) option res" where
  "write_step env audio sample_size first_sample_ntp opaque off left s =
     (case get_writable_frame env s of
        None \<Rightarrow> Inr None
      | Some s \<Rightarrow>
          let frame = last (oe_frames s); remaining = oe_frame_samples s - af_samples frame in
          if remaining > 0 then
            let cpy_samples = (if remaining > left then left else remaining);
                len_in_bytes = cpy_samples * sample_size
            in res_bind (rd_slice audio (nat off) (nat len_in_bytes)) (\<lambda>xs.
               res_bind (blk_write (af_cap frame) (Some (af_data frame)) (nat (af_samples frame * sample_size)) xs) (\<lambda>m.
               res_bind (if af_samples frame = 0 then
                   res_bind (get_sample_count (oe_config s) off) (\<lambda>samples_offset.
                     res_bind (get_sample_ntp (oe_config s) samples_offset first_sample_ntp) (\<lambda>ntp.
                       Inr (frame\<lparr> af_ntp := ntp, af_opaque := opaque \<rparr>)))
                 else Inr frame) (\<lambda>frame.
                 let frame = frame\<lparr> af_data := the m, af_samples := af_samples frame + cpy_samples \<rparr>
                 in Inr (Some (off + len_in_bytes, left - cpy_samples,
                               s\<lparr> oe_frames := butlast (oe_frames s) @ [frame] \<rparr>)))))
          else Inr (Some (off, left, s)))"

partial_function (option) write_loop ::
    "'e opus_env \<Rightarrow> byte list \<Rightarrow> int \<Rightarrow> int \<Rightarrow> int \<Rightarrow> int \<Rightarrow> int \<Rightarrow> 'e opus_enc \<Rightarrow> 'e opus_enc res option" where
  "write_loop env audio sample_size first_sample_ntp opaque off left s =
     (if left > 0 then
        case write_step env audio sample_size first_sample_ntp opaque off left s of
          Inl e \<Rightarrow> Some (Inl e)
        | Inr None \<Rightarrow> Some (Inr s)
        | Inr (Some (off, left, s)) \<Rightarrow> write_loop env audio sample_size first_sample_ntp opaque off left s
      else Some (Inr s))"

definition write_audio_frame ::
    "'e opus_env \<Rightarrow> byte list \<Rightarrow> int \<Rightarrow> int \<Rightarrow> int \<Rightarrow> 'e opus_enc \<Rightarrow> 'e opus_enc res option" where
  "write_audio_frame env audio len ntp_in_ms opaque s =
     (let sample_size = get_sample_size (oe_config s) 1 in
      case (res_bind (cdiv len sample_size) (\<lambda>q.
            res_bind (get_sample_count (oe_config s) (q * sample_size)) (\<lambda>samples_left.
            res_bind (get_sample_duration (oe_config s) samples_left) (\<lambda>d.
              Inr (samples_left, ntp_in_ms - d))))) of
        Inl e \<Rightarrow> Some (Inl e)
      | Inr (samples_left, first_sample_ntp) \<Rightarrow>
          write_loop env audio sample_size first_sample_ntp opaque 0 samples_left s)"

section \<open>Encoding\<close>

definition frame_pcm :: "audio_enc_config \<Rightarrow> audio_frame \<Rightarrow> byte list" where
  "frame_pcm config f = region (af_data f) 0 (nat (get_sample_size config (af_samples f)))"

definition opus_code :: "opus_error \<Rightarrow> int" where
  "opus_code e = (case e of OPUS_BAD_ARG \<Rightarrow> - 1 | OPUS_BUFFER_TOO_SMALL \<Rightarrow> - 2 | OPUS_INVALID_PACKET \<Rightarrow> - 4)"

definition nb_frames_code :: "byte list \<Rightarrow> int \<Rightarrow> int res" where
  "nb_frames_code b n =
     res_bind (opus_packet_get_nb_frames b n) (\<lambda>r. Inr (case r of Inl e \<Rightarrow> opus_code e | Inr k \<Rightarrow> k))"

text \<open>
  One full frame: the call of the encoder, the sample count read from the packet, and the callback.
  The level is computed over \<open>samples_encoded * channels\<close> 16-bit samples of the frame.
\<close>

definition encode_frame ::
    "'e opus_env \<Rightarrow> 'e opus_enc \<Rightarrow> audio_frame \<Rightarrow> ('e \<times> int \<times> audio_enc_frame_bs list) res" where
  "encode_frame env s frame =
     (case oe_encoder s of
        None \<Rightarrow> Inl Null_Deref
      | Some e \<Rightarrow>
          let (e, num_bytes, encoded) = en_encode env e (frame_pcm (oe_config s) frame) (af_samples frame) in
          if num_bytes > 0 then
            res_bind (rd encoded 0) (\<lambda>toc.
            res_bind (nb_frames_code encoded num_bytes) (\<lambda>nb.
              let samples_encoded = opus_packet_get_samples_per_frame toc (ac_sample_rate (oe_config s)) * nb;
                  dtx_mode = (if num_bytes \<le> 2 then 1 else oe_dtx_mode s)
              in if num_bytes \<le> OPUS_MAX_PACKET \<and> oe_cb_out s then
                   if int (af_cap frame) < 2 * (samples_encoded * ac_channels (oe_config s)) then Inl Oob_Read
                   else
                     let level = en_level env (region (af_data frame) 0 (nat (2 * (samples_encoded * ac_channels (oe_config s)))))
                     in Inr (e, dtx_mode,
                          [\<lparr> bs_data = take (nat num_bytes) encoded, bs_data_len = num_bytes,
                             bs_samples = samples_encoded, bs_audio_level = level,
                             bs_ntp = af_ntp frame, bs_opaque = af_opaque frame \<rparr>])
                 else Inr (e, dtx_mode, [])))
          else Inr (e, oe_dtx_mode s, []))"

function encode_loop ::
    "'e opus_env \<Rightarrow> 'e opus_enc \<Rightarrow> ('e opus_enc \<times> audio_enc_frame_bs list) res" where
  "encode_loop env s =
     (case oe_frames s of
        [] \<Rightarrow> Inr (s, [])
      | frame # rest \<Rightarrow>
          if af_samples frame = oe_frame_samples s then
            res_bind (encode_frame env s frame) (\<lambda>(e, dtx, out).
              let s = release_audio_frame frame (s\<lparr> oe_encoder := Some e, oe_dtx_mode := dtx, oe_frames := rest \<rparr>)
              in res_bind (encode_loop env (s\<lparr> oe_dtx_mode := 0 \<rparr>)) (\<lambda>(s, outs). Inr (s, out @ outs)))
          else Inr (s, []))"
  by pat_completeness auto
termination
  by (relation "measure (\<lambda>(env, s). length (oe_frames s))") (auto simp: release_audio_frame_def)

declare encode_loop.simps [simp del]

text \<open>\<open>data\<close> is \<open>None\<close> for a null pointer; the result is the return value with the packets sent.\<close>

definition opus_enc_encode ::
    "'e opus_env \<Rightarrow> byte list option \<Rightarrow> int \<Rightarrow> int \<Rightarrow> int \<Rightarrow> 'e opus_enc
     \<Rightarrow> (int \<times> 'e opus_enc \<times> audio_enc_frame_bs list) res option" where
  "opus_enc_encode env data data_len_in_bytes ntp_in_ms opaque s =
     (case data of
        None \<Rightarrow> Some (Inr (- 1, s, []))
      | Some audio \<Rightarrow>
          if \<not> data_len_in_bytes > 0 then Some (Inr (- 1, s, []))
          else
            case write_audio_frame env audio data_len_in_bytes ntp_in_ms opaque s of
              None \<Rightarrow> None
            | Some r \<Rightarrow> Some (res_bind r (\<lambda>s. res_bind (encode_loop env s) (\<lambda>(s, outs). Inr (0, s, outs)))))"

section \<open>Life cycle\<close>

text \<open>
  An \<open>audio_enc_context\<close>: its private context, which a failed \<open>opus_enc_init\<close> has already freed, the
  log callback and whether the context itself is live.
\<close>

record 'e audio_enc =
  ae_priv :: "'e opus_enc"
  ae_priv_live :: bool
  ae_cb_log :: bool

definition opus_enc_zero :: "'e opus_enc" where
  "opus_enc_zero =
     \<lparr> oe_config = \<lparr> ac_sample_rate = 0, ac_channels = 0, ac_bits_per_sample = 0, ac_bitrate = 0,
                     ac_enable_audio_level = 0 \<rparr>,
       oe_encoder = None, oe_dtx_mode = 0, oe_frame_samples = 0, oe_frames = [], oe_free = [],
       oe_cb_out = False, oe_next = 0, oe_live = {} \<rparr>"

text \<open>
  \<open>create_audio_encoder\<close> with \<open>opus_enc_create\<close>: the codec is OPUS (value 1); the first allocation is
  used unchecked, a failed second one leaks the first and returns null.
\<close>

definition create_audio_encoder :: "int \<Rightarrow> bool \<Rightarrow> bool \<Rightarrow> 'e audio_enc option res" where
  "create_audio_encoder codec ctx_ok priv_ok =
     (if codec \<noteq> 1 then Inr None
      else if \<not> ctx_ok then Inl Null_Deref
      else if \<not> priv_ok then Inr None
      else Inr (Some \<lparr> ae_priv = opus_enc_zero, ae_priv_live = True, ae_cb_log = False \<rparr>))"

definition free_audio_frame :: "audio_frame \<Rightarrow> nat set \<Rightarrow> nat set res" where
  "free_audio_frame frame live = (if af_addr frame \<in> live then Inr (live - {af_addr frame}) else Inl Double_Free)"

text \<open>Reading \<open>frame->next\<close> needs a live frame.\<close>

definition read_next :: "audio_frame \<Rightarrow> nat set \<Rightarrow> unit res" where
  "read_next frame live = (if af_addr frame \<in> live then Inr () else Inl Use_After_Free)"

fun free_frames :: "audio_frame list \<Rightarrow> nat set \<Rightarrow> nat set res" where
  "free_frames [] live = Inr live"
| "free_frames (frame # rest) live =
     res_bind (free_audio_frame frame live) (\<lambda>live.
       res_bind (read_next frame live) (\<lambda>_. free_frames rest live))"

definition opus_enc_destroy :: "'e audio_enc \<Rightarrow> 'e audio_enc res" where
  "opus_enc_destroy ctx =
     (if \<not> ae_priv_live ctx then Inl Use_After_Free
      else
        let s = ae_priv ctx in
        res_bind (free_frames (oe_frames s) (oe_live s)) (\<lambda>live.
        res_bind (free_frames (oe_free s) live) (\<lambda>live.
          Inr (ctx\<lparr> ae_priv := s\<lparr> oe_live := live \<rparr>, ae_priv_live := False \<rparr>))))"

definition opus_config_ok :: "audio_enc_config \<Rightarrow> bool" where
  "opus_config_ok c \<longleftrightarrow> ac_bits_per_sample c = OPUS_SAMPLE_BITS \<and> (ac_channels c = 1 \<or> ac_channels c = 2)
     \<and> ac_sample_rate c \<in> {8000, 12000, 16000, 24000, 48000}"

text \<open>\<open>encoder\<close> is what \<open>opus_encoder_create\<close> returns.\<close>

definition opus_enc_init :: "'e option \<Rightarrow> audio_enc_config \<Rightarrow> 'e audio_enc \<Rightarrow> (int \<times> 'e audio_enc) res" where
  "opus_enc_init encoder config ctx =
     (if \<not> ae_priv_live ctx then Inl Use_After_Free
      else if \<not> opus_config_ok config then Inr (- 1, ctx)
      else
        let s = (ae_priv ctx)\<lparr> oe_encoder := encoder \<rparr> in
        case encoder of
          None \<Rightarrow> res_bind (opus_enc_destroy (ctx\<lparr> ae_priv := s \<rparr>)) (\<lambda>ctx. Inr (- 1, ctx))
        | Some _ \<Rightarrow>
            Inr (0, ctx\<lparr> ae_priv := s\<lparr> oe_dtx_mode := 0,
                      oe_frame_samples := ac_sample_rate config div 1000 * OPUS_PACKET_DURATION,
                      oe_frames := [], oe_free := [], oe_config := config \<rparr> \<rparr>))"

definition opus_enc_update_bitrate :: "('e \<Rightarrow> int \<Rightarrow> 'e \<times> int) \<Rightarrow> int \<Rightarrow> 'e audio_enc \<Rightarrow> (int \<times> 'e audio_enc) res" where
  "opus_enc_update_bitrate ctl bitrate_in_kbps ctx =
     (if \<not> ae_priv_live ctx then Inl Use_After_Free
      else case oe_encoder (ae_priv ctx) of
        None \<Rightarrow> Inl Null_Deref
      | Some e \<Rightarrow>
          let (e, ret) = ctl e (bitrate_in_kbps * 1000)
          in Inr (ret, ctx\<lparr> ae_priv := (ae_priv ctx)\<lparr> oe_encoder := Some e \<rparr> \<rparr>))"

text \<open>The interface functions of \<open>audioenc.c\<close>: a null context is refused, else the call goes through.\<close>

definition audio_enc_init :: "'e option \<Rightarrow> audio_enc_config \<Rightarrow> 'e audio_enc option \<Rightarrow> (int \<times> 'e audio_enc option) res" where
  "audio_enc_init encoder config ctx =
     (case ctx of
        None \<Rightarrow> Inr (- 1, None)
      | Some c \<Rightarrow> res_bind (opus_enc_init encoder config c) (\<lambda>(r, c). Inr (r, Some c)))"

definition audio_enc_encode ::
    "'e opus_env \<Rightarrow> byte list option \<Rightarrow> int \<Rightarrow> int \<Rightarrow> int \<Rightarrow> 'e audio_enc option
     \<Rightarrow> (int \<times> 'e audio_enc option \<times> audio_enc_frame_bs list) res option" where
  "audio_enc_encode env data len ntp_in_ms opaque ctx =
     (case ctx of
        None \<Rightarrow> Some (Inr (- 1, None, []))
      | Some c \<Rightarrow>
          if \<not> ae_priv_live c then Some (Inl Use_After_Free)
          else
            case opus_enc_encode env data len ntp_in_ms opaque (ae_priv c) of
              None \<Rightarrow> None
            | Some r \<Rightarrow> Some (res_bind r (\<lambda>(ret, s, outs). Inr (ret, Some (c\<lparr> ae_priv := s \<rparr>), outs))))"

definition audio_enc_set_cb_frame :: "bool \<Rightarrow> 'e audio_enc option \<Rightarrow> 'e audio_enc option" where
  "audio_enc_set_cb_frame cb ctx = map_option (\<lambda>c. c\<lparr> ae_priv := (ae_priv c)\<lparr> oe_cb_out := cb \<rparr> \<rparr>) ctx"

definition audio_enc_set_cb_log :: "bool \<Rightarrow> 'e audio_enc option \<Rightarrow> 'e audio_enc option" where
  "audio_enc_set_cb_log cb ctx = map_option (\<lambda>c. c\<lparr> ae_cb_log := cb \<rparr>) ctx"

definition audio_enc_set_bitrate ::
    "('e \<Rightarrow> int \<Rightarrow> 'e \<times> int) \<Rightarrow> int \<Rightarrow> 'e audio_enc option \<Rightarrow> (int \<times> 'e audio_enc option) res" where
  "audio_enc_set_bitrate ctl bitrate_in_kbps ctx =
     (case ctx of
        None \<Rightarrow> Inr (- 1, None)
      | Some c \<Rightarrow> res_bind (opus_enc_update_bitrate ctl bitrate_in_kbps c) (\<lambda>(r, c). Inr (r, Some c)))"

definition audio_enc_destroy :: "'e audio_enc option \<Rightarrow> unit res" where
  "audio_enc_destroy ctx =
     (case ctx of None \<Rightarrow> Inr () | Some c \<Rightarrow> res_bind (opus_enc_destroy c) (\<lambda>_. Inr ()))"

section \<open>The queue invariant\<close>

definition frame_bytes :: "'e opus_enc \<Rightarrow> nat" where
  "frame_bytes s = nat (get_sample_size (oe_config s) (oe_frame_samples s))"

text \<open>
  A configured encoder: every buffer holds one frame, only the last frame of the queue may be
  partly filled.
\<close>

definition oe_wf :: "'e opus_enc \<Rightarrow> bool" where
  "oe_wf s \<longleftrightarrow> opus_config_ok (oe_config s)
     \<and> oe_frame_samples s = ac_sample_rate (oe_config s) div 1000 * OPUS_PACKET_DURATION
     \<and> (\<forall>f\<in>set (oe_frames s) \<union> set (oe_free s). af_cap f = frame_bytes s)
     \<and> (\<forall>f\<in>set (oe_frames s). 0 \<le> af_samples f \<and> af_samples f \<le> oe_frame_samples s)
     \<and> (\<forall>f\<in>set (butlast (oe_frames s)). af_samples f = oe_frame_samples s)
     \<and> oe_encoder s \<noteq> None"

text \<open>The PCM bytes waiting in the queue, in order, and the fields a write leaves alone.\<close>

definition contents :: "'e opus_enc \<Rightarrow> byte list" where
  "contents s = concat (map (frame_pcm (oe_config s)) (oe_frames s))"

definition same_setup :: "'e opus_enc \<Rightarrow> 'e opus_enc \<Rightarrow> bool" where
  "same_setup s s' \<longleftrightarrow> oe_config s' = oe_config s \<and> oe_frame_samples s' = oe_frame_samples s
     \<and> oe_encoder s' = oe_encoder s \<and> oe_cb_out s' = oe_cb_out s"

lemma same_setup_refl [simp]: "same_setup s s"
  by (simp add: same_setup_def)

lemma same_setup_trans: "same_setup s s1 \<Longrightarrow> same_setup s1 s2 \<Longrightarrow> same_setup s s2"
  by (simp add: same_setup_def)

lemma config_facts:
  assumes "opus_config_ok c"
  shows "get_sample_size c n = n * get_sample_size c 1" "0 < get_sample_size c 1" "0 < ac_sample_rate c"
    "drop_bit 3 (ac_bits_per_sample c) = 2" "0 < ac_channels c" "get_sample_size c 1 = 2 * ac_channels c"
  using assms by (auto simp: opus_config_ok_def get_sample_size_def OPUS_SAMPLE_BITS_def)

lemma oe_wf_facts:
  assumes "oe_wf s"
  shows "opus_config_ok (oe_config s)" "0 < oe_frame_samples s"
    "frame_bytes s = nat (oe_frame_samples s * get_sample_size (oe_config s) 1)"
  using assms config_facts(1) [of "oe_config s" "oe_frame_samples s"]
  by (auto simp: oe_wf_def frame_bytes_def opus_config_ok_def OPUS_PACKET_DURATION_def)

lemma get_writable_frame_ok:
  assumes wf: "oe_wf s" and alloc: "\<And>n. en_alloc env n"
  obtains s1 where "get_writable_frame env s = Some s1" "oe_wf s1" "oe_frames s1 \<noteq> []"
    "af_samples (last (oe_frames s1)) < oe_frame_samples s1" "contents s1 = contents s" "same_setup s s1"
proof (cases "oe_frames s \<noteq> [] \<and> af_samples (last (oe_frames s)) < oe_frame_samples s")
  case True
  then show thesis using that [of s] wf by (simp add: get_writable_frame_def)
next
  case False
  have full: "\<forall>f\<in>set (oe_frames s). af_samples f = oe_frame_samples s"
  proof (cases "oe_frames s" rule: rev_cases)
    case (snoc fs f)
    then have "af_samples f = oe_frame_samples s" using False wf by (auto simp: oe_wf_def)
    then show ?thesis using snoc wf by (auto simp: oe_wf_def)
  qed simp
  have empty: "frame_pcm c (f\<lparr> af_samples := 0, af_ntp := k \<rparr>) = []" for c f k
    by (simp add: frame_pcm_def get_sample_size_def)
  note pos = oe_wf_facts(2) [OF wf]
  show thesis
  proof (cases "oe_free s")
    case (Cons f fs)
    let ?s1 = "s\<lparr> oe_free := fs, oe_frames := oe_frames s @ [f\<lparr> af_samples := 0, af_ntp := - 1 \<rparr>] \<rparr>"
    have g: "get_writable_frame env s = Some ?s1" using False Cons by (auto simp: get_writable_frame_def)
    have "oe_wf ?s1" using wf full Cons pos by (auto simp: oe_wf_def frame_bytes_def)
    then show thesis using that [OF g] pos empty by (simp add: contents_def same_setup_def)
  next
    case Nil
    let ?f = "\<lparr> af_addr = oe_next s, af_cap = nat (get_sample_size (oe_config s) (oe_frame_samples s)),
                          af_data = en_junk env (oe_next s), af_samples = 0, af_ntp = - 1, af_opaque = 0 \<rparr>"
    let ?s1 = "s\<lparr> oe_frames := oe_frames s @ [?f], oe_next := oe_next s + 1,
                        oe_live := insert (oe_next s) (oe_live s) \<rparr>"
    have g: "get_writable_frame env s = Some ?s1"
      using False Nil alloc by (auto simp: get_writable_frame_def Let_def)
    have "oe_wf ?s1" using wf full Nil pos by (auto simp: oe_wf_def frame_bytes_def)
    then show thesis using that [OF g] pos
      by (simp add: contents_def same_setup_def frame_pcm_def get_sample_size_def)
  qed
qed

lemma frame_pcm_append:
  assumes "0 < ss" "0 \<le> n" "0 \<le> k" "length xs = nat (k * ss)" "\<And>m. get_sample_size c m = m * ss"
  shows "frame_pcm c (f\<lparr> af_data := blit (af_data f) (nat (n * ss)) xs, af_samples := n + k \<rparr>) =
    region (af_data f) 0 (nat (n * ss)) @ xs"
proof -
  have "nat ((n + k) * ss) = nat (n * ss) + length xs"
    using assms by (simp add: distrib_right nat_add_distrib)
  then show ?thesis by (simp add: frame_pcm_def assms(5) mem_simps)
qed

lemma write_step_ok:
  assumes wf: "oe_wf s" and alloc: "\<And>n. en_alloc env n" and left: "0 < left" "0 \<le> off"
    and len: "nat (off + left * get_sample_size (oe_config s) 1) \<le> length audio"
    and ss: "ss = get_sample_size (oe_config s) 1"
  obtains k s' where "0 < k" "k \<le> left"
    "write_step env audio ss ntp opaque off left s = Inr (Some (off + k * ss, left - k, s'))"
    "oe_wf s'" "contents s' = contents s @ slice_of audio (nat off) (nat (k * ss))" "same_setup s s'"
proof -
  obtain s1 where s1: "get_writable_frame env s = Some s1" "oe_wf s1" "oe_frames s1 \<noteq> []"
    "af_samples (last (oe_frames s1)) < oe_frame_samples s1" "contents s1 = contents s" "same_setup s s1"
    by (rule get_writable_frame_ok [OF wf alloc])
  obtain fs f where fs: "oe_frames s1 = fs @ [f]" using s1(3) by (cases "oe_frames s1" rule: rev_cases) auto
  define c where "c = oe_config s1"
  have c: "c = oe_config s" "opus_config_ok c" using s1(2,6) by (auto simp: c_def same_setup_def oe_wf_def)
  note cf = config_facts [OF c(2)]
  have size: "get_sample_size c m = m * ss" for m using cf(1) [of m] ss c(1) by simp
  have sspos: "0 < ss" using cf(2) c(1) ss by simp
  have f: "0 \<le> af_samples f" "af_samples f < oe_frame_samples s1" "af_cap f = nat (oe_frame_samples s1 * ss)"
    using s1(2,4) fs oe_wf_facts(3) [OF s1(2)] ss c(1) by (auto simp: oe_wf_def c_def)
  define k where "k = min left (oe_frame_samples s1 - af_samples f)"
  have k: "0 < k" "k \<le> left" "af_samples f + k \<le> oe_frame_samples s1" using f left by (auto simp: k_def)
  have kss: "0 \<le> k * ss" "k * ss \<le> left * ss" using k sspos by (auto simp: mult_right_mono)
  have slice: "rd_slice audio (nat off) (nat (k * ss)) = Inr (slice_of audio (nat off) (nat (k * ss)))"
    and xs: "length (slice_of audio (nat off) (nat (k * ss))) = nat (k * ss)"
    using len kss left(2) ss by (auto intro!: rd_slice_in length_slice_of)
  let ?xs = "slice_of audio (nat off) (nat (k * ss))"
  have "af_samples f * ss + k * ss \<le> oe_frame_samples s1 * ss"
    using k(3) sspos by (simp flip: distrib_right)
  then have "nat (af_samples f * ss) + length ?xs \<le> af_cap f"
    unfolding xs f(3) using f(1) sspos kss by (simp flip: nat_add_distrib)
  then have wr: "blk_write (af_cap f) (Some (af_data f)) (nat (af_samples f * ss)) ?xs =
      Inr (Some (blit (af_data f) (nat (af_samples f * ss)) ?xs))" by simp
  obtain nt where nt: "res_bind (get_sample_count c off) (\<lambda>o'. res_bind (get_sample_ntp c o' ntp) (\<lambda>ntp.
        Inr (f\<lparr> af_ntp := ntp, af_opaque := opaque \<rparr>))) = Inr (f\<lparr> af_ntp := nt, af_opaque := opaque \<rparr>)"
    using cf left(2) by (simp add: get_sample_count_def get_sample_ntp_def get_sample_duration_def
        pos_imp_zdiv_nonneg_iff)
  define g where "g = (if af_samples f = 0 then f\<lparr> af_ntp := nt, af_opaque := opaque \<rparr> else f)"
  have g: "af_samples g = af_samples f" "af_cap g = af_cap f" "af_data g = af_data f" by (simp_all add: g_def)
  let ?g = "g\<lparr> af_data := blit (af_data f) (nat (af_samples f * ss)) ?xs, af_samples := af_samples f + k \<rparr>"
  let ?s' = "s1\<lparr> oe_frames := fs @ [?g] \<rparr>"
  have cpy: "(if oe_frame_samples s1 - af_samples f > left then left else oe_frame_samples s1 - af_samples f) = k"
    by (simp add: k_def min_def)
  have stamp: "(if af_samples f = 0 then
        res_bind (get_sample_count c off) (\<lambda>o'. res_bind (get_sample_ntp c o' ntp) (\<lambda>ntp.
          Inr (f\<lparr> af_ntp := ntp, af_opaque := opaque \<rparr>))) else Inr f) = Inr g"
    using nt by (simp add: g_def)
  have "write_step env audio ss ntp opaque off left s = Inr (Some (off + k * ss, left - k, ?s'))"
    unfolding write_step_def s1(1) Let_def option.case fs last_snoc cpy slice res_bind_simps wr
      c_def [symmetric] stamp using f(2) g by (simp add: fs)
  moreover have "oe_wf ?s'" using s1(2) f(1) k g by (auto simp: oe_wf_def fs frame_bytes_def)
  moreover have "contents ?s' = contents s @ ?xs"
  proof -
    have "frame_pcm c ?g = frame_pcm c f @ ?xs"
      using frame_pcm_append [of ss "af_samples f" k ?xs c g] sspos f(1) k(1) xs size
      by (simp add: g frame_pcm_def)
    then show ?thesis using s1(5) by (simp add: contents_def fs c_def)
  qed
  moreover have "same_setup s ?s'" using s1(6) by (simp add: same_setup_def)
  ultimately show thesis using that k by blast
qed

text \<open>The copy loop ends, and appends exactly the samples it is given.\<close>

lemma write_loop_ok:
  assumes "oe_wf s" "\<And>n. en_alloc env n" "0 \<le> left" "0 \<le> off"
    "nat (off + left * get_sample_size (oe_config s) 1) \<le> length audio" "ss = get_sample_size (oe_config s) 1"
  shows "\<exists>s'. write_loop env audio ss ntp opaque off left s = Some (Inr s') \<and> oe_wf s'
    \<and> contents s' = contents s @ slice_of audio (nat off) (nat (left * ss)) \<and> same_setup s s'"
  using assms(1,3-6)
proof (induction "nat left" arbitrary: left off s rule: less_induct)
  case less
  show ?case
  proof (cases "0 < left")
    case False
    then have "left = 0" using less.prems(2) by simp
    then show ?thesis using less.prems(1) by (subst write_loop.simps) (simp add: slice_of_def)
  next
    case True
    obtain k s1 where k: "0 < k" "k \<le> left"
      "write_step env audio ss ntp opaque off left s = Inr (Some (off + k * ss, left - k, s1))"
      "oe_wf s1" "contents s1 = contents s @ slice_of audio (nat off) (nat (k * ss))" "same_setup s s1"
      by (rule write_step_ok [OF less.prems(1) assms(2) True less.prems(3,4,5)])
    have ss: "0 < ss" using config_facts(2) less.prems(1,5) by (auto simp: oe_wf_def)
    have cfg: "oe_config s1 = oe_config s" using k(6) by (simp add: same_setup_def)
    have add: "off + k * ss + (left - k) * ss = off + left * ss" by (simp add: left_diff_distrib)
    have "nat (left - k) < nat left" "0 \<le> left - k" "0 \<le> off + k * ss"
      using k(1,2) less.prems(3) ss by auto
    then obtain s2 where s2: "write_loop env audio ss ntp opaque (off + k * ss) (left - k) s1 = Some (Inr s2)"
      "oe_wf s2" "contents s2 = contents s1 @ slice_of audio (nat (off + k * ss)) (nat ((left - k) * ss))"
      "same_setup s1 s2"
      using less.hyps [OF _ k(4), of "left - k" "off + k * ss"] less.prems(4,5)
      unfolding cfg by (metis add)
    have n: "nat (left * ss) = nat (k * ss) + nat ((left - k) * ss)" "nat (off + k * ss) = nat off + nat (k * ss)"
      using k(1,2) ss less.prems(3) by (simp_all add: left_diff_distrib flip: nat_add_distrib)
    have "slice_of audio (nat off) (nat (k * ss)) @ slice_of audio (nat (off + k * ss)) (nat ((left - k) * ss)) =
        slice_of audio (nat off) (nat (left * ss))"
      unfolding n by (simp add: slice_of_def take_add add.commute)
    then show ?thesis
      using s2 k True same_setup_trans [OF k(6) s2(4)]
      by (subst write_loop.simps) simp
  qed
qed

lemma write_audio_frame_ok:
  assumes "oe_wf s" "\<And>n. en_alloc env n" "0 < len" "nat len \<le> length audio"
    "ss = get_sample_size (oe_config s) 1"
  shows "\<exists>s'. write_audio_frame env audio len ntp opaque s = Some (Inr s') \<and> oe_wf s' \<and> same_setup s s'
    \<and> contents s' = contents s @ take (nat (len div ss * ss)) audio"
proof -
  note cf = config_facts [OF oe_wf_facts(1) [OF assms(1)]]
  have ss: "0 < ss" "ss = 2 * ac_channels (oe_config s)" using cf(2,6) assms(5) by simp_all
  have q: "0 \<le> len div ss" using assms(3) ss(1) by (simp add: pos_imp_zdiv_nonneg_iff)
  have le: "len div ss * ss \<le> len"
    using pos_mod_sign [of ss len] ss(1) by (simp add: minus_mod_eq_div_mult [symmetric])
  have cnt: "get_sample_count (oe_config s) (len div ss * ss) = Inr (len div ss)"
  proof -
    have "len div ss * ss div 2 = len div ss * ac_channels (oe_config s)" by (simp add: ss(2))
    then show ?thesis using cf(4,5) q ss(1) by (simp add: get_sample_count_def)
  qed
  obtain d where d: "get_sample_duration (oe_config s) (len div ss) = Inr d"
    using cf(3) q by (simp add: get_sample_duration_def)
  have "nat (0 + len div ss * get_sample_size (oe_config s) 1) \<le> length audio"
    using le assms(4,5) by (simp add: nat_le_iff)
  then obtain s' where s': "write_loop env audio ss (ntp - d) opaque 0 (len div ss) s = Some (Inr s')" "oe_wf s'"
    "contents s' = contents s @ slice_of audio (nat 0) (nat (len div ss * ss))" "same_setup s s'"
    using write_loop_ok [OF assms(1,2) q order_refl _ assms(5)] by blast
  have "write_audio_frame env audio len ntp opaque s = Some (Inr s')"
    using s'(1) cnt d ss(1) assms(3) by (simp add: write_audio_frame_def Let_def flip: assms(5))
  then show ?thesis using s' by (simp add: slice_of_def)
qed

text \<open>
  What \<open>opus_encode\<close> documents: at most the given number of bytes, and a packet (when it returns
  one) that stands for exactly the samples of the frame.
\<close>

definition encoder_documented :: "'e opus_env \<Rightarrow> 'e opus_enc \<Rightarrow> bool" where
  "encoder_documented env s \<longleftrightarrow> (\<forall>e pcm e' n b. en_encode env e pcm (oe_frame_samples s) = (e', n, b) \<longrightarrow>
     n \<le> OPUS_MAX_PACKET \<and> (0 < n \<longrightarrow> int (length b) = n \<and>
       (\<exists>nb. opus_packet_get_nb_frames b n = oret nb \<and>
         opus_packet_get_samples_per_frame (b ! 0) (ac_sample_rate (oe_config s)) * nb = oe_frame_samples s)))"

text \<open>The encoder run over a list of PCM frames: its final state and the packets.\<close>

fun run_encoder :: "'e opus_env \<Rightarrow> int \<Rightarrow> 'e \<Rightarrow> byte list list \<Rightarrow> 'e \<times> byte list list" where
  "run_encoder env n e [] = (e, [])"
| "run_encoder env n e (pcm # pcms) =
     (let (e, k, b) = en_encode env e pcm n; (e, bs) = run_encoder env n e pcms
      in (e, (if 0 < k then [b] else []) @ bs))"

lemma encode_frame_ok:
  assumes wf: "oe_wf s" and doc: "encoder_documented env s" and f: "f \<in> set (oe_frames s)" "af_samples f = oe_frame_samples s"
    and e: "oe_encoder s = Some e" "en_encode env e (frame_pcm (oe_config s) f) (oe_frame_samples s) = (e', n, b)"
  shows "\<exists>dtx outs. encode_frame env s f = Inr (e', dtx, outs)
    \<and> map bs_data outs = (if 0 < n \<and> oe_cb_out s then [b] else [])
    \<and> (\<forall>out\<in>set outs. bs_samples out = oe_frame_samples s \<and> bs_ntp out = af_ntp f \<and> bs_opaque out = af_opaque f)"
proof (cases "0 < n")
  case False
  then show ?thesis using e f(2) by (simp add: encode_frame_def)
next
  case True
  obtain nb where d: "n \<le> OPUS_MAX_PACKET" "int (length b) = n" "opus_packet_get_nb_frames b n = oret nb"
    "opus_packet_get_samples_per_frame (b ! 0) (ac_sample_rate (oe_config s)) * nb = oe_frame_samples s"
    using doc e(2) True unfolding encoder_documented_def by blast
  have b: "rd b 0 = Inr (b ! 0)" "nat n = length b" using d(2) True by (auto intro!: rd_in)
  have nb: "nb_frames_code b n = Inr nb" using d(3) by (simp add: nb_frames_code_def)
  have "af_cap f = frame_bytes s" using wf f(1) by (auto simp: oe_wf_def)
  then have cap: "int (af_cap f) = 2 * (oe_frame_samples s * ac_channels (oe_config s))"
    using oe_wf_facts(2,3) [OF wf] config_facts(5,6) [OF oe_wf_facts(1) [OF wf]] by simp
  show ?thesis
    using True e f(2) b nb d cap by (simp add: encode_frame_def Let_def)
qed

lemma encode_loop_ok:
  assumes "oe_wf s" "encoder_documented env s" "oe_encoder s = Some e"
    "oe_frames s = fulls @ rest" "\<forall>f\<in>set fulls. af_samples f = oe_frame_samples s"
    "rest \<noteq> [] \<longrightarrow> af_samples (hd rest) \<noteq> oe_frame_samples s"
  shows "\<exists>s' outs e' bs. encode_loop env s = Inr (s', outs)
    \<and> run_encoder env (oe_frame_samples s) e (map (frame_pcm (oe_config s)) fulls) = (e', bs)
    \<and> oe_wf s' \<and> oe_frames s' = rest \<and> oe_encoder s' = Some e' \<and> oe_config s' = oe_config s
    \<and> oe_frame_samples s' = oe_frame_samples s \<and> oe_cb_out s' = oe_cb_out s
    \<and> map bs_data outs = (if oe_cb_out s then bs else []) \<and> (\<forall>out\<in>set outs. bs_samples out = oe_frame_samples s)"
  using assms
proof (induction fulls arbitrary: s e)
  case Nil
  then show ?case
    by (subst encode_loop.simps) (auto split: list.split)
next
  case (Cons f fulls)
  obtain e1 n b where enc: "en_encode env e (frame_pcm (oe_config s) f) (oe_frame_samples s) = (e1, n, b)"
    by (cases "en_encode env e (frame_pcm (oe_config s) f) (oe_frame_samples s)") auto
  have f: "f \<in> set (oe_frames s)" "af_samples f = oe_frame_samples s" using Cons.prems by auto
  obtain dtx outs1 where o: "encode_frame env s f = Inr (e1, dtx, outs1)"
    "map bs_data outs1 = (if 0 < n \<and> oe_cb_out s then [b] else [])"
    "\<forall>out\<in>set outs1. bs_samples out = oe_frame_samples s \<and> bs_ntp out = af_ntp f \<and> bs_opaque out = af_opaque f"
    using encode_frame_ok [OF Cons.prems(1,2) f Cons.prems(3) enc] by blast
  define s1 where "s1 = s\<lparr> oe_encoder := Some e1, oe_frames := fulls @ rest, oe_free := f # oe_free s, oe_dtx_mode := 0 \<rparr>"
  have wf1: "oe_wf s1"
    using Cons.prems(1,4) unfolding oe_wf_def s1_def frame_bytes_def
    by (auto simp: butlast_append split: if_splits)
  have doc1: "encoder_documented env s1" using Cons.prems(2) by (simp add: encoder_documented_def s1_def)
  obtain s' outs e' bs where IH: "encode_loop env s1 = Inr (s', outs)"
    "run_encoder env (oe_frame_samples s1) e1 (map (frame_pcm (oe_config s1)) fulls) = (e', bs)"
    "oe_wf s'" "oe_frames s' = rest" "oe_encoder s' = Some e'" "oe_config s' = oe_config s1"
    "oe_frame_samples s' = oe_frame_samples s1" "oe_cb_out s' = oe_cb_out s1"
    "map bs_data outs = (if oe_cb_out s1 then bs else [])" "\<forall>out\<in>set outs. bs_samples out = oe_frame_samples s1"
    using Cons.IH [of s1 e1] wf1 doc1 Cons.prems(5,6) by (auto simp: s1_def)
  have "encode_loop env s = Inr (s', outs1 @ outs)"
    using Cons.prems(4) f(2) o(1) IH(1)
    by (subst encode_loop.simps) (simp add: release_audio_frame_def Let_def s1_def)
  then show ?case using IH o enc by (auto simp: s1_def)
qed

section \<open>Properties\<close>

text \<open>A stream of PCM cut into frames of \<open>n\<close> bytes, and what is left over.\<close>

function pcm_frames :: "nat \<Rightarrow> byte list \<Rightarrow> byte list list" where
  "pcm_frames n xs = (if n = 0 \<or> length xs < n then [] else take n xs # pcm_frames n (drop n xs))"
  by pat_completeness auto
termination by (relation "measure (\<lambda>(n, xs). length xs)") auto

function pcm_rest :: "nat \<Rightarrow> byte list \<Rightarrow> byte list" where
  "pcm_rest n xs = (if n = 0 \<or> length xs < n then xs else pcm_rest n (drop n xs))"
  by pat_completeness auto
termination by (relation "measure (\<lambda>(n, xs). length xs)") auto

declare pcm_frames.simps [simp del] pcm_rest.simps [simp del]

lemma pcm_frames_concat:
  assumes "0 < n" "\<forall>f\<in>set fs. length f = n" "length r < n"
  shows "pcm_frames n (concat fs @ r) = fs \<and> pcm_rest n (concat fs @ r) = r"
  using assms(2)
proof (induction fs)
  case Nil
  then show ?case using assms by (subst pcm_frames.simps, subst pcm_rest.simps) simp
next
  case (Cons f fs)
  then show ?case using assms(1) by (subst pcm_frames.simps, subst pcm_rest.simps) simp
qed

text \<open>A well-formed queue is its full frames and at most one partial frame.\<close>

lemma queue_split:
  assumes "oe_wf s"
  obtains fulls rest where "oe_frames s = fulls @ rest" "\<forall>f\<in>set fulls. af_samples f = oe_frame_samples s"
    "rest \<noteq> [] \<longrightarrow> af_samples (hd rest) \<noteq> oe_frame_samples s" "length rest \<le> 1"
proof (cases "oe_frames s" rule: rev_cases)
  case Nil
  then show thesis using that [of "[]" "[]"] by simp
next
  case (snoc fs f)
  have fs: "\<forall>g\<in>set fs. af_samples g = oe_frame_samples s" using assms snoc by (auto simp: oe_wf_def)
  show thesis
  proof (cases "af_samples f = oe_frame_samples s")
    case True
    then show thesis using that [of "fs @ [f]" "[]"] snoc fs by auto
  next
    case False
    then show thesis using that [of fs "[f]"] snoc fs by auto
  qed
qed

lemma contents_split:
  assumes "oe_wf s" "oe_frames s = fulls @ rest" "\<forall>f\<in>set fulls. af_samples f = oe_frame_samples s"
    "rest \<noteq> [] \<longrightarrow> af_samples (hd rest) \<noteq> oe_frame_samples s" "length rest \<le> 1"
  shows "pcm_frames (frame_bytes s) (contents s) = map (frame_pcm (oe_config s)) fulls"
    "pcm_rest (frame_bytes s) (contents s) = concat (map (frame_pcm (oe_config s)) rest)"
proof -
  have ss: "0 < get_sample_size (oe_config s) 1" using config_facts(2) oe_wf_facts(1) [OF assms(1)] by blast
  have size: "get_sample_size (oe_config s) m = m * get_sample_size (oe_config s) 1" for m
    using config_facts(1) oe_wf_facts(1) [OF assms(1)] by blast
  have len: "length (frame_pcm (oe_config s) f) = nat (af_samples f * get_sample_size (oe_config s) 1)" for f
    unfolding frame_pcm_def by (simp flip: size)
  have n: "0 < frame_bytes s" using oe_wf_facts(2,3) [OF assms(1)] ss by simp
  have full: "\<forall>x\<in>set (map (frame_pcm (oe_config s)) fulls). length x = frame_bytes s"
    using assms(3) len oe_wf_facts(3) [OF assms(1)] by auto
  have rest: "length (concat (map (frame_pcm (oe_config s)) rest)) < frame_bytes s"
  proof (cases rest)
    case Nil
    then show ?thesis using n by simp
  next
    case (Cons g gs)
    then have g: "rest = [g]" using assms(5) by simp
    then have "af_samples g < oe_frame_samples s" using assms(1,2,4) by (force simp: oe_wf_def)
    then show ?thesis using g len oe_wf_facts(2,3) [OF assms(1)] ss by simp
  qed
  have "contents s = concat (map (frame_pcm (oe_config s)) fulls) @ concat (map (frame_pcm (oe_config s)) rest)"
    by (simp add: contents_def assms(2))
  then show "pcm_frames (frame_bytes s) (contents s) = map (frame_pcm (oe_config s)) fulls"
    "pcm_rest (frame_bytes s) (contents s) = concat (map (frame_pcm (oe_config s)) rest)"
    using pcm_frames_concat [OF n full rest] by simp_all
qed

text \<open>
  C26: the Opus encoder neither loses nor repeats nor reorders a sample: whatever the block sizes of the
  calls, the encoder is run on exactly the consecutive 20 ms frames of the PCM stream (what was left
  by the calls before, then the whole samples of this block), each packet is handed to the callback
  with the right sample count, and the incomplete frame at the end waits for the next call. The call
  returns, and touches no byte outside the frame buffers.
\<close>

theorem opus_enc_encode_stream:
  assumes "oe_wf s" "\<And>n. en_alloc env n" "encoder_documented env s"
    and "0 < len" "nat len \<le> length audio" "oe_encoder s = Some e"
  shows "\<exists>s' outs e' packets. opus_enc_encode env (Some audio) len ntp opaque s = Some (Inr (0, s', outs))
    \<and> (let ss = get_sample_size (oe_config s) 1; stream = contents s @ take (nat (len div ss * ss)) audio in
        run_encoder env (oe_frame_samples s) e (pcm_frames (frame_bytes s) stream) = (e', packets)
        \<and> oe_wf s' \<and> oe_encoder s' = Some e' \<and> contents s' = pcm_rest (frame_bytes s) stream
        \<and> oe_config s' = oe_config s
        \<and> map bs_data outs = (if oe_cb_out s then packets else [])
        \<and> (\<forall>out\<in>set outs. bs_samples out = oe_frame_samples s))"
proof -
  obtain s1 where s1: "write_audio_frame env audio len ntp opaque s = Some (Inr s1)" "oe_wf s1" "same_setup s s1"
    "contents s1 = contents s @ take (nat (len div get_sample_size (oe_config s) 1 * get_sample_size (oe_config s) 1)) audio"
    using write_audio_frame_ok [OF assms(1,2,4,5) refl] by blast
  have same: "oe_config s1 = oe_config s" "oe_frame_samples s1 = oe_frame_samples s" "oe_encoder s1 = Some e"
    "oe_cb_out s1 = oe_cb_out s" "frame_bytes s1 = frame_bytes s"
    using s1(3) assms(6) by (simp_all add: same_setup_def frame_bytes_def)
  have doc: "encoder_documented env s1" using assms(3) same by (simp add: encoder_documented_def)
  obtain fulls rest where q: "oe_frames s1 = fulls @ rest" "\<forall>f\<in>set fulls. af_samples f = oe_frame_samples s1"
    "rest \<noteq> [] \<longrightarrow> af_samples (hd rest) \<noteq> oe_frame_samples s1" "length rest \<le> 1"
    by (rule queue_split [OF s1(2)])
  note sp = contents_split [OF s1(2) q]
  obtain s' outs e' bs where r: "encode_loop env s1 = Inr (s', outs)"
    "run_encoder env (oe_frame_samples s1) e (map (frame_pcm (oe_config s1)) fulls) = (e', bs)"
    "oe_wf s'" "oe_frames s' = rest" "oe_encoder s' = Some e'" "oe_config s' = oe_config s1"
    "map bs_data outs = (if oe_cb_out s1 then bs else [])" "\<forall>out\<in>set outs. bs_samples out = oe_frame_samples s1"
    using encode_loop_ok [OF s1(2) doc same(3) q(1-3)] by blast
  have "opus_enc_encode env (Some audio) len ntp opaque s = Some (Inr (0, s', outs))"
    using s1(1) r(1) assms(4) by (simp add: opus_enc_encode_def)
  moreover have "contents s' = concat (map (frame_pcm (oe_config s1)) rest)"
    using r(4,6) by (simp add: contents_def)
  ultimately show ?thesis
    using r sp s1(4) same by (auto simp: Let_def)
qed

theorem opus_enc_encode_stream_witness:
  "let env = \<lparr> en_alloc = (\<lambda>_. True), en_junk = (\<lambda>_ _. 0), en_encode = (\<lambda>e pcm n. (e + length pcm, 3, [8, 1, 2])),
               en_level = (\<lambda>_. 127) \<rparr>;
       config = \<lparr> ac_sample_rate = 8000, ac_channels = 1, ac_bits_per_sample = 16, ac_bitrate = 24,
                  ac_enable_audio_level = 0 \<rparr>;
       s = opus_enc_zero\<lparr> oe_config := config, oe_encoder := Some 0, oe_frame_samples := 160, oe_cb_out := True \<rparr>
   in \<exists>s' outs. opus_enc_encode env (Some (replicate 323 7)) 323 1000 0 s = Some (Inr (0, s', outs))
        \<and> oe_encoder s' = Some 320 \<and> contents s' = [7, 7] \<and> map bs_data outs = [[8, 1, 2]]"
proof -
  let ?env = "\<lparr> en_alloc = (\<lambda>_. True), en_junk = (\<lambda>_ _. 0), en_encode = (\<lambda>e pcm n. (e + length pcm, 3, [8, 1, 2])),
               en_level = (\<lambda>_. 127) \<rparr> :: nat opus_env"
  let ?config = "\<lparr> ac_sample_rate = 8000, ac_channels = 1, ac_bits_per_sample = 16, ac_bitrate = 24,
                  ac_enable_audio_level = 0 \<rparr>"
  let ?s = "opus_enc_zero\<lparr> oe_config := ?config, oe_encoder := Some (0 :: nat), oe_frame_samples := 160,
      oe_cb_out := True \<rparr>"
  have wf: "oe_wf ?s"
    by (simp add: oe_wf_def opus_config_ok_def OPUS_SAMPLE_BITS_def OPUS_PACKET_DURATION_def opus_enc_zero_def)
  have doc: "encoder_documented ?env ?s"
    by (simp add: encoder_documented_def OPUS_MAX_PACKET_def opus_packet_get_nb_frames_def
        opus_packet_get_samples_per_frame_def opus_enc_zero_def)
  have fb: "frame_bytes ?s = 320" and ss: "get_sample_size ?config 1 = 2" and c: "contents ?s = []"
    by (simp_all add: frame_bytes_def get_sample_size_def contents_def opus_enc_zero_def)
  have cut: "take 322 (replicate 323 (7 :: byte)) = concat [replicate 320 7] @ [7, 7]"
    using replicate_add [of 320 2 "7 :: byte"] by (simp add: numeral_2_eq_2)
  have "pcm_frames 320 (concat [replicate 320 7] @ [7, 7]) = [replicate 320 7]
      \<and> pcm_rest 320 (concat [replicate 320 7] @ [7, 7]) = [7, 7]"
    by (rule pcm_frames_concat) simp_all
  with cut have pf: "pcm_frames 320 (take 322 (replicate 323 7)) = [replicate 320 7]"
    "pcm_rest 320 (take 322 (replicate 323 7)) = [7, 7]" by simp_all
  have "\<exists>s' outs. opus_enc_encode ?env (Some (replicate 323 7)) 323 1000 0 ?s = Some (Inr (0, s', outs))
        \<and> oe_encoder s' = Some 320 \<and> contents s' = [7, 7] \<and> map bs_data outs = [[8, 1, 2]]"
    using opus_enc_encode_stream [OF wf _ doc, of 323 "replicate 323 7" 0 1000 0] pf fb ss c
    by (auto simp: Let_def)
  then show ?thesis by (simp only: Let_def)
qed

text \<open>
  \<open>opus_enc_destroy\<close> is only safe on an encoder that never held a frame: when a queued or
  recycled frame exists, the walk reads the \<open>next\<close> pointer of the frame it has just freed.
\<close>

lemma opus_enc_destroy_use_after_free:
  assumes "ae_priv_live ctx" "\<forall>f\<in>set (oe_frames (ae_priv ctx)) \<union> set (oe_free (ae_priv ctx)). af_addr f \<in> oe_live (ae_priv ctx)"
  shows "opus_enc_destroy ctx =
    (if oe_frames (ae_priv ctx) = [] \<and> oe_free (ae_priv ctx) = []
     then Inr (ctx\<lparr> ae_priv_live := False \<rparr>) else Inl Use_After_Free)"
  using assms
  by (cases "oe_frames (ae_priv ctx)"; cases "oe_free (ae_priv ctx)")
    (auto simp: opus_enc_destroy_def free_audio_frame_def read_next_def Let_def)

lemma opus_enc_destroy_use_after_free_witness:
  "let f = \<lparr> af_addr = 0, af_cap = 320, af_data = (\<lambda>_. 0), af_samples = 0, af_ntp = 0, af_opaque = 0 \<rparr>
   in opus_enc_destroy \<lparr> ae_priv = opus_enc_zero\<lparr> oe_free := [f], oe_live := {0} \<rparr>, ae_priv_live = True, ae_cb_log = False \<rparr>
        = Inl Use_After_Free"
  using opus_enc_destroy_use_after_free [of "\<lparr> ae_priv = opus_enc_zero\<lparr> oe_free :=
      [\<lparr> af_addr = 0, af_cap = 320, af_data = (\<lambda>_. 0), af_samples = 0, af_ntp = 0, af_opaque = 0 \<rparr>],
      oe_live := {0} \<rparr>, ae_priv_live = True, ae_cb_log = False \<rparr>"]
  by (simp add: Let_def opus_enc_zero_def)

text \<open>
  The misuse paths of the encoder interface. When \<open>opus_encoder_create\<close> fails, \<open>audio_enc_init\<close> has
  freed the private context, so that the \<open>audio_enc_destroy\<close> the caller owes uses it after the free;
  and encoding before a successful initialisation divides by the zero sample size.
\<close>

lemma audio_enc_misuse:
  assumes "opus_config_ok config" "create_audio_encoder 1 True True = Inr (Some ctx)" "0 < len"
  shows "(\<exists>ctx'. audio_enc_init None config (Some ctx) = Inr (- 1, Some ctx') \<and> audio_enc_destroy (Some ctx') = Inl Use_After_Free)
    \<and> audio_enc_encode env (Some audio) len ntp opaque (Some ctx) = Some (Inl Div_By_Zero)"
proof -
  have ctx: "ctx = \<lparr> ae_priv = opus_enc_zero, ae_priv_live = True, ae_cb_log = False \<rparr>"
    using assms(2) by (simp add: create_audio_encoder_def)
  show ?thesis
    using assms(1,3)
    by (simp add: ctx audio_enc_init_def opus_enc_init_def opus_enc_destroy_def audio_enc_destroy_def Let_def
        audio_enc_encode_def opus_enc_encode_def write_audio_frame_def opus_enc_zero_def get_sample_size_def cdiv_def)
qed

lemma audio_enc_misuse_witness:
  "let config = \<lparr> ac_sample_rate = 8000, ac_channels = 1, ac_bits_per_sample = 16, ac_bitrate = 24,
                  ac_enable_audio_level = 0 \<rparr>
   in \<exists>ctx ctx' :: nat audio_enc. create_audio_encoder 1 True True = Inr (Some ctx)
        \<and> audio_enc_init None config (Some ctx) = Inr (- 1, Some ctx') \<and> audio_enc_destroy (Some ctx') = Inl Use_After_Free"
proof -
  let ?config = "\<lparr> ac_sample_rate = 8000, ac_channels = 1, ac_bits_per_sample = 16, ac_bitrate = 24,
                  ac_enable_audio_level = 0 \<rparr>"
  have ok: "opus_config_ok ?config" by (simp add: opus_config_ok_def OPUS_SAMPLE_BITS_def)
  obtain ctx :: "nat audio_enc" where ctx: "create_audio_encoder 1 True True = Inr (Some ctx)"
    by (simp add: create_audio_encoder_def)
  show ?thesis
    using audio_enc_misuse [OF ok ctx, of 1 undefined "[]" 0 0] ctx by (auto simp: Let_def)
qed

end
