(* ===== verification/Video_Defs.thy ===== *)
theory Video_Defs
  imports Prelude
begin

text \<open>
  The types the video codecs of \<open>MediaCodec/jni\<close> share (\<open>videodefs.h\<close>, \<open>common.h\<close>) and the
  frame buffer they fill: \<open>video_enc_get_free_frame\<close> of \<open>videoenc.c\<close> puts the frame, its unit table
  and a bitstream area of \<open>width * height * 3 / 2\<close> bytes into one \<open>malloc\<close> block and clears only the
  frame itself, so what the unit table and the bitstream hold is a parameter. A unit's \<open>data\<close>
  pointer is an offset into the bitstream area, or \<open>None\<close> while it is not initialised. Bytes of a
  surface plane are a list of known extent. Sizes are taken to keep the products of \<open>int\<close>s in range.
\<close>

section \<open>Types\<close>

datatype VIDEO_CODEC_TYPE = CODEC_TYPE_NUL | CODEC_TYPE_VP8 | CODEC_TYPE_AVC

datatype IMG_COLOR_FORMAT =
    IMG_FMT_NULL | IMG_FMT_I420 | IMG_FMT_NV12 | IMG_FMT_NV21
  | IMG_FMT_YUY2 | IMG_FMT_UYVY | IMG_FMT_RGB24 | IMG_FMT_RGB32

record video_surface_prop =
  sp_ntp :: int
  sp_rotation :: int
  sp_orientation :: int

text \<open>The arrays of four of the surface are functions of the plane index.\<close>

record video_surface =
  vs_color :: IMG_COLOR_FORMAT
  vs_planes :: "nat \<Rightarrow> byte list option"
  vs_width :: "nat \<Rightarrow> 32 word"
  vs_height :: "nat \<Rightarrow> 32 word"
  vs_pitch :: "nat \<Rightarrow> 32 word"
  vs_pts :: int
  vs_prop :: video_surface_prop
  vs_opaque :: int

definition ENC_MODE_FAST_DEC :: int where "ENC_MODE_FAST_DEC = 1"
definition ENC_MODE_LOW_LATENCY :: int where "ENC_MODE_LOW_LATENCY = 2"

record video_enc_config =
  vc_width :: int
  vc_height :: int
  vc_bitrate :: int
  vc_strict_bitrate :: int
  vc_key_interval :: int
  vc_framerate_num :: int
  vc_framerate_den :: int
  vc_timebase_num :: int
  vc_timebase_den :: int
  vc_enable_spatial_layers :: int
  vc_enable_temporal_layers :: int
  vc_max_threads :: int
  vc_mode :: int

record video_enc_data_unit_bs =
  du_data :: "nat option"
  du_len :: int
  du_start_code_len :: int
  du_reserved :: int
  du_flags :: int

record video_enc_priv_info_VP8 =
  pv_picture_id :: "16 word"
  pv_key_idx :: int
  pv_tl0_pic_idx :: int
  pv_temporal_idx :: int
  pv_layer_sync :: int
  pv_non_reference :: int

record video_enc_priv_info_AVC =
  pa_tl_idx :: int
  pa_non_reference :: int

datatype video_enc_codec_priv_info =
    Priv_None | Priv_VP8 video_enc_priv_info_VP8 | Priv_AVC video_enc_priv_info_AVC

text \<open>\<open>vf_cap\<close> is the size of the bitstream area behind \<open>data\<close>.\<close>

record video_enc_frame_bs =
  vf_units :: "video_enc_data_unit_bs list"
  vf_num_units :: nat
  vf_data :: "byte block"
  vf_cap :: nat
  vf_len :: nat
  vf_pts :: int
  vf_flags :: int
  vf_prop :: video_surface_prop
  vf_opaque :: int
  vf_codec :: VIDEO_CODEC_TYPE
  vf_codec_priv :: video_enc_codec_priv_info

definition VIDEO_FRAME_TYPE_KEY :: int where "VIDEO_FRAME_TYPE_KEY = 1"
definition VID_ENC_CTRLFLAG_KEY :: int where "VID_ENC_CTRLFLAG_KEY = 1"
definition VID_ENC_UNIT_DROPPABLE :: int where "VID_ENC_UNIT_DROPPABLE = 1"

section \<open>The frame buffer\<close>

text \<open>What \<open>malloc\<close> leaves in a new frame block: the units (their pointers unusable) and the bytes.\<close>

record frame_junk =
  fj_unit :: "nat \<Rightarrow> video_enc_data_unit_bs"
  fj_data :: "byte block"

definition zero_prop :: video_surface_prop where
  "zero_prop = \<lparr> sp_ntp = 0, sp_rotation = 0, sp_orientation = 0 \<rparr>"

definition frame_capacity :: "video_enc_config \<Rightarrow> nat" where
  "frame_capacity config = nat ((vc_width config * vc_height config * 3) sdiv 2)"

definition video_enc_get_free_frame ::
    "bool \<Rightarrow> frame_junk \<Rightarrow> video_enc_config \<Rightarrow> nat \<Rightarrow> video_enc_frame_bs option" where
  "video_enc_get_free_frame malloc_ok junk config num_units =
     (if \<not> malloc_ok then None
      else Some \<lparr> vf_units = map (\<lambda>i. (fj_unit junk i)\<lparr> du_data := None \<rparr>) [0..<num_units],
                  vf_num_units = 0, vf_data = fj_data junk, vf_cap = frame_capacity config,
                  vf_len = 0, vf_pts = 0, vf_flags = 0, vf_prop = zero_prop, vf_opaque = 0,
                  vf_codec = CODEC_TYPE_NUL, vf_codec_priv = Priv_None \<rparr>)"

text \<open>The bitstream a consumer of the frame sees, whole and cut into its units.\<close>

definition vframe_bytes :: "video_enc_frame_bs \<Rightarrow> byte list" where
  "vframe_bytes frame = region (vf_data frame) 0 (vf_len frame)"

definition unit_bytes :: "video_enc_frame_bs \<Rightarrow> nat \<Rightarrow> byte list" where
  "unit_bytes frame i =
     (case du_data (vf_units frame ! i) of
        None \<Rightarrow> []
      | Some off \<Rightarrow> region (vf_data frame) off (nat (du_len (vf_units frame ! i))))"

text \<open>
  Appending the bytes of a unit: \<open>memcpy(frame->data + frame->len, ...)\<close> and \<open>frame->len += n\<close>.
\<close>

definition append_data :: "byte list \<Rightarrow> video_enc_frame_bs \<Rightarrow> video_enc_frame_bs res" where
  "append_data xs frame =
     (if vf_len frame + length xs \<le> vf_cap frame
      then Inr (frame\<lparr> vf_data := blit (vf_data frame) (vf_len frame) xs,
                       vf_len := vf_len frame + length xs \<rparr>)
      else Inl Oob_Write)"

section \<open>The encoder context\<close>

text \<open>
  \<open>video_enc_context\<close> of \<open>videoenc.h\<close>: the codec's own context behind \<open>priv_ctx\<close>, the
  configuration, whether an output callback is set. The log callback has no effect on the encoder.
\<close>

record 'p video_enc_context =
  ve_priv_ctx :: "'p ptr"
  ve_config :: video_enc_config
  ve_cb_out :: bool

definition zero_enc_config :: video_enc_config where
  "zero_enc_config = \<lparr> vc_width = 0, vc_height = 0, vc_bitrate = 0, vc_strict_bitrate = 0,
     vc_key_interval = 0, vc_framerate_num = 0, vc_framerate_den = 0, vc_timebase_num = 0,
     vc_timebase_den = 0, vc_enable_spatial_layers = 0, vc_enable_temporal_layers = 0,
     vc_max_threads = 0, vc_mode = 0 \<rparr>"

text \<open>The comparison of an unsigned plane size with an \<open>int\<close> of the configuration.\<close>

definition surface_size_differs :: "video_surface \<Rightarrow> video_enc_config \<Rightarrow> bool" where
  "surface_size_differs surface config \<longleftrightarrow>
     vs_width surface 0 \<noteq> word_of_int (vc_width config) \<or> vs_height surface 0 \<noteq> word_of_int (vc_height config)"

end
