(* ===== verification/Vpx_Mem.thy ===== *)
theory Vpx_Mem
  imports Prelude
begin

text \<open>
  The aligned allocator of \<open>libvpx/vpx_mem/vpx_mem.c\<close> that the VP8 codec contexts come from, over a C
  heap of numbered blocks. \<open>malloc\<close> is a parameter with its documented behaviour
  (\<open>malloc_documented\<close>). The lemmas show that an aligned pointer lies, with the slot that remembers
  the real block, inside that block, that \<open>vpx_free\<close> gives back exactly the block, and that passing
  the pointer to \<open>free\<close> instead is an invalid free.
\<close>

section \<open>The C heap\<close>

text \<open>Live blocks by address with their sz, and the pointer-sized cells the allocator stores.\<close>

record heap =
  hp_blocks :: "(nat \<times> nat) list"
  hp_cell :: "nat \<Rightarrow> nat"

type_synonym malloc_fn = "heap \<Rightarrow> nat \<Rightarrow> nat option"

definition c_malloc :: "malloc_fn \<Rightarrow> nat \<Rightarrow> heap \<Rightarrow> nat option \<times> heap" where
  "c_malloc malloc sz h =
     (case malloc h sz of
        None \<Rightarrow> (None, h)
      | Some addr \<Rightarrow> (Some addr, h\<lparr> hp_blocks := (addr, sz) # hp_blocks h \<rparr>))"

definition c_free :: "nat \<Rightarrow> heap \<Rightarrow> heap res" where
  "c_free addr h =
     (if map_of (hp_blocks h) addr = None then Inl Invalid_Free
      else Inr (h\<lparr> hp_blocks := filter (\<lambda>b. fst b \<noteq> addr) (hp_blocks h) \<rparr>))"

text \<open>A new block starts at no live address and overlaps no live block.\<close>

definition malloc_documented :: "malloc_fn \<Rightarrow> bool" where
  "malloc_documented malloc \<longleftrightarrow> (\<forall>h sz addr. malloc h sz = Some addr \<longrightarrow>
     map_of (hp_blocks h) addr = None \<and> (\<forall>b n. map_of (hp_blocks h) b = Some n \<longrightarrow> b + n \<le> addr \<or> addr + sz \<le> b))"

section \<open>The allocator\<close>

definition ADDRESS_STORAGE_SIZE :: nat where "ADDRESS_STORAGE_SIZE = 8"
definition DEFAULT_ALIGNMENT :: nat where "DEFAULT_ALIGNMENT = 16"
definition VPX_MAX_ALLOCABLE_MEMORY :: nat where "VPX_MAX_ALLOCABLE_MEMORY = 2 ^ 40"

text \<open>Rounding up to a power of two, where \<open>& ~(align - 1)\<close> drops the remainder.\<close>

definition align_addr :: "nat \<Rightarrow> nat \<Rightarrow> nat" where
  "align_addr addr align = (addr + (align - 1)) - (addr + (align - 1)) mod align"

definition check_size_argument_overflow :: "nat \<Rightarrow> nat \<Rightarrow> bool" where
  "check_size_argument_overflow nmemb sz =
     (if nmemb = 0 then True
      else if sz > VPX_MAX_ALLOCABLE_MEMORY div nmemb then False
      else (nmemb * sz) mod 2 ^ 64 = nmemb * sz)"

definition get_malloc_address_location :: "nat \<Rightarrow> nat" where
  "get_malloc_address_location mem = mem - ADDRESS_STORAGE_SIZE"

definition get_aligned_malloc_size :: "nat \<Rightarrow> nat \<Rightarrow> nat" where
  "get_aligned_malloc_size sz align = (sz + align - 1 + ADDRESS_STORAGE_SIZE) mod 2 ^ 64"

definition set_actual_malloc_address :: "nat \<Rightarrow> nat \<Rightarrow> heap \<Rightarrow> heap" where
  "set_actual_malloc_address mem malloc_addr h =
     h\<lparr> hp_cell := (hp_cell h)(get_malloc_address_location mem := malloc_addr) \<rparr>"

definition get_actual_malloc_address :: "nat \<Rightarrow> heap \<Rightarrow> nat" where
  "get_actual_malloc_address mem h = hp_cell h (get_malloc_address_location mem)"

definition vpx_memalign :: "malloc_fn \<Rightarrow> nat \<Rightarrow> nat \<Rightarrow> heap \<Rightarrow> nat option \<times> heap" where
  "vpx_memalign malloc align sz h =
     (let aligned_size = get_aligned_malloc_size sz align in
      if \<not> check_size_argument_overflow 1 aligned_size then (None, h)
      else case c_malloc malloc aligned_size h of
        (None, h) \<Rightarrow> (None, h)
      | (Some addr, h) \<Rightarrow>
          let x = align_addr (addr + ADDRESS_STORAGE_SIZE) align
          in (Some x, set_actual_malloc_address x addr h))"

definition vpx_malloc :: "malloc_fn \<Rightarrow> nat \<Rightarrow> heap \<Rightarrow> nat option \<times> heap" where
  "vpx_malloc malloc sz h = vpx_memalign malloc DEFAULT_ALIGNMENT sz h"

definition vpx_calloc :: "malloc_fn \<Rightarrow> nat \<Rightarrow> nat \<Rightarrow> heap \<Rightarrow> nat option \<times> heap" where
  "vpx_calloc malloc num sz h =
     (if \<not> check_size_argument_overflow num sz then (None, h)
      else case vpx_malloc malloc (num * sz) h of
        (None, h) \<Rightarrow> (None, h)
      | (Some x, h) \<Rightarrow>
          (Some x, h\<lparr> hp_cell := (\<lambda>i. if x \<le> i \<and> i < x + num * sz then 0 else hp_cell h i) \<rparr>))"

definition vpx_free :: "nat option \<Rightarrow> heap \<Rightarrow> heap res" where
  "vpx_free memblk h =
     (case memblk of
        None \<Rightarrow> Inr h
      | Some x \<Rightarrow> c_free (get_actual_malloc_address x h) h)"

section \<open>Properties\<close>

lemma align_addr_bounds:
  assumes "0 < align"
  shows "addr \<le> align_addr addr align" "align_addr addr align < addr + align" "align dvd align_addr addr align"
proof -
  let ?s = "addr + (align - 1)"
  have "?s mod align \<le> align - 1" using assms by (simp add: less_Suc_eq_le [symmetric])
  then show "addr \<le> align_addr addr align" unfolding align_addr_def by linarith
  show "align_addr addr align < addr + align" using assms by (simp add: align_addr_def)
  show "align dvd align_addr addr align" by (simp add: align_addr_def dvd_minus_mod)
qed

lemma vpx_memalign_cases:
  assumes "vpx_memalign malloc align sz h = (Some x, h')" "0 < align" "sz + align + 8 < 2 ^ 64"
  obtains addr where "malloc h (sz + align + 7) = Some addr" "x = align_addr (addr + 8) align"
    "h' = h\<lparr> hp_blocks := (addr, sz + align + 7) # hp_blocks h,
            hp_cell := (hp_cell h)(x - 8 := addr) \<rparr>"
proof -
  have sz: "get_aligned_malloc_size sz align = sz + align + 7"
    using assms(2,3) by (simp add: get_aligned_malloc_size_def ADDRESS_STORAGE_SIZE_def)
  show thesis
    using assms(1) that
    by (auto simp: vpx_memalign_def sz Let_def c_malloc_def set_actual_malloc_address_def
        get_malloc_address_location_def ADDRESS_STORAGE_SIZE_def split: if_splits option.splits)
qed

text \<open>
  A pointer the allocator handed out and has not taken back: it lies, behind the slot with the
  address of its block and in front of \<open>sz\<close> usable bytes, inside a live block.
\<close>

definition vpx_owned :: "nat \<Rightarrow> nat \<Rightarrow> heap \<Rightarrow> bool" where
  "vpx_owned x sz h \<longleftrightarrow>
     (case map_of (hp_blocks h) (get_actual_malloc_address x h) of
        None \<Rightarrow> False
      | Some n \<Rightarrow> get_actual_malloc_address x h + ADDRESS_STORAGE_SIZE \<le> x
               \<and> x + sz \<le> get_actual_malloc_address x h + n)"

lemmas vpx_defs = vpx_owned_def get_actual_malloc_address_def get_malloc_address_location_def
  ADDRESS_STORAGE_SIZE_def

lemma malloc_documentedD:
  assumes "malloc_documented malloc" "malloc h sz = Some addr"
  shows "map_of (hp_blocks h) addr = None" "map_of (hp_blocks h) b = Some n \<Longrightarrow> b + n \<le> addr \<or> addr + sz \<le> b"
  using assms unfolding malloc_documented_def by blast+

lemma vpx_memalign_keeps_owned:
  assumes "malloc_documented malloc" "malloc h (sz + align + 7) = Some addr"
    and x: "addr + 8 \<le> x" "x \<le> addr + (sz + align + 7)" and y: "vpx_owned y k h"
  shows "vpx_owned y k (h\<lparr> hp_blocks := (addr, sz + align + 7) # hp_blocks h,
                         hp_cell := (hp_cell h)(x - 8 := addr) \<rparr>)"
proof -
  let ?b = "hp_cell h (y - 8)"
  obtain n where n: "map_of (hp_blocks h) ?b = Some n" "?b + 8 \<le> y" "y + k \<le> ?b + n"
    using y by (auto simp: vpx_defs split: option.splits)
  have "?b \<noteq> addr" using malloc_documentedD(1) [OF assms(1,2)] n(1) by auto
  moreover have "y - 8 \<noteq> x - 8" using malloc_documentedD(2) [OF assms(1,2) n(1)] n(2,3) x by linarith
  ultimately show ?thesis using n by (simp add: vpx_defs)
qed

lemma vpx_memalign_then_free:
  assumes "malloc_documented malloc" "0 < align" "0 < sz" "sz + align + 8 < 2 ^ 64"
    and "vpx_memalign malloc align sz h = (Some x, h1)"
  shows "align dvd x \<and> vpx_owned x sz h1 \<and> (\<forall>y k. vpx_owned y k h \<longrightarrow> vpx_owned y k h1)
    \<and> (\<exists>h2. vpx_free (Some x) h1 = Inr h2 \<and> hp_blocks h2 = hp_blocks h)"
proof -
  obtain addr where a: "malloc h (sz + align + 7) = Some addr" "x = align_addr (addr + 8) align"
    "h1 = h\<lparr> hp_blocks := (addr, sz + align + 7) # hp_blocks h, hp_cell := (hp_cell h)(x - 8 := addr) \<rparr>"
    by (rule vpx_memalign_cases [OF assms(5,2,4)])
  note b = align_addr_bounds [OF assms(2), of "addr + 8", folded a(2)]
  have "addr \<notin> fst ` set (hp_blocks h)"
    using malloc_documentedD(1) [OF assms(1) a(1)] by (simp add: map_of_eq_None_iff)
  then have restore: "filter (\<lambda>b. fst b \<noteq> addr) (hp_blocks h) = hp_blocks h"
    by (auto intro!: filter_True)
  have "vpx_owned x sz h1" using a(3) b by (simp add: vpx_defs)
  moreover have "vpx_owned y k h1" if "vpx_owned y k h" for y k
    unfolding a(3) by (rule vpx_memalign_keeps_owned [OF assms(1) a(1)]) (use b that in auto)
  moreover have "vpx_free (Some x) h1 = Inr (h1\<lparr> hp_blocks := hp_blocks h \<rparr>)"
    using a(3) restore by (simp add: vpx_free_def c_free_def vpx_defs)
  ultimately show ?thesis using b(3) by auto
qed


text \<open>A malloc with the documented behaviour: behind everything that is live.\<close>

definition bump_malloc :: malloc_fn where
  "bump_malloc h sz = Some (Suc (foldr (\<lambda>(b, n). max (b + n)) (hp_blocks h) 100))"

lemma foldr_max_ge: "(b, n) \<in> set bs \<Longrightarrow> b + n \<le> foldr (\<lambda>(b, n). max (b + n)) bs (k :: nat)"
  by (induction bs) (auto simp: le_max_iff_disj)

lemma bump_malloc_documented: "malloc_documented bump_malloc"
proof -
  have le: "b + n \<le> foldr (\<lambda>(b, n). max (b + n)) bs 100" if "map_of bs b = Some n" for bs :: "(nat \<times> nat) list" and b n
    using that by (blast dest: map_of_SomeD intro: foldr_max_ge)
  have none: "map_of bs (Suc (foldr (\<lambda>(b, n). max (b + n)) bs 100)) = None" for bs :: "(nat \<times> nat) list"
    by (rule ccontr) (use le [of bs] in force)
  show ?thesis
    unfolding malloc_documented_def bump_malloc_def using le none by (auto intro: le_SucI)
qed


lemma plain_free_invalid:
  assumes "malloc_documented malloc" "0 < sz" "sz + 24 < 2 ^ 64" "vpx_malloc malloc sz h = (Some x, h1)"
  shows "c_free x h1 = Inl Invalid_Free"
proof -
  have v: "vpx_memalign malloc 16 sz h = (Some x, h1)"
    using assms(4) by (simp add: vpx_malloc_def DEFAULT_ALIGNMENT_def)
  have lim: "sz + 16 + 8 < 2 ^ 64" using assms(3) by simp
  obtain addr where a: "malloc h (sz + 16 + 7) = Some addr" "x = align_addr (addr + 8) 16"
    "h1 = h\<lparr> hp_blocks := (addr, sz + 16 + 7) # hp_blocks h, hp_cell := (hp_cell h)(x - 8 := addr) \<rparr>"
    by (rule vpx_memalign_cases [OF v _ lim]) simp
  have b: "addr + 8 \<le> x" "x < addr + 8 + 16"
    using align_addr_bounds(1,2) [of 16 "addr + 8", folded a(2)] by simp_all
  have "map_of (hp_blocks h) x = None"
  proof (rule ccontr)
    assume "map_of (hp_blocks h) x \<noteq> None"
    then obtain n where "map_of (hp_blocks h) x = Some n" by auto
    from malloc_documentedD(2) [OF assms(1) a(1) this] b assms(2) show False by auto
  qed
  then show ?thesis using a(3) b by (simp add: c_free_def)
qed


text \<open>
  Memory from \<open>vpx_malloc\<close> may only go back through \<open>vpx_free\<close>: plain \<open>free\<close> of the pointer
  (\<open>vp8_dec_destroy\<close> in \<open>vp8dec.c\<close> and the failure branch of \<open>create_fileWriter\<close> in
  \<open>ivfwriter.c\<close> do this) is a free of an address that no block starts at.
\<close>

lemma vpx_malloc_plain_free:
  assumes "malloc_documented malloc" "0 < sz" "sz + 24 < 2 ^ 64" "vpx_malloc malloc sz h = (Some x, h1)"
  shows "c_free x h1 = Inl Invalid_Free"
  using assms by (rule plain_free_invalid)

lemma vpx_malloc_plain_free_witness:
  "\<exists>x h1. vpx_malloc bump_malloc 20 \<lparr> hp_blocks = [], hp_cell = (\<lambda>_. 0) \<rparr> = (Some x, h1)
     \<and> c_free x h1 = Inl Invalid_Free"
proof -
  let ?h = "\<lparr> hp_blocks = [], hp_cell = (\<lambda>_. 0 :: nat) \<rparr>"
  obtain x h1 where r: "vpx_malloc bump_malloc 20 ?h = (Some x, h1)"
    by (simp add: vpx_malloc_def DEFAULT_ALIGNMENT_def vpx_memalign_def get_aligned_malloc_size_def
        check_size_argument_overflow_def VPX_MAX_ALLOCABLE_MEMORY_def ADDRESS_STORAGE_SIZE_def
        c_malloc_def bump_malloc_def Let_def)
  show ?thesis
    using vpx_malloc_plain_free [OF bump_malloc_documented _ _ r] r by auto
qed

end
