(* ===== verification/Ivf_Writer.thy ===== *)
theory Ivf_Writer
  imports Video_Defs Vpx_Mem
begin

text \<open>
  The IVF dump of the encoders, \<open>MediaCodec/jni/ivfwriter.c\<close>, with the byte stores of
  \<open>libvpx/vpx_ports/mem_ops.h\<close>, and the reader \<open>libvpx/ivfdec.c\<close> it is read back with. A file is
  the list of its bytes. The writer object comes from the allocator of \<open>Vpx_Mem\<close>. The lemmas show
  that what is written is read back frame by frame.
\<close>

section \<open>Byte stores and loads\<close>

definition mem_put_le16 :: "int \<Rightarrow> byte list" where
  "mem_put_le16 val = [word_of_int val, word_of_int (drop_bit 8 val)]"

definition mem_put_le32 :: "int \<Rightarrow> byte list" where
  "mem_put_le32 val =
     [word_of_int val, word_of_int (drop_bit 8 val), word_of_int (drop_bit 16 val), word_of_int (drop_bit 24 val)]"

definition mem_get_le16 :: "byte list \<Rightarrow> nat \<Rightarrow> 32 word" where
  "mem_get_le16 mem i = push_bit 8 (ucast (mem ! (i + 1))) OR ucast (mem ! i)"

definition mem_get_le32 :: "byte list \<Rightarrow> nat \<Rightarrow> 32 word" where
  "mem_get_le32 mem i = le32 (mem ! i) (mem ! (i + 1)) (mem ! (i + 2)) (mem ! (i + 3))"

lemma length_mem_put [simp]: "length (mem_put_le16 v) = 2" "length (mem_put_le32 v) = 4"
  by (simp_all add: mem_put_le16_def mem_put_le32_def)

lemma le32_of_int:
  "le32 (word_of_int v) (word_of_int (drop_bit 8 v)) (word_of_int (drop_bit 16 v)) (word_of_int (drop_bit 24 v))
     = word_of_int v"
proof (rule bit_word_eqI)
  fix n assume "n < LENGTH(32)"
  moreover have "n - 16 < 8 \<or> 24 + (n - 24) = n" by arith
  ultimately show "bit (le32 (word_of_int v) (word_of_int (drop_bit 8 v)) (word_of_int (drop_bit 16 v))
      (word_of_int (drop_bit 24 v))) n = bit (word_of_int v :: 32 word) n"
    unfolding le32_def by (auto simp: bit_simps not_less)
qed

lemma le16_of_int:
  assumes "0 \<le> v" "v < 65536"
  shows "push_bit 8 (ucast (word_of_int (drop_bit 8 v) :: byte)) OR ucast (word_of_int v :: byte) = (word_of_int v :: 32 word)"
proof (rule bit_word_eqI)
  fix n assume "n < LENGTH(32)"
  have "\<not> bit v n" if "16 \<le> n"
  proof -
    have "v < 2 ^ n" using assms(2) power_increasing [OF that, of "2 :: int"] by simp
    then show ?thesis using assms(1) by (simp add: bit_iff_odd)
  qed
  moreover have "n - 8 < 8 \<or> 16 \<le> n" by arith
  ultimately show "bit (push_bit 8 (ucast (word_of_int (drop_bit 8 v) :: byte)) OR
      ucast (word_of_int v :: byte) :: 32 word) n = bit (word_of_int v :: 32 word) n"
    using \<open>n < LENGTH(32)\<close> by (auto simp: bit_simps not_less)
qed

section \<open>The writer\<close>

record ivfwriter =
  iw_codec :: VIDEO_CODEC_TYPE
  iw_num_frames :: nat
  iw_file :: "byte list option"

definition ivf_fourcc :: "VIDEO_CODEC_TYPE \<Rightarrow> byte list option" where
  "ivf_fourcc codec =
     (case codec of
        CODEC_TYPE_VP8 \<Rightarrow> Some [0x56, 0x50, 0x38, 0x30]
      | CODEC_TYPE_AVC \<Rightarrow> Some [0x48, 0x32, 0x36, 0x34]
      | _ \<Rightarrow> None)"

definition fwrite :: "byte list \<Rightarrow> ivfwriter \<Rightarrow> ivfwriter" where
  "fwrite bs w = w\<lparr> iw_file := map_option (\<lambda>f. f @ bs) (iw_file w) \<rparr>"

definition write_ivf_header :: "ivfwriter option \<Rightarrow> int \<Rightarrow> int \<Rightarrow> int \<Rightarrow> int \<Rightarrow> int \<times> ivfwriter option" where
  "write_ivf_header writer w h tb_den tb_num =
     (case writer of
        None \<Rightarrow> (- 1, None)
      | Some wr \<Rightarrow>
          (case ivf_fourcc (iw_codec wr) of
             None \<Rightarrow> (- 1, Some wr)
           | Some fourcc \<Rightarrow>
               (0, Some (fwrite ([0x44, 0x4B, 0x49, 0x46] @ mem_put_le16 0 @ mem_put_le16 32 @ fourcc
                                 @ mem_put_le16 w @ mem_put_le16 h @ mem_put_le32 tb_den @ mem_put_le32 tb_num
                                 @ mem_put_le32 0 @ mem_put_le32 0) wr))))"

text \<open>
  \<open>create_fileWriter\<close> on a non-null argument: the result, the object with its address, the heap.
  The object has 24 bytes. When the file cannot be opened the object is given to plain \<open>free\<close>.
\<close>

definition create_fileWriter ::
    "malloc_fn \<Rightarrow> bool \<Rightarrow> VIDEO_CODEC_TYPE \<Rightarrow> heap \<Rightarrow> (int \<times> (nat \<times> ivfwriter) option \<times> heap) res" where
  "create_fileWriter malloc fopen_ok codec h =
     (case vpx_malloc malloc 24 h of
        (None, h) \<Rightarrow> Inr (- 1, None, h)
      | (Some x, h) \<Rightarrow>
          let w = \<lparr> iw_codec = codec, iw_num_frames = 0, iw_file = (if fopen_ok then Some [] else None) \<rparr> in
          if fopen_ok then Inr (0, Some (x, w), h)
          else res_bind (c_free x h) (\<lambda>h. Inr (0, Some (x, w), h)))"

definition ivf_timebase :: "video_enc_config \<Rightarrow> int res" where
  "ivf_timebase config =
     res_bind (cdiv (vc_timebase_den config * 10) (vc_timebase_num config)) (\<lambda>q. cdiv q 100)"

text \<open>\<open>length\<close> becomes a \<open>size_t\<close> in \<open>fwrite\<close>, so a negative one reads beyond every frame.\<close>

definition write_frame ::
    "ivfwriter option \<Rightarrow> video_enc_config \<Rightarrow> byte list \<Rightarrow> int \<Rightarrow> int \<Rightarrow> (int \<times> ivfwriter option) res" where
  "write_frame writer config frame len pts =
     (case writer of
        None \<Rightarrow> Inr (- 1, writer)
      | Some wr \<Rightarrow>
          if iw_file wr = None then Inr (- 1, writer)
          else
            res_bind
              (if iw_num_frames wr = 0 then
                 res_bind (ivf_timebase config) (\<lambda>tb_den.
                   Inr (snd (write_ivf_header writer (vc_width config) (vc_height config) tb_den 1)))
               else Inr writer) (\<lambda>writer.
            case writer of
              None \<Rightarrow> Inl Null_Deref
            | Some wr \<Rightarrow>
                let wr = fwrite (mem_put_le32 len @ mem_put_le32 (pts AND 0xFFFFFFFF)
                                 @ mem_put_le32 (drop_bit 32 pts)) wr in
                res_bind (if len < 0 then Inl Oob_Read else rd_slice frame 0 (nat len)) (\<lambda>bytes.
                let wr = fwrite bytes wr in
                Inr (0, Some (wr\<lparr> iw_num_frames := iw_num_frames wr + 1 \<rparr>)))))"

text \<open>\<open>fclose\<close> keeps the bytes; the object goes back with \<open>vpx_free\<close>.\<close>

definition destroy_fileWriter :: "(nat \<times> ivfwriter) option \<Rightarrow> heap \<Rightarrow> heap res" where
  "destroy_fileWriter writer h =
     (case writer of None \<Rightarrow> Inr h | Some (x, w) \<Rightarrow> vpx_free (Some x) h)"

section \<open>The reader\<close>

record infile =
  in_bytes :: "byte list"
  in_pos :: nat
  in_eof :: bool

definition fread :: "nat \<Rightarrow> infile \<Rightarrow> byte list \<times> infile" where
  "fread n f =
     (let got = slice_of (in_bytes f) (in_pos f) n
      in (got, f\<lparr> in_pos := in_pos f + length got, in_eof := in_eof f \<or> length got < n \<rparr>))"

record ivf_info =
  ii_fourcc :: "32 word"
  ii_width :: "32 word"
  ii_height :: "32 word"
  ii_num :: int
  ii_den :: int

definition fix_framerate :: "int \<Rightarrow> int \<Rightarrow> int \<times> int" where
  "fix_framerate num den =
     (if 0 < den \<and> den < 1000000000 \<and> 0 < num \<and> num < 1000 then
        if odd num then (num, den * 2) else (num sdiv 2, den)
      else (30, 1))"

definition file_is_ivf :: "infile \<Rightarrow> ivf_info option \<times> infile" where
  "file_is_ivf f =
     (let (raw_hdr, g) = fread 32 f in
      if length raw_hdr = 32 \<and> take 4 raw_hdr = [0x44, 0x4B, 0x49, 0x46] then
        let (num, den) = fix_framerate (sint (mem_get_le32 raw_hdr 16)) (sint (mem_get_le32 raw_hdr 20))
        in (Some \<lparr> ii_fourcc = mem_get_le32 raw_hdr 8, ii_width = mem_get_le16 raw_hdr 12,
                   ii_height = mem_get_le16 raw_hdr 14, ii_num = num, ii_den = den \<rparr>, g)
      else (None, g\<lparr> in_pos := 0, in_eof := False \<rparr>))"

text \<open>
  One frame: the result, the frame, the size of the buffer and the file. A frame larger than the
  buffer reallocates it to twice the frame.
\<close>

definition ivf_read_frame :: "bool \<Rightarrow> infile \<Rightarrow> nat \<Rightarrow> int \<times> byte list \<times> nat \<times> infile" where
  "ivf_read_frame realloc_ok f buffer_size =
     (let (raw_header, f) = fread 12 f;
          (frame_size, buffer_size) =
            (if length raw_header < 12 then (0, buffer_size)
             else
               let n = unat (mem_get_le32 raw_header 0);
                   n = (if n > 256 * 1024 * 1024 then 0 else n)
               in if n > buffer_size then if realloc_ok then (n, 2 * n) else (0, buffer_size)
                  else (n, buffer_size))
      in if in_eof f then (1, [], buffer_size, f)
         else
           let (bytes, f) = fread frame_size f in
           if length bytes \<noteq> frame_size then (1, [], buffer_size, f)
           else (0, bytes, buffer_size, f))"

text \<open>A client that writes a list of frames, and one that reads until the reader says no.\<close>

fun write_frames :: "video_enc_config \<Rightarrow> (byte list \<times> int) list \<Rightarrow> ivfwriter option \<Rightarrow> ivfwriter option res" where
  "write_frames config [] w = Inr w"
| "write_frames config ((frame, pts) # fs) w =
     res_bind (write_frame w config frame (int (length frame)) pts) (\<lambda>(rc, w). write_frames config fs w)"

fun read_frames :: "nat \<Rightarrow> infile \<Rightarrow> nat \<Rightarrow> byte list list" where
  "read_frames 0 f n = []"
| "read_frames (Suc k) f n =
     (case ivf_read_frame True f n of (rc, bytes, n, f) \<Rightarrow>
        if rc = 0 then bytes # read_frames k f n else [])"

section \<open>Properties\<close>

definition ivf_frame :: "byte list \<times> int \<Rightarrow> byte list" where
  "ivf_frame fr =
     mem_put_le32 (int (length (fst fr))) @ mem_put_le32 (snd fr AND 0xFFFFFFFF)
     @ mem_put_le32 (drop_bit 32 (snd fr)) @ fst fr"

definition ivf_header :: "byte list \<Rightarrow> video_enc_config \<Rightarrow> int \<Rightarrow> byte list" where
  "ivf_header fourcc config tb =
     [0x44, 0x4B, 0x49, 0x46] @ mem_put_le16 0 @ mem_put_le16 32 @ fourcc
     @ mem_put_le16 (vc_width config) @ mem_put_le16 (vc_height config) @ mem_put_le32 tb @ mem_put_le32 1
     @ mem_put_le32 0 @ mem_put_le32 0"

lemma fwrite_Some: "iw_file w = Some bs \<Longrightarrow> fwrite xs w = w\<lparr> iw_file := Some (bs @ xs) \<rparr>"
  by (simp add: fwrite_def)

lemma write_frame_next:
  assumes "iw_file w = Some bs" "iw_num_frames w \<noteq> 0"
  shows "write_frame (Some w) config frame (int (length frame)) pts
    = Inr (0, Some (w\<lparr> iw_num_frames := iw_num_frames w + 1, iw_file := Some (bs @ ivf_frame (frame, pts)) \<rparr>))"
  using assms by (simp add: write_frame_def fwrite_Some Let_def ivf_frame_def slice_of_def)

lemma write_frame_first:
  assumes "iw_file w = Some bs" "iw_num_frames w = 0" "ivf_timebase config = Inr tb"
    and "ivf_fourcc (iw_codec w) = Some fourcc"
  shows "write_frame (Some w) config frame (int (length frame)) pts
    = Inr (0, Some (w\<lparr> iw_num_frames := 1,
                       iw_file := Some (bs @ ivf_header fourcc config tb @ ivf_frame (frame, pts)) \<rparr>))"
  using assms
  by (simp add: write_frame_def write_ivf_header_def fwrite_Some Let_def ivf_frame_def ivf_header_def slice_of_def)

lemma write_frames_next:
  assumes "iw_file w = Some bs" "iw_num_frames w \<noteq> 0"
  shows "write_frames config fs (Some w)
    = Inr (Some (w\<lparr> iw_num_frames := iw_num_frames w + length fs,
                    iw_file := Some (bs @ concat (map ivf_frame fs)) \<rparr>))"
  using assms
proof (induction fs arbitrary: w bs)
  case (Cons fr fs)
  show ?case
    by (cases fr) (simp add: write_frame_next [OF Cons.prems] Cons.IH ivf_frame_def)
qed simp

lemma length_ivf_frame: "length (ivf_frame fr) = 12 + length (fst fr)"
  by (simp add: ivf_frame_def)

lemma mem_get_put_le32: "mem_get_le32 (mem_put_le32 v @ rest) 0 = word_of_int v"
  by (simp add: mem_get_le32_def mem_put_le32_def le32_of_int flip: numeral_2_eq_2 numeral_3_eq_3)

lemma slice_of_skip: "i = length xs \<Longrightarrow> n = length ys \<Longrightarrow> slice_of (xs @ ys @ zs) i n = ys"
  by simp

text \<open>Reading where one frame begins returns it and stops behind it.\<close>

lemma ivf_read_frame_at:
  assumes f: "in_bytes f = pre @ ivf_frame fr @ rest" "in_pos f = length pre" "\<not> in_eof f"
    and len: "length (fst fr) \<le> 2 ^ 28"
  shows "\<exists>n'. ivf_read_frame True f n
    = (0, fst fr, n', f\<lparr> in_pos := length pre + length (ivf_frame fr) \<rparr>)"
proof -
  let ?len = "length (fst fr)"
  let ?hdr = "mem_put_le32 (int ?len) @ mem_put_le32 (snd fr AND 0xFFFFFFFF) @ mem_put_le32 (drop_bit 32 (snd fr))"
  have bytes: "in_bytes f = pre @ ?hdr @ fst fr @ rest" using f(1) by (simp add: ivf_frame_def)
  have "slice_of (in_bytes f) (in_pos f) 12 = ?hdr"
    unfolding bytes f(2) by (rule slice_of_skip) simp_all
  then have hdr: "fread 12 f = (?hdr, f\<lparr> in_pos := length pre + 12 \<rparr>)"
    using f by (cases f) (simp add: fread_def)
  have size: "unat (mem_get_le32 ?hdr 0) = ?len"
  proof -
    have "mem_get_le32 ?hdr 0 = (of_nat ?len :: 32 word)"
      using mem_get_put_le32 [of "int ?len"] by simp
    then show ?thesis using len by (simp add: unat_of_nat_small)
  qed
  have "slice_of (in_bytes f) (length pre + 12) ?len = fst fr"
    using slice_of_skip [of "length pre + 12" "pre @ ?hdr" ?len "fst fr" rest] bytes by simp
  then have data: "fread ?len (f\<lparr> in_pos := length pre + 12 \<rparr>)
      = (fst fr, f\<lparr> in_pos := length pre + 12 + ?len \<rparr>)"
    using f by (cases f) (simp add: fread_def Let_def)
  have "?len \<le> 256 * 1024 * 1024" using len by simp
  then show ?thesis
    using f(3) by (auto simp: ivf_read_frame_def hdr size data length_ivf_frame Let_def add.assoc)
qed

lemma ivf_read_frame_end:
  assumes "in_bytes f = pre" "in_pos f = length pre"
  shows "fst (ivf_read_frame True f n) = 1"
  using assms by (simp add: ivf_read_frame_def fread_def slice_of_def Let_def)

lemma read_frames_all:
  assumes "in_bytes f = pre @ concat (map ivf_frame fs)" "in_pos f = length pre" "\<not> in_eof f"
    and "\<forall>fr\<in>set fs. length (fst fr) \<le> 2 ^ 28" "length fs < k"
  shows "read_frames k f n = map fst fs"
  using assms
proof (induction fs arbitrary: f pre k n)
  case Nil
  then show ?case using ivf_read_frame_end [of f pre n]
    by (cases k) (auto split: prod.splits)
next
  case (Cons fr fs)
  obtain k' where k: "k = Suc k'" using Cons.prems(5) by (cases k) auto
  have at: "in_bytes f = pre @ ivf_frame fr @ concat (map ivf_frame fs)" using Cons.prems(1) by simp
  obtain n' where n': "ivf_read_frame True f n
      = (0, fst fr, n', f\<lparr> in_pos := length pre + length (ivf_frame fr) \<rparr>)"
    using ivf_read_frame_at [OF at Cons.prems(2,3)] Cons.prems(4) by auto
  have "read_frames k' (f\<lparr> in_pos := length pre + length (ivf_frame fr) \<rparr>) n' = map fst fs"
    by (rule Cons.IH [of _ "pre @ ivf_frame fr"]) (use Cons.prems at k in auto)
  then show ?case by (simp add: k n')
qed

lemma file_is_ivf_header:
  assumes "in_bytes f = ivf_header fourcc config tb @ rest" "in_pos f = 0" "\<not> in_eof f"
    and "length fourcc = 4"
  shows "file_is_ivf f =
    (Some \<lparr> ii_fourcc = le32 (fourcc ! 0) (fourcc ! 1) (fourcc ! 2) (fourcc ! 3),
            ii_width = mem_get_le16 (mem_put_le16 (vc_width config)) 0,
            ii_height = mem_get_le16 (mem_put_le16 (vc_height config)) 0,
            ii_num = fst (fix_framerate (sint (word_of_int tb :: 32 word)) 1),
            ii_den = snd (fix_framerate (sint (word_of_int tb :: 32 word)) 1) \<rparr>, f\<lparr> in_pos := 32 \<rparr>)"
proof -
  obtain a b c d where four: "fourcc = [a, b, c, d]"
    using assms(4) by (auto simp: length_Suc_conv eval_nat_numeral)
  have len: "length (ivf_header fourcc config tb) = 32" by (simp add: ivf_header_def four)
  have rd: "fread 32 f = (ivf_header fourcc config tb, f\<lparr> in_pos := 32 \<rparr>)"
    using assms(1-3) len by (simp add: fread_def slice_of_def)
  have one: "le32 1 0 0 0 = (1 :: 32 word)" by (simp add: le32_def)
  show ?thesis
    unfolding file_is_ivf_def rd
    by (simp add: len) (simp add: ivf_header_def four mem_put_le16_def mem_put_le32_def mem_get_le16_def
        mem_get_le32_def le32_of_int one case_prod_beta)
qed

lemma mem_get_put_le16:
  assumes "0 \<le> v" "v < 65536"
  shows "unat (mem_get_le16 (mem_put_le16 v) 0) = nat v"
proof -
  have "mem_get_le16 (mem_put_le16 v) 0 = word_of_int v"
    unfolding mem_get_le16_def mem_put_le16_def using le16_of_int [OF assms] by simp
  moreover have "uint (word_of_int v :: 32 word) = v"
    using assms by (simp add: uint_word_of_int_eq take_bit_int_eq_self)
  ultimately show ?thesis by (metis unat_eq_nat_uint)
qed

text \<open>
  C36: the IVF dump: after any sequence of frames the file opens as an IVF file with the fourcc of the
  codec and the size of the configuration, and the reader gives back exactly the frames that were
  written, in order, with their boundaries, and then reports the end. The bounds are those of the
  16-bit header fields and of the reader's frame limit of 256 MB.
\<close>

theorem ivf_write_read:
  assumes "ivf_fourcc codec = Some fourcc" "ivf_timebase config = Inr tb"
    and "0 \<le> vc_width config" "vc_width config < 65536" "0 \<le> vc_height config" "vc_height config < 65536"
    and "fs \<noteq> []" "\<forall>fr\<in>set fs. length (fst fr) \<le> 2 ^ 28"
  shows "\<exists>w bytes info f.
      write_frames config fs (Some \<lparr> iw_codec = codec, iw_num_frames = 0, iw_file = Some [] \<rparr>) = Inr (Some w)
    \<and> iw_num_frames w = length fs \<and> iw_file w = Some bytes
    \<and> file_is_ivf \<lparr> in_bytes = bytes, in_pos = 0, in_eof = False \<rparr> = (Some info, f)
    \<and> ii_fourcc info = le32 (fourcc ! 0) (fourcc ! 1) (fourcc ! 2) (fourcc ! 3)
    \<and> unat (ii_width info) = nat (vc_width config) \<and> unat (ii_height info) = nat (vc_height config)
    \<and> (\<forall>k n. length fs < k \<longrightarrow> read_frames k f n = map fst fs)"
proof -
  obtain frame pts fs' where fs: "fs = (frame, pts) # fs'" using assms(7) by (cases fs) auto
  let ?w0 = "\<lparr> iw_codec = codec, iw_num_frames = 0, iw_file = Some [] \<rparr>"
  let ?bytes = "ivf_header fourcc config tb @ concat (map ivf_frame fs)"
  let ?f0 = "\<lparr> in_bytes = ?bytes, in_pos = 0, in_eof = False \<rparr>"
  have len: "length fourcc = 4" using assms(1) by (cases codec) (auto simp: ivf_fourcc_def)
  then have hdr: "length (ivf_header fourcc config tb) = 32" by (simp add: ivf_header_def)
  have "write_frames config fs (Some ?w0)
      = Inr (Some \<lparr> iw_codec = codec, iw_num_frames = length fs, iw_file = Some ?bytes \<rparr>)"
    using assms(1,2) by (simp add: fs write_frame_first write_frames_next)
  moreover note file_is_ivf_header [of ?f0 fourcc config tb "concat (map ivf_frame fs)"]
  moreover have "read_frames k (?f0\<lparr> in_pos := 32 \<rparr>) n = map fst fs" if "length fs < k" for k n
    by (rule read_frames_all [of _ "ivf_header fourcc config tb"]) (use assms(8) hdr that in auto)
  ultimately show ?thesis using len assms(3-6) by (simp add: mem_get_put_le16)
qed

definition ivf_test_config :: video_enc_config where
  "ivf_test_config = \<lparr> vc_width = 640, vc_height = 480, vc_bitrate = 500, vc_strict_bitrate = 0,
     vc_key_interval = 0, vc_framerate_num = 30, vc_framerate_den = 1, vc_timebase_num = 1,
     vc_timebase_den = 1000, vc_enable_spatial_layers = 0, vc_enable_temporal_layers = 1,
     vc_max_threads = 1, vc_mode = 0 \<rparr>"

theorem ivf_write_read_witness:
  "\<exists>w bytes info f.
      write_frames ivf_test_config [([1, 2, 3], 5), ([], - 1), ([9], 2 ^ 33)]
        (Some \<lparr> iw_codec = CODEC_TYPE_VP8, iw_num_frames = 0, iw_file = Some [] \<rparr>) = Inr (Some w)
    \<and> iw_file w = Some bytes \<and> file_is_ivf \<lparr> in_bytes = bytes, in_pos = 0, in_eof = False \<rparr> = (Some info, f)
    \<and> unat (ii_width info) = 640 \<and> read_frames 7 f 0 = [[1, 2, 3], [], [9]]"
proof -
  have tb: "ivf_timebase ivf_test_config = Inr 100" by (simp add: ivf_timebase_def ivf_test_config_def)
  show ?thesis
    using ivf_write_read [where codec = CODEC_TYPE_VP8 and fs = "[([1, 2, 3], 5), ([], - 1), ([9], 2 ^ 33)]", OF _ tb]
    by (auto simp: ivf_fourcc_def ivf_test_config_def)
qed

text \<open>
  Opening the dump: when the file opens, the writer is empty, owned by the allocator and
  \<open>destroy_fileWriter\<close> releases it; when it does not open, the object from \<open>vpx_malloc\<close> is passed to
  plain \<open>free\<close>, an invalid free, and without memory the result is \<open>-1\<close>.
\<close>

lemma ivf_create_destroy:
  assumes "malloc_documented malloc" "vpx_malloc malloc 24 h = (Some x, h1)"
  shows "(\<exists>w h2. create_fileWriter malloc True codec h = Inr (0, Some (x, w), h1) \<and> iw_file w = Some []
            \<and> iw_num_frames w = 0 \<and> destroy_fileWriter (Some (x, w)) h1 = Inr h2 \<and> hp_blocks h2 = hp_blocks h)
    \<and> create_fileWriter malloc False codec h = Inl Invalid_Free"
proof -
  have "c_free x h1 = Inl Invalid_Free"
    by (rule plain_free_invalid [OF assms(1) _ _ assms(2)]) simp_all
  moreover have "\<exists>h2. vpx_free (Some x) h1 = Inr h2 \<and> hp_blocks h2 = hp_blocks h"
    using vpx_memalign_then_free [OF assms(1), of 16 24 h x h1] assms(2)
    by (simp add: vpx_malloc_def DEFAULT_ALIGNMENT_def)
  ultimately show ?thesis
    by (auto simp: create_fileWriter_def assms(2) destroy_fileWriter_def)
qed

lemma ivf_create_destroy_witness:
  "\<exists>x h1. vpx_malloc bump_malloc 24 \<lparr> hp_blocks = [], hp_cell = (\<lambda>_. 0) \<rparr> = (Some x, h1)
     \<and> create_fileWriter bump_malloc False CODEC_TYPE_AVC \<lparr> hp_blocks = [], hp_cell = (\<lambda>_. 0) \<rparr> = Inl Invalid_Free"
proof -
  let ?h = "\<lparr> hp_blocks = [], hp_cell = (\<lambda>_. 0 :: nat) \<rparr>"
  obtain x h1 where r: "vpx_malloc bump_malloc 24 ?h = (Some x, h1)"
    by (simp add: vpx_malloc_def DEFAULT_ALIGNMENT_def vpx_memalign_def get_aligned_malloc_size_def
        check_size_argument_overflow_def VPX_MAX_ALLOCABLE_MEMORY_def ADDRESS_STORAGE_SIZE_def
        c_malloc_def bump_malloc_def Let_def)
  show ?thesis
    using ivf_create_destroy [OF bump_malloc_documented r, of CODEC_TYPE_AVC] r by auto
qed

end
