(* ===== verification/Vp8_Enc.thy ===== *)
theory Vp8_Enc
  imports Video_Defs
begin

text \<open>
  The VP8 encoder of the codec library, \<open>MediaCodec/jni/vp8enc.c\<close> with \<open>vp8enc.h\<close>: its set-up, the
  temporal-layer pattern, the gathering of libvpx's partition packets into one frame and the picture
  indices of the payload descriptor. libvpx's encoder, its allocations and the two float products of
  the set-up are parameters (\<open>vpx_env\<close>). The timing statistics (\<open>cx_time\<close>) are left out.
\<close>

section \<open>State\<close>

definition VPX_ENC_TOKEN_PARTITIONS :: nat where "VPX_ENC_TOKEN_PARTITIONS = 3"
definition VPX_ENC_PARTITIONS :: nat where "VPX_ENC_PARTITIONS = 2 ^ VPX_ENC_TOKEN_PARTITIONS + 1"
definition VPX_ENC_3TL_IDS :: nat where "VPX_ENC_3TL_IDS = 4"
definition VPX_ENC_3TL_PATTERN :: nat where "VPX_ENC_3TL_PATTERN = 8"

definition VPX_FRAME_IS_KEY :: "32 word" where "VPX_FRAME_IS_KEY = 1"
definition VPX_FRAME_IS_DROPPABLE :: "32 word" where "VPX_FRAME_IS_DROPPABLE = 2"
definition VPX_FRAME_IS_FRAGMENT :: "32 word" where "VPX_FRAME_IS_FRAGMENT = 8"

definition VPX_EFLAG_FORCE_KF :: "32 word" where "VPX_EFLAG_FORCE_KF = 1"
definition VP8_EFLAG_NO_REF_GF :: "32 word" where "VP8_EFLAG_NO_REF_GF = push_bit 17 1"
definition VP8_EFLAG_NO_UPD_LAST :: "32 word" where "VP8_EFLAG_NO_UPD_LAST = push_bit 18 1"
definition VP8_EFLAG_NO_UPD_ENTROPY :: "32 word" where "VP8_EFLAG_NO_UPD_ENTROPY = push_bit 20 1"
definition VP8_EFLAG_NO_UPD_GF :: "32 word" where "VP8_EFLAG_NO_UPD_GF = push_bit 22 1"
definition VP8_EFLAG_NO_UPD_ARF :: "32 word" where "VP8_EFLAG_NO_UPD_ARF = push_bit 23 1"

text \<open>The fields of \<open>vpx_codec_enc_cfg\<close> the set-up writes; the others keep libvpx's defaults.\<close>

record vpx_enc_cfg =
  g_timebase_num :: int
  g_timebase_den :: int
  g_lag_in_frames :: int
  g_w :: int
  g_h :: int
  g_error_resilient :: int
  rc_dropframe_thresh :: int
  rc_end_usage_cbr :: bool
  g_pass_one :: bool
  rc_resize_allowed :: int
  rc_target_bitrate :: int
  rc_buf_sz :: int
  rc_buf_initial_sz :: int
  rc_buf_optimal_sz :: int
  rc_undershoot_pct :: int
  rc_overshoot_pct :: int
  kf_mode_auto :: bool
  kf_max_dist :: int
  ts_number_layers :: int
  ts_periodicity :: int
  ts_target_bitrate :: "int list"
  ts_rate_decimator :: "int list"
  g_threads :: int
  g_profile :: int

datatype vpx_pkt_kind = VPX_CODEC_CX_FRAME_PKT | VPX_CODEC_OTHER_PKT

record vpx_codec_cx_pkt =
  pk_kind :: vpx_pkt_kind
  pk_buf :: "byte list"
  pk_flags :: "32 word"
  pk_partition_id :: int

record vpx_image =
  vi_planes :: "nat \<Rightarrow> byte list option"
  vi_stride :: "nat \<Rightarrow> 32 word"

record 'e vp8_enc_context =
  v8_temporal_ids :: "int list"
  v8_encode_flags :: "32 word list"
  v8_key_frame_request :: int
  v8_flag_idc :: "8 word"
  v8_image :: "vpx_image option"
  v8_encoder :: "'e option"
  v8_picture_id :: "16 word"
  v8_tl0_pic_idx :: int
  v8_last_base_layer_sync :: int
  v8_last_pts :: int
  v8_frames :: "32 word"

text \<open>
  The environment: libvpx (default configuration, initialisation, an image, one encode with the
  frame flags and layer set just before and the packets it leaves), the products
  \<open>bitrate * 0.4f\<close> and \<open>bitrate * 0.6f\<close>, and whether and with what contents \<open>malloc\<close> answers.
\<close>

record 'e vpx_env =
  vx_default :: "vpx_enc_cfg option"
  vx_init :: "vpx_enc_cfg \<Rightarrow> 'e option"
  vx_img_alloc :: "vpx_image option"
  vx_encode :: "'e \<Rightarrow> 32 word \<Rightarrow> int \<Rightarrow> vpx_image \<Rightarrow> int \<Rightarrow> 32 word \<Rightarrow> 'e \<times> vpx_codec_cx_pkt list"
  vx_f04 :: "int \<Rightarrow> int"
  vx_f06 :: "int \<Rightarrow> int"
  vx_malloc_ok :: bool
  vx_junk :: frame_junk

type_synonym 'e vp8_ctx = "'e vp8_enc_context video_enc_context"

section \<open>Set-up\<close>

definition vp8_enc_create :: "bool \<Rightarrow> int \<times> 'e vp8_enc_context option" where
  "vp8_enc_create malloc_ok =
     (if \<not> malloc_ok then (- 1, None)
      else (0, Some \<lparr> v8_temporal_ids = replicate VPX_ENC_3TL_IDS 0,
                      v8_encode_flags = replicate VPX_ENC_3TL_PATTERN 0, v8_key_frame_request = 0,
                      v8_flag_idc = 0, v8_image = None, v8_encoder = None, v8_picture_id = 0,
                      v8_tl0_pic_idx = 0, v8_last_base_layer_sync = 0, v8_last_pts = 0, v8_frames = 0 \<rparr>))"

definition vp8_enc_destroy :: "'e vp8_ctx \<Rightarrow> 'e vp8_ctx res" where
  "vp8_enc_destroy ctx =
     (if ve_priv_ctx ctx = Null then Inr ctx
      else res_bind (deref (ve_priv_ctx ctx)) (\<lambda>_. Inr (ctx\<lparr> ve_priv_ctx := Freed \<rparr>)))"

definition detect_number_cores :: int where "detect_number_cores = 1"

definition vp8_temporal_ids :: "int list" where "vp8_temporal_ids = [0, 2, 1, 2]"

definition vp8_temporal_flags :: "32 word list" where
  "vp8_temporal_flags =
     [VP8_EFLAG_NO_UPD_ARF OR VP8_EFLAG_NO_REF_GF,
      VP8_EFLAG_NO_REF_GF OR VP8_EFLAG_NO_UPD_GF OR VP8_EFLAG_NO_UPD_ARF OR VP8_EFLAG_NO_UPD_LAST OR VP8_EFLAG_NO_UPD_ENTROPY,
      VP8_EFLAG_NO_REF_GF OR VP8_EFLAG_NO_UPD_ARF OR VP8_EFLAG_NO_UPD_LAST,
      VP8_EFLAG_NO_UPD_GF OR VP8_EFLAG_NO_UPD_ARF OR VP8_EFLAG_NO_UPD_LAST OR VP8_EFLAG_NO_UPD_ENTROPY,
      VP8_EFLAG_NO_UPD_GF OR VP8_EFLAG_NO_UPD_ARF OR VP8_EFLAG_NO_REF_GF,
      VP8_EFLAG_NO_UPD_GF OR VP8_EFLAG_NO_UPD_ARF OR VP8_EFLAG_NO_UPD_LAST OR VP8_EFLAG_NO_UPD_ENTROPY,
      VP8_EFLAG_NO_UPD_ARF OR VP8_EFLAG_NO_UPD_LAST,
      VP8_EFLAG_NO_UPD_GF OR VP8_EFLAG_NO_UPD_ARF OR VP8_EFLAG_NO_UPD_LAST OR VP8_EFLAG_NO_UPD_ENTROPY]"

text \<open>The configuration handed to libvpx, from its defaults and the caller's.\<close>

definition vp8_enc_cfg :: "'e vpx_env \<Rightarrow> vpx_enc_cfg \<Rightarrow> video_enc_config \<Rightarrow> vpx_enc_cfg" where
  "vp8_enc_cfg env cfg config =
     (let cfg = cfg\<lparr> g_timebase_num := vc_timebase_num config, g_timebase_den := vc_timebase_den config,
                    g_lag_in_frames := 0, g_w := vc_width config, g_h := vc_height config,
                    g_error_resilient := 1,
                    rc_dropframe_thresh := (if vc_strict_bitrate config \<noteq> 0 then 30 else 0),
                    rc_end_usage_cbr := True, g_pass_one := True, rc_resize_allowed := 0,
                    rc_target_bitrate := vc_bitrate config, rc_buf_sz := 1000, rc_buf_initial_sz := 500,
                    rc_buf_optimal_sz := 600, rc_undershoot_pct := 100, rc_overshoot_pct := 15 \<rparr>;
          cfg = (if vc_key_interval config > 0
                 then cfg\<lparr> kf_mode_auto := True, kf_max_dist := vc_key_interval config \<rparr>
                 else cfg\<lparr> kf_mode_auto := False \<rparr>);
          cfg = (if vc_enable_temporal_layers config > 0
                 then cfg\<lparr> ts_number_layers := 3, ts_periodicity := 4,
                           ts_target_bitrate := [vx_f04 env (vc_bitrate config), vx_f06 env (vc_bitrate config),
                                                 vc_bitrate config],
                           ts_rate_decimator := [4, 2, 1] \<rparr>
                 else cfg)
      in cfg\<lparr> g_threads := (if vc_max_threads config = 0 then detect_number_cores else vc_max_threads config),
              g_profile := (if vc_mode config = ENC_MODE_FAST_DEC then 2 else 0) \<rparr>)"

definition vp8_enc_init ::
    "'e vpx_env \<Rightarrow> 'e vp8_ctx \<Rightarrow> video_enc_config option \<Rightarrow> (int \<times> 'e vp8_ctx) res" where
  "vp8_enc_init env ctx config =
     (case config of
        None \<Rightarrow> Inr (- 1, ctx)
      | Some config \<Rightarrow>
          (case vx_default env of
             None \<Rightarrow> Inr (- 1, ctx)
           | Some defaults \<Rightarrow>
               res_bind (deref (ve_priv_ctx ctx)) (\<lambda>vp8.
               let vp8 = vp8\<lparr> v8_key_frame_request := 1 \<rparr>;
                   vp8 = (if vc_enable_temporal_layers config > 0
                          then vp8\<lparr> v8_flag_idc := 255, v8_temporal_ids := vp8_temporal_ids,
                                    v8_encode_flags := vp8_temporal_flags \<rparr>
                          else vp8)
               in case vx_init env (vp8_enc_cfg env defaults config) of
                    None \<Rightarrow> Inr (- 1, ctx\<lparr> ve_priv_ctx := To vp8 \<rparr>)
                  | Some e \<Rightarrow>
                      let vp8 = vp8\<lparr> v8_encoder := Some e, v8_image := vx_img_alloc env \<rparr> in
                      if vx_img_alloc env = None then
                        res_bind (vp8_enc_destroy (ctx\<lparr> ve_priv_ctx := To vp8 \<rparr>)) (\<lambda>ctx. Inr (- 1, ctx))
                      else Inr (0, ctx\<lparr> ve_priv_ctx := To (vp8\<lparr> v8_last_pts := 0 \<rparr>), ve_config := config \<rparr>))))"

definition vp8_enc_update_framerate :: "'e vp8_ctx \<Rightarrow> int \<Rightarrow> int \<times> 'e vp8_ctx" where
  "vp8_enc_update_framerate ctx frame_rate = (0, ctx)"

definition vp8_enc_update_bitrate :: "'e vp8_ctx \<Rightarrow> int \<Rightarrow> int \<times> 'e vp8_ctx" where
  "vp8_enc_update_bitrate ctx bitrate_in_kbps = (0, ctx)"

section \<open>Gathering the partitions\<close>

definition populate_codec_priv ::
    "'e vp8_enc_context \<Rightarrow> vpx_codec_cx_pkt \<Rightarrow> video_enc_priv_info_VP8 \<times> 'e vp8_enc_context" where
  "populate_codec_priv vp8 pkt =
     (let base_layer_sync = uint (pk_flags pkt AND VPX_FRAME_IS_KEY);
          idc = unat (v8_flag_idc vp8);
          pattern_idc = idc mod VPX_ENC_3TL_PATTERN;
          temporal_idx = (if base_layer_sync \<noteq> 0 then 0 else v8_temporal_ids vp8 ! (idc mod VPX_ENC_3TL_IDS));
          layer_sync = (if base_layer_sync \<noteq> 0 \<or> pattern_idc = 1 \<or> pattern_idc = 2 then 1 else 0);
          layer_sync = (if v8_last_base_layer_sync vp8 \<noteq> 0 \<and> temporal_idx \<noteq> 0 then 1 else layer_sync);
          tl0 = (if temporal_idx = 0 then v8_tl0_pic_idx vp8 + 1 else v8_tl0_pic_idx vp8)
      in (\<lparr> pv_picture_id = v8_picture_id vp8, pv_key_idx = - 1, pv_tl0_pic_idx = tl0,
            pv_temporal_idx = temporal_idx, pv_layer_sync = layer_sync,
            pv_non_reference = (if pk_flags pkt AND VPX_FRAME_IS_DROPPABLE \<noteq> 0 then 1 else 0) \<rparr>,
          vp8\<lparr> v8_tl0_pic_idx := tl0, v8_last_base_layer_sync := base_layer_sync,
               v8_picture_id := (v8_picture_id vp8 + 1) AND 0x7FFF \<rparr>))"

text \<open>The variables of the packet loop, with the frames given to the callback so far.\<close>

record 'e gp_state =
  gp_frame :: video_enc_frame_bs
  gp_got_pic :: bool
  gp_vp8 :: "'e vp8_enc_context"
  gp_out :: "video_enc_frame_bs list"

definition add_partition :: "vpx_codec_cx_pkt \<Rightarrow> video_enc_frame_bs \<Rightarrow> video_enc_frame_bs res" where
  "add_partition pkt frame =
     (let n = vf_num_units frame;
          u = vf_units frame ! n;
          u = u\<lparr> du_data := Some (vf_len frame), du_len := int (length (pk_buf pkt)), du_start_code_len := 0,
                 du_flags := du_flags u OR (if pk_flags pkt AND VPX_FRAME_IS_DROPPABLE \<noteq> 0
                                            then VID_ENC_UNIT_DROPPABLE else 0),
                 du_reserved := 0 \<rparr>
      in append_data (pk_buf pkt) (frame\<lparr> vf_units := (vf_units frame)[n := u], vf_num_units := n + 1 \<rparr>))"

definition finish_picture ::
    "int \<Rightarrow> video_surface_prop \<Rightarrow> int \<Rightarrow> vpx_codec_cx_pkt \<Rightarrow> 'e gp_state \<Rightarrow> 'e gp_state" where
  "finish_picture pts prop opaque pkt st =
     (if pk_flags pkt AND VPX_FRAME_IS_FRAGMENT = 0 then
        let (priv, vp8) = populate_codec_priv (gp_vp8 st) pkt;
            frame = gp_frame st
        in st\<lparr> gp_frame := frame\<lparr> vf_flags := (if pk_flags pkt AND VPX_FRAME_IS_KEY \<noteq> 0
                                               then vf_flags frame OR VIDEO_FRAME_TYPE_KEY else vf_flags frame),
                                  vf_pts := pts, vf_prop := prop, vf_opaque := opaque,
                                  vf_codec_priv := Priv_VP8 priv \<rparr>,
               gp_got_pic := True, gp_vp8 := vp8 \<rparr>
      else st)"

definition partition_step ::
    "int \<Rightarrow> video_surface_prop \<Rightarrow> int \<Rightarrow> vpx_codec_cx_pkt \<Rightarrow> 'e gp_state \<Rightarrow> ('e gp_state, 'e gp_state) ctl res" where
  "partition_step pts prop opaque pkt st =
     (case pk_kind pkt of
        VPX_CODEC_OTHER_PKT \<Rightarrow> Inr (Next st)
      | VPX_CODEC_CX_FRAME_PKT \<Rightarrow>
          if vf_num_units (gp_frame st) \<ge> VPX_ENC_PARTITIONS
             \<or> pk_partition_id pkt \<noteq> int (vf_num_units (gp_frame st))
          then Inr (Goto_Fail st)
          else res_bind (add_partition pkt (gp_frame st)) (\<lambda>frame.
               Inr (Next (finish_picture pts prop opaque pkt (st\<lparr> gp_frame := frame \<rparr>)))))"

definition deliver :: "bool \<Rightarrow> 'e gp_state \<Rightarrow> 'e gp_state" where
  "deliver cb_out st =
     (if gp_got_pic st \<and> cb_out
      then st\<lparr> gp_got_pic := False, gp_out := gp_out st @ [gp_frame st] \<rparr> else st)"

fun partitions_loop ::
    "bool \<Rightarrow> int \<Rightarrow> video_surface_prop \<Rightarrow> int \<Rightarrow> vpx_codec_cx_pkt list \<Rightarrow> 'e gp_state \<Rightarrow> (int \<times> 'e gp_state) res" where
  "partitions_loop cb_out pts prop opaque [] st = Inr (0, st)"
| "partitions_loop cb_out pts prop opaque (pkt # pkts) st =
     res_bind (partition_step pts prop opaque pkt st) (\<lambda>c.
       case c of
         Goto_Fail st \<Rightarrow> Inr (- 1, st)
       | Next st \<Rightarrow> partitions_loop cb_out pts prop opaque pkts (deliver cb_out st))"

text \<open>The result, the codec context and the delivered frames.\<close>

definition get_partitions ::
    "'e vpx_env \<Rightarrow> 'e vp8_ctx \<Rightarrow> 'e vp8_enc_context \<Rightarrow> int \<Rightarrow> video_surface_prop \<Rightarrow> int \<Rightarrow> vpx_codec_cx_pkt list
     \<Rightarrow> (int \<times> 'e vp8_enc_context \<times> video_enc_frame_bs list) res" where
  "get_partitions env ctx vp8 pts prop opaque pkts =
     (case video_enc_get_free_frame (vx_malloc_ok env) (vx_junk env) (ve_config ctx) VPX_ENC_PARTITIONS of
        None \<Rightarrow> Inr (- 1, vp8, [])
      | Some frame \<Rightarrow>
          res_bind (partitions_loop (ve_cb_out ctx) pts prop opaque pkts
                      \<lparr> gp_frame = frame\<lparr> vf_len := 0, vf_num_units := 0, vf_codec := CODEC_TYPE_VP8 \<rparr>,
                        gp_got_pic = False, gp_vp8 = vp8, gp_out = [] \<rparr>)
            (\<lambda>(rc, st). Inr (rc, gp_vp8 st, gp_out st)))"

section \<open>Encoding\<close>

text \<open>The image refers to the planes of the surface; libvpx's image has a fourth plane, left alone.\<close>

definition load_image :: "video_surface \<Rightarrow> vpx_image \<Rightarrow> vpx_image" where
  "load_image surface img =
     \<lparr> vi_planes = (\<lambda>i. if i < 3 then vs_planes surface i else vi_planes img i),
       vi_stride = (\<lambda>i. if i < 3 then vs_pitch surface i else vi_stride img i) \<rparr>"

text \<open>The frame flags and the context after the pattern advanced and a key request was consumed.\<close>

definition next_enc_flag :: "'e vp8_enc_context \<Rightarrow> int \<Rightarrow> 32 word \<times> 'e vp8_enc_context" where
  "next_enc_flag vp8 flags =
     (let flag_idc = v8_flag_idc vp8 + 1;
          enc_flag = v8_encode_flags vp8 ! (unat flag_idc mod VPX_ENC_3TL_PATTERN)
      in if v8_key_frame_request vp8 \<noteq> 0 \<or> flags AND VID_ENC_CTRLFLAG_KEY \<noteq> 0
         then (enc_flag OR VPX_EFLAG_FORCE_KF, vp8\<lparr> v8_flag_idc := flag_idc, v8_key_frame_request := 0 \<rparr>)
         else (enc_flag, vp8\<lparr> v8_flag_idc := flag_idc \<rparr>))"

text \<open>
  The result of \<open>get_partitions\<close> is not looked at. A null \<open>surface\<close> (the flush \<open>videoenc.h\<close> describes)
  is dereferenced, as is the image of a context that was not initialised.
\<close>

definition vp8_enc_encode ::
    "'e vpx_env \<Rightarrow> 'e vp8_ctx \<Rightarrow> video_surface option \<Rightarrow> int \<Rightarrow> (int \<times> 'e vp8_ctx \<times> video_enc_frame_bs list) res" where
  "vp8_enc_encode env ctx surface flags =
     (case surface of
        None \<Rightarrow> Inl Null_Deref
      | Some surface \<Rightarrow>
          if surface_size_differs surface (ve_config ctx) then Inr (- 1, ctx, [])
          else if vs_color surface \<noteq> IMG_FMT_I420 then Inr (- 1, ctx, [])
          else
            res_bind (deref (ve_priv_ctx ctx)) (\<lambda>vp8.
            case (v8_image vp8, v8_encoder vp8) of
              (Some img, Some e) \<Rightarrow>
                let img = load_image surface img in
                res_bind (cdiv (vc_timebase_den (ve_config ctx) * vc_framerate_den (ve_config ctx))
                               (vc_framerate_num (ve_config ctx) * vc_timebase_num (ve_config ctx))) (\<lambda>duration.
                let (enc_flag, vp8) = next_enc_flag vp8 flags;
                    (e, pkts) = vx_encode env e enc_flag
                                  (v8_temporal_ids vp8 ! (unat (v8_flag_idc vp8) mod VPX_ENC_3TL_IDS))
                                  img (vs_pts surface) (word_of_int duration);
                    vp8 = vp8\<lparr> v8_image := Some img, v8_encoder := Some e \<rparr>
                in res_bind (get_partitions env ctx vp8 (vs_pts surface) (vs_prop surface) (vs_opaque surface) pkts)
                     (\<lambda>(rc, vp8, out).
                       Inr (0, ctx\<lparr> ve_priv_ctx := To (vp8\<lparr> v8_frames := v8_frames vp8 + 1,
                                                               v8_last_pts := vs_pts surface \<rparr>) \<rparr>, out)))
            | _ \<Rightarrow> Inl Null_Deref))"

section \<open>One frame\<close>

text \<open>The packets of one picture: numbered from 0, all but the last marked as fragments.\<close>

definition picture_pkts :: "nat \<Rightarrow> vpx_codec_cx_pkt list \<Rightarrow> bool" where
  "picture_pkts n pkts \<longleftrightarrow> pkts \<noteq> [] \<and> n + length pkts \<le> VPX_ENC_PARTITIONS
     \<and> (\<forall>i<length pkts. pk_kind (pkts ! i) = VPX_CODEC_CX_FRAME_PKT \<and> pk_partition_id (pkts ! i) = int (n + i)
          \<and> (pk_flags (pkts ! i) AND VPX_FRAME_IS_FRAGMENT = 0 \<longleftrightarrow> Suc i = length pkts))"

definition is_key :: "vpx_codec_cx_pkt \<Rightarrow> bool" where
  "is_key pkt \<longleftrightarrow> pk_flags pkt AND VPX_FRAME_IS_KEY \<noteq> 0"

definition pkts_bytes :: "vpx_codec_cx_pkt list \<Rightarrow> byte list" where
  "pkts_bytes pkts = concat (map pk_buf pkts)"

lemma picture_pkts_single:
  "picture_pkts n [pkt] \<longleftrightarrow> n < VPX_ENC_PARTITIONS \<and> pk_kind pkt = VPX_CODEC_CX_FRAME_PKT
     \<and> pk_partition_id pkt = int n \<and> pk_flags pkt AND VPX_FRAME_IS_FRAGMENT = 0"
  by (auto simp: picture_pkts_def)

lemma picture_pkts_Cons:
  assumes "pkts \<noteq> []"
  shows "picture_pkts n (pkt # pkts) \<longleftrightarrow> n < VPX_ENC_PARTITIONS \<and> pk_kind pkt = VPX_CODEC_CX_FRAME_PKT
     \<and> pk_partition_id pkt = int n \<and> pk_flags pkt AND VPX_FRAME_IS_FRAGMENT \<noteq> 0 \<and> picture_pkts (Suc n) pkts"
proof -
  have "(\<forall>i<Suc (length pkts). P i) \<longleftrightarrow> P 0 \<and> (\<forall>i<length pkts. P (Suc i))" for P
    by (auto simp: less_Suc_eq_0_disj)
  then show ?thesis using assms by (auto simp: picture_pkts_def)
qed

text \<open>
  What the loop does to the frame: the bytes and the unit of every packet, at the place they belong,
  and the attributes of the picture from its last packet.
\<close>

definition gathered ::
    "vpx_codec_cx_pkt list \<Rightarrow> int \<Rightarrow> video_surface_prop \<Rightarrow> int \<Rightarrow> 'e vp8_enc_context \<Rightarrow> video_enc_frame_bs
     \<Rightarrow> video_enc_frame_bs \<Rightarrow> bool" where
  "gathered pkts pts prop opaque vp8 f0 f \<longleftrightarrow>
     vf_num_units f = vf_num_units f0 + length pkts \<and> length (vf_units f) = length (vf_units f0)
     \<and> (\<forall>i<vf_num_units f0. vf_units f ! i = vf_units f0 ! i)
     \<and> (\<forall>i<length pkts. let u = vf_units f ! (vf_num_units f0 + i) in
          du_data u = Some (vf_len f0 + length (pkts_bytes (take i pkts)))
          \<and> du_len u = int (length (pk_buf (pkts ! i)))
          \<and> du_flags u = du_flags (vf_units f0 ! (vf_num_units f0 + i))
              OR (if pk_flags (pkts ! i) AND VPX_FRAME_IS_DROPPABLE \<noteq> 0 then VID_ENC_UNIT_DROPPABLE else 0))
     \<and> vf_len f = vf_len f0 + length (pkts_bytes pkts) \<and> vframe_bytes f = vframe_bytes f0 @ pkts_bytes pkts
     \<and> vf_flags f = (if is_key (last pkts) then vf_flags f0 OR VIDEO_FRAME_TYPE_KEY else vf_flags f0)
     \<and> vf_pts f = pts \<and> vf_prop f = prop \<and> vf_opaque f = opaque \<and> vf_codec f = vf_codec f0
     \<and> vf_codec_priv f = Priv_VP8 (fst (populate_codec_priv vp8 (last pkts)))"

lemma add_partition_fits:
  assumes "vf_len f + length (pk_buf pkt) \<le> vf_cap f"
  shows "\<exists>f'. add_partition pkt f = Inr f' \<and> vf_num_units f' = Suc (vf_num_units f)
    \<and> length (vf_units f') = length (vf_units f) \<and> vf_cap f' = vf_cap f
    \<and> (\<forall>i. i \<noteq> vf_num_units f \<longrightarrow> vf_units f' ! i = vf_units f ! i)
    \<and> (vf_num_units f < length (vf_units f) \<longrightarrow>
         du_data (vf_units f' ! vf_num_units f) = Some (vf_len f)
         \<and> du_len (vf_units f' ! vf_num_units f) = int (length (pk_buf pkt))
         \<and> du_flags (vf_units f' ! vf_num_units f) = du_flags (vf_units f ! vf_num_units f)
              OR (if pk_flags pkt AND VPX_FRAME_IS_DROPPABLE \<noteq> 0 then VID_ENC_UNIT_DROPPABLE else 0))
    \<and> vf_len f' = vf_len f + length (pk_buf pkt) \<and> vframe_bytes f' = vframe_bytes f @ pk_buf pkt
    \<and> vf_flags f' = vf_flags f \<and> vf_codec f' = vf_codec f"
  using assms by (simp add: add_partition_def append_data_def Let_def vframe_bytes_def region_blit_append)

lemma partitions_loop_picture:
  assumes "picture_pkts n pkts" "vf_num_units (gp_frame st) = n" "length (vf_units (gp_frame st)) = VPX_ENC_PARTITIONS"
    and "vf_len (gp_frame st) + length (pkts_bytes pkts) \<le> vf_cap (gp_frame st)" "\<not> gp_got_pic st"
  shows "\<exists>f. partitions_loop True pts prop opaque pkts st
      = Inr (0, \<lparr> gp_frame = f, gp_got_pic = False,
                 gp_vp8 = snd (populate_codec_priv (gp_vp8 st) (last pkts)), gp_out = gp_out st @ [f] \<rparr>)
    \<and> gathered pkts pts prop opaque (gp_vp8 st) (gp_frame st) f"
  using assms
proof (induction pkts arbitrary: n st)
  case Nil
  then show ?case by (simp add: picture_pkts_def)
next
  case (Cons pkt pkts)
  let ?start = "gp_frame st"
  have fit: "vf_len ?start + length (pk_buf pkt) \<le> vf_cap ?start" using Cons.prems(4) by (simp add: pkts_bytes_def)
  obtain f1 where f1: "add_partition pkt ?start = Inr f1" "vf_num_units f1 = Suc n"
    "length (vf_units f1) = VPX_ENC_PARTITIONS" "vf_cap f1 = vf_cap ?start"
    "\<forall>i. i \<noteq> n \<longrightarrow> vf_units f1 ! i = vf_units ?start ! i"
    "n < VPX_ENC_PARTITIONS \<longrightarrow> du_data (vf_units f1 ! n) = Some (vf_len ?start)
       \<and> du_len (vf_units f1 ! n) = int (length (pk_buf pkt))
       \<and> du_flags (vf_units f1 ! n) = du_flags (vf_units ?start ! n)
            OR (if pk_flags pkt AND VPX_FRAME_IS_DROPPABLE \<noteq> 0 then VID_ENC_UNIT_DROPPABLE else 0)"
    "vf_len f1 = vf_len ?start + length (pk_buf pkt)" "vframe_bytes f1 = vframe_bytes ?start @ pk_buf pkt"
    "vf_flags f1 = vf_flags ?start" "vf_codec f1 = vf_codec ?start"
    using add_partition_fits [OF fit] Cons.prems(2,3) by auto
  show ?case
  proof (cases "pkts = []")
    case True
    have p: "n < VPX_ENC_PARTITIONS" "pk_kind pkt = VPX_CODEC_CX_FRAME_PKT" "pk_partition_id pkt = int n"
      "pk_flags pkt AND VPX_FRAME_IS_FRAGMENT = 0"
      using Cons.prems(1) by (simp_all add: True picture_pkts_single)
    have step: "partition_step pts prop opaque pkt st
        = Inr (Next (finish_picture pts prop opaque pkt (st\<lparr> gp_frame := f1 \<rparr>)))"
      using p Cons.prems(2) f1(1) by (simp add: partition_step_def)
    let ?last = "f1\<lparr> vf_flags := (if is_key pkt then vf_flags f1 OR VIDEO_FRAME_TYPE_KEY else vf_flags f1),
      vf_pts := pts, vf_prop := prop, vf_opaque := opaque,
      vf_codec_priv := Priv_VP8 (fst (populate_codec_priv (gp_vp8 st) pkt)) \<rparr>"
    have "deliver True (finish_picture pts prop opaque pkt (st\<lparr> gp_frame := f1 \<rparr>))
        = \<lparr> gp_frame = ?last, gp_got_pic = False, gp_vp8 = snd (populate_codec_priv (gp_vp8 st) pkt),
            gp_out = gp_out st @ [?last] \<rparr>"
      using p(4) by (cases st) (simp add: finish_picture_def deliver_def case_prod_beta is_key_def Let_def)
    moreover have "gathered [pkt] pts prop opaque (gp_vp8 st) ?start ?last"
      using p f1 Cons.prems(2,3) by (simp add: gathered_def pkts_bytes_def vframe_bytes_def Let_def)
    ultimately show ?thesis by (auto simp: True step)
  next
    case False
    have p: "n < VPX_ENC_PARTITIONS" "pk_kind pkt = VPX_CODEC_CX_FRAME_PKT" "pk_partition_id pkt = int n"
      "pk_flags pkt AND VPX_FRAME_IS_FRAGMENT \<noteq> 0" "picture_pkts (Suc n) pkts"
      using Cons.prems(1) by (simp_all add: picture_pkts_Cons [OF False])
    have step: "partition_step pts prop opaque pkt st = Inr (Next (st\<lparr> gp_frame := f1 \<rparr>))"
      using p Cons.prems(2) f1(1) by (simp add: partition_step_def finish_picture_def)
    obtain f where f: "partitions_loop True pts prop opaque pkts (st\<lparr> gp_frame := f1 \<rparr>)
        = Inr (0, \<lparr> gp_frame = f, gp_got_pic = False,
                   gp_vp8 = snd (populate_codec_priv (gp_vp8 st) (last pkts)), gp_out = gp_out st @ [f] \<rparr>)"
      "gathered pkts pts prop opaque (gp_vp8 st) f1 f"
      using Cons.IH [OF p(5), of "st\<lparr> gp_frame := f1 \<rparr>"] f1 Cons.prems(4,5) by (auto simp: pkts_bytes_def)
    have units: "vf_units f ! i = vf_units f1 ! i" if "i \<le> n" for i
      using f(2) f1(2) that by (simp add: gathered_def)
    have rest: "let u = vf_units f ! (Suc n + i) in
          du_data u = Some (vf_len f1 + length (pkts_bytes (take i pkts)))
          \<and> du_len u = int (length (pk_buf (pkts ! i)))
          \<and> du_flags u = du_flags (vf_units f1 ! (Suc n + i))
              OR (if pk_flags (pkts ! i) AND VPX_FRAME_IS_DROPPABLE \<noteq> 0 then VID_ENC_UNIT_DROPPABLE else 0)"
      if "i < length pkts" for i
      using f(2) that unfolding gathered_def f1(2) by blast
    have "let u = vf_units f ! (n + i) in
          du_data u = Some (vf_len ?start + length (pkts_bytes (take i (pkt # pkts))))
          \<and> du_len u = int (length (pk_buf ((pkt # pkts) ! i)))
          \<and> du_flags u = du_flags (vf_units ?start ! (n + i))
              OR (if pk_flags ((pkt # pkts) ! i) AND VPX_FRAME_IS_DROPPABLE \<noteq> 0 then VID_ENC_UNIT_DROPPABLE else 0)"
      if "i < length (pkt # pkts)" for i
    proof (cases i)
      case 0
      then show ?thesis using units [of n] f1(6) p(1) by (simp add: pkts_bytes_def Let_def)
    next
      case (Suc k)
      then show ?thesis using rest [of k] that f1(5,7) by (simp add: pkts_bytes_def Let_def)
    qed
    then have "gathered (pkt # pkts) pts prop opaque (gp_vp8 st) ?start f"
      using f(2) units f1(2,3,5,7-10) Cons.prems(2,3) False
      by (simp add: gathered_def pkts_bytes_def)
    then show ?thesis using f(1) False Cons.prems(5) by (auto simp: step deliver_def)
  qed
qed

lemma region_slice: "off + n \<le> k \<Longrightarrow> region m off n = slice_of (region m 0 k) off n"
  by (rule nth_equalityI) (simp_all add: slice_of_def)

lemma slice_of_concat:
  assumes "i < length xss"
  shows "slice_of (concat xss) (length (concat (take i xss))) (length (xss ! i)) = xss ! i"
proof -
  have "concat xss = concat (take i xss) @ xss ! i @ concat (drop (Suc i) xss)"
    by (subst id_take_nth_drop [OF assms]) simp
  then show ?thesis by simp
qed

lemma length_concat_take: "i < length xss \<Longrightarrow> length (concat (take i xss)) + length (xss ! i) \<le> length (concat xss)"
  using arg_cong [OF id_take_nth_drop [of i xss], of "\<lambda>ys. length (concat ys)"] by simp

lemma gathered_units:
  assumes "gathered pkts pts prop opaque vp8 start frame" "vf_num_units start = 0" "vf_len start = 0"
    and "i < length pkts"
  shows "unit_bytes frame i = pk_buf (pkts ! i)"
proof -
  let ?u = "vf_units frame ! i" and ?bufs = "map pk_buf pkts"
  have u: "du_data ?u = Some (length (concat (take i ?bufs)))" "du_len ?u = int (length (?bufs ! i))"
    using assms by (auto simp: gathered_def pkts_bytes_def Let_def take_map)
  have b: "region (vf_data frame) 0 (vf_len frame) = concat ?bufs" "vf_len frame = length (concat ?bufs)"
    using assms(1-3) by (auto simp: gathered_def pkts_bytes_def vframe_bytes_def)
  have "region (vf_data frame) (length (concat (take i ?bufs))) (length (?bufs ! i))
      = slice_of (concat ?bufs) (length (concat (take i ?bufs))) (length (?bufs ! i))"
    unfolding b(1) [symmetric]
    by (rule region_slice) (use length_concat_take [of i ?bufs] assms(4) b(2) in simp)
  then show ?thesis
    using slice_of_concat [of i ?bufs] assms(4) by (simp add: unit_bytes_def u)
qed

text \<open>An encode whose surface is accepted and whose packets form a picture that fits the buffer.\<close>

definition vp8_ready :: "'e vpx_env \<Rightarrow> 'e vp8_ctx \<Rightarrow> 'e vp8_enc_context \<Rightarrow> video_surface \<Rightarrow> bool" where
  "vp8_ready env ctx vp8 surface \<longleftrightarrow>
     ve_priv_ctx ctx = To vp8 \<and> v8_image vp8 \<noteq> None \<and> v8_encoder vp8 \<noteq> None \<and> ve_cb_out ctx
     \<and> vx_malloc_ok env \<and> \<not> surface_size_differs surface (ve_config ctx) \<and> vs_color surface = IMG_FMT_I420
     \<and> vc_framerate_num (ve_config ctx) * vc_timebase_num (ve_config ctx) \<noteq> 0"

text \<open>What libvpx answers to the encode.\<close>

definition vp8_answer ::
    "'e vpx_env \<Rightarrow> video_enc_config \<Rightarrow> 'e vp8_enc_context \<Rightarrow> video_surface \<Rightarrow> int \<Rightarrow> 'e \<times> vpx_codec_cx_pkt list" where
  "vp8_answer env config vp8 surface flags =
     (let (enc_flag, vp8') = next_enc_flag vp8 flags
      in vx_encode env (the (v8_encoder vp8)) enc_flag
           (v8_temporal_ids vp8 ! (unat (v8_flag_idc vp8 + 1) mod VPX_ENC_3TL_IDS))
           (load_image surface (the (v8_image vp8))) (vs_pts surface)
           (word_of_int ((vc_timebase_den config * vc_framerate_den config)
              sdiv (vc_framerate_num config * vc_timebase_num config))))"

lemma vp8_enc_encode_picture:
  assumes "vp8_ready env ctx vp8 surface" "vp8_answer env (ve_config ctx) vp8 surface flags = (e, pkts)"
    and "picture_pkts 0 pkts" "length (pkts_bytes pkts) \<le> frame_capacity (ve_config ctx)"
  defines "vp81 \<equiv> snd (next_enc_flag vp8 flags)
      \<lparr> v8_image := Some (load_image surface (the (v8_image vp8))), v8_encoder := Some e \<rparr>"
  defines "start \<equiv> the (video_enc_get_free_frame True (vx_junk env) (ve_config ctx) VPX_ENC_PARTITIONS)
      \<lparr> vf_codec := CODEC_TYPE_VP8 \<rparr>"
  shows "\<exists>frame. vp8_enc_encode env ctx (Some surface) flags
      = Inr (0, ctx\<lparr> ve_priv_ctx := To (snd (populate_codec_priv vp81 (last pkts))
               \<lparr> v8_frames := v8_frames (snd (populate_codec_priv vp81 (last pkts))) + 1,
                 v8_last_pts := vs_pts surface \<rparr>) \<rparr>, [frame])
    \<and> gathered pkts (vs_pts surface) (vs_prop surface) (vs_opaque surface) vp81 start frame"
proof -
  let ?dur = "(vc_timebase_den (ve_config ctx) * vc_framerate_den (ve_config ctx))
                sdiv (vc_framerate_num (ve_config ctx) * vc_timebase_num (ve_config ctx))"
  let ?st = "\<lparr> gp_frame = start, gp_got_pic = False, gp_vp8 = vp81, gp_out = [] \<rparr>"
  obtain img e0 where ready: "ve_priv_ctx ctx = To vp8" "v8_image vp8 = Some img" "v8_encoder vp8 = Some e0"
    "ve_cb_out ctx" "vx_malloc_ok env" "\<not> surface_size_differs surface (ve_config ctx)"
    "vs_color surface = IMG_FMT_I420" "vc_framerate_num (ve_config ctx) * vc_timebase_num (ve_config ctx) \<noteq> 0"
    using assms(1) by (auto simp: vp8_ready_def)
  obtain fl vp80 where nf: "next_enc_flag vp8 flags = (fl, vp80)" by (cases "next_enc_flag vp8 flags") auto
  have nf': "v8_temporal_ids vp80 = v8_temporal_ids vp8" "v8_flag_idc vp80 = v8_flag_idc vp8 + 1"
    using nf by (auto simp: next_enc_flag_def Let_def split: if_splits)
  have enc: "vx_encode env e0 fl (v8_temporal_ids vp80 ! (unat (v8_flag_idc vp80) mod VPX_ENC_3TL_IDS))
      (load_image surface img) (vs_pts surface) (word_of_int ?dur) = (e, pkts)"
    using assms(2) unfolding vp8_answer_def nf nf' ready by (simp add: ready)
  have vp81: "vp81 = vp80\<lparr> v8_image := Some (load_image surface img), v8_encoder := Some e \<rparr>"
    by (simp add: vp81_def nf ready)
  have start: "vf_num_units start = 0" "length (vf_units start) = VPX_ENC_PARTITIONS" "vf_len start = 0"
    "vf_cap start = frame_capacity (ve_config ctx)"
    by (simp_all add: start_def video_enc_get_free_frame_def)
  obtain frame where loop: "partitions_loop True (vs_pts surface) (vs_prop surface) (vs_opaque surface) pkts ?st
      = Inr (0, \<lparr> gp_frame = frame, gp_got_pic = False, gp_vp8 = snd (populate_codec_priv vp81 (last pkts)),
                 gp_out = [frame] \<rparr>)"
    and g: "gathered pkts (vs_pts surface) (vs_prop surface) (vs_opaque surface) vp81 start frame"
    using partitions_loop_picture [OF assms(3), of ?st "vs_pts surface" "vs_prop surface" "vs_opaque surface"]
      start assms(4) by auto
  have get: "get_partitions env ctx vp81 (vs_pts surface) (vs_prop surface) (vs_opaque surface) pkts
      = Inr (0, snd (populate_codec_priv vp81 (last pkts)), [frame])"
    using loop ready by (simp add: get_partitions_def video_enc_get_free_frame_def start_def)
  have "vp8_enc_encode env ctx (Some surface) flags
      = Inr (0, ctx\<lparr> ve_priv_ctx := To (snd (populate_codec_priv vp81 (last pkts))
               \<lparr> v8_frames := v8_frames (snd (populate_codec_priv vp81 (last pkts))) + 1,
                 v8_last_pts := vs_pts surface \<rparr>) \<rparr>, [frame])"
    using ready get by (simp add: vp8_enc_encode_def cdiv_def nf enc flip: vp81)
  with g show ?thesis by blast
qed

section \<open>A stream of pictures\<close>

text \<open>The context before the \<open>k\<close>-th picture of a stream with temporal layers.\<close>

definition vp8_stream_at :: "nat \<Rightarrow> int \<Rightarrow> 'e vp8_enc_context \<Rightarrow> bool" where
  "vp8_stream_at k tl0 vp8 \<longleftrightarrow>
     v8_flag_idc vp8 = of_nat (k + 255) \<and> v8_temporal_ids vp8 = vp8_temporal_ids
     \<and> v8_encode_flags vp8 = vp8_temporal_flags \<and> v8_picture_id vp8 = of_nat (k mod 32768)
     \<and> v8_tl0_pic_idx vp8 = tl0 \<and> v8_image vp8 \<noteq> None \<and> v8_encoder vp8 \<noteq> None"

lemma flag_idc_next:
  "unat ((of_nat (k + 255) :: 8 word) + 1) mod 4 = k mod 4" "unat ((of_nat (k + 255) :: 8 word) + 1) mod 8 = k mod 8"
proof -
  have "(of_nat (k + 255) :: 8 word) + 1 = of_nat (Suc (k + 255))" by (simp only: of_nat_Suc add.commute)
  then have "unat ((of_nat (k + 255) :: 8 word) + 1) = Suc (k + 255) mod 2 ^ LENGTH(8)"
    by (simp only: unat_of_nat)
  then have "unat ((of_nat (k + 255) :: 8 word) + 1) = (k + 256) mod 256" by simp
  then have "unat ((of_nat (k + 255) :: 8 word) + 1) = k mod 256" by simp
  then show "unat ((of_nat (k + 255) :: 8 word) + 1) mod 4 = k mod 4"
    "unat ((of_nat (k + 255) :: 8 word) + 1) mod 8 = k mod 8"
    by (simp_all add: mod_mod_cancel)
qed

lemma picture_id_next: "((of_nat (k mod 32768) :: 16 word) + 1) AND 0x7FFF = of_nat (Suc k mod 32768)"
proof -
  have "(0x7FFF :: 16 word) = mask 15" by (simp add: mask_eq_exp_minus_1)
  moreover have "(of_nat (k mod 32768) :: 16 word) + 1 = of_nat (Suc (k mod 32768))" by simp
  ultimately have "((of_nat (k mod 32768) :: 16 word) + 1) AND 0x7FFF = of_nat (take_bit 15 (Suc (k mod 32768)))"
    by (simp only: flip: take_bit_eq_mask take_bit_of_nat)
  then show ?thesis by (simp add: take_bit_eq_mod mod_Suc_eq)
qed

lemma populate_codec_priv_at:
  fixes vp8 :: "'e vp8_enc_context" and pkt :: vpx_codec_cx_pkt
  defines "p \<equiv> fst (populate_codec_priv vp8 pkt)" and "vp8' \<equiv> snd (populate_codec_priv vp8 pkt)"
  shows "pv_picture_id p = v8_picture_id vp8"
    and "pv_temporal_idx p = (if is_key pkt then 0 else v8_temporal_ids vp8 ! (unat (v8_flag_idc vp8) mod 4))"
    and "pv_tl0_pic_idx p = v8_tl0_pic_idx vp8 + (if pv_temporal_idx p = 0 then 1 else 0)"
    and "vp8' = vp8\<lparr> v8_tl0_pic_idx := pv_tl0_pic_idx p,
                     v8_last_base_layer_sync := uint (pk_flags pkt AND VPX_FRAME_IS_KEY),
                     v8_picture_id := (v8_picture_id vp8 + 1) AND 0x7FFF \<rparr>"
  by (simp_all add: p_def vp8'_def populate_codec_priv_def Let_def is_key_def VPX_ENC_3TL_IDS_def
      flip: uint_0_iff)

text \<open>libvpx answers every encode with one picture that fits the frame buffer.\<close>

definition vpx_one_picture :: "'e vpx_env \<Rightarrow> video_enc_config \<Rightarrow> bool" where
  "vpx_one_picture env config \<longleftrightarrow> (\<forall>e fl l img pts d.
     picture_pkts 0 (snd (vx_encode env e fl l img pts d))
     \<and> length (pkts_bytes (snd (vx_encode env e fl l img pts d))) \<le> frame_capacity config)"

definition priv_of :: "video_enc_frame_bs \<Rightarrow> video_enc_priv_info_VP8" where
  "priv_of frame = (case vf_codec_priv frame of Priv_VP8 p \<Rightarrow> p | _ \<Rightarrow> undefined)"

fun vp8_encode_all ::
    "'e vpx_env \<Rightarrow> 'e vp8_ctx \<Rightarrow> (video_surface \<times> int) list \<Rightarrow> ('e vp8_ctx \<times> video_enc_frame_bs list) res" where
  "vp8_encode_all env ctx [] = Inr (ctx, [])"
| "vp8_encode_all env ctx ((surface, flags) # ss) =
     res_bind (vp8_enc_encode env ctx (Some surface) flags) (\<lambda>(rc, ctx, out).
     res_bind (vp8_encode_all env ctx ss) (\<lambda>(ctx, outs). Inr (ctx, out @ outs)))"

lemma vp8_enc_step:
  assumes "vp8_stream_at k tl0 vp8" "vp8_ready env ctx vp8 surface" "vpx_one_picture env (ve_config ctx)"
  shows "\<exists>vp8' frame. vp8_enc_encode env ctx (Some surface) flags = Inr (0, ctx\<lparr> ve_priv_ctx := To vp8' \<rparr>, [frame])
    \<and> vp8_stream_at (Suc k) (pv_tl0_pic_idx (priv_of frame)) vp8'
    \<and> vf_pts frame = vs_pts surface
    \<and> pv_picture_id (priv_of frame) = of_nat (k mod 32768)
    \<and> pv_temporal_idx (priv_of frame) =
        (if vf_flags frame AND VIDEO_FRAME_TYPE_KEY \<noteq> 0 then 0 else vp8_temporal_ids ! (k mod 4))
    \<and> pv_tl0_pic_idx (priv_of frame) = tl0 + (if pv_temporal_idx (priv_of frame) = 0 then 1 else 0)"
proof -
  obtain e pkts where ans: "vp8_answer env (ve_config ctx) vp8 surface flags = (e, pkts)"
    by (cases "vp8_answer env (ve_config ctx) vp8 surface flags") auto
  have pkts: "picture_pkts 0 pkts" "length (pkts_bytes pkts) \<le> frame_capacity (ve_config ctx)"
    using assms(3) arg_cong [OF ans, of snd]
    by (auto simp: vpx_one_picture_def vp8_answer_def case_prod_beta)
  define vp81 where "vp81 = snd (next_enc_flag vp8 flags)
    \<lparr> v8_image := Some (load_image surface (the (v8_image vp8))), v8_encoder := Some e \<rparr>"
  have v: "v8_flag_idc vp81 = of_nat (k + 255) + 1" "v8_temporal_ids vp81 = vp8_temporal_ids"
    "v8_encode_flags vp81 = vp8_temporal_flags" "v8_picture_id vp81 = of_nat (k mod 32768)"
    "v8_tl0_pic_idx vp81 = tl0" "v8_image vp81 \<noteq> None" "v8_encoder vp81 \<noteq> None"
    using assms(1) by (auto simp: vp81_def vp8_stream_at_def next_enc_flag_def Let_def)
  from vp8_enc_encode_picture [OF assms(2) ans pkts, folded vp81_def]
  obtain frame where enc: "vp8_enc_encode env ctx (Some surface) flags
      = Inr (0, ctx\<lparr> ve_priv_ctx := To (snd (populate_codec_priv vp81 (last pkts))
               \<lparr> v8_frames := v8_frames (snd (populate_codec_priv vp81 (last pkts))) + 1,
                 v8_last_pts := vs_pts surface \<rparr>) \<rparr>, [frame])"
    and g: "vf_flags frame = (if is_key (last pkts) then VIDEO_FRAME_TYPE_KEY else 0)"
      "vf_pts frame = vs_pts surface" "priv_of frame = fst (populate_codec_priv vp81 (last pkts))"
    by (auto simp: gathered_def video_enc_get_free_frame_def priv_of_def)
  have key: "vf_flags frame AND VIDEO_FRAME_TYPE_KEY \<noteq> 0 \<longleftrightarrow> is_key (last pkts)"
    by (simp add: g VIDEO_FRAME_TYPE_KEY_def)
  note pop = populate_codec_priv_at [of vp81 "last pkts", unfolded v flag_idc_next, folded g(3)]
  have idc: "(of_nat (k + 255) :: 8 word) + 1 = of_nat (Suc k + 255)" by simp
  have "vp8_stream_at (Suc k) (pv_tl0_pic_idx (priv_of frame)) (snd (populate_codec_priv vp81 (last pkts))
      \<lparr> v8_frames := v8_frames (snd (populate_codec_priv vp81 (last pkts))) + 1, v8_last_pts := vs_pts surface \<rparr>)"
    using v(2,3,5-7) idc by (simp add: pop(4) vp8_stream_at_def v(1,4) picture_id_next)
  then show ?thesis using enc g(2) pop(1-3) key by auto
qed

lemma vp8_answer_at:
  assumes "vp8_stream_at k tl0 vp8" "v8_image vp8 = Some img" "v8_encoder vp8 = Some e"
  shows "vp8_answer env config vp8 surface flags =
    vx_encode env e
      (if v8_key_frame_request vp8 \<noteq> 0 \<or> flags AND VID_ENC_CTRLFLAG_KEY \<noteq> 0
       then vp8_temporal_flags ! (k mod 8) OR VPX_EFLAG_FORCE_KF else vp8_temporal_flags ! (k mod 8))
      (vp8_temporal_ids ! (k mod 4)) (load_image surface img) (vs_pts surface)
      (word_of_int ((vc_timebase_den config * vc_framerate_den config)
         sdiv (vc_framerate_num config * vc_timebase_num config)))"
proof -
  have idc: "unat (v8_flag_idc vp8 + 1) mod 4 = k mod 4" "unat (v8_flag_idc vp8 + 1) mod 8 = k mod 8"
    and ids: "v8_temporal_ids vp8 = vp8_temporal_ids" "v8_encode_flags vp8 = vp8_temporal_flags"
    using assms(1) flag_idc_next [of k] unfolding vp8_stream_at_def by metis+
  show ?thesis
    by (simp add: vp8_answer_def next_enc_flag_def Let_def VPX_ENC_3TL_PATTERN_def VPX_ENC_3TL_IDS_def
        idc ids assms(2,3))
qed


text \<open>The indices of the \<open>k\<close>-th frame, after \<open>tl0\<close> base-layer frames counting itself.\<close>

definition vp8_indexed :: "nat \<Rightarrow> int \<Rightarrow> video_surface \<Rightarrow> video_enc_frame_bs \<Rightarrow> bool" where
  "vp8_indexed k tl0 surface frame \<longleftrightarrow>
     vf_pts frame = vs_pts surface
     \<and> pv_picture_id (priv_of frame) = of_nat (k mod 32768)
     \<and> pv_temporal_idx (priv_of frame) =
         (if vf_flags frame AND VIDEO_FRAME_TYPE_KEY \<noteq> 0 then 0 else vp8_temporal_ids ! (k mod 4))
     \<and> pv_tl0_pic_idx (priv_of frame) = tl0"

definition base_frames :: "video_enc_frame_bs list \<Rightarrow> int" where
  "base_frames frames = int (length (filter (\<lambda>f. pv_temporal_idx (priv_of f) = 0) frames))"

lemma base_frames_Cons:
  "base_frames (f # fs) = (if pv_temporal_idx (priv_of f) = 0 then 1 else 0) + base_frames fs"
  by (simp add: base_frames_def)

lemma vp8_encode_all_at:
  assumes "vp8_stream_at k tl0 vp8" "vpx_one_picture env (ve_config ctx)" "ve_priv_ctx ctx = To vp8"
    and "\<And>v s. s \<in> fst ` set ss \<Longrightarrow> v8_image v \<noteq> None \<and> v8_encoder v \<noteq> None
           \<Longrightarrow> vp8_ready env (ctx\<lparr> ve_priv_ctx := To v \<rparr>) v s"
  shows "\<exists>ctx' frames. vp8_encode_all env ctx ss = Inr (ctx', frames) \<and> length frames = length ss
    \<and> (\<forall>i<length ss. vp8_indexed (k + i) (tl0 + base_frames (take (Suc i) frames)) (fst (ss ! i)) (frames ! i))"
  using assms
proof (induction ss arbitrary: k tl0 vp8 ctx)
  case Nil
  then show ?case by simp
next
  case (Cons s ss)
  obtain surface flags where s: "s = (surface, flags)" by (cases s)
  have "ctx\<lparr> ve_priv_ctx := To vp8 \<rparr> = ctx" using Cons.prems(3) by (cases ctx) simp
  then have ready: "vp8_ready env ctx vp8 surface"
    using Cons.prems(4) [of surface vp8] Cons.prems(1) by (simp add: s vp8_stream_at_def)
  obtain vp8' frame where step: "vp8_enc_encode env ctx (Some surface) flags = Inr (0, ctx\<lparr> ve_priv_ctx := To vp8' \<rparr>, [frame])"
    "vp8_stream_at (Suc k) (pv_tl0_pic_idx (priv_of frame)) vp8'" "vf_pts frame = vs_pts surface"
    "pv_picture_id (priv_of frame) = of_nat (k mod 32768)"
    "pv_temporal_idx (priv_of frame) =
        (if vf_flags frame AND VIDEO_FRAME_TYPE_KEY \<noteq> 0 then 0 else vp8_temporal_ids ! (k mod 4))"
    "pv_tl0_pic_idx (priv_of frame) = tl0 + (if pv_temporal_idx (priv_of frame) = 0 then 1 else 0)"
    using vp8_enc_step [OF Cons.prems(1) ready Cons.prems(2), of flags] by blast
  let ?ctx = "ctx\<lparr> ve_priv_ctx := To vp8' \<rparr>"
  have one: "vpx_one_picture env (ve_config ?ctx)" and priv: "ve_priv_ctx ?ctx = To vp8'"
    using Cons.prems(2) by simp_all
  have "vp8_ready env (?ctx\<lparr> ve_priv_ctx := To v \<rparr>) v sa"
    if "sa \<in> fst ` set ss" "v8_image v \<noteq> None \<and> v8_encoder v \<noteq> None" for v sa
    using Cons.prems(4) [of sa v] that by simp
  from Cons.IH [OF step(2) one priv this] obtain ctx' frames where
    rest: "vp8_encode_all env ?ctx ss = Inr (ctx', frames)" "length frames = length ss"
    and each: "\<And>i. i < length ss \<Longrightarrow> vp8_indexed (Suc k + i)
        (pv_tl0_pic_idx (priv_of frame) + base_frames (take (Suc i) frames)) (fst (ss ! i)) (frames ! i)"
    by blast
  have "vp8_indexed (k + i) (tl0 + base_frames (take (Suc i) (frame # frames))) (fst ((s # ss) ! i)) ((frame # frames) ! i)"
    if "i < length (s # ss)" for i
  proof (cases i)
    case 0
    then show ?thesis using step(3-6) by (simp add: s vp8_indexed_def base_frames_def)
  next
    case (Suc j)
    then show ?thesis using each [of j] that step(6) by (simp add: base_frames_Cons add.assoc)
  qed
  then show ?case using step(1) rest by (simp add: s)
qed

text \<open>
  The picture indices of a stream: after a successful set-up with temporal layers, encoding any
  sequence of accepted surfaces delivers one frame per surface, in order, where the \<open>i\<close>-th frame has
  picture identifier \<open>i\<close> modulo \<open>2 ^ 15\<close>, the temporal layer of place \<open>i mod 4\<close> (layer 0 when it is a
  key frame) although the pattern counter is an 8-bit number that wraps, and a \<open>tl0_pic_idx\<close> that
  counts the base-layer frames up to and including it.
\<close>

lemma vp8_enc_stream_indices:
  assumes "vp8_enc_create True = (0, Some vp80)"
    and "vp8_enc_init env \<lparr> ve_priv_ctx = To vp80, ve_config = zero_enc_config, ve_cb_out = True \<rparr> (Some config)
           = Inr (0, ctx)"
    and "vc_enable_temporal_layers config > 0" "vc_framerate_num config * vc_timebase_num config \<noteq> 0"
    and "vx_malloc_ok env" "vpx_one_picture env config"
    and "\<forall>(s, fl)\<in>set ss. \<not> surface_size_differs s config \<and> vs_color s = IMG_FMT_I420"
  shows "\<exists>ctx' frames. vp8_encode_all env ctx ss = Inr (ctx', frames) \<and> length frames = length ss
    \<and> (\<forall>i<length ss. vp8_indexed i (base_frames (take (Suc i) frames)) (fst (ss ! i)) (frames ! i))"
proof -
  obtain vp8 where vp8: "ctx = \<lparr> ve_priv_ctx = To vp8, ve_config = config, ve_cb_out = True \<rparr>" "vp8_stream_at 0 0 vp8"
    using assms(1,2,3)
    by (auto simp: vp8_enc_create_def vp8_enc_init_def Let_def vp8_stream_at_def vp8_enc_destroy_def
        split: option.splits if_splits)
  have ready: "vp8_ready env (ctx\<lparr> ve_priv_ctx := To v \<rparr>) v s"
    if "s \<in> fst ` set ss" "v8_image v \<noteq> None \<and> v8_encoder v \<noteq> None" for v s
    using that assms(4,5,7) vp8(1) by (auto simp: vp8_ready_def)
  then show ?thesis
    using vp8_encode_all_at [OF vp8(2) _ _ ready, of ss] assms(6) vp8(1) by simp
qed

section \<open>Where the encoder leaves its contract\<close>

lemma partitions_loop_overflow:
  assumes "picture_pkts n pkts" "vf_num_units (gp_frame st) = n" "length (vf_units (gp_frame st)) = VPX_ENC_PARTITIONS"
    and "vf_cap (gp_frame st) < vf_len (gp_frame st) + length (pkts_bytes pkts)" "\<not> gp_got_pic st"
  shows "partitions_loop cb pts prop opaque pkts st = Inl Oob_Write"
  using assms
proof (induction pkts arbitrary: n st)
  case Nil
  then show ?case by (simp add: picture_pkts_def)
next
  case (Cons pkt pkts)
  have p: "n < VPX_ENC_PARTITIONS" "pk_kind pkt = VPX_CODEC_CX_FRAME_PKT" "pk_partition_id pkt = int n"
    using Cons.prems(1) by (cases "pkts = []"; simp add: picture_pkts_single picture_pkts_Cons)+
  show ?case
  proof (cases "vf_len (gp_frame st) + length (pk_buf pkt) \<le> vf_cap (gp_frame st)")
    case False
    then have "add_partition pkt (gp_frame st) = Inl Oob_Write"
      by (simp add: add_partition_def append_data_def Let_def)
    then show ?thesis using p Cons.prems(2) by (simp add: partition_step_def)
  next
    case True
    have ne: "pkts \<noteq> []" using True Cons.prems(4) by (auto simp: pkts_bytes_def)
    obtain f where f: "add_partition pkt (gp_frame st) = Inr f" "vf_num_units f = Suc n"
      "length (vf_units f) = VPX_ENC_PARTITIONS" "vf_cap f = vf_cap (gp_frame st)"
      "vf_len f = vf_len (gp_frame st) + length (pk_buf pkt)"
      using add_partition_fits [OF True] Cons.prems(2,3) by auto
    have step: "partition_step pts prop opaque pkt st = Inr (Next (st\<lparr> gp_frame := f \<rparr>))"
      using p Cons.prems(1,2) f(1) by (simp add: partition_step_def finish_picture_def picture_pkts_Cons [OF ne])
    have "partitions_loop cb pts prop opaque pkts (st\<lparr> gp_frame := f \<rparr>) = Inl Oob_Write"
      by (rule Cons.IH [of "Suc n"]) (use Cons.prems f in \<open>auto simp: picture_pkts_Cons [OF ne] pkts_bytes_def\<close>)
    then show ?thesis using Cons.prems(5) by (simp add: step deliver_def)
  qed
qed

lemma vp8_enc_encode_get:
  assumes "vp8_ready env ctx vp8 surface" "vp8_answer env (ve_config ctx) vp8 surface flags = (e, pkts)"
  shows "vp8_enc_encode env ctx (Some surface) flags =
    res_bind (get_partitions env ctx
       (snd (next_enc_flag vp8 flags)\<lparr> v8_image := Some (load_image surface (the (v8_image vp8))), v8_encoder := Some e \<rparr>)
       (vs_pts surface) (vs_prop surface) (vs_opaque surface) pkts)
     (\<lambda>(rc, vp8, out). Inr (0, ctx\<lparr> ve_priv_ctx := To (vp8\<lparr> v8_frames := v8_frames vp8 + 1,
                                                               v8_last_pts := vs_pts surface \<rparr>) \<rparr>, out))"
proof -
  have "v8_temporal_ids (snd (next_enc_flag vp8 flags)) = v8_temporal_ids vp8"
    "v8_flag_idc (snd (next_enc_flag vp8 flags)) = v8_flag_idc vp8 + 1"
    by (auto simp: next_enc_flag_def Let_def)
  then show ?thesis
    using assms
    by (auto simp: vp8_ready_def vp8_answer_def vp8_enc_encode_def cdiv_def case_prod_beta)
qed

text \<open>
  A picture larger than \<open>width * height * 3 / 2\<close> bytes is copied beyond the frame buffer, and a
  picture whose first packet is not partition 0 is dropped although the encode reports success.
\<close>

lemma vp8_enc_partition_limits:
  assumes "vp8_ready env ctx vp8 surface" "vp8_answer env (ve_config ctx) vp8 surface flags = (e, pkts)"
  shows "(picture_pkts 0 pkts \<and> frame_capacity (ve_config ctx) < length (pkts_bytes pkts) \<longrightarrow>
            vp8_enc_encode env ctx (Some surface) flags = Inl Oob_Write)
    \<and> (pkts \<noteq> [] \<and> pk_kind (hd pkts) = VPX_CODEC_CX_FRAME_PKT \<and> pk_partition_id (hd pkts) \<noteq> 0 \<longrightarrow>
            (\<exists>ctx'. vp8_enc_encode env ctx (Some surface) flags = Inr (0, ctx', [])))"
proof (intro conjI impI)
  have ready: "vx_malloc_ok env" "ve_cb_out ctx" using assms(1) by (simp_all add: vp8_ready_def)
  assume big: "picture_pkts 0 pkts \<and> frame_capacity (ve_config ctx) < length (pkts_bytes pkts)"
  have get: "get_partitions env ctx v a b c pkts = Inl Oob_Write" for v a b c
    using ready big
    by (simp add: get_partitions_def video_enc_get_free_frame_def partitions_loop_overflow [OF conjunct1 [OF big]])
  show "vp8_enc_encode env ctx (Some surface) flags = Inl Oob_Write"
    by (simp add: vp8_enc_encode_get [OF assms] get)
next
  have ready: "vx_malloc_ok env" "ve_cb_out ctx" using assms(1) by (simp_all add: vp8_ready_def)
  assume "pkts \<noteq> [] \<and> pk_kind (hd pkts) = VPX_CODEC_CX_FRAME_PKT \<and> pk_partition_id (hd pkts) \<noteq> 0"
  then have "get_partitions env ctx v a b c pkts = Inr (- 1, v, [])" for v a b c
    using ready by (cases pkts) (auto simp: get_partitions_def video_enc_get_free_frame_def partition_step_def)
  then show "\<exists>ctx'. vp8_enc_encode env ctx (Some surface) flags = Inr (0, ctx', [])"
    by (simp add: vp8_enc_encode_get [OF assms])
qed

text \<open>
  Life cycle: a set-up that fails for want of an image has already freed the codec context, so that
  destroying the encoder afterwards uses it again, while after a successful set-up it is destroyed
  once and cannot be encoded with any more.
\<close>

lemma vp8_enc_destroy_after_init:
  assumes "ve_priv_ctx ctx = To vp8" "vx_default env \<noteq> None" "\<forall>cfg. vx_init env cfg \<noteq> None"
  shows "(vx_img_alloc env = None \<longrightarrow>
            (\<exists>ctx'. vp8_enc_init env ctx (Some config) = Inr (- 1, ctx') \<and> vp8_enc_destroy ctx' = Inl Use_After_Free))
    \<and> (vx_img_alloc env \<noteq> None \<longrightarrow>
            (\<exists>ctx' ctx''. vp8_enc_init env ctx (Some config) = Inr (0, ctx') \<and> vp8_enc_destroy ctx' = Inr ctx''
               \<and> vp8_enc_destroy ctx'' = Inl Use_After_Free))"
proof -
  obtain defaults where d: "vx_default env = Some defaults" using assms(2) by auto
  obtain e where e: "vx_init env (vp8_enc_cfg env defaults config) = Some e" using assms(3) by blast
  show ?thesis
    by (auto simp: vp8_enc_init_def vp8_enc_destroy_def Let_def assms(1) d e)
qed

text \<open>
  The flags of a delivered unit are combined with whatever \<open>malloc\<close> left in the unit table, which
  \<open>video_enc_get_free_frame\<close> does not clear: a unit is reported as droppable if the block held an odd
  number there, whatever libvpx said.
\<close>

lemma vp8_enc_unit_flags_leftover:
  assumes "vp8_ready env ctx vp8 surface" "vp8_answer env (ve_config ctx) vp8 surface flags = (e, pkts)"
    and "picture_pkts 0 pkts" "length (pkts_bytes pkts) \<le> frame_capacity (ve_config ctx)"
    and "i < length pkts" "odd (du_flags (fj_unit (vx_junk env) i))"
  shows "\<exists>ctx' frame. vp8_enc_encode env ctx (Some surface) flags = Inr (0, ctx', [frame])
    \<and> du_flags (vf_units frame ! i) AND VID_ENC_UNIT_DROPPABLE \<noteq> 0"
proof -
  have i: "i < VPX_ENC_PARTITIONS" using assms(3,5) by (simp add: picture_pkts_def)
  obtain ctx' frame where enc: "vp8_enc_encode env ctx (Some surface) flags = Inr (0, ctx', [frame])"
    and fl: "du_flags (vf_units frame ! i) = du_flags (fj_unit (vx_junk env) i)
      OR (if pk_flags (pkts ! i) AND VPX_FRAME_IS_DROPPABLE \<noteq> 0 then VID_ENC_UNIT_DROPPABLE else 0)"
    using vp8_enc_encode_picture [OF assms(1-4)] assms(5) i
    by (auto simp: gathered_def video_enc_get_free_frame_def Let_def)
  have "bit (du_flags (vf_units frame ! i)) 0" unfolding fl bit_or_iff using assms(6) by (simp add: bit_0)
  then show ?thesis
    using enc by (auto simp: VID_ENC_UNIT_DROPPABLE_def and_one_eq bit_0 odd_iff_mod_2_eq_one)
qed

section \<open>Concrete instances\<close>

definition vt_junk :: frame_junk where
  "vt_junk = \<lparr> fj_unit = (\<lambda>_. \<lparr> du_data = None, du_len = 7, du_start_code_len = 7, du_reserved = 7, du_flags = 7 \<rparr>),
                fj_data = (\<lambda>_. 0xEE) \<rparr>"

definition vt_cfg :: vpx_enc_cfg where
  "vt_cfg = \<lparr> g_timebase_num = 0, g_timebase_den = 0, g_lag_in_frames = 0, g_w = 0, g_h = 0,
     g_error_resilient = 0, rc_dropframe_thresh = 0, rc_end_usage_cbr = False, g_pass_one = False,
     rc_resize_allowed = 0, rc_target_bitrate = 0, rc_buf_sz = 0, rc_buf_initial_sz = 0, rc_buf_optimal_sz = 0,
     rc_undershoot_pct = 0, rc_overshoot_pct = 0, kf_mode_auto = False, kf_max_dist = 0, ts_number_layers = 1,
     ts_periodicity = 0, ts_target_bitrate = [], ts_rate_decimator = [], g_threads = 0, g_profile = 0 \<rparr>"

definition vt_pkts :: "32 word \<Rightarrow> vpx_codec_cx_pkt list" where
  "vt_pkts fl =
     [\<lparr> pk_kind = VPX_CODEC_CX_FRAME_PKT, pk_buf = [1, 2, 3], pk_flags = 8, pk_partition_id = 0 \<rparr>,
      \<lparr> pk_kind = VPX_CODEC_CX_FRAME_PKT, pk_buf = [4], pk_flags = (if bit fl 0 then 1 else 0), pk_partition_id = 1 \<rparr>]"

definition vt_image :: vpx_image where
  "vt_image = \<lparr> vi_planes = (\<lambda>_. None), vi_stride = (\<lambda>_. 0) \<rparr>"

definition vt_env :: "bool \<Rightarrow> unit vpx_env" where
  "vt_env img_ok = \<lparr> vx_default = Some vt_cfg, vx_init = (\<lambda>_. Some ()),
     vx_img_alloc = (if img_ok then Some vt_image else None),
     vx_encode = (\<lambda>e fl l img pts d. (e, vt_pkts fl)), vx_f04 = (\<lambda>b. b * 4 div 10), vx_f06 = (\<lambda>b. b * 6 div 10),
     vx_malloc_ok = True, vx_junk = vt_junk \<rparr>"

definition vt_config :: "int \<Rightarrow> video_enc_config" where
  "vt_config w = zero_enc_config\<lparr> vc_width := w, vc_height := 16, vc_bitrate := 100, vc_framerate_num := 30,
     vc_framerate_den := 1, vc_timebase_num := 1, vc_timebase_den := 1000, vc_enable_temporal_layers := 1 \<rparr>"

definition vt_surface :: "int \<Rightarrow> int \<Rightarrow> video_surface" where
  "vt_surface w pts = \<lparr> vs_color = IMG_FMT_I420, vs_planes = (\<lambda>_. None), vs_width = (\<lambda>_. word_of_int w),
     vs_height = (\<lambda>_. 16), vs_pitch = (\<lambda>_. 0), vs_pts = pts, vs_prop = zero_prop, vs_opaque = 9 \<rparr>"

definition vt_vp8 :: "unit vp8_enc_context" where
  "vt_vp8 = \<lparr> v8_temporal_ids = vp8_temporal_ids, v8_encode_flags = vp8_temporal_flags,
     v8_key_frame_request = 1, v8_flag_idc = 255, v8_image = Some vt_image, v8_encoder = Some (),
     v8_picture_id = 0, v8_tl0_pic_idx = 0, v8_last_base_layer_sync = 0, v8_last_pts = 0, v8_frames = 0 \<rparr>"

definition vt_ctx :: "int \<Rightarrow> unit vp8_ctx" where
  "vt_ctx w = \<lparr> ve_priv_ctx = To vt_vp8, ve_config = vt_config w, ve_cb_out = True \<rparr>"

lemma vt_facts:
  "vp8_stream_at 0 0 vt_vp8" "vp8_ready (vt_env True) (vt_ctx w) vt_vp8 (vt_surface w pts)"
  "picture_pkts 0 (vt_pkts fl)" "length (pkts_bytes (vt_pkts fl)) = 4"
  "frame_capacity (vt_config 16) = 384" "frame_capacity (vt_config 0) = 0"
  by (simp_all add: vp8_stream_at_def vt_vp8_def vt_image_def vp8_ready_def vt_ctx_def vt_env_def
      surface_size_differs_def vt_surface_def vt_config_def zero_enc_config_def picture_pkts_def vt_pkts_def
      VPX_ENC_PARTITIONS_def VPX_ENC_TOKEN_PARTITIONS_def VPX_FRAME_IS_FRAGMENT_def
      pkts_bytes_def frame_capacity_def and_one_eq less_Suc_eq nth_Cons' signed_divide_int_def)

lemma vt_answer: "vp8_answer (vt_env True) config vt_vp8 surface flags = ((), vt_pkts 0x820001)"
  by (simp add: vp8_answer_def vt_env_def vt_vp8_def next_enc_flag_def Let_def vp8_temporal_flags_def
      VPX_ENC_3TL_PATTERN_def VP8_EFLAG_NO_UPD_ARF_def VP8_EFLAG_NO_REF_GF_def VPX_EFLAG_FORCE_KF_def)


lemma vp8_enc_partition_limits_witness:
  "vp8_enc_encode (vt_env True) (vt_ctx 0) (Some (vt_surface 0 40)) 0 = Inl Oob_Write"
  using vp8_enc_partition_limits [OF vt_facts(2) [of 0 40] vt_answer, where flags = 0] vt_facts(3,4,6)
  by (simp add: vt_ctx_def)

lemma vp8_enc_destroy_after_init_witness:
  "\<exists>ctx'. vp8_enc_init (vt_env False) (vt_ctx 16) (Some (vt_config 16)) = Inr (- 1, ctx')
     \<and> vp8_enc_destroy ctx' = Inl Use_After_Free"
  using vp8_enc_destroy_after_init [of "vt_ctx 16" vt_vp8 "vt_env False" "vt_config 16"]
  by (simp add: vt_ctx_def vt_env_def)

lemma vp8_enc_unit_flags_leftover_witness:
  "\<exists>ctx' frame. vp8_enc_encode (vt_env True) (vt_ctx 16) (Some (vt_surface 16 40)) 0 = Inr (0, ctx', [frame])
     \<and> du_flags (vf_units frame ! 1) AND VID_ENC_UNIT_DROPPABLE \<noteq> 0"
proof -
  have "length (vt_pkts 0x820001) = 2" "odd (du_flags (fj_unit (vx_junk (vt_env True)) 1))"
    by (simp_all add: vt_pkts_def vt_env_def vt_junk_def)
  then show ?thesis
    using vp8_enc_unit_flags_leftover [OF vt_facts(2) [of 16 40] vt_answer, where i = 1 and flags = 0] vt_facts(3-5)
    by (simp add: vt_ctx_def)
qed

lemma vp8_enc_stream_indices_witness:
  "\<exists>ctx vp80 ctx' frames. vp8_enc_create True = (0, Some vp80)
     \<and> vp8_enc_init (vt_env True) \<lparr> ve_priv_ctx = To vp80, ve_config = zero_enc_config, ve_cb_out = True \<rparr>
           (Some (vt_config 16)) = Inr (0, ctx)
     \<and> vp8_encode_all (vt_env True) ctx [(vt_surface 16 0, 0), (vt_surface 16 40, 0), (vt_surface 16 80, 1)]
         = Inr (ctx', frames) \<and> length frames = 3
     \<and> vp8_indexed 2 (base_frames (take 3 frames)) (vt_surface 16 80) (frames ! 2)"
proof -
  obtain vp80 where c: "vp8_enc_create True = (0, Some (vp80 :: unit vp8_enc_context))" by (simp add: vp8_enc_create_def)
  obtain ctx where i: "vp8_enc_init (vt_env True) \<lparr> ve_priv_ctx = To vp80, ve_config = zero_enc_config, ve_cb_out = True \<rparr>
           (Some (vt_config 16)) = Inr (0, ctx)"
    by (simp add: vp8_enc_init_def vt_env_def Let_def)
  have one: "vpx_one_picture (vt_env True) (vt_config 16)"
    using vt_facts(3-5) by (simp add: vpx_one_picture_def vt_env_def)
  let ?ss = "[(vt_surface 16 0, 0), (vt_surface 16 40, 0), (vt_surface 16 80, 1 :: int)]"
  obtain ctx' frames where f: "vp8_encode_all (vt_env True) ctx ?ss = Inr (ctx', frames)" "length frames = length ?ss"
    and idx: "\<forall>i<length ?ss. vp8_indexed i (base_frames (take (Suc i) frames)) (fst (?ss ! i)) (frames ! i)"
    using vp8_enc_stream_indices [OF c i _ _ _ one, of ?ss]
    by (auto simp: vt_config_def zero_enc_config_def vt_env_def surface_size_differs_def vt_surface_def)
  have "vp8_indexed 2 (base_frames (take 3 frames)) (vt_surface 16 80) (frames ! 2)"
    using idx [rule_format, of 2] by (simp flip: numeral_3_eq_3)
  then show ?thesis using c i f by auto
qed

end
