(* ===== verification/Avc_Enc.thy ===== *)
theory Avc_Enc
  imports Video_Defs
begin

text \<open>
  The H.264 encoder of the codec library, \<open>MediaCodec/jni/avcenc.c\<close>: the x264 parameters it chooses,
  and the cutting of x264's NAL units into the units of a frame. x264 and \<open>malloc\<close> are parameters
  (\<open>avc_env\<close>). The lemmas show where the unit loop goes wrong: it looks at the \<open>data\<close> pointer of a
  unit before it has stored one.
\<close>

section \<open>State\<close>

text \<open>The fields of \<open>x264_param_t\<close> the set-up writes; floats are tenths.\<close>

record x264_param =
  xp_width :: int
  xp_height :: int
  xp_fps_num :: int
  xp_fps_den :: int
  xp_vfr_input :: int
  xp_intra_refresh :: int
  xp_keyint_max :: int
  xp_level_idc :: int
  xp_transform_8x8 :: int
  xp_bframe :: int
  xp_cabac :: int
  xp_interlaced :: int
  xp_fake_interlaced :: int
  xp_cqm_flat :: bool
  xp_weightp_none :: bool
  xp_scenecut_threshold :: int
  xp_frame_reference :: int
  xp_b_adapt_none :: bool
  xp_sliced_threads :: int
  xp_me_dia :: bool
  xp_subpel_refine :: int
  xp_mixed_references :: int
  xp_trellis :: int
  xp_weighted_bipred :: int
  xp_repeat_headers :: int
  xp_annexb :: int
  xp_rc_abr :: bool
  xp_rc_bitrate :: int
  xp_rc_aq_mode :: int
  xp_rc_lookahead :: int
  xp_rc_mb_tree :: int
  xp_rc_rate_tolerance_10 :: int
  xp_rc_vbv_buffer_size :: int
  xp_rc_vbv_max_bitrate :: int
  xp_rc_vbv_buffer_init_10 :: int
  xp_slice_max_size :: int
  xp_sync_lookahead :: int
  xp_threads :: int

datatype x264_type = X264_TYPE_AUTO | X264_TYPE_IDR | X264_TYPE_I | X264_TYPE_P

record x264_picture =
  xi_type :: x264_type
  xi_pts :: int
  xi_plane :: "nat \<Rightarrow> byte list option"
  xi_stride :: "nat \<Rightarrow> 32 word"

record x264_pic_out =
  xo_type :: x264_type
  xo_pts :: int

record 'e avc_enc_context =
  ax_x264 :: "'e option"
  ax_param :: "x264_param option"
  ax_picture :: "x264_picture option"

text \<open>
  x264: its default parameters, \<open>x264_encoder_open\<close>, and \<open>x264_encoder_encode\<close> with its result, the
  payloads of the NAL units and the output picture.
\<close>

record 'e avc_env =
  av_default :: x264_param
  av_open :: "x264_param \<Rightarrow> 'e option"
  av_encode :: "'e \<Rightarrow> x264_picture \<Rightarrow> 'e \<times> int \<times> byte list list \<times> x264_pic_out"
  av_malloc_ok :: bool
  av_junk :: frame_junk

type_synonym 'e avc_ctx = "'e avc_enc_context video_enc_context"

section \<open>Set-up\<close>

definition avc_enc_create :: "bool \<Rightarrow> int \<times> 'e avc_enc_context option" where
  "avc_enc_create malloc_ok =
     (if malloc_ok then (0, Some \<lparr> ax_x264 = None, ax_param = None, ax_picture = None \<rparr>) else (- 1, None))"

definition avc_baseline_param :: "x264_param \<Rightarrow> video_enc_config \<Rightarrow> x264_param" where
  "avc_baseline_param param cfg =
     param\<lparr> xp_width := vc_width cfg, xp_height := vc_height cfg, xp_fps_num := vc_framerate_num cfg,
            xp_fps_den := vc_framerate_den cfg, xp_vfr_input := 0, xp_intra_refresh := 0,
            xp_keyint_max := vc_key_interval cfg, xp_level_idc := - 1, xp_transform_8x8 := 0,
            xp_bframe := 0, xp_cabac := 0, xp_interlaced := 0, xp_fake_interlaced := 0,
            xp_cqm_flat := True, xp_weightp_none := True, xp_scenecut_threshold := 0,
            xp_frame_reference := 1, xp_b_adapt_none := True, xp_sliced_threads := 0, xp_me_dia := True,
            xp_subpel_refine := 2, xp_mixed_references := 0, xp_trellis := 0, xp_weighted_bipred := 0,
            xp_repeat_headers := 1, xp_annexb := 1, xp_rc_abr := True, xp_rc_bitrate := vc_bitrate cfg,
            xp_rc_aq_mode := 0, xp_rc_lookahead := 0, xp_rc_mb_tree := 0, xp_rc_rate_tolerance_10 := 1,
            xp_rc_vbv_buffer_size := vc_bitrate cfg, xp_rc_vbv_max_bitrate := vc_bitrate cfg,
            xp_rc_vbv_buffer_init_10 := 9, xp_slice_max_size := 1200 \<rparr>"

definition avc_latency_param :: "x264_param \<Rightarrow> video_enc_config \<Rightarrow> x264_param" where
  "avc_latency_param param cfg =
     (if vc_mode cfg AND ENC_MODE_LOW_LATENCY \<noteq> 0
      then param\<lparr> xp_rc_lookahead := 0, xp_sync_lookahead := 0, xp_bframe := 0, xp_sliced_threads := 1,
                 xp_rc_mb_tree := 0 \<rparr>
      else param)"

text \<open>Two threads up to VGA at 30 frames a second, else four, unless the caller asks for a number.\<close>

definition avc_threads :: "video_enc_config \<Rightarrow> int res" where
  "avc_threads cfg =
     (if vc_max_threads cfg = 0 then
        res_bind (cdiv (vc_framerate_num cfg) (vc_framerate_den cfg)) (\<lambda>fps.
        Inr (if fps * drop_bit 8 (vc_width cfg * vc_height cfg) \<le> 36000 then 2 else 4))
      else Inr (vc_max_threads cfg))"

definition avc_enc_init :: "'e avc_env \<Rightarrow> 'e avc_ctx \<Rightarrow> video_enc_config option \<Rightarrow> (int \<times> 'e avc_ctx) res" where
  "avc_enc_init env ctx cfg =
     res_bind (deref (ve_priv_ctx ctx)) (\<lambda>avc.
     case cfg of
       None \<Rightarrow> Inl Null_Deref
     | Some cfg \<Rightarrow>
         res_bind (avc_threads cfg) (\<lambda>threads.
         let param = (avc_latency_param (avc_baseline_param (av_default env) cfg) cfg)\<lparr> xp_threads := threads \<rparr>;
             avc = avc\<lparr> ax_param := Some param, ax_x264 := av_open env param \<rparr>
         in if av_open env param = None then Inr (- 1, ctx\<lparr> ve_priv_ctx := To avc \<rparr>)
            else Inr (0, ctx\<lparr> ve_priv_ctx := To avc, ve_config := cfg \<rparr>)))"

definition avc_enc_update_framerate :: "'e avc_ctx \<Rightarrow> int \<Rightarrow> int \<times> 'e avc_ctx" where
  "avc_enc_update_framerate ctx frame_rate = (0, ctx)"

definition avc_enc_update_bitrate :: "'e avc_ctx \<Rightarrow> int \<Rightarrow> int \<times> 'e avc_ctx" where
  "avc_enc_update_bitrate ctx bitrate_in_kbps = (0, ctx)"

text \<open>\<open>x264_encoder_close\<close> of a null encoder is x264's own dereference.\<close>

definition avc_enc_destroy :: "'e avc_ctx \<Rightarrow> 'e avc_ctx res" where
  "avc_enc_destroy ctx =
     res_bind (deref (ve_priv_ctx ctx)) (\<lambda>avc.
     if ax_x264 avc = None then Inl Null_Deref else Inr (ctx\<lparr> ve_priv_ctx := Freed \<rparr>))"

section \<open>The unit loop\<close>

text \<open>
  The start code of one payload, with the length left over from the payloads before: it is not reset.
\<close>

definition avc_start_code :: "byte list \<Rightarrow> nat \<Rightarrow> nat res" where
  "avc_start_code p start_code_len =
     res_bind (rd p 0) (\<lambda>b0.
     if b0 \<noteq> 0 then Inr start_code_len else
     res_bind (rd p 1) (\<lambda>b1.
     if b1 \<noteq> 0 then Inr start_code_len else
     res_bind (rd p 2) (\<lambda>b2.
     if b2 = 1 then Inr 3
     else if b2 \<noteq> 0 then Inr start_code_len
     else res_bind (rd p 3) (\<lambda>b3. Inr (if b3 = 1 then 4 else start_code_len)))))"

text \<open>\<open>units[n].data[i]\<close>: the pointer must have been stored, and point into the bitstream area.\<close>

definition unit_data_at :: "video_enc_frame_bs \<Rightarrow> nat \<Rightarrow> nat \<Rightarrow> byte res" where
  "unit_data_at frame n i =
     (case du_data (vf_units frame ! n) of
        None \<Rightarrow> Inl Uninit_Read
      | Some off \<Rightarrow> if off + i < vf_cap frame then Inr (vf_data frame (off + i)) else Inl Oob_Read)"

record nalu_state =
  ns_frame :: video_enc_frame_bs
  ns_start_code_len :: nat
  ns_droppable :: bool

definition set_unit :: "(video_enc_data_unit_bs \<Rightarrow> video_enc_data_unit_bs) \<Rightarrow> video_enc_frame_bs \<Rightarrow> video_enc_frame_bs" where
  "set_unit f frame =
     frame\<lparr> vf_units := (vf_units frame)[vf_num_units frame := f (vf_units frame ! vf_num_units frame)] \<rparr>"

definition nalu_step :: "byte list \<Rightarrow> nalu_state \<Rightarrow> nalu_state res" where
  "nalu_step payload st =
     (let frame = set_unit (\<lambda>u. u\<lparr> du_start_code_len := 0 \<rparr>) (ns_frame st) in
      res_bind (avc_start_code payload (ns_start_code_len st)) (\<lambda>scl.
      let st = st\<lparr> ns_frame := frame, ns_start_code_len := scl \<rparr> in
      if scl = 0 then Inr st
      else
        let frame = set_unit (\<lambda>u. u\<lparr> du_start_code_len := int scl \<rparr>) frame in
        res_bind (unit_data_at frame (vf_num_units frame) scl) (\<lambda>b.
        let nal_ref_idc = b AND 0x60;
            frame = set_unit (\<lambda>u. u\<lparr> du_data := Some (vf_len frame), du_len := int (length payload),
                       du_flags := du_flags u OR (if nal_ref_idc = 0 then VID_ENC_UNIT_DROPPABLE else 0),
                       du_reserved := 0 \<rparr>) frame
        in res_bind (append_data payload (frame\<lparr> vf_num_units := vf_num_units frame + 1 \<rparr>)) (\<lambda>frame.
           Inr (st\<lparr> ns_frame := frame, ns_droppable := ns_droppable st \<and> nal_ref_idc = 0 \<rparr>)))))"

fun nalu_loop :: "byte list list \<Rightarrow> nalu_state \<Rightarrow> nalu_state res" where
  "nalu_loop [] st = Inr st"
| "nalu_loop (p # ps) st = res_bind (nalu_step p st) (nalu_loop ps)"

text \<open>From the frame buffer on: the result and the delivered frames.\<close>

definition avc_pack ::
    "'e avc_env \<Rightarrow> 'e avc_ctx \<Rightarrow> video_surface \<Rightarrow> byte list list \<Rightarrow> x264_pic_out \<Rightarrow> (int \<times> video_enc_frame_bs list) res" where
  "avc_pack env ctx surface nalus pic_out =
     (case video_enc_get_free_frame (av_malloc_ok env) (av_junk env) (ve_config ctx) (length nalus) of
        None \<Rightarrow> Inr (- 1, [])
      | Some frame \<Rightarrow>
          let frame = frame\<lparr>
                vf_flags := (if xo_type pic_out = X264_TYPE_IDR \<or> xo_type pic_out = X264_TYPE_I
                             then vf_flags frame OR VIDEO_FRAME_TYPE_KEY else vf_flags frame),
                vf_pts := xo_pts pic_out, vf_prop := vs_prop surface, vf_opaque := vs_opaque surface,
                vf_len := 0, vf_num_units := 0, vf_codec := CODEC_TYPE_AVC \<rparr>
          in res_bind (nalu_loop nalus \<lparr> ns_frame = frame, ns_start_code_len = 0, ns_droppable = True \<rparr>)
               (\<lambda>st.
                let frame = (ns_frame st)\<lparr> vf_codec_priv := Priv_AVC
                      \<lparr> pa_tl_idx = 0, pa_non_reference = (if ns_droppable st then 1 else 0) \<rparr> \<rparr>
                in Inr (0, if ve_cb_out ctx then [frame] else [])))"

text \<open>The result, the context and the delivered frames. A null \<open>surface\<close> is dereferenced.\<close>

definition avc_enc_encode ::
    "'e avc_env \<Rightarrow> 'e avc_ctx \<Rightarrow> video_surface option \<Rightarrow> int \<Rightarrow> (int \<times> 'e avc_ctx \<times> video_enc_frame_bs list) res" where
  "avc_enc_encode env ctx surface flags =
     (case surface of
        None \<Rightarrow> Inl Null_Deref
      | Some surface \<Rightarrow>
          if surface_size_differs surface (ve_config ctx) then Inr (- 1, ctx, [])
          else if vs_color surface \<noteq> IMG_FMT_I420 then Inr (- 1, ctx, [])
          else
            res_bind (deref (ve_priv_ctx ctx)) (\<lambda>avc.
            let picture = \<lparr> xi_type = (if flags AND VID_ENC_CTRLFLAG_KEY \<noteq> 0 then X264_TYPE_IDR else X264_TYPE_AUTO),
                            xi_pts = vs_pts surface, xi_plane = vs_planes surface, xi_stride = vs_pitch surface \<rparr>
            in case ax_x264 avc of
                 None \<Rightarrow> Inl Null_Deref
               | Some e \<Rightarrow>
                   let (e, rc, nalus, pic_out) = av_encode env e picture;
                       ctx = ctx\<lparr> ve_priv_ctx := To (avc\<lparr> ax_x264 := Some e, ax_picture := Some picture \<rparr>) \<rparr>
                   in if rc < 0 then Inr (- 1, ctx, [])
                      else if nalus = [] then Inr (0, ctx, [])
                      else res_bind (avc_pack env ctx surface nalus pic_out) (\<lambda>(rc, out). Inr (rc, ctx, out))))"

section \<open>Properties\<close>

text \<open>A frame whose unit table is as \<open>malloc\<close> left it.\<close>

definition no_unit_stored :: "video_enc_frame_bs \<Rightarrow> bool" where
  "no_unit_stored frame \<longleftrightarrow> vf_num_units frame = 0 \<and> vf_units frame \<noteq> []
     \<and> du_data (vf_units frame ! 0) = None \<and> vf_len frame = 0"

lemma no_unit_stored_set:
  "no_unit_stored frame \<Longrightarrow> (\<And>u. du_data (f u) = du_data u) \<Longrightarrow> no_unit_stored (set_unit f frame)"
  by (simp add: no_unit_stored_def set_unit_def)

text \<open>On a table without a stored unit one payload either has no start code or ends in the fault.\<close>

lemma nalu_step_none:
  assumes "no_unit_stored (ns_frame st)" "ns_start_code_len st = 0"
  shows "nalu_step payload st =
     res_bind (avc_start_code payload 0) (\<lambda>scl.
       if scl = 0 then Inr (st\<lparr> ns_frame := set_unit (\<lambda>u. u\<lparr> du_start_code_len := 0 \<rparr>) (ns_frame st) \<rparr>)
       else Inl Uninit_Read)"
proof -
  let ?frame = "set_unit (\<lambda>u. u\<lparr> du_start_code_len := 0 \<rparr>) (ns_frame st)"
  have "no_unit_stored ?frame" using assms(1) by (rule no_unit_stored_set) simp
  then have "unit_data_at (set_unit (\<lambda>u. u\<lparr> du_start_code_len := v \<rparr>) ?frame)
      (vf_num_units (set_unit (\<lambda>u. u\<lparr> du_start_code_len := v \<rparr>) ?frame)) i = Inl Uninit_Read" for v i
    using no_unit_stored_set [of ?frame "\<lambda>u. u\<lparr> du_start_code_len := v \<rparr>"]
    by (simp add: no_unit_stored_def unit_data_at_def)
  then show ?thesis
    using assms(2) by (cases "avc_start_code payload 0"; cases st) (auto simp: nalu_step_def Let_def)
qed

lemma nalu_loop_none:
  assumes "nalu_loop ps st = Inr st'" "no_unit_stored (ns_frame st)" "ns_start_code_len st = 0"
  shows "no_unit_stored (ns_frame st')"
  using assms
proof (induction ps arbitrary: st)
  case (Cons p ps)
  let ?st = "st\<lparr> ns_frame := set_unit (\<lambda>u. u\<lparr> du_start_code_len := 0 \<rparr>) (ns_frame st) \<rparr>"
  have "nalu_step p st = Inr ?st"
    using Cons.prems by (cases "nalu_step p st")
      (auto simp: nalu_step_none res_bind_Inr_iff split: if_splits)
  moreover have "no_unit_stored (ns_frame ?st)" using Cons.prems(2) by (simp add: no_unit_stored_set)
  ultimately show ?case using Cons by simp
qed simp

lemma nalu_loop_start_code:
  assumes "no_unit_stored (ns_frame st)" "ns_start_code_len st = 0"
    and "\<forall>p\<in>set ps. avc_start_code p 0 = Inr 0" "avc_start_code q 0 = Inr scl" "scl \<noteq> 0"
  shows "nalu_loop (ps @ q # qs) st = Inl Uninit_Read"
  using assms(1-3)
proof (induction ps arbitrary: st)
  case Nil
  then show ?case using assms(4,5) by (simp add: nalu_step_none)
next
  case (Cons p ps)
  then show ?case by (simp add: nalu_step_none no_unit_stored_set)
qed

lemma free_frame_no_unit:
  assumes "video_enc_get_free_frame ok junk config (length ps) = Some frame" "ps \<noteq> []"
  shows "no_unit_stored (frame\<lparr> vf_flags := a, vf_pts := b, vf_prop := c, vf_opaque := d, vf_len := 0,
      vf_num_units := 0, vf_codec := k \<rparr>)"
  using assms by (auto simp: video_enc_get_free_frame_def no_unit_stored_def nth_append upt_conv_Cons
      split: if_splits)

lemma avc_pack_none:
  assumes "avc_pack env ctx surface nalus pic_out = Inr (rc, out)" "nalus \<noteq> []" "frame \<in> set out"
  shows "vf_num_units frame = 0 \<and> vf_len frame = 0"
proof -
  obtain start where start: "video_enc_get_free_frame (av_malloc_ok env) (av_junk env) (ve_config ctx) (length nalus)
      = Some start"
    using assms(1,3) by (cases "video_enc_get_free_frame (av_malloc_ok env) (av_junk env) (ve_config ctx) (length nalus)")
      (auto simp: avc_pack_def)
  show ?thesis
    using assms(1,3) nalu_loop_none free_frame_no_unit [OF start assms(2)]
    by (fastforce simp: avc_pack_def start res_bind_Inr_iff no_unit_stored_def Let_def split: if_splits)
qed

lemma avc_pack_start_code:
  assumes "av_malloc_ok env" "\<forall>p\<in>set ps. avc_start_code p 0 = Inr 0" "avc_start_code q 0 = Inr scl" "scl \<noteq> 0"
  shows "avc_pack env ctx surface (ps @ q # qs) pic_out = Inl Uninit_Read"
proof -
  obtain start where start: "video_enc_get_free_frame True (av_junk env) (ve_config ctx) (length (ps @ q # qs)) = Some start"
    by (simp add: video_enc_get_free_frame_def)
  have "nalu_loop (ps @ q # qs) \<lparr> ns_frame = start\<lparr> vf_flags := a, vf_pts := b, vf_prop := c, vf_opaque := d,
      vf_len := 0, vf_num_units := 0, vf_codec := k \<rparr>, ns_start_code_len = 0, ns_droppable = True \<rparr> = Inl Uninit_Read"
    for a b c d k
    by (rule nalu_loop_start_code [OF _ _ assms(2-4)]) (simp_all add: free_frame_no_unit [OF start])
  then show ?thesis using start assms(1) by (simp add: avc_pack_def Let_def)
qed


definition at_param :: x264_param where
  "at_param = \<lparr> xp_width = 0, xp_height = 0, xp_fps_num = 25, xp_fps_den = 1, xp_vfr_input = 1,
     xp_intra_refresh = 0, xp_keyint_max = 250, xp_level_idc = - 1, xp_transform_8x8 = 1, xp_bframe = 3,
     xp_cabac = 1, xp_interlaced = 0, xp_fake_interlaced = 0, xp_cqm_flat = True, xp_weightp_none = False,
     xp_scenecut_threshold = 40, xp_frame_reference = 3, xp_b_adapt_none = False, xp_sliced_threads = 0,
     xp_me_dia = False, xp_subpel_refine = 7, xp_mixed_references = 1, xp_trellis = 1, xp_weighted_bipred = 1,
     xp_repeat_headers = 1, xp_annexb = 1, xp_rc_abr = False, xp_rc_bitrate = 0, xp_rc_aq_mode = 1,
     xp_rc_lookahead = 40, xp_rc_mb_tree = 1, xp_rc_rate_tolerance_10 = 10, xp_rc_vbv_buffer_size = 0,
     xp_rc_vbv_max_bitrate = 0, xp_rc_vbv_buffer_init_10 = 9, xp_slice_max_size = 0, xp_sync_lookahead = - 1,
     xp_threads = 0 \<rparr>"

definition at_env :: "unit avc_env" where
  "at_env = \<lparr> av_default = at_param, av_open = (\<lambda>_. Some ()),
     av_encode = (\<lambda>e picture. (e, 0, [[7], [0, 0, 0, 1, 0x65]], \<lparr> xo_type = X264_TYPE_IDR, xo_pts = 3 \<rparr>)),
     av_malloc_ok = True,
     av_junk = \<lparr> fj_unit = (\<lambda>_. \<lparr> du_data = None, du_len = 0, du_start_code_len = 0, du_reserved = 0, du_flags = 0 \<rparr>),
                 fj_data = (\<lambda>_. 0) \<rparr> \<rparr>"

definition at_surface :: video_surface where
  "at_surface = \<lparr> vs_color = IMG_FMT_I420, vs_planes = (\<lambda>_. None), vs_width = (\<lambda>_. 0), vs_height = (\<lambda>_. 0),
     vs_pitch = (\<lambda>_. 0), vs_pts = 0, vs_prop = zero_prop, vs_opaque = 0 \<rparr>"


end
