(* ===== verification/Video_Enc.thy ===== *)
theory Video_Enc
  imports Vp8_Enc Avc_Enc
begin

text \<open>
  The video encoder interface of the codec library, \<open>MediaCodec/jni/videoenc.c\<close>: the function table
  \<open>create_video_encoder\<close> fills in picks the VP8 or the H.264 encoder, and every call is passed on to
  it. A null context is \<open>None\<close>. The lemmas show what a client may rely on whichever codec it asked for,
  and what it may not.
\<close>

section \<open>Contexts\<close>

datatype ('d, 'x) video_encoder = Enc_VP8 "'d vp8_ctx" | Enc_AVC "'x avc_ctx"

type_synonym ('d, 'x) enc_env = "'d vpx_env \<times> 'x avc_env"

text \<open>The first allocation is not checked before it is cleared.\<close>

definition create_video_encoder :: "bool \<Rightarrow> bool \<Rightarrow> VIDEO_CODEC_TYPE \<Rightarrow> ('d, 'x) video_encoder option res" where
  "create_video_encoder ctx_ok priv_ok codec =
     (if codec \<noteq> CODEC_TYPE_VP8 \<and> codec \<noteq> CODEC_TYPE_AVC then Inr None
      else if \<not> ctx_ok then Inl Null_Deref
      else if codec = CODEC_TYPE_VP8 then
        case vp8_enc_create priv_ok of
          (rc, Some vp8) \<Rightarrow>
            Inr (Some (Enc_VP8 \<lparr> ve_priv_ctx = To vp8, ve_config = zero_enc_config, ve_cb_out = False \<rparr>))
        | (rc, None) \<Rightarrow> Inr None
      else
        case avc_enc_create priv_ok of
          (rc, Some avc) \<Rightarrow>
            Inr (Some (Enc_AVC \<lparr> ve_priv_ctx = To avc, ve_config = zero_enc_config, ve_cb_out = False \<rparr>))
        | (rc, None) \<Rightarrow> Inr None)"

definition video_enc_init ::
    "('d, 'x) enc_env \<Rightarrow> ('d, 'x) video_encoder option \<Rightarrow> video_enc_config option
     \<Rightarrow> (int \<times> ('d, 'x) video_encoder option) res" where
  "video_enc_init env ctx config =
     (case ctx of
        None \<Rightarrow> Inr (- 1, None)
      | Some (Enc_VP8 c) \<Rightarrow> res_bind (vp8_enc_init (fst env) c config) (\<lambda>(rc, c). Inr (rc, Some (Enc_VP8 c)))
      | Some (Enc_AVC c) \<Rightarrow> res_bind (avc_enc_init (snd env) c config) (\<lambda>(rc, c). Inr (rc, Some (Enc_AVC c))))"

definition video_enc_set_cb_output ::
    "('d, 'x) video_encoder option \<Rightarrow> bool \<Rightarrow> ('d, 'x) video_encoder option" where
  "video_enc_set_cb_output ctx cb =
     (case ctx of
        None \<Rightarrow> None
      | Some (Enc_VP8 c) \<Rightarrow> Some (Enc_VP8 (c\<lparr> ve_cb_out := cb \<rparr>))
      | Some (Enc_AVC c) \<Rightarrow> Some (Enc_AVC (c\<lparr> ve_cb_out := cb \<rparr>)))"

definition video_enc_update_framerate ::
    "('d, 'x) video_encoder option \<Rightarrow> int \<Rightarrow> int \<times> ('d, 'x) video_encoder option" where
  "video_enc_update_framerate ctx frame_rate =
     (case ctx of
        None \<Rightarrow> (- 1, None)
      | Some (Enc_VP8 c) \<Rightarrow> map_prod id (Some \<circ> Enc_VP8) (vp8_enc_update_framerate c frame_rate)
      | Some (Enc_AVC c) \<Rightarrow> map_prod id (Some \<circ> Enc_AVC) (avc_enc_update_framerate c frame_rate))"

definition video_enc_update_bitrate ::
    "('d, 'x) video_encoder option \<Rightarrow> int \<Rightarrow> int \<times> ('d, 'x) video_encoder option" where
  "video_enc_update_bitrate ctx bitrate_in_kbps =
     (case ctx of
        None \<Rightarrow> (- 1, None)
      | Some (Enc_VP8 c) \<Rightarrow> map_prod id (Some \<circ> Enc_VP8) (vp8_enc_update_bitrate c bitrate_in_kbps)
      | Some (Enc_AVC c) \<Rightarrow> map_prod id (Some \<circ> Enc_AVC) (avc_enc_update_bitrate c bitrate_in_kbps))"

definition video_enc_encode ::
    "('d, 'x) enc_env \<Rightarrow> ('d, 'x) video_encoder option \<Rightarrow> video_surface option \<Rightarrow> int
     \<Rightarrow> (int \<times> ('d, 'x) video_encoder option \<times> video_enc_frame_bs list) res" where
  "video_enc_encode env ctx surface flags =
     (case ctx of
        None \<Rightarrow> Inr (- 1, None, [])
      | Some (Enc_VP8 c) \<Rightarrow>
          res_bind (vp8_enc_encode (fst env) c surface flags) (\<lambda>(rc, c, out). Inr (rc, Some (Enc_VP8 c), out))
      | Some (Enc_AVC c) \<Rightarrow>
          res_bind (avc_enc_encode (snd env) c surface flags) (\<lambda>(rc, c, out). Inr (rc, Some (Enc_AVC c), out)))"

definition video_enc_destroy :: "('d, 'x) video_encoder option \<Rightarrow> unit res" where
  "video_enc_destroy ctx =
     (case ctx of
        None \<Rightarrow> Inr ()
      | Some (Enc_VP8 c) \<Rightarrow> res_bind (vp8_enc_destroy c) (\<lambda>c. Inr ())
      | Some (Enc_AVC c) \<Rightarrow> res_bind (avc_enc_destroy c) (\<lambda>c. Inr ()))"

section \<open>Properties\<close>

text \<open>
  Flushing: \<open>videoenc.h\<close> lets a client pass no surface to flush the encoder, but for either codec and
  in every state the call dereferences the null surface, and only without an encoder it is refused.
\<close>

lemma video_enc_flush_faults:
  "video_enc_encode env ctx None flags = (if ctx = None then Inr (- 1, None, []) else Inl Null_Deref)"
  by (simp add: video_enc_encode_def vp8_enc_encode_def avc_enc_encode_def split: option.split video_encoder.split)

text \<open>The state of an encoder that was created and not initialised with success.\<close>

definition enc_fresh :: "('d, 'x) video_encoder option \<Rightarrow> bool" where
  "enc_fresh ctx \<longleftrightarrow>
     (case ctx of
        None \<Rightarrow> True
      | Some (Enc_VP8 c) \<Rightarrow> \<exists>v. ve_priv_ctx c = To v \<and> v8_image v = None
      | Some (Enc_AVC c) \<Rightarrow> \<exists>a. ve_priv_ctx c = To a \<and> ax_x264 a = None)"

text \<open>
  The interface before initialisation: a created encoder accepts a callback and new rates; encoding
  a surface is refused or a null pointer is used, never a frame delivered; destroying it is possible
  for VP8, while the H.264 encoder closes the x264 handle it does not have.
\<close>

lemma video_enc_uninitialised:
  assumes "create_video_encoder True priv_ok codec = Inr ctx"
    and "ctx1 = snd (video_enc_update_bitrate (snd (video_enc_update_framerate (video_enc_set_cb_output ctx cb) f)) b)"
  shows "enc_fresh ctx1
    \<and> (\<forall>s flags. (\<exists>rc c'. video_enc_encode env ctx1 (Some s) flags = Inr (rc, c', []) \<and> rc = - 1)
         \<or> video_enc_encode env ctx1 (Some s) flags = Inl Null_Deref)
    \<and> (codec = CODEC_TYPE_VP8 \<longrightarrow> video_enc_destroy ctx1 = Inr ())
    \<and> (codec = CODEC_TYPE_AVC \<and> priv_ok \<longrightarrow> video_enc_destroy ctx1 = Inl Null_Deref)"
proof -
  have fresh: "enc_fresh ctx1"
    using assms
    by (auto simp: create_video_encoder_def vp8_enc_create_def avc_enc_create_def video_enc_set_cb_output_def
        video_enc_update_framerate_def video_enc_update_bitrate_def vp8_enc_update_framerate_def
        vp8_enc_update_bitrate_def avc_enc_update_framerate_def avc_enc_update_bitrate_def enc_fresh_def
        split: if_splits)
  then have "(\<exists>rc c'. video_enc_encode env ctx1 (Some s) flags = Inr (rc, c', []) \<and> rc = - 1)
      \<or> video_enc_encode env ctx1 (Some s) flags = Inl Null_Deref" for s flags
    by (auto simp: enc_fresh_def video_enc_encode_def vp8_enc_encode_def avc_enc_encode_def
        split: option.splits video_encoder.splits if_splits)
  moreover have "(codec = CODEC_TYPE_VP8 \<longrightarrow> video_enc_destroy ctx1 = Inr ())
    \<and> (codec = CODEC_TYPE_AVC \<and> priv_ok \<longrightarrow> video_enc_destroy ctx1 = Inl Null_Deref)"
    using assms
    by (auto simp: create_video_encoder_def vp8_enc_create_def avc_enc_create_def video_enc_set_cb_output_def
        video_enc_update_framerate_def video_enc_update_bitrate_def vp8_enc_update_framerate_def
        vp8_enc_update_bitrate_def avc_enc_update_framerate_def avc_enc_update_bitrate_def video_enc_destroy_def
        vp8_enc_destroy_def avc_enc_destroy_def split: if_splits)
  ultimately show ?thesis using fresh by blast
qed

lemma video_enc_uninitialised_witness:
  "\<exists>ctx. create_video_encoder True True CODEC_TYPE_AVC = Inr (ctx :: (unit, unit) video_encoder option)
     \<and> video_enc_destroy (snd (video_enc_update_bitrate (snd (video_enc_update_framerate
           (video_enc_set_cb_output ctx True) 30)) 500)) = Inl Null_Deref"
proof -
  obtain ctx :: "(unit, unit) video_encoder option"
    where c: "create_video_encoder True True CODEC_TYPE_AVC = Inr ctx"
    by (simp add: create_video_encoder_def avc_enc_create_def)
  show ?thesis using video_enc_uninitialised [OF c refl, where cb = True and f = 30 and b = 500] c by auto
qed

end
