(* ===== verification/Video_Dec.thy ===== *)
theory Video_Dec
  imports Video_Defs Vpx_Mem
begin

text \<open>
  The video decoders of the codec library: \<open>MediaCodec/jni/videodec.c\<close> with the VP8 decoder of
  \<open>vp8dec.c\<close> and the H.264 decoder of \<open>avcdec.c\<close>. libvpx, libavcodec and \<open>malloc\<close> are parameters.
  A decoded plane is a pointer into a block of known extent, so that the line-by-line copy into the
  surface of the callback is checked against it. The lemmas show that the surface is the decoded
  img without its padding, and how the VP8 context is released.
\<close>

section \<open>Sending an img\<close>

record plane_src =
  pl_block :: "byte list"
  pl_off :: int

record dec_image =
  di_data :: "nat \<Rightarrow> plane_src"
  di_width :: int
  di_height :: int
  di_linesize :: "nat \<Rightarrow> int"

text \<open>One \<open>memcpy\<close> of a line.\<close>

definition copy_line :: "plane_src \<Rightarrow> int \<Rightarrow> int \<Rightarrow> byte list res" where
  "copy_line src off w =
     (if w < 0 \<or> pl_off src + off < 0 then Inl Oob_Read
      else rd_slice (pl_block src) (nat (pl_off src + off)) (nat w))"

fun copy_lines :: "plane_src \<Rightarrow> int \<Rightarrow> int \<Rightarrow> int \<Rightarrow> nat \<Rightarrow> byte list res" where
  "copy_lines src stride w line 0 = Inr []"
| "copy_lines src stride w line (Suc n) =
     res_bind (copy_line src (line * stride) w) (\<lambda>bs.
     res_bind (copy_lines src stride w (line + 1) n) (\<lambda>rest. Inr (bs @ rest)))"

definition plane_width :: "nat \<Rightarrow> int \<Rightarrow> int" where
  "plane_width plane width = (if plane \<noteq> 0 then drop_bit 1 (width + 1) else width)"

definition plane_height :: "nat \<Rightarrow> int \<Rightarrow> int" where
  "plane_height plane height = (if plane \<noteq> 0 then drop_bit 1 (height + 1) else height)"

text \<open>
  The loop over the planes: \<open>None\<close> when an allocation fails and the surface is freed again. The
  \<open>k\<close>-th allocation of a call succeeds if \<open>alloc k\<close>.
\<close>

fun send_planes :: "(nat \<Rightarrow> bool) \<Rightarrow> dec_image \<Rightarrow> nat list \<Rightarrow> video_surface \<Rightarrow> video_surface option res" where
  "send_planes alloc img [] surface = Inr (Some surface)"
| "send_planes alloc img (plane # planes) surface =
     (let w = plane_width plane (di_width img);
          h = plane_height plane (di_height img);
          surface = surface\<lparr> vs_width := (vs_width surface)(plane := word_of_int w),
                             vs_height := (vs_height surface)(plane := word_of_int h),
                             vs_pitch := (vs_pitch surface)(plane := word_of_int w) \<rparr>
      in if \<not> alloc (Suc plane) then Inr None
         else res_bind (copy_lines (di_data img plane) (di_linesize img plane) w 0 (nat h)) (\<lambda>bs.
              send_planes alloc img planes
                (surface\<lparr> vs_planes := (vs_planes surface)(plane := Some bs) \<rparr>)))"

definition empty_surface :: video_surface where
  "empty_surface = \<lparr> vs_color = IMG_FMT_NULL, vs_planes = (\<lambda>_. None), vs_width = (\<lambda>_. 0), vs_height = (\<lambda>_. 0),
     vs_pitch = (\<lambda>_. 0), vs_pts = 0, vs_prop = zero_prop, vs_opaque = 0 \<rparr>"

text \<open>The surface the callback receives, if any; the result of the first \<open>malloc\<close> is not checked.\<close>

definition video_dec_send_image ::
    "bool \<Rightarrow> (nat \<Rightarrow> bool) \<Rightarrow> dec_image \<Rightarrow> int \<Rightarrow> int \<Rightarrow> video_surface option res" where
  "video_dec_send_image cb_out alloc img pts opaque =
     (if \<not> cb_out then Inr None
      else if \<not> alloc 0 then Inl Null_Deref
      else send_planes alloc img [0, 1, 2]
             (empty_surface\<lparr> vs_color := IMG_FMT_I420, vs_pts := pts, vs_opaque := opaque \<rparr>))"

section \<open>Contexts\<close>

record 'p video_dec_context =
  vd_priv_ctx :: "'p ptr"
  vd_cb_out :: bool

text \<open>The VP8 context lives in a block of \<open>vpx_malloc\<close>; 64 is its size with 64-bit pointers.\<close>

record 'd vp8_dec_context =
  d8_addr :: nat
  d8_decoder :: "'d option"

record ('c, 'f) avc_dec_context =
  da_avcodec :: bool
  da_avcodec_ctx :: "'c option"
  da_avframe :: "'f option"

definition sizeof_vp8_dec_context :: nat where "sizeof_vp8_dec_context = 64"

text \<open>libvpx's decoder: initialisation, one decode with its error flag, the next image and its format.\<close>

record 'd vp8_dec_env =
  e8_init :: "int \<Rightarrow> 'd option"
  e8_decode :: "'d \<Rightarrow> byte list option \<Rightarrow> int \<Rightarrow> 'd \<times> bool"
  e8_get_frame :: "'d \<Rightarrow> 'd \<times> (bool \<times> dec_image) option"
  e8_alloc :: "nat \<Rightarrow> bool"

text \<open>
  libavcodec: finding the decoder, its context, opening it, a frame; sending a packet, and receiving
  a frame with its time stamp.
\<close>

record ('c, 'f) avc_dec_env =
  ea_find :: bool
  ea_alloc_context :: "'c option"
  ea_open :: "'c \<Rightarrow> 'c \<times> int"
  ea_frame_alloc :: "'f option"
  ea_send_packet :: "'c \<Rightarrow> byte list option \<Rightarrow> int \<Rightarrow> int \<Rightarrow> 'c \<times> int"
  ea_receive_frame :: "'c \<Rightarrow> 'f \<Rightarrow> 'c \<times> 'f \<times> (dec_image \<times> int) option"
  ea_alloc :: "nat \<Rightarrow> bool"

section \<open>The VP8 decoder\<close>

definition vp8_dec_create :: "malloc_fn \<Rightarrow> heap \<Rightarrow> int \<times> 'd vp8_dec_context option \<times> heap" where
  "vp8_dec_create malloc h =
     (case vpx_malloc malloc sizeof_vp8_dec_context h of
        (None, h) \<Rightarrow> (- 1, None, h)
      | (Some x, h) \<Rightarrow> (0, Some \<lparr> d8_addr = x, d8_decoder = None \<rparr>, h))"

definition vp8_dec_init ::
    "'d vp8_dec_env \<Rightarrow> 'd vp8_dec_context video_dec_context \<Rightarrow> int \<Rightarrow> (int \<times> 'd vp8_dec_context video_dec_context) res" where
  "vp8_dec_init env ctx max_threads =
     res_bind (deref (vd_priv_ctx ctx)) (\<lambda>vp8.
       Inr (if e8_init env max_threads = None then - 1 else 0,
            ctx\<lparr> vd_priv_ctx := To (vp8\<lparr> d8_decoder := e8_init env max_threads \<rparr>) \<rparr>))"

text \<open>
  The flush (a null frame of length 0) and a frame go to the same libvpx call, which answers an
  uninitialised context with an error.
\<close>

definition vp8_dec_decode ::
    "'d vp8_dec_env \<Rightarrow> 'd vp8_dec_context video_dec_context \<Rightarrow> byte list option \<Rightarrow> int \<Rightarrow> int \<Rightarrow> int
     \<Rightarrow> (int \<times> 'd vp8_dec_context video_dec_context \<times> video_surface option) res" where
  "vp8_dec_decode env ctx frame len pts opaque =
     res_bind (deref (vd_priv_ctx ctx)) (\<lambda>vp8.
     case d8_decoder vp8 of
       None \<Rightarrow> Inr (- 1, ctx, None)
     | Some d \<Rightarrow>
         let (d, err) = e8_decode env d frame len in
         if err then Inr (- 1, ctx\<lparr> vd_priv_ctx := To (vp8\<lparr> d8_decoder := Some d \<rparr>) \<rparr>, None)
         else
           let (d, got) = e8_get_frame env d;
               ctx = ctx\<lparr> vd_priv_ctx := To (vp8\<lparr> d8_decoder := Some d \<rparr>) \<rparr>
           in (case got of
                 None \<Rightarrow> Inr (0, ctx, None)
               | Some (i420, img) \<Rightarrow>
                   if \<not> i420 then Inr (- 1, ctx, None)
                   else res_bind (video_dec_send_image (vd_cb_out ctx) (e8_alloc env) img pts opaque)
                          (\<lambda>out. Inr (0, ctx, out))))"

text \<open>The context from \<open>vpx_malloc\<close> goes to plain \<open>free\<close>.\<close>

definition vp8_dec_destroy ::
    "'d vp8_dec_context video_dec_context \<Rightarrow> heap \<Rightarrow> ('d vp8_dec_context video_dec_context \<times> heap) res" where
  "vp8_dec_destroy ctx h =
     (if vd_priv_ctx ctx = Null then Inr (ctx, h)
      else res_bind (deref (vd_priv_ctx ctx)) (\<lambda>vp8.
           res_bind (c_free (d8_addr vp8) h) (\<lambda>h. Inr (ctx\<lparr> vd_priv_ctx := Freed \<rparr>, h))))"

section \<open>The H.264 decoder\<close>

definition avc_dec_create :: "bool \<Rightarrow> int \<times> ('c, 'f) avc_dec_context option" where
  "avc_dec_create malloc_ok =
     (if malloc_ok then (0, Some \<lparr> da_avcodec = False, da_avcodec_ctx = None, da_avframe = None \<rparr>) else (- 1, None))"

definition avc_dec_init ::
    "('c, 'f) avc_dec_env \<Rightarrow> ('c, 'f) avc_dec_context video_dec_context \<Rightarrow> int
     \<Rightarrow> (int \<times> ('c, 'f) avc_dec_context video_dec_context) res" where
  "avc_dec_init env ctx max_threads =
     res_bind (deref (vd_priv_ctx ctx)) (\<lambda>avc.
     let put = (\<lambda>avc. ctx\<lparr> vd_priv_ctx := To avc \<rparr>); avc = avc\<lparr> da_avcodec := ea_find env \<rparr> in
     if \<not> ea_find env then Inr (- 1, put avc)
     else
       let avc = avc\<lparr> da_avcodec_ctx := ea_alloc_context env \<rparr> in
       (case ea_alloc_context env of
          None \<Rightarrow> Inr (- 1, put avc)
        | Some c \<Rightarrow>
            let (c, rc) = ea_open env c; avc = avc\<lparr> da_avcodec_ctx := Some c \<rparr> in
            if rc < 0 then Inr (- 1, put avc)
            else
              let avc = avc\<lparr> da_avframe := ea_frame_alloc env \<rparr> in
              Inr (if ea_frame_alloc env = None then - 1 else 0, put avc)))"

text \<open>
  The result of sending is only logged: whatever it is, the next frame is asked for, and the result is
  0. A context that was not opened is libavcodec's dereference.
\<close>

definition avc_dec_decode ::
    "('c, 'f) avc_dec_env \<Rightarrow> ('c, 'f) avc_dec_context video_dec_context \<Rightarrow> byte list option \<Rightarrow> int \<Rightarrow> int \<Rightarrow> int
     \<Rightarrow> (int \<times> ('c, 'f) avc_dec_context video_dec_context \<times> video_surface option) res" where
  "avc_dec_decode env ctx frame len pts opaque =
     res_bind (deref (vd_priv_ctx ctx)) (\<lambda>avc.
     case (da_avcodec_ctx avc, da_avframe avc) of
       (Some c, Some f) \<Rightarrow>
         let (c, res) = ea_send_packet env c frame len pts;
             (c, f, got) = ea_receive_frame env c f;
             ctx = ctx\<lparr> vd_priv_ctx := To (avc\<lparr> da_avcodec_ctx := Some c, da_avframe := Some f \<rparr>) \<rparr>
         in (case got of
               None \<Rightarrow> Inr (0, ctx, None)
             | Some (img, frame_pts) \<Rightarrow>
                 res_bind (video_dec_send_image (vd_cb_out ctx) (ea_alloc env) img frame_pts opaque)
                   (\<lambda>out. Inr (0, ctx, out)))
     | _ \<Rightarrow> Inl Null_Deref)"

definition avc_dec_destroy ::
    "('c, 'f) avc_dec_context video_dec_context \<Rightarrow> ('c, 'f) avc_dec_context video_dec_context res" where
  "avc_dec_destroy ctx =
     (if vd_priv_ctx ctx = Null then Inr ctx
      else res_bind (deref (vd_priv_ctx ctx)) (\<lambda>_. Inr (ctx\<lparr> vd_priv_ctx := Freed \<rparr>)))"

section \<open>The interface\<close>

text \<open>The function table of \<open>create_video_decoder\<close> picks the codec; a null context is \<open>None\<close>.\<close>

datatype ('d, 'c, 'f) video_decoder =
    Dec_VP8 "'d vp8_dec_context video_dec_context"
  | Dec_AVC "('c, 'f) avc_dec_context video_dec_context"

type_synonym ('d, 'c, 'f) dec_env = "'d vp8_dec_env \<times> ('c, 'f) avc_dec_env"

definition create_video_decoder ::
    "malloc_fn \<Rightarrow> bool \<Rightarrow> bool \<Rightarrow> VIDEO_CODEC_TYPE \<Rightarrow> heap \<Rightarrow> (('d, 'c, 'f) video_decoder option \<times> heap) res" where
  "create_video_decoder malloc ctx_ok av_ok codec h =
     (if codec \<noteq> CODEC_TYPE_VP8 \<and> codec \<noteq> CODEC_TYPE_AVC then Inr (None, h)
      else if \<not> ctx_ok then Inl Null_Deref
      else if codec = CODEC_TYPE_VP8 then
        case vp8_dec_create malloc h of
          (rc, Some vp8, h) \<Rightarrow> Inr (Some (Dec_VP8 \<lparr> vd_priv_ctx = To vp8, vd_cb_out = False \<rparr>), h)
        | (rc, None, h) \<Rightarrow> Inr (None, h)
      else
        case avc_dec_create av_ok of
          (rc, Some avc) \<Rightarrow> Inr (Some (Dec_AVC \<lparr> vd_priv_ctx = To avc, vd_cb_out = False \<rparr>), h)
        | (rc, None) \<Rightarrow> Inr (None, h))"

definition video_dec_init ::
    "('d, 'c, 'f) dec_env \<Rightarrow> ('d, 'c, 'f) video_decoder option \<Rightarrow> int \<Rightarrow> (int \<times> ('d, 'c, 'f) video_decoder option) res" where
  "video_dec_init env ctx max_threads =
     (case ctx of
        None \<Rightarrow> Inr (- 1, None)
      | Some (Dec_VP8 c) \<Rightarrow> res_bind (vp8_dec_init (fst env) c max_threads) (\<lambda>(rc, c). Inr (rc, Some (Dec_VP8 c)))
      | Some (Dec_AVC c) \<Rightarrow> res_bind (avc_dec_init (snd env) c max_threads) (\<lambda>(rc, c). Inr (rc, Some (Dec_AVC c))))"

definition video_dec_set_cb_output ::
    "('d, 'c, 'f) video_decoder option \<Rightarrow> bool \<Rightarrow> ('d, 'c, 'f) video_decoder option" where
  "video_dec_set_cb_output ctx cb =
     (case ctx of
        None \<Rightarrow> None
      | Some (Dec_VP8 c) \<Rightarrow> Some (Dec_VP8 (c\<lparr> vd_cb_out := cb \<rparr>))
      | Some (Dec_AVC c) \<Rightarrow> Some (Dec_AVC (c\<lparr> vd_cb_out := cb \<rparr>)))"

definition video_dec_decode ::
    "('d, 'c, 'f) dec_env \<Rightarrow> ('d, 'c, 'f) video_decoder option \<Rightarrow> byte list option \<Rightarrow> int \<Rightarrow> int \<Rightarrow> int \<Rightarrow> int
     \<Rightarrow> (int \<times> ('d, 'c, 'f) video_decoder option \<times> video_surface option) res" where
  "video_dec_decode env ctx frame len flags pts opaque =
     (case ctx of
        None \<Rightarrow> Inr (- 1, None, None)
      | Some (Dec_VP8 c) \<Rightarrow>
          res_bind (vp8_dec_decode (fst env) c frame len pts opaque) (\<lambda>(rc, c, out). Inr (rc, Some (Dec_VP8 c), out))
      | Some (Dec_AVC c) \<Rightarrow>
          res_bind (avc_dec_decode (snd env) c frame len pts opaque) (\<lambda>(rc, c, out). Inr (rc, Some (Dec_AVC c), out)))"

text \<open>After the codec's \<open>destroy\<close> the context itself, from plain \<open>malloc\<close>, is freed.\<close>

definition video_dec_destroy :: "('d, 'c, 'f) video_decoder option \<Rightarrow> heap \<Rightarrow> heap res" where
  "video_dec_destroy ctx h =
     (case ctx of
        None \<Rightarrow> Inr h
      | Some (Dec_VP8 c) \<Rightarrow> res_bind (vp8_dec_destroy c h) (\<lambda>(c, h). Inr h)
      | Some (Dec_AVC c) \<Rightarrow> res_bind (avc_dec_destroy c) (\<lambda>c. Inr h))"

section \<open>Properties\<close>

text \<open>The pixel of an image, at column \<open>x\<close> of line \<open>y\<close> of a plane.\<close>

definition image_pixel :: "dec_image \<Rightarrow> nat \<Rightarrow> nat \<Rightarrow> nat \<Rightarrow> byte" where
  "image_pixel img plane x y =
     pl_block (di_data img plane) ! nat (pl_off (di_data img plane) + int y * di_linesize img plane + int x)"

text \<open>Every line of every plane lies inside its block.\<close>

definition image_ok :: "dec_image \<Rightarrow> bool" where
  "image_ok img \<longleftrightarrow> 0 \<le> di_width img \<and> 0 \<le> di_height img \<and> (\<forall>plane<3. \<forall>y. 0 \<le> y \<and> y < plane_height plane (di_height img) \<longrightarrow>
     0 \<le> pl_off (di_data img plane) + y * di_linesize img plane
     \<and> pl_off (di_data img plane) + y * di_linesize img plane + plane_width plane (di_width img)
         \<le> int (length (pl_block (di_data img plane))))"

lemma copy_lines_ok:
  assumes "0 \<le> w"
    and "\<And>y. line \<le> y \<Longrightarrow> y < line + int n \<Longrightarrow> 0 \<le> pl_off src + y * stride
           \<and> pl_off src + y * stride + w \<le> int (length (pl_block src))"
  shows "\<exists>bs. copy_lines src stride w line n = Inr bs \<and> length bs = n * nat w
    \<and> (\<forall>y<n. \<forall>x<nat w. bs ! (y * nat w + x) = pl_block src ! nat (pl_off src + (line + int y) * stride + int x))"
  using assms(2)
proof (induction n arbitrary: line)
  case 0
  then show ?case by simp
next
  case (Suc n)
  let ?at = "pl_off src + line * stride"
  have in0: "0 \<le> ?at" "?at + w \<le> int (length (pl_block src))" using Suc.prems [of line] by simp_all
  then have cp: "copy_line src (line * stride) w = Inr (slice_of (pl_block src) (nat ?at) (nat w))"
    using assms(1) by (simp add: copy_line_def rd_slice_def nat_le_iff flip: nat_add_distrib)
  have len: "length (slice_of (pl_block src) (nat ?at) (nat w)) = nat w"
    using in0 assms(1) by (simp add: nat_le_iff flip: nat_add_distrib)
  obtain bs where bs: "copy_lines src stride w (line + 1) n = Inr bs" "length bs = n * nat w"
    "\<And>y x. y < n \<Longrightarrow> x < nat w \<Longrightarrow>
       bs ! (y * nat w + x) = pl_block src ! nat (pl_off src + (line + 1 + int y) * stride + int x)"
    using Suc.IH [of "line + 1"] Suc.prems by auto
  have "(slice_of (pl_block src) (nat ?at) (nat w) @ bs) ! (y * nat w + x)
      = pl_block src ! nat (pl_off src + (line + int y) * stride + int x)" if "y < Suc n" "x < nat w" for y x
  proof (cases y)
    case 0
    have "nat (?at + int x) = nat ?at + x" using in0 by simp
    then show ?thesis using 0 that len in0 by (simp add: nth_append slice_of_def)
  next
    case (Suc z)
    then show ?thesis using that bs(3) [of z x] len
      by (simp add: nth_append add.assoc algebra_simps)
  qed
  then show ?case using cp bs(1,2) len by simp
qed

lemma plane_size_nonneg: "0 \<le> v \<Longrightarrow> 0 \<le> plane_width p v" "0 \<le> v \<Longrightarrow> 0 \<le> plane_height p v"
  by (simp_all add: plane_width_def plane_height_def)

lemma send_planes_ok:
  assumes "image_ok img" "\<forall>k. alloc k" "distinct planes" "set planes \<subseteq> {..<3}"
  shows "\<exists>s. send_planes alloc img planes surface = Inr (Some s)
    \<and> vs_color s = vs_color surface \<and> vs_pts s = vs_pts surface \<and> vs_opaque s = vs_opaque surface
    \<and> (\<forall>p. p \<notin> set planes \<longrightarrow> vs_planes s p = vs_planes surface p \<and> vs_width s p = vs_width surface p
         \<and> vs_height s p = vs_height surface p \<and> vs_pitch s p = vs_pitch surface p)
    \<and> (\<forall>p\<in>set planes. let w = nat (plane_width p (di_width img)); h = nat (plane_height p (di_height img)) in
         vs_width s p = word_of_int (plane_width p (di_width img))
         \<and> vs_height s p = word_of_int (plane_height p (di_height img)) \<and> vs_pitch s p = vs_width s p
         \<and> (\<exists>bs. vs_planes s p = Some bs \<and> length bs = h * w
              \<and> (\<forall>y<h. \<forall>x<w. bs ! (y * w + x) = image_pixel img p x y)))"
  using assms(3,4)
proof (induction planes arbitrary: surface)
  case Nil
  then show ?case by simp
next
  case (Cons p ps)
  let ?w = "plane_width p (di_width img)" and ?h = "plane_height p (di_height img)"
  have nn: "0 \<le> ?w" "0 \<le> ?h" using assms(1) by (simp_all add: image_ok_def plane_size_nonneg)
  have rows: "0 \<le> pl_off (di_data img p) + y * di_linesize img p
      \<and> pl_off (di_data img p) + y * di_linesize img p + ?w \<le> int (length (pl_block (di_data img p)))"
    if "0 \<le> y" "y < 0 + int (nat ?h)" for y
    using assms(1) Cons.prems(2) that nn(2) by (simp add: image_ok_def)
  have "\<exists>bs. copy_lines (di_data img p) (di_linesize img p) ?w 0 (nat ?h) = Inr bs \<and> length bs = nat ?h * nat ?w
      \<and> (\<forall>y<nat ?h. \<forall>x<nat ?w. bs ! (y * nat ?w + x)
           = pl_block (di_data img p) ! nat (pl_off (di_data img p) + (0 + int y) * di_linesize img p + int x))"
    by (rule copy_lines_ok [OF nn(1)]) (rule rows)
  then obtain bs where bs: "copy_lines (di_data img p) (di_linesize img p) ?w 0 (nat ?h) = Inr bs"
    "length bs = nat ?h * nat ?w" "\<forall>y<nat ?h. \<forall>x<nat ?w. bs ! (y * nat ?w + x) = image_pixel img p x y"
    by (auto simp: image_pixel_def)
  let ?s = "surface\<lparr> vs_width := (vs_width surface)(p := word_of_int ?w), vs_height := (vs_height surface)(p := word_of_int ?h),
     vs_pitch := (vs_pitch surface)(p := word_of_int ?w), vs_planes := (vs_planes surface)(p := Some bs) \<rparr>"
  have step: "send_planes alloc img (p # ps) surface = send_planes alloc img ps ?s"
    using assms(2) bs(1) by (simp add: Let_def)
  show ?case
    unfolding step using Cons.IH [of ?s] Cons.prems bs(2,3) by (fastforce simp: Let_def)
qed

lemma send_image_planes:
  assumes "image_ok img" "\<forall>k. alloc k"
  shows "\<exists>s. video_dec_send_image True alloc img pts opaque = Inr (Some s)
    \<and> vs_color s = IMG_FMT_I420 \<and> vs_pts s = pts \<and> vs_opaque s = opaque
    \<and> (\<forall>p<3. let w = nat (plane_width p (di_width img)); h = nat (plane_height p (di_height img)) in
         vs_width s p = word_of_int (plane_width p (di_width img))
         \<and> vs_height s p = word_of_int (plane_height p (di_height img)) \<and> vs_pitch s p = vs_width s p
         \<and> (\<exists>bs. vs_planes s p = Some bs \<and> length bs = h * w
              \<and> (\<forall>y<h. \<forall>x<w. bs ! (y * w + x) = image_pixel img p x y)))"
proof -
  let ?s = "empty_surface\<lparr> vs_color := IMG_FMT_I420, vs_pts := pts, vs_opaque := opaque \<rparr>"
  have planes: "set [0, 1, 2] = {..<(3 :: nat)}" by auto
  have "video_dec_send_image True alloc img pts opaque = send_planes alloc img [0, 1, 2] ?s"
    using assms(2) by (simp only: video_dec_send_image_def if_True if_False not_True_eq_False not_False_eq_True)
  moreover have "distinct [0, 1, 2 :: nat]" "set [0, 1, 2] \<subseteq> {..<(3 :: nat)}" using planes by auto
  note send_planes_ok [OF assms this, of ?s]
  ultimately show ?thesis unfolding planes by auto
qed

text \<open>
  C29: a decoded image reaches the callback as the image without its line padding: three tight planes of
  the full size and of half the size rounded up, each pixel the one of the decoder's plane at the same
  place, for every line size (also negative ones) that keeps the lines inside the decoder's blocks, and
  without an access outside them.
\<close>

theorem video_dec_surface_is_image:
  assumes "image_ok img" "\<forall>k. alloc k"
  shows "\<exists>s. video_dec_send_image True alloc img pts opaque = Inr (Some s)
    \<and> vs_color s = IMG_FMT_I420 \<and> vs_pts s = pts \<and> vs_opaque s = opaque
    \<and> (\<forall>p<3. let w = nat (plane_width p (di_width img)); h = nat (plane_height p (di_height img)) in
         vs_width s p = word_of_int (plane_width p (di_width img))
         \<and> vs_height s p = word_of_int (plane_height p (di_height img)) \<and> vs_pitch s p = vs_width s p
         \<and> (\<exists>bs. vs_planes s p = Some bs \<and> length bs = h * w
              \<and> (\<forall>y<h. \<forall>x<w. bs ! (y * w + x) = image_pixel img p x y)))"
  using assms by (rule send_image_planes)

definition vd_image :: dec_image where
  "vd_image = \<lparr> di_data = (\<lambda>p. \<lparr> pl_block = [1, 2, 3, 4, 5, 6, 7, 8], pl_off = (if p = 0 then 4 else 0) \<rparr>),
     di_width = 3, di_height = 2, di_linesize = (\<lambda>p. if p = 0 then - 4 else 4) \<rparr>"

lemma vd_image_ok: "image_ok vd_image"
proof -
  have "y = 0 \<or> y = 1" if "0 \<le> y" "y < plane_height p 2" for p and y :: int
    using that by (auto simp: plane_height_def split: if_splits)
  then show ?thesis
    unfolding image_ok_def by (fastforce simp: vd_image_def plane_width_def)
qed

theorem video_dec_surface_is_image_witness:
  "\<exists>s bs. video_dec_send_image True (\<lambda>_. True) vd_image 40 9 = Inr (Some s) \<and> vs_planes s 0 = Some bs
     \<and> length bs = 6 \<and> bs ! 0 = 5 \<and> bs ! 3 = 1"
proof -
  obtain s where s: "video_dec_send_image True (\<lambda>_. True) vd_image 40 9 = Inr (Some s)"
    and p: "\<forall>p<3. let w = nat (plane_width p (di_width vd_image)); h = nat (plane_height p (di_height vd_image)) in
         vs_width s p = word_of_int (plane_width p (di_width vd_image))
         \<and> vs_height s p = word_of_int (plane_height p (di_height vd_image)) \<and> vs_pitch s p = vs_width s p
         \<and> (\<exists>bs. vs_planes s p = Some bs \<and> length bs = h * w
              \<and> (\<forall>y<h. \<forall>x<w. bs ! (y * w + x) = image_pixel vd_image p x y))"
    using video_dec_surface_is_image [OF vd_image_ok, of "\<lambda>_. True" 40 9] by auto
  have d: "nat (plane_width 0 (di_width vd_image)) = 3" "nat (plane_height 0 (di_height vd_image)) = 2"
    by (simp_all add: vd_image_def plane_width_def plane_height_def)
  obtain bs where "vs_planes s 0 = Some bs" "length bs = 6"
    and px: "\<And>y x. y < 2 \<Longrightarrow> x < 3 \<Longrightarrow> bs ! (y * 3 + x) = image_pixel vd_image 0 x y"
    using p [rule_format, of 0] unfolding d Let_def by auto
  then show ?thesis using s px [of 0 0] px [of 1 0] by (simp add: image_pixel_def vd_image_def)
qed

text \<open>The calls a client makes between creation and destruction.\<close>

datatype dec_op = Op_Init int | Op_Cb bool | Op_Decode "byte list option" int int int int

fun dec_run :: "('d, 'c, 'f) dec_env \<Rightarrow> dec_op list \<Rightarrow> ('d, 'c, 'f) video_decoder option
    \<Rightarrow> (('d, 'c, 'f) video_decoder option \<times> video_surface list) res" where
  "dec_run env [] d = Inr (d, [])"
| "dec_run env (Op_Init n # ops) d = res_bind (video_dec_init env d n) (\<lambda>(rc, d). dec_run env ops d)"
| "dec_run env (Op_Cb cb # ops) d = dec_run env ops (video_dec_set_cb_output d cb)"
| "dec_run env (Op_Decode frame len flags pts opaque # ops) d =
     res_bind (video_dec_decode env d frame len flags pts opaque) (\<lambda>(rc, d, out).
     res_bind (dec_run env ops d) (\<lambda>(d, outs). Inr (d, case_option [] (\<lambda>s. [s]) out @ outs)))"

definition vp8_dec_at :: "nat \<Rightarrow> ('d, 'c, 'f) video_decoder option \<Rightarrow> bool" where
  "vp8_dec_at x d \<longleftrightarrow> (\<exists>c vp8. d = Some (Dec_VP8 c) \<and> vd_priv_ctx c = To vp8 \<and> d8_addr vp8 = x)"

lemma vp8_dec_at_run:
  "dec_run env ops d = Inr (d', outs) \<Longrightarrow> vp8_dec_at x d \<Longrightarrow> vp8_dec_at x d'"
proof (induction ops arbitrary: d outs)
  case (Cons op ops)
  show ?case
  proof (cases op)
    case (Op_Init n)
    then show ?thesis using Cons
      by (fastforce simp: vp8_dec_at_def video_dec_init_def vp8_dec_init_def)
  next
    case (Op_Cb cb)
    then show ?thesis using Cons by (fastforce simp: vp8_dec_at_def video_dec_set_cb_output_def)
  next
    case (Op_Decode frame len flags pts opaque)
    obtain rc d1 out outs1 where d1: "video_dec_decode env d frame len flags pts opaque = Inr (rc, d1, out)"
      "dec_run env ops d1 = Inr (d', outs1)"
      using Cons.prems(1) by (auto simp: Op_Decode res_bind_Inr_iff)
    have "vp8_dec_at x d1"
      using d1(1) Cons.prems(2)
      by (auto simp: vp8_dec_at_def video_dec_decode_def vp8_dec_decode_def res_bind_Inr_iff Let_def
          split: option.splits prod.splits if_splits)
    then show ?thesis using Cons.IH d1(2) by blast
  qed
qed simp

text \<open>
  A VP8 decoder cannot be destroyed correctly: whatever calls it has seen, \<open>video_dec_destroy\<close>
  hands its context, an inner pointer of the \<open>vpx_malloc\<close> block, to \<open>free\<close>. An H.264 decoder is
  destroyed without a fault.
\<close>

lemma video_dec_destroy_frees:
  fixes env :: "('d, 'c, 'f) dec_env" and d :: "('d, 'c, 'f) video_decoder"
  assumes "malloc_documented malloc" "create_video_decoder malloc True av_ok codec h = Inr (Some d, h1)"
    and "dec_run env ops (Some d) = Inr (d', outs)"
  shows "(codec = CODEC_TYPE_VP8 \<longrightarrow> video_dec_destroy d' h1 = Inl Invalid_Free)
    \<and> (codec = CODEC_TYPE_AVC \<and> ops = [] \<longrightarrow> video_dec_destroy d' h1 = Inr h1)"
proof (intro conjI impI)
  assume "codec = CODEC_TYPE_VP8"
  then obtain x where x: "vpx_malloc malloc sizeof_vp8_dec_context h = (Some x, h1)" "vp8_dec_at x (Some d)"
    using assms(2) by (auto simp: create_video_decoder_def vp8_dec_create_def vp8_dec_at_def split: option.splits prod.splits)
  have "c_free x h1 = Inl Invalid_Free"
    by (rule plain_free_invalid [OF assms(1) _ _ x(1)]) (simp_all add: sizeof_vp8_dec_context_def)
  moreover have "vp8_dec_at x d'" using vp8_dec_at_run [OF assms(3) x(2)] .
  ultimately show "video_dec_destroy d' h1 = Inl Invalid_Free"
    by (auto simp: vp8_dec_at_def video_dec_destroy_def vp8_dec_destroy_def)
next
  assume "codec = CODEC_TYPE_AVC \<and> ops = []"
  then show "video_dec_destroy d' h1 = Inr h1"
    using assms(2,3)
    by (auto simp: create_video_decoder_def avc_dec_create_def video_dec_destroy_def avc_dec_destroy_def
        split: if_splits)
qed

definition vd_env :: "(unit, unit, unit) dec_env" where
  "vd_env = (\<lparr> e8_init = (\<lambda>_. Some ()), e8_decode = (\<lambda>d f n. (d, False)), e8_get_frame = (\<lambda>d. (d, Some (True, vd_image))),
               e8_alloc = (\<lambda>_. True) \<rparr>,
             \<lparr> ea_find = True, ea_alloc_context = Some (), ea_open = (\<lambda>c. (c, 0)), ea_frame_alloc = Some (),
               ea_send_packet = (\<lambda>c f n p. (c, - 11)), ea_receive_frame = (\<lambda>c f. (c, f, Some (vd_image, 77))),
               ea_alloc = (\<lambda>_. True) \<rparr>)"

lemma video_dec_destroy_frees_witness:
  "\<exists>d h1 d' outs. create_video_decoder bump_malloc True True CODEC_TYPE_VP8 \<lparr> hp_blocks = [], hp_cell = (\<lambda>_. 0) \<rparr> = Inr (Some d, h1)
     \<and> dec_run vd_env [Op_Init 1, Op_Decode (Some [1]) 1 0 5 6] (Some d) = Inr (d', outs)
     \<and> video_dec_destroy d' h1 = Inl Invalid_Free"
proof -
  let ?h = "\<lparr> hp_blocks = [], hp_cell = (\<lambda>_. 0 :: nat) \<rparr>"
  obtain d :: "(unit, unit, unit) video_decoder" and h1
    where r: "create_video_decoder bump_malloc True True CODEC_TYPE_VP8 ?h = Inr (Some d, h1)"
    and d: "\<exists>x. d = Dec_VP8 \<lparr> vd_priv_ctx = To \<lparr> d8_addr = x, d8_decoder = None \<rparr>, vd_cb_out = False \<rparr>"
    by (simp add: create_video_decoder_def vp8_dec_create_def vpx_malloc_def DEFAULT_ALIGNMENT_def
        vpx_memalign_def get_aligned_malloc_size_def check_size_argument_overflow_def sizeof_vp8_dec_context_def
        VPX_MAX_ALLOCABLE_MEMORY_def ADDRESS_STORAGE_SIZE_def c_malloc_def bump_malloc_def Let_def)
  obtain d' outs where run: "dec_run vd_env [Op_Init 1, Op_Decode (Some [1]) 1 0 5 6] (Some d) = Inr (d', outs)"
    using d by (auto simp: video_dec_init_def vp8_dec_init_def video_dec_decode_def vp8_dec_decode_def vd_env_def
        video_dec_send_image_def)
  show ?thesis
    using video_dec_destroy_frees [OF bump_malloc_documented r run] r run by auto
qed

text \<open>
  Decoding with the H.264 decoder reports success whatever libavcodec says about the packet: an
  opened decoder always answers 0, and the image it delivers carries the time stamp of the decoded
  frame but the user data of the packet that happened to be sent last.
\<close>

lemma avc_dec_decode_always_succeeds:
  assumes "vd_priv_ctx ctx = To avc" "da_avcodec_ctx avc = Some c" "da_avframe avc = Some f"
    and "ea_receive_frame env (fst (ea_send_packet env c frame len pts)) f = (c', f', got)"
    and "\<forall>k. ea_alloc env k" "\<forall>img t. got = Some (img, t) \<longrightarrow> image_ok img" "vd_cb_out ctx"
  shows "\<exists>ctx' out. avc_dec_decode env ctx frame len pts opaque = Inr (0, ctx', out)
    \<and> (case got of None \<Rightarrow> out = None
       | Some (img, t) \<Rightarrow> (\<exists>s. out = Some s \<and> vs_pts s = t \<and> vs_opaque s = opaque))"
proof (cases got)
  case None
  then show ?thesis using assms(1-4) by (auto simp: avc_dec_decode_def case_prod_beta Let_def)
next
  case (Some g)
  obtain img t where g: "got = Some (img, t)" using Some by (cases g) auto
  have "image_ok img" using assms(6) g by auto
  from send_planes_ok [OF this assms(5), of "[0, 1, 2]"
      "empty_surface\<lparr> vs_color := IMG_FMT_I420, vs_pts := t, vs_opaque := opaque \<rparr>"]
  obtain s where s: "video_dec_send_image True (ea_alloc env) img t opaque = Inr (Some s)"
    "vs_pts s = t" "vs_opaque s = opaque"
    using assms(5) by (auto simp only: video_dec_send_image_def) auto
  then show ?thesis using assms(1-4,7) g by (auto simp: avc_dec_decode_def case_prod_beta Let_def)
qed

lemma avc_dec_decode_always_succeeds_witness:
  "\<exists>ctx' s. avc_dec_decode (snd vd_env)
      \<lparr> vd_priv_ctx = To \<lparr> da_avcodec = True, da_avcodec_ctx = Some (), da_avframe = Some () \<rparr>, vd_cb_out = True \<rparr>
      (Some [1, 2]) 2 5 6 = Inr (0, ctx', Some s) \<and> vs_pts s = 77 \<and> vs_opaque s = 6"
  using avc_dec_decode_always_succeeds [where env = "snd vd_env" and avc = "\<lparr> da_avcodec = True, da_avcodec_ctx = Some (), da_avframe = Some () \<rparr>"
      and ctx = "\<lparr> vd_priv_ctx = To \<lparr> da_avcodec = True, da_avcodec_ctx = Some (), da_avframe = Some () \<rparr>, vd_cb_out = True \<rparr>"
      and c = "()" and f = "()" and c' = "()" and f' = "()" and got = "Some (vd_image, 77)" and frame = "Some [1, 2]"
      and len = 2 and pts = 5 and opaque = 6]
  by (auto simp: vd_env_def vd_image_ok)

end
