(* ===== verification/Opus_Dec.thy ===== *)
theory Opus_Dec
  imports Prelude
begin

text \<open>
  The Opus decoder of the codec library: \<open>MediaCodec/jni/opusdec.c\<close> behind the interface of
  \<open>audiodec.c\<close>. \<open>libopus\<close>'s decoder and the allocator are parameters. The ledger \<open>ol_live\<close> holds the
  blocks that were allocated and not freed, so that the lemmas can say what a life cycle leaves
  behind, besides what the callback receives.
\<close>

section \<open>State\<close>

definition OPUS_FULLBAND :: int where "OPUS_FULLBAND = 48000"
definition OPUS_SAMPLE_LENGTH :: int where "OPUS_SAMPLE_LENGTH = 2"
definition OPUS_SAMPLE_PRECISION :: int where "OPUS_SAMPLE_PRECISION = 16"

datatype AUDIO_CODEC_TYPE = CODEC_TYPE_NULL | CODEC_TYPE_OPUS | CODEC_TYPE_AAC

record audio_dec_pcm =
  ap_pcm :: "byte list"
  ap_len :: int
  ap_sample_rate :: int
  ap_channels :: int
  ap_bits_per_sample :: int
  ap_duration_ms :: int
  ap_type :: int
  ap_pts :: int
  ap_opaque :: int

text \<open>
  The decoder context; \<open>od_pcm\<close> is the block of the output buffer with its contents, of
  \<open>od_max_frame_size * od_channels * 2\<close> bytes.
\<close>

record 'd opus_dec_context =
  od_block :: nat
  od_sample_rate :: int
  od_channels :: int
  od_max_frame_size :: int
  od_pcm :: "(nat \<times> byte list) option"
  od_last_pts :: int
  od_decoder :: "'d option"

record 'd audio_dec_context =
  ad_block :: nat
  ad_priv :: "'d opus_dec_context option"
  ad_cb_out :: bool

text \<open>The allocator's ledger: the number of calls so far and the live blocks.\<close>

record ledger =
  ol_next :: nat
  ol_live :: "nat set"

text \<open>
  \<open>libopus\<close>: creating a decoder with its error code, and decoding a packet into at most so many samples
  per channel: the result and the bytes written.
\<close>

record 'd opus_dec_env =
  ud_alloc :: "nat \<Rightarrow> bool"
  ud_create :: "int \<Rightarrow> int \<Rightarrow> 'd option \<times> int"
  ud_decode :: "'d \<Rightarrow> byte list option \<Rightarrow> int \<Rightarrow> int \<Rightarrow> 'd \<times> int \<times> byte list"

definition ol_alloc :: "'d opus_dec_env \<Rightarrow> ledger \<Rightarrow> nat option \<times> ledger" where
  "ol_alloc env l =
     (if ud_alloc env (ol_next l)
      then (Some (ol_next l), l\<lparr> ol_next := ol_next l + 1, ol_live := insert (ol_next l) (ol_live l) \<rparr>)
      else (None, l\<lparr> ol_next := ol_next l + 1 \<rparr>))"

definition ol_free :: "nat \<Rightarrow> ledger \<Rightarrow> ledger res" where
  "ol_free b l = (if b \<in> ol_live l then Inr (l\<lparr> ol_live := ol_live l - {b} \<rparr>) else Inl Double_Free)"

section \<open>The decoder\<close>

definition opus_dec_create :: "'d opus_dec_env \<Rightarrow> ledger \<Rightarrow> int \<times> 'd opus_dec_context option \<times> ledger" where
  "opus_dec_create env l =
     (case ol_alloc env l of
        (None, l) \<Rightarrow> (- 1, None, l)
      | (Some b, l) \<Rightarrow>
          (0, Some \<lparr> od_block = b, od_sample_rate = 0, od_channels = 0, od_max_frame_size = 0, od_pcm = None,
                     od_last_pts = 0, od_decoder = None \<rparr>, l))"

text \<open>An older output buffer or decoder is overwritten, not released.\<close>

definition opus_dec_init ::
    "'d opus_dec_env \<Rightarrow> 'd opus_dec_context \<Rightarrow> ledger \<Rightarrow> int \<times> 'd opus_dec_context \<times> ledger" where
  "opus_dec_init env opus l =
     (let opus = opus\<lparr> od_sample_rate := OPUS_FULLBAND, od_channels := 2,
                       od_max_frame_size := OPUS_FULLBAND * OPUS_SAMPLE_LENGTH \<rparr> in
      case ol_alloc env l of
        (None, l) \<Rightarrow> (- 1, opus\<lparr> od_pcm := None \<rparr>, l)
      | (Some b, l) \<Rightarrow>
          let (d, error) = ud_create env (od_sample_rate opus) (od_channels opus);
              opus = opus\<lparr> od_pcm := Some (b, []), od_decoder := d \<rparr>
          in (if error \<noteq> 0 then - 1 else 0, opus, l))"

text \<open>
  \<open>lost\<close> is always 0, so only the normal case runs. \<open>libopus\<close> refuses a null decoder or buffer only by
  crashing, and writes what it decoded into the buffer.
\<close>

definition opus_dec_decode ::
    "'d opus_dec_env \<Rightarrow> bool \<Rightarrow> 'd opus_dec_context \<Rightarrow> byte list option \<Rightarrow> int \<Rightarrow> int \<Rightarrow> int
     \<Rightarrow> (int \<times> 'd opus_dec_context \<times> audio_dec_pcm option) res" where
  "opus_dec_decode env cb_out opus packet packet_len pts opaque =
     (case (od_decoder opus, od_pcm opus) of
        (Some d, Some (b, old)) \<Rightarrow>
          let (d, samples, written) = ud_decode env d packet packet_len (od_max_frame_size opus);
              buf = written @ drop (length written) old;
              opus = opus\<lparr> od_decoder := Some d, od_pcm := Some (b, buf) \<rparr>
          in if int (length written) > od_max_frame_size opus * od_channels opus * OPUS_SAMPLE_LENGTH then Inl Oob_Write
             else if samples \<le> 0 then Inr (- 1, opus, None)
             else
               let opus = opus\<lparr> od_last_pts := pts \<rparr> in
               if \<not> cb_out then Inr (0, opus, None)
               else
                 let len = samples * od_channels opus * OPUS_SAMPLE_LENGTH in
                 res_bind (cdiv (samples * 1000) (od_sample_rate opus)) (\<lambda>duration.
                 Inr (0, opus, Some \<lparr> ap_pcm = take (nat len) buf, ap_len = len, ap_sample_rate = od_sample_rate opus,
                                      ap_channels = od_channels opus, ap_bits_per_sample = OPUS_SAMPLE_PRECISION,
                                      ap_duration_ms = duration, ap_type = 0, ap_pts = pts, ap_opaque = opaque \<rparr>))
      | _ \<Rightarrow> Inl Null_Deref)"

text \<open>The output buffer is not freed; a null decoder is \<open>libopus\<close>'s \<open>free(NULL)\<close>.\<close>

definition opus_dec_destroy :: "'d opus_dec_context \<Rightarrow> ledger \<Rightarrow> ledger res" where
  "opus_dec_destroy opus l = ol_free (od_block opus) l"

section \<open>The interface\<close>

text \<open>The context is not freed when the codec's is not there, and not checked before it is cleared.\<close>

definition create_audio_decoder ::
    "'d opus_dec_env \<Rightarrow> AUDIO_CODEC_TYPE \<Rightarrow> ledger \<Rightarrow> ('d audio_dec_context option \<times> ledger) res" where
  "create_audio_decoder env codec l =
     (if codec \<noteq> CODEC_TYPE_OPUS then Inr (None, l)
      else case ol_alloc env l of
        (None, l) \<Rightarrow> Inl Null_Deref
      | (Some b, l) \<Rightarrow>
          (case opus_dec_create env l of
             (rc, None, l) \<Rightarrow> Inr (None, l)
           | (rc, Some opus, l) \<Rightarrow> Inr (Some \<lparr> ad_block = b, ad_priv = Some opus, ad_cb_out = False \<rparr>, l)))"

definition audio_dec_init ::
    "'d opus_dec_env \<Rightarrow> 'd audio_dec_context option \<Rightarrow> ledger \<Rightarrow> (int \<times> 'd audio_dec_context option \<times> ledger) res" where
  "audio_dec_init env ctx l =
     (case ctx of
        None \<Rightarrow> Inr (- 1, None, l)
      | Some c \<Rightarrow>
          (case ad_priv c of
             None \<Rightarrow> Inl Null_Deref
           | Some opus \<Rightarrow>
               (case opus_dec_init env opus l of
                  (rc, opus, l) \<Rightarrow> Inr (rc, Some (c\<lparr> ad_priv := Some opus \<rparr>), l))))"

definition audio_dec_set_cb_output :: "'d audio_dec_context option \<Rightarrow> bool \<Rightarrow> 'd audio_dec_context option" where
  "audio_dec_set_cb_output ctx cb = map_option (ad_cb_out_update (\<lambda>_. cb)) ctx"

definition audio_dec_decode ::
    "'d opus_dec_env \<Rightarrow> 'd audio_dec_context option \<Rightarrow> byte list option \<Rightarrow> int \<Rightarrow> int \<Rightarrow> int \<Rightarrow> int
     \<Rightarrow> (int \<times> 'd audio_dec_context option \<times> audio_dec_pcm option) res" where
  "audio_dec_decode env ctx packet packet_len flags pts opaque =
     (case ctx of
        None \<Rightarrow> Inr (- 1, None, None)
      | Some c \<Rightarrow>
          (case ad_priv c of
             None \<Rightarrow> Inl Null_Deref
           | Some opus \<Rightarrow>
               res_bind (opus_dec_decode env (ad_cb_out c) opus packet packet_len pts opaque)
                 (\<lambda>(rc, opus, out). Inr (rc, Some (c\<lparr> ad_priv := Some opus \<rparr>), out))))"

definition audio_dec_destroy :: "'d audio_dec_context option \<Rightarrow> ledger \<Rightarrow> ledger res" where
  "audio_dec_destroy ctx l =
     (case ctx of
        None \<Rightarrow> Inr l
      | Some c \<Rightarrow>
          (case ad_priv c of
             None \<Rightarrow> Inl Null_Deref
           | Some opus \<Rightarrow> res_bind (opus_dec_destroy opus l) (ol_free (ad_block c))))"

section \<open>Properties\<close>

text \<open>
  What \<open>libopus\<close> documents: the result is an error or the number of samples per channel, at most the
  space it was told of, and that many samples of every channel are written.
\<close>

definition opus_decode_documented :: "'d opus_dec_env \<Rightarrow> bool" where
  "opus_decode_documented env \<longleftrightarrow> (\<forall>d p n space. 0 \<le> space \<longrightarrow>
     (case ud_decode env d p n space of
        (d', samples, written) \<Rightarrow> samples \<le> space
          \<and> int (length written) = (if 0 < samples then samples * 2 * OPUS_SAMPLE_LENGTH else 0)))"

fun decode_packets ::
    "'d opus_dec_env \<Rightarrow> (byte list \<times> int \<times> int) list \<Rightarrow> 'd audio_dec_context option
     \<Rightarrow> ('d audio_dec_context option \<times> audio_dec_pcm option list) res" where
  "decode_packets env [] ctx = Inr (ctx, [])"
| "decode_packets env ((p, pts, opaque) # ps) ctx =
     res_bind (audio_dec_decode env ctx (Some p) (int (length p)) 0 pts opaque) (\<lambda>(rc, ctx, out).
     res_bind (decode_packets env ps ctx) (\<lambda>(ctx, outs). Inr (ctx, out # outs)))"

text \<open>\<open>libopus\<close> run by itself over the same packets: the PCM of each, if any.\<close>

fun opus_run :: "'d opus_dec_env \<Rightarrow> byte list list \<Rightarrow> 'd \<Rightarrow> byte list option list" where
  "opus_run env [] d = []"
| "opus_run env (p # ps) d =
     (case ud_decode env d (Some p) (int (length p)) 96000 of
        (d', samples, written) \<Rightarrow> (if 0 < samples then Some written else None) # opus_run env ps d')"

definition opus_ready :: "'d opus_dec_context \<Rightarrow> 'd \<Rightarrow> bool" where
  "opus_ready opus d \<longleftrightarrow> od_decoder opus = Some d \<and> od_pcm opus \<noteq> None \<and> od_sample_rate opus = 48000
     \<and> od_channels opus = 2 \<and> od_max_frame_size opus = 96000"

text \<open>The PCM block of one packet: the bytes, with the format and the duration that belong to them.\<close>

definition pcm_of :: "int \<times> int \<Rightarrow> byte list option \<Rightarrow> audio_dec_pcm option" where
  "pcm_of t = map_option (\<lambda>written.
     \<lparr> ap_pcm = written, ap_len = int (length written), ap_sample_rate = 48000, ap_channels = 2,
       ap_bits_per_sample = 16, ap_duration_ms = int (length written) div 4 * 1000 div 48000, ap_type = 0,
       ap_pts = fst t, ap_opaque = snd t \<rparr>)"

lemma opus_dec_decode_ready:
  assumes "opus_ready opus d" "opus_decode_documented env"
    and "ud_decode env d (Some p) (int (length p)) 96000 = (d', samples, written)"
  shows "\<exists>rc opus'. opus_dec_decode env True opus (Some p) (int (length p)) pts opaque
    = Inr (rc, opus', pcm_of (pts, opaque) (if 0 < samples then Some written else None)) \<and> opus_ready opus' d'"
proof -
  obtain b old where pcm: "od_pcm opus = Some (b, old)" using assms(1) by (auto simp: opus_ready_def)
  have doc: "samples \<le> 96000" "int (length written) = (if 0 < samples then samples * 2 * 2 else 0)"
    using assms(2,3) unfolding opus_decode_documented_def OPUS_SAMPLE_LENGTH_def
    by (metis (mono_tags, lifting) case_prod_conv zero_le_numeral)+
  have ready: "od_decoder opus = Some d" "od_sample_rate opus = 48000" "od_channels opus = 2"
    "od_max_frame_size opus = 96000" using assms(1) by (simp_all add: opus_ready_def)
  show ?thesis
  proof (cases "0 < samples")
    case True
    then have "int (length written) = samples * 4" "nat (samples * 4) = length written" using doc(2) by simp_all
    then show ?thesis
      using True doc(1)
      by (simp add: opus_dec_decode_def ready pcm assms(3) Let_def OPUS_SAMPLE_LENGTH_def
          OPUS_SAMPLE_PRECISION_def pcm_of_def opus_ready_def)
  next
    case False
    then show ?thesis
      using doc(2) by (simp add: opus_dec_decode_def ready pcm assms(3) Let_def OPUS_SAMPLE_LENGTH_def
          pcm_of_def opus_ready_def)
  qed
qed

lemma decode_packets_ready:
  assumes "opus_ready opus d" "opus_decode_documented env" "ad_priv c = Some opus" "ad_cb_out c"
  shows "\<exists>c' opus' d'. decode_packets env ps (Some c)
    = Inr (Some c', map2 pcm_of (map snd ps) (opus_run env (map fst ps) d))
    \<and> ad_priv c' = Some opus' \<and> opus_ready opus' d' \<and> od_block opus' = od_block opus \<and> ad_block c' = ad_block c"
  using assms
proof (induction ps arbitrary: c opus d)
  case Nil
  then show ?case by auto
next
  case (Cons x ps)
  obtain p pts opaque where x: "x = (p, pts, opaque)" by (cases x)
  obtain d1 samples written where ud: "ud_decode env d (Some p) (int (length p)) 96000 = (d1, samples, written)"
    by (cases "ud_decode env d (Some p) (int (length p)) 96000")
  obtain rc opus1 where dec: "opus_dec_decode env True opus (Some p) (int (length p)) pts opaque
      = Inr (rc, opus1, pcm_of (pts, opaque) (if 0 < samples then Some written else None))" "opus_ready opus1 d1"
    using opus_dec_decode_ready [OF Cons.prems(1,2) ud] by blast
  have block: "od_block opus1 = od_block opus"
    using dec(1) by (auto simp: opus_dec_decode_def Let_def res_bind_Inr_iff split: option.splits prod.splits if_splits)
  let ?c = "c\<lparr> ad_priv := Some opus1 \<rparr>"
  have c: "ad_priv ?c = Some opus1" "ad_cb_out ?c" using Cons.prems(4) by simp_all
  show ?case
    using Cons.IH [OF dec(2) Cons.prems(2) c] Cons.prems(3,4) dec(1)
    by (auto simp: x audio_dec_decode_def ud block)
qed

text \<open>
  A life of the Opus decoder: created, initialised, given a callback and any sequence of packets,
  it delivers for every packet exactly the PCM \<open>libopus\<close> decodes from it, with length, rate, duration,
  time stamp and user data that fit, and nothing for a packet \<open>libopus\<close> rejects; no buffer is
  overrun; and destroying it frees both contexts but leaves the output buffer allocated.
\<close>

lemma audio_dec_life:
  assumes "opus_decode_documented env" "\<forall>n. ud_alloc env n" "\<forall>r c. ud_create env r c = (Some d0, 0)"
    and "l0 = \<lparr> ol_next = 0, ol_live = {} \<rparr>"
  shows "\<exists>c1 l1 c2 l2 c3 l3.
      create_audio_decoder env CODEC_TYPE_OPUS l0 = Inr (Some c1, l1)
    \<and> audio_dec_init env (Some c1) l1 = Inr (0, c2, l2)
    \<and> decode_packets env ps (audio_dec_set_cb_output c2 True)
        = Inr (c3, map2 pcm_of (map snd ps) (opus_run env (map fst ps) d0))
    \<and> audio_dec_destroy c3 l2 = Inr l3 \<and> ol_live l3 = {2}"
proof -
  let ?opus = "\<lparr> od_block = 1, od_sample_rate = 48000, od_channels = 2, od_max_frame_size = 96000,
    od_pcm = Some (2, []), od_last_pts = 0, od_decoder = Some d0 \<rparr>"
  let ?c2 = "\<lparr> ad_block = 0, ad_priv = Some ?opus, ad_cb_out = True \<rparr>"
  let ?c1 = "\<lparr> ad_block = 0, ad_priv = Some \<lparr> od_block = 1, od_sample_rate = 0, od_channels = 0, od_max_frame_size = 0,
    od_pcm = None, od_last_pts = 0, od_decoder = None \<rparr>, ad_cb_out = False \<rparr>"
  let ?l1 = "\<lparr> ol_next = 2, ol_live = {1, 0} \<rparr>" and ?l2 = "\<lparr> ol_next = 3, ol_live = {2, 1, 0} \<rparr>"
  have one: "create_audio_decoder env CODEC_TYPE_OPUS l0 = Inr (Some ?c1, ?l1)"
    using assms(2,4) by (simp add: create_audio_decoder_def ol_alloc_def opus_dec_create_def)
  have two: "audio_dec_init env (Some ?c1) ?l1 = Inr (0, Some (?c2\<lparr> ad_cb_out := False \<rparr>), ?l2)"
    using assms(2,3) by (simp add: audio_dec_init_def opus_dec_init_def ol_alloc_def OPUS_FULLBAND_def
        OPUS_SAMPLE_LENGTH_def insert_commute)
  have "opus_ready ?opus d0" by (simp add: opus_ready_def)
  from decode_packets_ready [OF this assms(1), of ?c2 ps]
  obtain c3 opus3 where three: "decode_packets env ps (Some ?c2)
      = Inr (Some c3, map2 pcm_of (map snd ps) (opus_run env (map fst ps) d0))"
    "ad_priv c3 = Some opus3" "od_block opus3 = 1" "ad_block c3 = 0" by auto
  have "audio_dec_destroy (Some c3) ?l2 = Inr (?l2\<lparr> ol_live := {2} \<rparr>)"
    using three by (simp add: audio_dec_destroy_def opus_dec_destroy_def ol_free_def insert_Diff_if)
  then show ?thesis
    using one two three(1) by (auto simp: audio_dec_set_cb_output_def)
qed

definition ot_env :: "nat opus_dec_env" where
  "ot_env = \<lparr> ud_alloc = (\<lambda>_. True), ud_create = (\<lambda>r c. (Some 7, 0)),
     ud_decode = (\<lambda>d p n space. case p of Some (x # xs) \<Rightarrow> if space < 2 then (d, - 1, [])
                    else (d + 1, 2, [x, of_nat d, 0, 0, 0, 0, 0, 0]) | _ \<Rightarrow> (d, - 4, [])) \<rparr>"

lemma audio_dec_life_witness:
  "\<exists>c1 l1 c2 l2 c3 l3.
      create_audio_decoder ot_env CODEC_TYPE_OPUS \<lparr> ol_next = 0, ol_live = {} \<rparr> = Inr (Some c1, l1)
    \<and> audio_dec_init ot_env (Some c1) l1 = Inr (0, c2, l2)
    \<and> decode_packets ot_env [([5], 20, 1), ([], 40, 2), ([6], 60, 3)] (audio_dec_set_cb_output c2 True)
        = Inr (c3, map2 pcm_of [(20, 1), (40, 2), (60, 3)]
            [Some [5, 7, 0, 0, 0, 0, 0, 0], None, Some [6, 8, 0, 0, 0, 0, 0, 0]])
    \<and> audio_dec_destroy c3 l2 = Inr l3 \<and> ol_live l3 = {2}"
proof -
  have doc: "opus_decode_documented ot_env"
    by (auto simp: opus_decode_documented_def ot_env_def OPUS_SAMPLE_LENGTH_def split: option.split list.split)
  show ?thesis
    using audio_dec_life [OF doc, of 7 "\<lparr> ol_next = 0, ol_live = {} \<rparr>" "[([5], 20, 1), ([], 40, 2), ([6], 60, 3)]"]
    by (simp add: ot_env_def)
qed

end
