(* ===== verification/Event_Bus.thy ===== *)
theory Event_Bus
  imports Prelude
begin

text \<open>
  The event bus: \<open>Events/Event.h\<close>, \<open>EventQueue\<close>, \<open>EventBus\<close>, the reference count of
  \<open>Common/RefCount.h\<close> and the modules of \<open>Common/AVModule.h\<close> that register with the bus. One action
  is one critical section of a thread: a module is constructed, referenced, released or destroyed, an
  event posted, or the bus thread \<open>Svc\<close> takes an event or serves one recipient. A run is a list of
  actions, so every interleaving is one. Addresses of modules are numbers; three ghost fields record
  what was posted, taken and delivered, and one the references the owners hold. The lemmas show FIFO
  order and exactly-once delivery for all runs, the absence of faults for owners who destroy a module
  together with its last reference, and the race the code leaves open for the others. A count is an unsigned
  long of the code; here it is an integer, which only differs beyond \<open>2 ^ 32\<close> references.
\<close>

section \<open>Events and their queue\<close>

definition EVENT_STATS :: int where "EVENT_STATS = 0x0001"
definition EVENT_QOS :: int where "EVENT_QOS = 0x0002"
definition EVENT_ALL :: int where "EVENT_ALL = 0xffff"

record event =
  ev_from :: nat
  ev_location :: string
  ev_send_time :: int
  ev_done_time :: int
  ev_type :: int
  ev_data :: "nat option"
  ev_name :: string
  ev_need_response :: bool

record event_queue =
  eq_events :: "event list"

definition eq_empty :: event_queue where "eq_empty = \<lparr> eq_events = [] \<rparr>"

definition eq_get :: "event_queue \<Rightarrow> event option \<times> event_queue" where
  "eq_get q = (case eq_events q of [] \<Rightarrow> (None, q) | e # es \<Rightarrow> (Some e, q\<lparr> eq_events := es \<rparr>))"

definition eq_post :: "event \<Rightarrow> event_queue \<Rightarrow> event_queue" where
  "eq_post e q = q\<lparr> eq_events := eq_events q @ [e] \<rparr>"

text \<open>What the bus needs of its queue: first in, first out.\<close>

locale fifo =
  fixes empty :: "'q"
    and put :: "'a \<Rightarrow> 'q \<Rightarrow> 'q"
    and get :: "'q \<Rightarrow> 'a option \<times> 'q"
    and contents :: "'q \<Rightarrow> 'a list"
  assumes contents_empty: "contents empty = []"
    and contents_put: "contents (put x q) = contents q @ [x]"
    and get_none: "contents q = [] \<Longrightarrow> get q = (None, q)"
    and get_some: "contents q = x # xs \<Longrightarrow> \<exists>q'. get q = (Some x, q') \<and> contents q' = xs"
begin

lemma get_cases:
  obtains (none) "get q = (None, q)" "contents q = []"
    | (some) x q' where "get q = (Some x, q')" "contents q = x # contents q'"
  using get_none [of q] get_some [of q] by (cases "contents q") auto

lemma put_then_get:
  "contents q = [] \<Longrightarrow> \<exists>q'. get (put x q) = (Some x, q') \<and> contents q' = []"
  using get_some [of "put x q" x "[]"] contents_put [of x q] by simp

end

interpretation eq: fifo eq_empty eq_post eq_get eq_events
  by unfold_locales (auto simp: eq_empty_def eq_post_def eq_get_def)

section \<open>The bus\<close>

text \<open>The bus thread: waiting at the queue, with recipients left for an event, or ended.\<close>

datatype svc_pc = Svc_Idle | Svc_Dispatch event "nat list" | Svc_Exit

record event_bus =
  eb_exit :: bool
  eb_modules :: "(nat \<times> int) list"
  eb_queue :: event_queue
  eb_refs :: "nat \<Rightarrow> int"
  eb_alive :: "nat set"
  eb_dying :: "nat set"
  eb_svc :: svc_pc
  eb_owned :: "nat \<Rightarrow> nat"
  eb_posted :: "event list"
  eb_taken :: "(event \<times> nat list) list"
  eb_log :: "(event \<times> nat) list"

definition event_bus_new :: event_bus where
  "event_bus_new = \<lparr> eb_exit = False, eb_modules = [], eb_queue = eq_empty, eb_refs = (\<lambda>_. 0), eb_alive = {},
     eb_dying = {}, eb_svc = Svc_Idle, eb_owned = (\<lambda>_. 0), eb_posted = [], eb_taken = [], eb_log = [] \<rparr>"

definition register_module :: "nat \<Rightarrow> int \<Rightarrow> (nat \<times> int) list \<Rightarrow> (nat \<times> int) list" where
  "register_module m msk ms = (if m \<in> fst ` set ms then ms else ms @ [(m, msk)])"

fun deregister_module :: "nat \<Rightarrow> (nat \<times> int) list \<Rightarrow> (nat \<times> int) list" where
  "deregister_module m [] = []"
| "deregister_module m ((k, msk) # ms) = (if k = m then ms else (k, msk) # deregister_module m ms)"

definition recipients :: "event \<Rightarrow> (nat \<times> int) list \<Rightarrow> nat list" where
  "recipients e ms = map fst (filter (\<lambda>(m, msk). msk AND ev_type e \<noteq> 0) ms)"

datatype bus_action =
    Create nat int
  | Add_Ref nat
  | Release nat
  | Destroy nat
  | Drop nat
  | Post event
  | Exit_Bus
  | Svc_Take
  | Svc_Serve

definition av_module_create :: "nat \<Rightarrow> int \<Rightarrow> event_bus \<Rightarrow> event_bus" where
  "av_module_create m msk s =
     s\<lparr> eb_modules := register_module m msk (eb_modules s), eb_refs := (eb_refs s)(m := 1),
        eb_alive := insert m (eb_alive s), eb_owned := (eb_owned s)(m := 1) \<rparr>"

text \<open>\<open>delete this\<close>: the destructor deregisters.\<close>

definition av_module_destroy :: "nat \<Rightarrow> event_bus \<Rightarrow> event_bus res" where
  "av_module_destroy m s =
     (if m \<notin> eb_alive s then Inl Double_Free
      else Inr (s\<lparr> eb_modules := deregister_module m (eb_modules s), eb_alive := eb_alive s - {m} \<rparr>))"

definition ref_add :: "nat \<Rightarrow> event_bus \<Rightarrow> event_bus res" where
  "ref_add m s =
     (if m \<in> eb_alive s then Inr (s\<lparr> eb_refs := (eb_refs s)(m := eb_refs s m + 1) \<rparr>) else Inl Use_After_Free)"

text \<open>The decrement of \<open>RefCount::release\<close>; the flag says that the last reference went.\<close>

definition ref_release :: "nat \<Rightarrow> event_bus \<Rightarrow> (bool \<times> event_bus) res" where
  "ref_release m s =
     (if m \<in> eb_alive s
      then Inr (eb_refs s m = 1, s\<lparr> eb_refs := (eb_refs s)(m := eb_refs s m - 1) \<rparr>)
      else Inl Use_After_Free)"

definition bus_post :: "event \<Rightarrow> event_bus \<Rightarrow> event_bus" where
  "bus_post e s = s\<lparr> eb_queue := eq_post e (eb_queue s), eb_posted := eb_posted s @ [e] \<rparr>"

fun ref_add_all :: "nat list \<Rightarrow> event_bus \<Rightarrow> event_bus res" where
  "ref_add_all [] s = Inr s"
| "ref_add_all (m # ms) s = res_bind (ref_add m s) (ref_add_all ms)"

text \<open>The first half of a round of \<open>Svc\<close>, under the lock; \<open>None\<close> while it waits.\<close>

definition svc_take :: "event_bus \<Rightarrow> event_bus res option" where
  "svc_take s =
     (case eb_svc s of
        Svc_Idle \<Rightarrow>
          if eb_exit s then Some (Inr (s\<lparr> eb_svc := Svc_Exit \<rparr>))
          else (case eq_get (eb_queue s) of
                  (None, q) \<Rightarrow> None
                | (Some e, q) \<Rightarrow>
                    let ms = recipients e (eb_modules s)
                    in Some (res_bind (ref_add_all ms s) (\<lambda>s.
                         Inr (s\<lparr> eb_queue := q, eb_svc := Svc_Dispatch e ms, eb_taken := eb_taken s @ [(e, ms)] \<rparr>))))
      | _ \<Rightarrow> None)"

text \<open>
  The second half: one recipient handles the event and is released, or the event is deleted. A module
  whose last reference the bus thread drops is destroyed by it.
\<close>

definition svc_serve :: "event_bus \<Rightarrow> event_bus res option" where
  "svc_serve s =
     (case eb_svc s of
        Svc_Dispatch e [] \<Rightarrow> Some (Inr (s\<lparr> eb_svc := Svc_Idle \<rparr>))
      | Svc_Dispatch e (m # ms) \<Rightarrow>
          Some (res_bind (ref_release m s) (\<lambda>(last, s).
                let s = s\<lparr> eb_svc := Svc_Dispatch e ms, eb_log := eb_log s @ [(e, m)] \<rparr>
                in if last then av_module_destroy m s else Inr s))
      | _ \<Rightarrow> None)"

text \<open>
  One action; \<open>None\<close> when it is not possible in the state. \<open>Release\<close> and \<open>Destroy\<close> are the two halves
  of an owner's \<open>release()\<close>, as the code has them; \<open>Drop\<close> is both without an interruption.
\<close>

fun bus_do :: "bus_action \<Rightarrow> event_bus \<Rightarrow> event_bus res option" where
  "bus_do (Create m msk) s = (if m \<in> eb_alive s then None else Some (Inr (av_module_create m msk s)))"
| "bus_do (Add_Ref m) s =
     Some (res_bind (ref_add m s) (\<lambda>s. Inr (s\<lparr> eb_owned := (eb_owned s)(m := eb_owned s m + 1) \<rparr>)))"
| "bus_do (Release m) s =
     Some (res_bind (ref_release m s) (\<lambda>(last, s).
       Inr (s\<lparr> eb_owned := (eb_owned s)(m := eb_owned s m - 1),
               eb_dying := (if last then insert m (eb_dying s) else eb_dying s) \<rparr>)))"
| "bus_do (Destroy m) s =
     (if m \<in> eb_dying s then Some (av_module_destroy m (s\<lparr> eb_dying := eb_dying s - {m} \<rparr>)) else None)"
| "bus_do (Drop m) s =
     Some (res_bind (ref_release m s) (\<lambda>(last, s).
       let s = s\<lparr> eb_owned := (eb_owned s)(m := eb_owned s m - 1) \<rparr>
       in if last then av_module_destroy m s else Inr s))"
| "bus_do (Post e) s = Some (Inr (bus_post e s))"
| "bus_do Exit_Bus s = Some (Inr (s\<lparr> eb_exit := True \<rparr>))"
| "bus_do Svc_Take s = svc_take s"
| "bus_do Svc_Serve s = svc_serve s"

fun bus_run :: "bus_action list \<Rightarrow> event_bus \<Rightarrow> event_bus res option" where
  "bus_run [] s = Some (Inr s)"
| "bus_run (a # as) s =
     (case bus_do a s of
        None \<Rightarrow> None
      | Some (Inl f) \<Rightarrow> Some (Inl f)
      | Some (Inr s') \<Rightarrow> bus_run as s')"

text \<open>The reachable states, as a step relation.\<close>

inductive bus_reach :: "event_bus \<Rightarrow> bool" where
  new: "bus_reach event_bus_new"
| step: "bus_reach s \<Longrightarrow> bus_do a s = Some (Inr s') \<Longrightarrow> bus_reach s'"

lemma bus_run_reach: "bus_reach s \<Longrightarrow> bus_run as s = Some (Inr s') \<Longrightarrow> bus_reach s'"
  by (induction as arbitrary: s) (auto split: option.splits sum.splits intro: bus_reach.step)

section \<open>Order and delivery\<close>

definition svc_pending :: "svc_pc \<Rightarrow> (event \<times> nat) list" where
  "svc_pending pc = (case pc of Svc_Dispatch e ms \<Rightarrow> map (Pair e) ms | _ \<Rightarrow> [])"

lemma svc_pending_simps [simp]:
  "svc_pending Svc_Idle = []" "svc_pending Svc_Exit = []" "svc_pending (Svc_Dispatch e ms) = map (Pair e) ms"
  by (simp_all add: svc_pending_def)

definition deliveries :: "(event \<times> nat list) list \<Rightarrow> (event \<times> nat) list" where
  "deliveries taken = concat (map (\<lambda>(e, ms). map (Pair e) ms) taken)"

definition bus_order :: "event_bus \<Rightarrow> bool" where
  "bus_order s \<longleftrightarrow> eb_posted s = map fst (eb_taken s) @ eq_events (eb_queue s)
     \<and> eb_log s @ svc_pending (eb_svc s) = deliveries (eb_taken s)"

lemma ref_add_all_same:
  assumes "ref_add_all ms s = Inr s'"
  shows "eb_posted s' = eb_posted s \<and> eb_taken s' = eb_taken s \<and> eb_log s' = eb_log s \<and> eb_modules s' = eb_modules s
    \<and> eb_alive s' = eb_alive s \<and> eb_dying s' = eb_dying s \<and> eb_owned s' = eb_owned s \<and> eb_exit s' = eb_exit s
    \<and> eb_refs s' = (\<lambda>m. eb_refs s m + int (count_list ms m))"
  using assms
proof (induction ms arbitrary: s)
  case (Cons m ms)
  then show ?case by (fastforce simp: ref_add_def split: if_splits)
qed simp

lemma av_module_destroy_same:
  "av_module_destroy m s = Inr s' \<Longrightarrow> eb_posted s' = eb_posted s \<and> eb_taken s' = eb_taken s \<and> eb_log s' = eb_log s
    \<and> eb_queue s' = eb_queue s \<and> eb_svc s' = eb_svc s"
  by (auto simp: av_module_destroy_def split: if_splits)

lemma bus_order_step:
  assumes "bus_order s" "bus_do a s = Some (Inr s')"
  shows "bus_order s'"
proof (cases a)
  case Svc_Take
  show ?thesis
  proof (cases "eb_svc s = Svc_Idle \<and> \<not> eb_exit s")
    case True
    then show ?thesis
      using assms Svc_Take
      by (cases rule: eq.get_cases [of "eb_queue s"])
        (auto simp: bus_order_def svc_take_def deliveries_def Let_def res_bind_Inr_iff dest: ref_add_all_same)
  next
    case False
    then show ?thesis
      using assms Svc_Take by (auto simp: bus_order_def svc_take_def split: svc_pc.splits if_splits)
  qed
next
  case Svc_Serve
  then show ?thesis
    using assms
    by (auto simp: bus_order_def svc_serve_def ref_release_def Let_def
        split: svc_pc.splits list.splits if_splits dest!: av_module_destroy_same)
next
  case (Drop m)
  then show ?thesis
    using assms by (auto simp: bus_order_def ref_release_def Let_def split: if_splits dest!: av_module_destroy_same)
qed (use assms in \<open>auto simp: bus_order_def av_module_create_def ref_add_def ref_release_def bus_post_def
       eq.contents_put split: if_splits dest!: av_module_destroy_same\<close>)

lemma bus_reach_order: "bus_reach s \<Longrightarrow> bus_order s"
proof (induction rule: bus_reach.induct)
  case new
  then show ?case by (simp add: bus_order_def event_bus_new_def deliveries_def eq.contents_empty)
qed (rule bus_order_step)


section \<open>References\<close>

text \<open>
  Owners who keep to the discipline: they release what they hold, and destroy with the last release.
\<close>

definition disciplined :: "bus_action \<Rightarrow> event_bus \<Rightarrow> bool" where
  "disciplined a s \<longleftrightarrow>
     (case a of
        Add_Ref m \<Rightarrow> eb_owned s m > 0
      | Drop m \<Rightarrow> eb_owned s m > 0
      | Release m \<Rightarrow> False
      | Destroy m \<Rightarrow> False
      | _ \<Rightarrow> True)"

fun disciplined_run :: "bus_action list \<Rightarrow> event_bus \<Rightarrow> bool" where
  "disciplined_run [] s = True"
| "disciplined_run (a # as) s =
     (disciplined a s \<and> (case bus_do a s of Some (Inr s') \<Rightarrow> disciplined_run as s' | _ \<Rightarrow> True))"

definition pending_modules :: "svc_pc \<Rightarrow> nat list" where
  "pending_modules pc = map snd (svc_pending pc)"

lemma pending_modules_simps [simp]:
  "pending_modules Svc_Idle = []" "pending_modules Svc_Exit = []" "pending_modules (Svc_Dispatch e ms) = ms"
  by (simp_all add: pending_modules_def comp_def)

text \<open>
  Every reference is accounted for: it is an owner's or the bus thread's, and a module lives as long as
  there is one; the registered modules are the living ones.
\<close>

definition refs_ok :: "event_bus \<Rightarrow> bool" where
  "refs_ok s \<longleftrightarrow> distinct (map fst (eb_modules s)) \<and> fst ` set (eb_modules s) = eb_alive s
     \<and> (\<forall>m\<in>eb_alive s. eb_refs s m = int (eb_owned s m + count_list (pending_modules (eb_svc s)) m)
          \<and> 0 < eb_owned s m + count_list (pending_modules (eb_svc s)) m)
     \<and> (\<forall>m. m \<notin> eb_alive s \<longrightarrow> eb_owned s m = 0 \<and> m \<notin> set (pending_modules (eb_svc s)))"

lemma set_deregister: "distinct (map fst ms) \<Longrightarrow> fst ` set (deregister_module m ms) = fst ` set ms - {m}
    \<and> distinct (map fst (deregister_module m ms))"
  by (induction m ms rule: deregister_module.induct) (auto simp: image_iff)

lemma recipients_subset: "set (recipients e ms) \<subseteq> fst ` set ms"
  by (auto simp: recipients_def)

lemma distinct_recipients: "distinct (map fst ms) \<Longrightarrow> distinct (recipients e ms)"
  by (simp add: recipients_def distinct_map_filter)

lemma ref_add_all_alive:
  "set ms \<subseteq> eb_alive s \<Longrightarrow> \<exists>s'. ref_add_all ms s = Inr s'"
  by (induction ms arbitrary: s) (auto simp: ref_add_def)

lemma refs_ok_take:
  assumes "refs_ok s" "bus_do Svc_Take s = Some r"
  shows "\<exists>s'. r = Inr s' \<and> refs_ok s'"
proof (cases "eb_exit s")
  case True
  then show ?thesis using assms by (auto simp: svc_take_def refs_ok_def split: svc_pc.splits)
next
  case False
  then have idle: "eb_svc s = Svc_Idle" using assms(2) by (auto simp: svc_take_def split: svc_pc.splits)
  then obtain e q where q: "eq_get (eb_queue s) = (Some e, q)"
    using assms(2) False by (cases rule: eq.get_cases [of "eb_queue s"]) (auto simp: svc_take_def)
  let ?ms = "recipients e (eb_modules s)"
  have sub: "set ?ms \<subseteq> eb_alive s" using recipients_subset [of e "eb_modules s"] assms(1) by (simp add: refs_ok_def)
  obtain s1 where s1: "ref_add_all ?ms s = Inr s1" using ref_add_all_alive [OF sub] by blast
  have r: "r = Inr (s1\<lparr> eb_queue := q, eb_svc := Svc_Dispatch e ?ms, eb_taken := eb_taken s1 @ [(e, ?ms)] \<rparr>)"
    using assms(2) False idle q s1 by (simp add: svc_take_def Let_def)
  show ?thesis
    using ref_add_all_same [OF s1] assms(1) sub idle unfolding r by (auto simp: refs_ok_def)
qed

lemma refs_ok_serve:
  assumes "refs_ok s" "bus_do Svc_Serve s = Some r"
  shows "\<exists>s'. r = Inr s' \<and> refs_ok s'"
proof -
  obtain e ms where pc: "eb_svc s = Svc_Dispatch e ms"
    using assms(2) by (auto simp: svc_serve_def split: svc_pc.splits)
  show ?thesis
  proof (cases ms)
    case Nil
    then show ?thesis using assms pc by (auto simp: svc_serve_def refs_ok_def)
  next
    case (Cons m ks)
    have m: "m \<in> eb_alive s" using assms(1) pc Cons by (auto simp: refs_ok_def)
    have refs: "eb_refs s m = int (eb_owned s m + Suc (count_list ks m))"
      using assms(1) pc Cons m by (auto simp: refs_ok_def)
    have others: "0 < eb_owned s k" if "k \<in> eb_alive s" "k \<noteq> m" "k \<notin> set ks" for k
      using assms(1) pc Cons that by (auto simp: refs_ok_def count_list_0_iff)
    show ?thesis
    proof (cases "eb_refs s m = 1")
      case True
      then have "eb_owned s m = 0" "count_list ks m = 0" using refs by simp_all
      then show ?thesis
        using assms pc Cons m True set_deregister [of "eb_modules s" m]
        others by (auto simp: svc_serve_def ref_release_def av_module_destroy_def Let_def refs_ok_def count_list_0_iff)
    next
      case False
      then show ?thesis
        using assms pc Cons m refs others
        by (auto simp: svc_serve_def ref_release_def Let_def refs_ok_def count_list_0_iff)
    qed
  qed
qed

lemma refs_ok_drop:
  assumes "refs_ok s" "bus_do (Drop m) s = Some r" "eb_owned s m > 0"
  shows "\<exists>s'. r = Inr s' \<and> refs_ok s'"
proof -
  have m: "m \<in> eb_alive s" using assms(1,3) by (fastforce simp: refs_ok_def)
  then have refs: "eb_refs s m = int (eb_owned s m + count_list (pending_modules (eb_svc s)) m)"
    using assms(1) by (auto simp: refs_ok_def)
  show ?thesis
  proof (cases "eb_refs s m = 1")
    case True
    then have "eb_owned s m = 1" "count_list (pending_modules (eb_svc s)) m = 0" using refs assms(3) by simp_all
    then show ?thesis
      using assms m True set_deregister [of "eb_modules s" m]
      by (auto simp: ref_release_def av_module_destroy_def Let_def refs_ok_def count_list_0_iff)
  next
    case False
    then show ?thesis
      using assms m refs by (auto simp: ref_release_def Let_def refs_ok_def)
  qed
qed

lemma refs_ok_step:
  assumes "refs_ok s" "bus_do a s = Some r" "disciplined a s"
  shows "\<exists>s'. r = Inr s' \<and> refs_ok s'"
proof (cases a)
  case Svc_Take
  then show ?thesis using refs_ok_take assms by blast
next
  case Svc_Serve
  then show ?thesis using refs_ok_serve assms by blast
next
  case (Drop m)
  then show ?thesis using refs_ok_drop assms by (auto simp: disciplined_def)
next
  case (Add_Ref m)
  then have "m \<in> eb_alive s" using assms by (fastforce simp: refs_ok_def disciplined_def)
  then show ?thesis using assms Add_Ref by (auto simp: refs_ok_def ref_add_def)
next
  case (Create m msk)
  then show ?thesis
    using assms by (auto simp: refs_ok_def av_module_create_def register_module_def count_list_0_iff split: if_splits)
qed (use assms in \<open>auto simp: refs_ok_def bus_post_def disciplined_def\<close>)

lemma refs_ok_new: "refs_ok event_bus_new"
  by (simp add: refs_ok_def event_bus_new_def)

lemma refs_ok_count:
  assumes "refs_ok s" "m \<in> eb_alive s"
  shows "eb_refs s m = int (eb_owned s m + count_list (pending_modules (eb_svc s)) m) \<and> 0 < eb_refs s m"
proof -
  have "eb_refs s m = int (eb_owned s m + count_list (pending_modules (eb_svc s)) m)
      \<and> 0 < eb_owned s m + count_list (pending_modules (eb_svc s)) m"
    using assms unfolding refs_ok_def by (elim conjE) (rule bspec)
  then show ?thesis by (simp del: of_nat_add)
qed

lemma refs_ok_registered: "refs_ok s \<Longrightarrow> fst ` set (eb_modules s) = eb_alive s"
  by (simp add: refs_ok_def)

lemma refs_ok_run:
  "refs_ok s \<Longrightarrow> disciplined_run as s \<Longrightarrow> bus_run as s = Some r \<Longrightarrow> \<exists>s'. r = Inr s' \<and> refs_ok s'"
proof (induction as arbitrary: s)
  case (Cons a as)
  obtain r1 where r1: "bus_do a s = Some r1" using Cons.prems(3) by (auto split: option.splits)
  obtain s1 where "r1 = Inr s1" "refs_ok s1"
    using refs_ok_step [OF Cons.prems(1) r1] Cons.prems(2) by auto
  then show ?case using Cons.IH Cons.prems r1 by auto
qed auto

text \<open>
  C33: reference counting: as long as every owner releases only references it holds and a module is
  destroyed together with its last release, no run of the bus touches a freed module or frees one
  twice, each count is the owners' references plus the deliveries the bus thread still owes, and the
  registered modules are exactly the living ones.
\<close>

theorem event_bus_references:
  assumes "disciplined_run as event_bus_new" "bus_run as event_bus_new = Some r"
  shows "\<exists>s. r = Inr s \<and> fst ` set (eb_modules s) = eb_alive s
    \<and> (\<forall>m\<in>eb_alive s. eb_refs s m = int (eb_owned s m + count_list (pending_modules (eb_svc s)) m) \<and> 0 < eb_refs s m)"
  using refs_ok_run [OF refs_ok_new assms] refs_ok_count refs_ok_registered by blast

section \<open>Progress\<close>

text \<open>The bus thread running alone, for at most so many critical sections, until it waits.\<close>

definition svc_next :: "event_bus \<Rightarrow> event_bus res option" where
  "svc_next s = (case eb_svc s of Svc_Idle \<Rightarrow> svc_take s | _ \<Rightarrow> svc_serve s)"

fun svc_run :: "nat \<Rightarrow> event_bus \<Rightarrow> event_bus res" where
  "svc_run 0 s = Inr s"
| "svc_run (Suc n) s = (case svc_next s of None \<Rightarrow> Inr s | Some r \<Rightarrow> res_bind r (svc_run n))"

definition svc_work :: "event_bus \<Rightarrow> nat" where
  "svc_work s = length (eq_events (eb_queue s)) * (length (eb_modules s) + 2)
     + (case eb_svc s of Svc_Dispatch e ms \<Rightarrow> length ms + 1 | _ \<Rightarrow> 0)"

lemma length_deregister: "length (deregister_module m ms) \<le> length ms"
  by (induction m ms rule: deregister_module.induct) auto

lemma length_recipients: "length (recipients e ms) \<le> length ms"
  by (simp add: recipients_def)

lemma svc_next_progress:
  assumes "refs_ok s" "\<not> eb_exit s" "eb_svc s \<noteq> Svc_Exit"
  shows "(svc_next s = None \<and> eb_svc s = Svc_Idle \<and> eq_events (eb_queue s) = [])
    \<or> (\<exists>a s'. svc_next s = Some (Inr s') \<and> bus_do a s = Some (Inr s') \<and> refs_ok s' \<and> \<not> eb_exit s'
          \<and> eb_svc s' \<noteq> Svc_Exit \<and> eb_posted s' = eb_posted s \<and> svc_work s' < svc_work s)"
proof (cases "eb_svc s")
  case Svc_Idle
  show ?thesis
  proof (cases rule: eq.get_cases [of "eb_queue s"])
    case none
    then show ?thesis using Svc_Idle assms(2) by (simp add: svc_next_def svc_take_def)
  next
    case (some e q)
    let ?ms = "recipients e (eb_modules s)"
    have "set ?ms \<subseteq> eb_alive s" using recipients_subset [of e "eb_modules s"] assms(1) by (simp add: refs_ok_def)
    then obtain s1 where s1: "ref_add_all ?ms s = Inr s1" using ref_add_all_alive by blast
    let ?s' = "s1\<lparr> eb_queue := q, eb_svc := Svc_Dispatch e ?ms, eb_taken := eb_taken s1 @ [(e, ?ms)] \<rparr>"
    have took: "svc_take s = Some (Inr ?s')" using Svc_Idle assms(2) some(1) s1 by (simp add: svc_take_def Let_def)
    then have "refs_ok ?s'" using refs_ok_take [OF assms(1), of "Inr ?s'"] by auto
    moreover have "svc_work ?s' < svc_work s"
      using ref_add_all_same [OF s1] some(2) Svc_Idle length_recipients [of e "eb_modules s"]
      by (simp add: svc_work_def)
    ultimately show ?thesis
      using took ref_add_all_same [OF s1] Svc_Idle assms(2)
      by (intro disjI2 exI [of _ Svc_Take] exI [of _ ?s']) (simp add: svc_next_def)
  qed
next
  case (Svc_Dispatch e ms)
  then obtain r where r: "svc_serve s = Some r" by (cases ms) (simp_all add: svc_serve_def)
  then obtain s' where s': "r = Inr s'" "refs_ok s'" using refs_ok_serve [OF assms(1)] by auto
  have "eb_posted s' = eb_posted s \<and> eb_exit s' = eb_exit s \<and> eb_queue s' = eb_queue s
      \<and> length (eb_modules s') \<le> length (eb_modules s)
      \<and> eb_svc s' = (case ms of [] \<Rightarrow> Svc_Idle | m # ks \<Rightarrow> Svc_Dispatch e ks)"
    using r Svc_Dispatch length_deregister unfolding s'(1)
    by (cases ms) (auto simp: svc_serve_def ref_release_def av_module_destroy_def Let_def split: if_splits)
  moreover from this have "svc_work s' < svc_work s"
    using Svc_Dispatch by (cases ms) (auto simp: svc_work_def intro!: le_imp_less_Suc)
  ultimately show ?thesis
    using r s' Svc_Dispatch assms(2)
    by (intro disjI2 exI [of _ Svc_Serve] exI [of _ s']) (auto simp: svc_next_def split: list.split)
qed (use assms(3) in simp)

lemma svc_run_drains:
  assumes "refs_ok s" "bus_reach s" "\<not> eb_exit s" "eb_svc s \<noteq> Svc_Exit" "svc_work s < n"
  shows "\<exists>s'. svc_run n s = Inr s' \<and> bus_reach s' \<and> eb_svc s' = Svc_Idle \<and> eq_events (eb_queue s') = []
    \<and> eb_posted s' = eb_posted s"
  using assms
proof (induction n arbitrary: s)
  case (Suc n)
  from svc_next_progress [OF Suc.prems(1,3,4)] show ?case
  proof (elim disjE exE conjE)
    fix a s'
    assume "svc_next s = Some (Inr s')" "bus_do a s = Some (Inr s')" "refs_ok s'" "\<not> eb_exit s'"
      "eb_svc s' \<noteq> Svc_Exit" "eb_posted s' = eb_posted s" "svc_work s' < svc_work s"
    moreover from this have "bus_reach s'" using Suc.prems(2) bus_reach.step by blast
    ultimately show ?thesis using Suc.IH [of s'] Suc.prems(5) by auto
  qed (use Suc.prems in auto)
qed simp

lemma disciplined_reach:
  assumes "disciplined_run as event_bus_new" "bus_run as event_bus_new = Some (Inr s)"
  shows "refs_ok s" "bus_reach s"
  using refs_ok_run [OF refs_ok_new assms] bus_run_reach [OF bus_reach.new assms(2)] by auto


definition stats_event :: event where
  "stats_event = \<lparr> ev_from = 7, ev_location = ''here'', ev_send_time = 0, ev_done_time = 0, ev_type = EVENT_STATS,
     ev_data = None, ev_name = ''stats'', ev_need_response = False \<rparr>"

lemmas bus_eval = event_bus_new_def av_module_create_def register_module_def bus_post_def eq_post_def eq_empty_def
  ref_release_def svc_take_def eq_get_def recipients_def stats_event_def EVENT_ALL_def EVENT_STATS_def EVENT_QOS_def
  ref_add_def av_module_destroy_def svc_serve_def Let_def disciplined_def

definition bus_script :: "bus_action list" where
  "bus_script = [Create 7 EVENT_ALL, Create 8 EVENT_QOS, Post stats_event, Add_Ref 7, Drop 7, Svc_Take, Drop 7,
     Post stats_event]"

lemma bus_script_runs:
  "disciplined_run bus_script event_bus_new"
  "\<exists>s. bus_run bus_script event_bus_new = Some (Inr s) \<and> \<not> eb_exit s \<and> eb_svc s = Svc_Dispatch stats_event [7]
     \<and> eb_posted s = [stats_event, stats_event] \<and> svc_work s < 10"
  by (simp_all add: bus_script_def bus_eval svc_work_def)


theorem event_bus_references_witness:
  "\<exists>s. bus_run bus_script event_bus_new = Some (Inr s) \<and> fst ` set (eb_modules s) = eb_alive s"
proof -
  obtain s where s: "bus_run bus_script event_bus_new = Some (Inr s)" using bus_script_runs(2) by blast
  show ?thesis using event_bus_references [OF bus_script_runs(1) s] s by auto
qed


text \<open>
  The race the reference count leaves open: \<open>release()\<close> counts down under the lock but deletes after
  it, and the module stays registered until its destructor runs; if the bus thread takes an event in
  between, it revives the dying module, and then either uses it after its owner freed it or frees it
  before its owner does.
\<close>

lemma event_bus_release_race:
  "bus_run [Create 7 EVENT_ALL, Post stats_event, Release 7, Svc_Take, Destroy 7, Svc_Serve] event_bus_new
     = Some (Inl Use_After_Free)
   \<and> bus_run [Create 7 EVENT_ALL, Post stats_event, Release 7, Svc_Take, Svc_Serve, Destroy 7] event_bus_new
     = Some (Inl Double_Free)"
  by (simp add: bus_eval)

end
