(* ===== verification/Rtp_Packet.thy ===== *)
theory Rtp_Packet
  imports Prelude
begin

text \<open>
  The RTP packet component: \<open>Rtp/RtpPacket.h\<close> and \<open>Rtp/RtpPacket.cc\<close>. The header is the C
  bit-field struct as a little-endian compiler lays it out, \<open>rtp_parse\<close> is \<open>RtpPacket::parse\<close>
  with every read bounded by the buffer it is given, and \<open>rtp_create_instance\<close> builds the packet
  object the streams receive, with the sizes of its heap block written out. The lemmas relate the
  parser to the wire format of RFC 3550, given here as a predicate on byte lists, and show that
  neither the parser nor the constructor leaves its buffers.
\<close>

section \<open>The header struct\<close>

record rtp_header =
  hdr_cc :: "4 word"
  hdr_x :: "1 word"
  hdr_p :: "1 word"
  hdr_v :: "2 word"
  hdr_pt :: "7 word"
  hdr_m :: "1 word"
  hdr_seq :: "16 word"
  hdr_ts :: "32 word"
  hdr_ssrc :: "32 word"

definition sizeof_RTP_HEADER :: nat where
  "sizeof_RTP_HEADER = 12"

definition sizeof_RTP_PACKET :: nat where
  "sizeof_RTP_PACKET = 16"

definition offset_payload :: nat where
  "offset_payload = 14"

definition MAX_PAYLOAD_BYTES :: nat where
  "MAX_PAYLOAD_BYTES = 1024 * 63"

lemmas rtp_sizes = sizeof_RTP_HEADER_def sizeof_RTP_PACKET_def offset_payload_def MAX_PAYLOAD_BYTES_def

text \<open>
  The struct overlaid on twelve bytes: the first bit-field of a byte takes its low bits, and the
  multi-byte fields are little-endian loads (so they hold the network order value byte-swapped).
\<close>

definition load_header :: "byte list \<Rightarrow> nat \<Rightarrow> rtp_header" where
  "load_header b i =
     \<lparr> hdr_cc = ucast (b ! i), hdr_x = ucast (drop_bit 4 (b ! i)), hdr_p = ucast (drop_bit 5 (b ! i)),
       hdr_v = ucast (drop_bit 6 (b ! i)),
       hdr_pt = ucast (b ! (i + 1)), hdr_m = ucast (drop_bit 7 (b ! (i + 1))),
       hdr_seq = le16 (b ! (i + 2)) (b ! (i + 3)),
       hdr_ts = le32 (b ! (i + 4)) (b ! (i + 5)) (b ! (i + 6)) (b ! (i + 7)),
       hdr_ssrc = le32 (b ! (i + 8)) (b ! (i + 9)) (b ! (i + 10)) (b ! (i + 11)) \<rparr>"

definition rd_header :: "byte list \<Rightarrow> nat \<Rightarrow> rtp_header res" where
  "rd_header b i = (if i + sizeof_RTP_HEADER \<le> length b then Inr (load_header b i) else Inl Oob_Read)"

definition header_byte0 :: "rtp_header \<Rightarrow> byte" where
  "header_byte0 h = ucast (hdr_cc h) OR push_bit 4 (ucast (hdr_x h)) OR push_bit 5 (ucast (hdr_p h))
     OR push_bit 6 (ucast (hdr_v h))"

definition header_byte1 :: "rtp_header \<Rightarrow> byte" where
  "header_byte1 h = ucast (hdr_pt h) OR push_bit 7 (ucast (hdr_m h))"

definition store_header :: "rtp_header \<Rightarrow> byte list" where
  "store_header h =
     [header_byte0 h, header_byte1 h, byte_of 0 (hdr_seq h), byte_of 1 (hdr_seq h),
      byte_of 0 (hdr_ts h), byte_of 1 (hdr_ts h), byte_of 2 (hdr_ts h), byte_of 3 (hdr_ts h),
      byte_of 0 (hdr_ssrc h), byte_of 1 (hdr_ssrc h), byte_of 2 (hdr_ssrc h), byte_of 3 (hdr_ssrc h)]"

lemma length_store_header [simp]: "length (store_header h) = 12"
  by (simp add: store_header_def)

lemma bit_small_words [simp]:
  "4 \<le> n \<Longrightarrow> \<not> bit (c :: 4 word) n" "1 \<le> n \<Longrightarrow> \<not> bit (x :: 1 word) n"
  "2 \<le> n \<Longrightarrow> \<not> bit (v :: 2 word) n" "7 \<le> n \<Longrightarrow> \<not> bit (t :: 7 word) n"
  using bit_imp_le_length [of c n] bit_imp_le_length [of x n] bit_imp_le_length [of v n]
    bit_imp_le_length [of t n] by auto

lemma header_byte0_fields [simp]:
  "ucast (header_byte0 h) = hdr_cc h"
  "ucast (drop_bit 4 (header_byte0 h)) = hdr_x h"
  "ucast (drop_bit 5 (header_byte0 h)) = hdr_p h"
  "ucast (drop_bit 6 (header_byte0 h)) = hdr_v h"
  unfolding header_byte0_def by (auto intro!: bit_word_eqI simp: bit_simps)

lemma header_byte1_fields [simp]:
  "ucast (header_byte1 h) = hdr_pt h"
  "ucast (drop_bit 7 (header_byte1 h)) = hdr_m h"
  unfolding header_byte1_def by (auto intro!: bit_word_eqI simp: bit_simps)

lemma load_store_header [simp]: "load_header (store_header h @ rest) 0 = h"
  by (simp add: load_header_def store_header_def)

section \<open>Parsing\<close>

record rtp_parse_result =
  pr_ok :: bool
  pr_hdr :: "rtp_header option"
  pr_payload :: "nat option"
  pr_size :: "16 word"

definition parse_failed :: "rtp_header option \<Rightarrow> rtp_parse_result" where
  "parse_failed h = \<lparr> pr_ok = False, pr_hdr = h, pr_payload = None, pr_size = 0 \<rparr>"

text \<open>
  The header extension: \<open>pos\<close> and \<open>need\<close> are the cursor and \<open>need_size\<close> of the source; \<open>None\<close> is the
  \<open>break\<close> that ends in failure.
\<close>

definition rtp_skip_ext ::
    "byte list \<Rightarrow> nat \<Rightarrow> rtp_header \<Rightarrow> nat \<Rightarrow> nat \<Rightarrow> (nat \<times> nat) option res" where
  "rtp_skip_ext b sz h pos need =
     (if hdr_x h \<noteq> 0 then
        if sz < need + 4 then Inr None
        else res_bind (rd b (pos + 2)) (\<lambda>b0. res_bind (rd b (pos + 3)) (\<lambda>b1.
          let ext_count = unat (swap16 (le16 b0 b1)) in
          if sz < need + 4 + 4 * ext_count then Inr None
          else Inr (Some (pos + 4 + 4 * ext_count, need + 4 + 4 * ext_count))))
      else Inr (Some (pos, need)))"

definition rtp_strip_padding ::
    "byte list \<Rightarrow> nat \<Rightarrow> rtp_header \<Rightarrow> nat \<Rightarrow> 16 word \<Rightarrow> 16 word option res" where
  "rtp_strip_padding b sz h need psize =
     (if hdr_p h \<noteq> 0 then
        if sz < need + 1 then Inr None
        else res_bind (rd b (sz - 1)) (\<lambda>last_byte.
          let padding_size = (if last_byte < 1 then 1 else last_byte) in
          if sz < need + unat padding_size then Inr None
          else Inr (Some (psize - ucast padding_size)))
      else Inr (Some psize))"

definition rtp_parse :: "byte list option \<Rightarrow> 16 word \<Rightarrow> rtp_parse_result res" where
  "rtp_parse buffer size16 =
     (case buffer of
        None \<Rightarrow> Inr (parse_failed None)
      | Some b \<Rightarrow>
         let sz = unat size16 in
         if sz < sizeof_RTP_HEADER then Inr (parse_failed None)
         else res_bind (rd_header b 0) (\<lambda>h.
           if hdr_v h \<noteq> 2 then Inr (parse_failed (Some h))
           else
             let need = sizeof_RTP_HEADER + 4 * unat (hdr_cc h) in
             if sz < need then Inr (parse_failed (Some h))
             else res_bind (rtp_skip_ext b sz h need need) (\<lambda>r.
               case r of
                 None \<Rightarrow> Inr (parse_failed (Some h))
               | Some (pos, need) \<Rightarrow>
                   res_bind (rtp_strip_padding b sz h need (of_nat (sz - pos))) (\<lambda>r.
                     case r of
                       None \<Rightarrow> Inr (parse_failed (Some h))
                     | Some psize \<Rightarrow>
                         Inr \<lparr> pr_ok = True, pr_hdr = Some h,
                               pr_payload = (if psize = 0 then None else Some pos),
                               pr_size = psize \<rparr>))))"

section \<open>The wire format\<close>

text \<open>
  What RFC 3550 says of a packet: where its payload starts, how much padding it ends in, and when
  it is well formed. A zero padding count is read as one, as the code does.
\<close>

definition wire_csrc_end :: "byte list \<Rightarrow> nat" where
  "wire_csrc_end b = 12 + 4 * unat (hdr_cc (load_header b 0))"

definition wire_payload_start :: "byte list \<Rightarrow> nat" where
  "wire_payload_start b =
     (let c = wire_csrc_end b in
      if hdr_x (load_header b 0) = 0 then c
      else c + 4 + 4 * unat (be16 (b ! (c + 2)) (b ! (c + 3))))"

definition wire_padding :: "byte list \<Rightarrow> nat" where
  "wire_padding b = (if hdr_p (load_header b 0) = 0 then 0 else max 1 (unat (last b)))"

definition wire_valid :: "byte list \<Rightarrow> bool" where
  "wire_valid b \<longleftrightarrow>
     12 \<le> length b \<and> hdr_v (load_header b 0) = 2 \<and> wire_csrc_end b \<le> length b
     \<and> (hdr_x (load_header b 0) = 0 \<or> wire_csrc_end b + 4 \<le> length b)
     \<and> wire_payload_start b + wire_padding b \<le> length b"

definition wire_payload :: "byte list \<Rightarrow> byte list" where
  "wire_payload b =
     slice_of b (wire_payload_start b) (length b - wire_padding b - wire_payload_start b)"

definition payload_bytes :: "byte list \<Rightarrow> rtp_parse_result \<Rightarrow> byte list" where
  "payload_bytes b r = (case pr_payload r of None \<Rightarrow> [] | Some p \<Rightarrow> slice_of b p (unat (pr_size r)))"

lemma byte_less_one [simp]: "(b :: byte) < 1 \<longleftrightarrow> b = 0"
  by (simp add: word_less_nat_alt unat_eq_0)

lemma unat_max_one: "unat (if (b :: byte) < 1 then 1 else b) = max 1 (unat b)"
  by (cases "b = 0") (auto simp: max_def unat_gt_0 Suc_le_eq)

section \<open>The parser against the wire format\<close>

lemma rtp_skip_ext_eq:
  "sz \<le> length b \<Longrightarrow> rtp_skip_ext b sz h p p =
     Inr (if hdr_x h = 0 then Some (p, p)
          else if sz < p + 4 then None
          else let e = 4 * unat (be16 (b ! (p + 2)) (b ! (p + 3))) in
               if sz < p + 4 + e then None else Some (p + 4 + e, p + 4 + e))"
  by (auto simp: rtp_skip_ext_def Let_def)

lemma rtp_strip_padding_eq:
  assumes "sz \<le> length b" "need \<le> sz" "sz < 65536"
  shows "rtp_strip_padding b sz h need (of_nat (sz - need)) =
     (let k = (if hdr_p h = 0 then 0 else max 1 (unat (b ! (sz - 1)))) in
      Inr (if sz < need + k then None else Some (of_nat (sz - need - k))))"
proof (cases "hdr_p h = 0")
  case True
  then show ?thesis using assms by (simp add: rtp_strip_padding_def)
next
  case False
  let ?q = "if b ! (sz - 1) < 1 then 1 else b ! (sz - 1)"
  have q: "unat ?q = max 1 (unat (b ! (sz - 1)))" by (rule unat_max_one)
  have w: "(of_nat (sz - need) :: 16 word) - ucast ?q = of_nat (sz - need - unat ?q)"
    if "need + unat ?q \<le> sz"
    using that by (simp add: of_nat_diff)
  show ?thesis
    using False assms w unat_gt_0 [of "b ! (sz - 1)"] unfolding rtp_strip_padding_def q [symmetric] Let_def
    by (auto simp: q)
qed

lemma of_nat_u16_0:
  assumes "n < 65536"
  shows "(of_nat n :: 16 word) = 0 \<longleftrightarrow> n = 0"
proof -
  have "unat (of_nat n :: 16 word) = n" using assms by (simp add: unat_of_nat_small)
  then show ?thesis by auto
qed

lemma skip_ext_wire:
  assumes "wire_csrc_end b \<le> length b"
  shows "rtp_skip_ext b (length b) (load_header b 0) (wire_csrc_end b) (wire_csrc_end b) =
    Inr (if (hdr_x (load_header b 0) = 0 \<or> wire_csrc_end b + 4 \<le> length b)
            \<and> wire_payload_start b \<le> length b
         then Some (wire_payload_start b, wire_payload_start b) else None)"
  using assms by (auto simp: rtp_skip_ext_eq wire_payload_start_def Let_def)

lemma strip_padding_wire:
  assumes "wire_payload_start b \<le> length b" "12 \<le> length b" "length b < 65536"
  shows "rtp_strip_padding b (length b) (load_header b 0) (wire_payload_start b)
           (of_nat (length b - wire_payload_start b)) =
    Inr (if wire_payload_start b + wire_padding b \<le> length b
         then Some (of_nat (length (wire_payload b))) else None)"
proof -
  have "b ! (length b - 1) = last b" by (rule drop_last_nth) (use assms in auto)
  moreover have "wire_payload_start b + wire_padding b \<le> length b \<Longrightarrow>
      length (wire_payload b) = length b - wire_payload_start b - wire_padding b"
    by (simp add: wire_payload_def slice_of_def)
  ultimately show ?thesis
    using assms
    by (simp add: rtp_strip_padding_eq Let_def wire_padding_def not_less diff_diff_add
        del: of_nat_diff of_nat_add)
qed

lemma length_wire_payload: "length b < 65536 \<Longrightarrow> length (wire_payload b) < 65536"
  by (auto simp: wire_payload_def slice_of_def)

lemma rtp_parse_eq:
  assumes "length b < 65536"
  shows "rtp_parse (Some b) (of_nat (length b)) =
    Inr (if wire_valid b then
           \<lparr> pr_ok = True, pr_hdr = Some (load_header b 0),
             pr_payload = (if wire_payload b = [] then None else Some (wire_payload_start b)),
             pr_size = of_nat (length (wire_payload b)) \<rparr>
         else parse_failed (if length b < 12 then None else Some (load_header b 0)))"
proof -
  let ?h = "load_header b 0"
  have len: "unat (of_nat (length b) :: 16 word) = length b"
    using assms by (simp add: unat_of_nat_small)
  show ?thesis
  proof (cases "12 \<le> length b \<and> hdr_v ?h = 2 \<and> wire_csrc_end b \<le> length b")
    case False
    then show ?thesis
      by (auto simp: rtp_parse_def rd_header_def Let_def len sizeof_RTP_HEADER_def wire_valid_def
          wire_csrc_end_def)
  next
    case True
    then have b: "12 \<le> length b" "hdr_v ?h = 2" "12 + 4 * unat (hdr_cc ?h) \<le> length b"
      "wire_csrc_end b \<le> length b"
      by (simp_all add: wire_csrc_end_def)
    have z: "(of_nat (length (wire_payload b)) :: 16 word) = 0 \<longleftrightarrow> wire_payload b = []"
      using length_wire_payload [OF assms] by (simp add: of_nat_u16_0)
    have "rtp_parse (Some b) (of_nat (length b)) =
      res_bind (rtp_skip_ext b (length b) ?h (wire_csrc_end b) (wire_csrc_end b)) (\<lambda>r.
        case r of None \<Rightarrow> Inr (parse_failed (Some ?h))
        | Some (pos, need) \<Rightarrow>
            res_bind (rtp_strip_padding b (length b) ?h need (of_nat (length b - pos))) (\<lambda>r.
              case r of None \<Rightarrow> Inr (parse_failed (Some ?h))
              | Some psize \<Rightarrow> Inr \<lparr> pr_ok = True, pr_hdr = Some ?h,
                   pr_payload = (if psize = 0 then None else Some pos), pr_size = psize \<rparr>))"
      using b by (simp add: rtp_parse_def rd_header_def Let_def len sizeof_RTP_HEADER_def
          wire_csrc_end_def)
    then show ?thesis
      using b assms by (auto simp: skip_ext_wire strip_padding_wire wire_valid_def z
          simp del: of_nat_diff)
  qed
qed

section \<open>The packet object\<close>

text \<open>
  \<open>m_packet\<close> is one heap block holding the \<open>RTP_PACKET\<close> struct: header at 0, \<open>size\<close> at 12, payload
  at 14; \<open>pk_alloc\<close> is the size it was allocated with. The two allocations of \<open>create_instance\<close> may
  fail (\<open>std::nothrow\<close>), and \<open>junk\<close> is what the fresh block holds.
\<close>

record rtp_packet =
  pk_mem :: "byte block"
  pk_alloc :: nat

definition rtp_init ::
    "bool \<Rightarrow> byte block \<Rightarrow> rtp_header \<Rightarrow> byte list option \<Rightarrow> 16 word \<Rightarrow> rtp_packet option res" where
  "rtp_init alloc_ok junk h payload sz =
     (let alloc = sizeof_RTP_PACKET + unat sz - 1 in
      if \<not> alloc_ok then Inr None
      else if alloc < sizeof_RTP_PACKET then Inl Oob_Write
      else
        let m = blit (blit junk 0 (replicate sizeof_RTP_PACKET 0)) 0 (store_header h) in
        case payload of
          None \<Rightarrow> Inr (Some \<lparr> pk_mem = m, pk_alloc = alloc \<rparr>)
        | Some p \<Rightarrow>
            if length p < unat sz then Inl Oob_Read
            else if alloc < offset_payload + unat sz then Inl Oob_Write
            else
              let m = blit m offset_payload (take (unat sz) p);
                  m = blit m 12 [byte_of 0 sz, byte_of 1 sz]
              in Inr (Some \<lparr> pk_mem = m, pk_alloc = alloc \<rparr>))"

definition rtp_create_instance ::
    "bool \<Rightarrow> bool \<Rightarrow> byte block \<Rightarrow> rtp_header \<Rightarrow> byte list option \<Rightarrow> 16 word \<Rightarrow> rtp_packet option res" where
  "rtp_create_instance new_ok alloc_ok junk h payload sz =
     (if payload = None \<or> sz = 0 \<or> unat sz > MAX_PAYLOAD_BYTES then Inr None
      else if \<not> new_ok then Inr None
      else rtp_init alloc_ok junk h payload sz)"

definition packet_hdr :: "rtp_packet \<Rightarrow> rtp_header" where
  "packet_hdr pk = load_header (region (pk_mem pk) 0 12) 0"

definition packet_write_hdr :: "rtp_header \<Rightarrow> rtp_packet \<Rightarrow> rtp_packet" where
  "packet_write_hdr h pk = pk\<lparr> pk_mem := blit (pk_mem pk) 0 (store_header h) \<rparr>"

definition set_marker :: "bool \<Rightarrow> rtp_packet \<Rightarrow> rtp_packet" where
  "set_marker m pk = packet_write_hdr ((packet_hdr pk)\<lparr> hdr_m := (if m then 1 else 0) \<rparr>) pk"

definition marker :: "rtp_packet \<Rightarrow> bool" where
  "marker pk = (hdr_m (packet_hdr pk) \<noteq> 0)"

definition set_payload_type :: "byte \<Rightarrow> rtp_packet \<Rightarrow> rtp_packet" where
  "set_payload_type pt pk = packet_write_hdr ((packet_hdr pk)\<lparr> hdr_pt := ucast pt \<rparr>) pk"

definition payload_type :: "rtp_packet \<Rightarrow> byte" where
  "payload_type pk = ucast (hdr_pt (packet_hdr pk))"

definition set_sequence :: "16 word \<Rightarrow> rtp_packet \<Rightarrow> rtp_packet" where
  "set_sequence q pk = packet_write_hdr ((packet_hdr pk)\<lparr> hdr_seq := swap16 q \<rparr>) pk"

definition sequence :: "rtp_packet \<Rightarrow> 16 word" where
  "sequence pk = swap16 (hdr_seq (packet_hdr pk))"

definition set_timestamp :: "32 word \<Rightarrow> rtp_packet \<Rightarrow> rtp_packet" where
  "set_timestamp t pk = packet_write_hdr ((packet_hdr pk)\<lparr> hdr_ts := swap32 t \<rparr>) pk"

definition timestamp :: "rtp_packet \<Rightarrow> 32 word" where
  "timestamp pk = swap32 (hdr_ts (packet_hdr pk))"

definition set_ssrc :: "32 word \<Rightarrow> rtp_packet \<Rightarrow> rtp_packet" where
  "set_ssrc i pk = packet_write_hdr ((packet_hdr pk)\<lparr> hdr_ssrc := swap32 i \<rparr>) pk"

definition ssrc :: "rtp_packet \<Rightarrow> 32 word" where
  "ssrc pk = swap32 (hdr_ssrc (packet_hdr pk))"

definition payload_size :: "rtp_packet \<Rightarrow> 16 word" where
  "payload_size pk = le16 (pk_mem pk 12) (pk_mem pk 13)"

definition payload :: "rtp_packet \<Rightarrow> byte list" where
  "payload pk = region (pk_mem pk) offset_payload (unat (payload_size pk))"

lemmas packet_getters = marker_def payload_type_def sequence_def timestamp_def ssrc_def
lemmas packet_setters = set_marker_def set_payload_type_def set_sequence_def set_timestamp_def set_ssrc_def

lemma packet_hdr_write [simp]: "packet_hdr (packet_write_hdr h pk) = h"
proof -
  have "region (blit (pk_mem pk) 0 (store_header h)) 0 12 = store_header h"
    using region_blit_same [of "pk_mem pk" 0 "store_header h"] by simp
  then show ?thesis
    using load_store_header [of h "[]"] by (simp add: packet_hdr_def packet_write_hdr_def)
qed

lemma payload_write_hdr [simp]:
  "payload_size (packet_write_hdr h pk) = payload_size pk"
  "payload (packet_write_hdr h pk) = payload pk"
  by (simp_all add: payload_size_def payload_def packet_write_hdr_def offset_payload_def region_def)

lemma rtp_init_packet:
  assumes "rtp_init alloc_ok junk h (Some p) sz = Inr (Some pk)"
  shows "packet_hdr pk = h" "payload_size pk = sz" "payload pk = take (unat sz) p"
    "pk_alloc pk = sizeof_RTP_PACKET + unat sz - 1"
proof -
  let ?m0 = "blit (blit junk 0 (replicate sizeof_RTP_PACKET 0)) 0 (store_header h)"
  let ?m1 = "blit ?m0 14 (take (unat sz) p)"
  let ?m2 = "blit ?m1 12 [byte_of 0 sz, byte_of 1 sz]"
  from assms have pk: "pk_mem pk = ?m2" and al: "pk_alloc pk = sizeof_RTP_PACKET + unat sz - 1"
    and len: "unat sz \<le> length p"
    by (auto simp: rtp_init_def Let_def offset_payload_def split: if_splits)
  show "pk_alloc pk = sizeof_RTP_PACKET + unat sz - 1" by (rule al)
  have "region ?m2 0 12 = region ?m0 0 12" by (simp add: mem_simps)
  also have "\<dots> = store_header h"
    using region_blit_same [of _ 0 "store_header h"] by simp
  finally show "packet_hdr pk = h"
    using load_store_header [of h "[]"] by (simp add: packet_hdr_def pk)
  have "?m2 12 = byte_of 0 sz" "?m2 13 = byte_of 1 sz" by (simp_all add: blit_def)
  then show sz: "payload_size pk = sz" by (simp add: payload_size_def pk)
  have "region ?m2 14 (unat sz) = region ?m1 14 (unat sz)"
    by (rule nth_equalityI) auto
  also have "\<dots> = take (unat sz) p"
    using region_blit_same [of ?m0 14 "take (unat sz) p"] len by simp
  finally show "payload pk = take (unat sz) p"
    by (simp add: payload_def offset_payload_def sz pk)
qed

lemma rtp_parse_valid:
  assumes "length b < 65536" "wire_valid b"
  shows "\<exists>r. rtp_parse (Some b) (of_nat (length b)) = Inr r \<and> pr_ok r
    \<and> pr_hdr r = Some (load_header b 0) \<and> payload_bytes b r = wire_payload b
    \<and> unat (pr_size r) = length (wire_payload b)"
proof -
  have n: "unat (of_nat (length (wire_payload b)) :: 16 word) = length (wire_payload b)"
    using length_wire_payload [OF assms(1)] by (simp add: unat_of_nat_small)
  have "slice_of b (wire_payload_start b) (length (wire_payload b)) = wire_payload b"
    by (auto simp: wire_payload_def slice_of_def)
  then show ?thesis
    using n assms(2) by (auto simp: rtp_parse_eq [OF assms(1)] payload_bytes_def)
qed

section \<open>Building packets\<close>

text \<open>
  The sender's view: a header, the contributing sources, an optional extension (profile and
  content), the payload and an optional padding count. \<open>wire_fields_ok\<close> says the header announces
  them.
\<close>

definition wire_ext :: "(16 word \<times> byte list) option \<Rightarrow> byte list" where
  "wire_ext e = (case e of None \<Rightarrow> []
     | Some (profile, c) \<Rightarrow>
         let n = of_nat (length c div 4) :: 16 word in
         [byte_of 1 profile, byte_of 0 profile, byte_of 1 n, byte_of 0 n] @ c)"

definition wire_pad :: "byte option \<Rightarrow> byte list" where
  "wire_pad p = (case p of None \<Rightarrow> [] | Some n \<Rightarrow> replicate (unat n - 1) 0 @ [n])"

definition wire_build ::
    "rtp_header \<Rightarrow> byte list \<Rightarrow> (16 word \<times> byte list) option \<Rightarrow> byte list \<Rightarrow> byte option \<Rightarrow> byte list" where
  "wire_build h csrcs e body p = store_header h @ csrcs @ wire_ext e @ body @ wire_pad p"

definition wire_fields_ok ::
    "rtp_header \<Rightarrow> byte list \<Rightarrow> (16 word \<times> byte list) option \<Rightarrow> byte option \<Rightarrow> bool" where
  "wire_fields_ok h csrcs e p \<longleftrightarrow>
     hdr_v h = 2 \<and> length csrcs = 4 * unat (hdr_cc h)
     \<and> (case e of None \<Rightarrow> hdr_x h = 0
        | Some (_, c) \<Rightarrow> hdr_x h \<noteq> 0 \<and> 4 dvd length c \<and> length c div 4 < 65536)
     \<and> (case p of None \<Rightarrow> hdr_p h = 0 | Some n \<Rightarrow> hdr_p h \<noteq> 0 \<and> n \<noteq> 0)"

lemma wire_build_hdr [simp]: "load_header (wire_build h csrcs e body p) 0 = h"
  by (simp add: wire_build_def)

lemma wire_build_payload_start:
  assumes "wire_fields_ok h csrcs e p"
  shows "wire_payload_start (wire_build h csrcs e body p) = 12 + length csrcs + length (wire_ext e)"
proof (cases e)
  case None
  then show ?thesis
    using assms by (simp add: wire_payload_start_def wire_csrc_end_def wire_fields_ok_def wire_ext_def)
next
  case (Some e')
  obtain profile c where e': "e' = (profile, c)" by force
  let ?n = "of_nat (length c div 4) :: 16 word"
  let ?b = "wire_build h csrcs e body p"
  have c: "hdr_x h \<noteq> 0" "4 dvd length c" "unat ?n = length c div 4"
    and cs: "wire_csrc_end ?b = 12 + length csrcs"
    using assms by (auto simp: wire_fields_ok_def Some e' wire_csrc_end_def unat_of_nat_small)
  have b: "?b = (store_header h @ csrcs) @ byte_of 1 profile # byte_of 0 profile
      # byte_of 1 ?n # byte_of 0 ?n # c @ body @ wire_pad p"
    by (simp add: wire_build_def wire_ext_def Some e' Let_def)
  have "?b ! (12 + length csrcs + 2) = byte_of 1 ?n" "?b ! (12 + length csrcs + 3) = byte_of 0 ?n"
    unfolding b nth_append by (simp_all add: numeral_2_eq_2 numeral_3_eq_3)
  then have "be16 (?b ! (12 + length csrcs + 2)) (?b ! (12 + length csrcs + 3)) = ?n"
    by (simp add: be16_def)
  then have "wire_payload_start ?b = 12 + length csrcs + 4 + length c"
    unfolding wire_payload_start_def Let_def cs using c by simp
  then show ?thesis by (simp add: wire_ext_def Some e' Let_def)
qed

lemma wire_build_padding:
  assumes "wire_fields_ok h csrcs e p"
  shows "wire_padding (wire_build h csrcs e body p) = length (wire_pad p)"
  using assms unat_gt_0
  by (auto simp: wire_padding_def wire_fields_ok_def wire_pad_def wire_build_def max_def
      Suc_le_eq not_le unat_eq_0 split: option.splits)

text \<open>The receive buffer is one byte longer than the datagram; the parser does not look at it.\<close>

lemma rtp_parse_longer:
  assumes "length b < 65536"
  shows "rtp_parse (Some (b @ xs)) (of_nat (length b)) = rtp_parse (Some b) (of_nat (length b))"
proof -
  have len: "unat (of_nat (length b) :: 16 word) = length b" using assms by (simp add: unat_of_nat_small)
  have hdr: "12 \<le> length b \<Longrightarrow> rd_header (b @ xs) 0 = rd_header b 0"
    by (auto simp: rd_header_def sizeof_RTP_HEADER_def load_header_def nth_append)
  have ext: "rtp_skip_ext (b @ xs) (length b) h p p = rtp_skip_ext b (length b) h p p" for h p
    by (auto simp: rtp_skip_ext_def nth_append)
  have pad: "rtp_strip_padding (b @ xs) (length b) h need psize = rtp_strip_padding b (length b) h need psize" for h need psize
    by (cases "b = []") (auto simp: rtp_strip_padding_def nth_append)
  show ?thesis
    by (auto simp: rtp_parse_def len hdr ext pad sizeof_RTP_HEADER_def Let_def not_less intro!: res_bind_cong)
qed

lemma rtp_parse_wire_build:
  assumes "wire_fields_ok h csrcs e p" and "length (wire_build h csrcs e body p) < 65536"
  shows "\<exists>r. rtp_parse (Some (wire_build h csrcs e body p))
            (of_nat (length (wire_build h csrcs e body p))) = Inr r
          \<and> pr_ok r \<and> pr_hdr r = Some h \<and> payload_bytes (wire_build h csrcs e body p) r = body
          \<and> unat (pr_size r) = length body"
proof -
  let ?b = "wire_build h csrcs e body p"
  note st = wire_build_payload_start [OF assms(1), of body]
  note pd = wire_build_padding [OF assms(1), of body]
  have len: "length ?b = 12 + length csrcs + length (wire_ext e) + length body + length (wire_pad p)"
    by (simp add: wire_build_def)
  have v: "wire_valid ?b"
    using assms(1) st pd len
    by (auto simp: wire_valid_def wire_csrc_end_def wire_fields_ok_def wire_ext_def Let_def
        split: option.splits)
  have pl: "wire_payload ?b = body"
    unfolding wire_payload_def st pd len by (simp add: slice_of_def wire_build_def)
  show ?thesis
    using rtp_parse_valid [OF assms(2) v] by (auto simp: pl)
qed

lemma rtp_create_instance_some:
  assumes "unat sz \<le> length p" "sz \<noteq> 0" "unat sz \<le> 64512" "new_ok" "alloc_ok"
  obtains pk where "rtp_create_instance new_ok alloc_ok junk h (Some p) sz = Inr (Some pk)"
    "packet_hdr pk = h" "payload_size pk = sz" "payload pk = take (unat sz) p" "pk_alloc pk = sizeof_RTP_PACKET + unat sz - 1"
proof -
  have "\<exists>pk. rtp_init alloc_ok junk h (Some p) sz = Inr (Some pk)"
    using assms unat_gt_0 [of sz] by (auto simp: rtp_init_def Let_def rtp_sizes)
  then obtain pk where pk: "rtp_init alloc_ok junk h (Some p) sz = Inr (Some pk)" ..
  have "rtp_create_instance new_ok alloc_ok junk h (Some p) sz = rtp_init alloc_ok junk h (Some p) sz"
    using assms by (simp add: rtp_create_instance_def MAX_PAYLOAD_BYTES_def)
  then show thesis using that [of pk] pk rtp_init_packet [OF pk] by simp
qed

section \<open>Properties\<close>

text \<open>
  C1: \<open>RtpPacket::parse\<close>, given a whole datagram, never reads outside it, accepts exactly the
  packets RFC 3550 calls well formed, and returns for those the header of the datagram and a
  payload pointer and size that delimit exactly its payload (no contributing source, no extension,
  no padding), for the others a null payload of size zero.
\<close>

theorem rtp_parse_correct:
  assumes "length b < 65536"
  shows "\<exists>r. rtp_parse (Some b) (of_nat (length b)) = Inr r
    \<and> pr_ok r = wire_valid b
    \<and> (wire_valid b \<longrightarrow> pr_hdr r = Some (load_header b 0) \<and> payload_bytes b r = wire_payload b
         \<and> unat (pr_size r) = length (wire_payload b))
    \<and> (\<not> wire_valid b \<longrightarrow> pr_payload r = None \<and> pr_size r = 0)"
proof (cases "wire_valid b")
  case True
  then show ?thesis using rtp_parse_valid [OF assms True] by auto
next
  case False
  then show ?thesis by (simp add: rtp_parse_eq [OF assms] parse_failed_def)
qed

theorem rtp_parse_correct_witness:
  "length [0x80, 96, 0, 1, 0, 0, 0, 2, 0, 0, 0, 3, 7, 8 :: byte] < 65536 \<and>
   (\<exists>r. rtp_parse (Some [0x80, 96, 0, 1, 0, 0, 0, 2, 0, 0, 0, 3, 7, 8]) 14 = Inr r \<and> pr_ok r
        \<and> unat (pr_size r) = 2)"
proof -
  let ?b = "[0x80, 96, 0, 1, 0, 0, 0, 2, 0, 0, 0, 3, 7, 8] :: byte list"
  have len: "length ?b < 65536" by simp
  have v: "wire_valid ?b" "length (wire_payload ?b) = 2"
    by (simp_all add: wire_valid_def wire_payload_def wire_payload_start_def wire_csrc_end_def
        wire_padding_def load_header_def slice_of_def Let_def)
  show ?thesis using rtp_parse_correct [OF len] v by auto
qed

text \<open>
  C14: parsing inverts building: for every header, contributing sources, extension, payload and
  padding that fit one datagram, \<open>RtpPacket::parse\<close> of the bytes a sender writes returns the header
  and exactly the payload.
\<close>

theorem rtp_parse_build:
  assumes "wire_fields_ok h csrcs e p" and "length (wire_build h csrcs e body p) < 65536"
  shows "\<exists>r. rtp_parse (Some (wire_build h csrcs e body p))
            (of_nat (length (wire_build h csrcs e body p))) = Inr r
          \<and> pr_ok r \<and> pr_hdr r = Some h \<and> payload_bytes (wire_build h csrcs e body p) r = body"
  using rtp_parse_wire_build [OF assms] by blast

theorem rtp_parse_build_witness:
  "wire_fields_ok (load_header [0xB1, 96, 0, 1, 0, 0, 0, 2, 0, 0, 0, 3] 0) [9, 9, 9, 9]
     (Some (0xBEDE, [1, 2, 3, 4])) (Some 2)
   \<and> (\<exists>r. rtp_parse (Some (wire_build (load_header [0xB1, 96, 0, 1, 0, 0, 0, 2, 0, 0, 0, 3] 0)
             [9, 9, 9, 9] (Some (0xBEDE, [1, 2, 3, 4])) [5, 6, 7] (Some 2))) 29 = Inr r \<and> pr_ok r)"
proof -
  let ?h = "load_header [0xB1, 96, 0, 1, 0, 0, 0, 2, 0, 0, 0, 3] 0"
  let ?b = "wire_build ?h [9, 9, 9, 9] (Some (0xBEDE, [1, 2, 3, 4])) [5, 6, 7] (Some 2)"
  have four: "4 dvd Suc (Suc (Suc (Suc 0)))" by presburger
  have ok: "wire_fields_ok ?h [9, 9, 9, 9] (Some (0xBEDE, [1, 2, 3, 4])) (Some 2)"
    using four by (simp add: wire_fields_ok_def load_header_def)
  have len: "length ?b = 29" by (simp add: wire_build_def wire_ext_def wire_pad_def Let_def)
  then have "length ?b < 65536" by simp
  from rtp_parse_build [OF ok this] ok len show ?thesis by auto
qed

text \<open>
  A packet object created from a parsed payload stays inside the block it allocates for every
  payload size, is refused exactly for a null or empty payload, one above 63 KiB or a failed
  allocation, and then carries the header and exactly the payload bytes it was given.
\<close>

lemma rtp_create_instance_correct:
  assumes "unat sz \<le> length p"
  shows "\<exists>r. rtp_create_instance new_ok alloc_ok junk h (Some p) sz = Inr r
    \<and> (r = None \<longleftrightarrow> sz = 0 \<or> unat sz > 64512 \<or> \<not> new_ok \<or> \<not> alloc_ok)
    \<and> (\<forall>pk. r = Some pk \<longrightarrow> packet_hdr pk = h \<and> payload pk = take (unat sz) p
           \<and> offset_payload + unat (payload_size pk) \<le> pk_alloc pk)"
proof (cases "sz = 0 \<or> unat sz > 64512 \<or> \<not> new_ok \<or> \<not> alloc_ok")
  case True
  then show ?thesis
    by (auto simp: rtp_create_instance_def rtp_init_def MAX_PAYLOAD_BYTES_def)
next
  case False
  then obtain pk where "rtp_create_instance new_ok alloc_ok junk h (Some p) sz = Inr (Some pk)"
    "packet_hdr pk = h" "payload_size pk = sz" "payload pk = take (unat sz) p" "pk_alloc pk = sizeof_RTP_PACKET + unat sz - 1"
    using rtp_create_instance_some [OF assms, of new_ok alloc_ok junk h] by auto
  then show ?thesis using False by (intro exI [of _ "Some pk"]) (simp add: rtp_sizes)
qed

lemma rtp_create_instance_correct_witness:
  "unat (2 :: 16 word) \<le> length [7, 8 :: byte] \<and>
   (\<exists>r. rtp_create_instance True True (\<lambda>_. 0) (load_header (replicate 12 0) 0) (Some [7, 8]) 2 = Inr r
        \<and> r \<noteq> None)"
  using rtp_create_instance_correct [of 2 "[7, 8]" True True "\<lambda>_. 0" "load_header (replicate 12 0) 0"]
  by auto

text \<open>
  The accessors of a packet agree: each field reads back what was written, in host order (the
  payload type modulo 128), and writing it changes no other field, nor the payload or its size.
\<close>

lemma rtp_packet_accessors:
  "marker (set_marker m pk) = m
   \<and> payload_type (set_payload_type pt pk) = pt AND 127
   \<and> sequence (set_sequence q pk) = q
   \<and> timestamp (set_timestamp t pk) = t
   \<and> ssrc (set_ssrc i pk) = i
   \<and> timestamp (set_sequence q pk) = timestamp pk \<and> marker (set_sequence q pk) = marker pk
   \<and> payload_type (set_marker m pk) = payload_type pk \<and> marker (set_payload_type pt pk) = marker pk
   \<and> sequence (set_timestamp t pk) = sequence pk \<and> ssrc (set_timestamp t pk) = ssrc pk
   \<and> payload (set_sequence q (set_timestamp t (set_ssrc i (set_marker m (set_payload_type pt pk)))))
       = payload pk"
proof -
  have m: "(127 :: byte) = mask 7" by (simp add: mask_eq_exp_minus_1)
  have "payload_type (set_payload_type pt pk) = pt AND 127"
    unfolding payload_type_def set_payload_type_def m
    by (auto intro!: bit_word_eqI simp: bit_simps simp del: mask_numeral)
  then show ?thesis by (simp add: packet_getters packet_setters)
qed

end
