(* ===== verification/Media.thy ===== *)
theory Media
  imports Prelude
begin

text \<open>
  The vocabulary of \<open>Common/common.h\<close> and of the depacketizer interface
  \<open>Depacketizers/RtpDepacketizer.h\<close>: media types, frame flags, the size limit of an elementary
  stream frame, the status codes of \<open>parse\<close>, and the frame a depacketizer hands out.
\<close>

datatype rtp_media_type =
    RTP_MEDIA_INVALID
  | RTP_MEDIA_AUDIO_AAC
  | RTP_MEDIA_AUDIO_OPUS
  | RTP_MEDIA_VIDEO_AVC
  | RTP_MEDIA_VIDEO_VP8

definition ISVIDEO :: "rtp_media_type \<Rightarrow> bool" where
  "ISVIDEO x = (x = RTP_MEDIA_VIDEO_AVC \<or> x = RTP_MEDIA_VIDEO_VP8)"

definition ISAUDIO :: "rtp_media_type \<Rightarrow> bool" where
  "ISAUDIO x = (x = RTP_MEDIA_AUDIO_AAC \<or> x = RTP_MEDIA_AUDIO_OPUS)"

definition RTP_VIDEO_CLOCK :: nat where
  "RTP_VIDEO_CLOCK = 90000"

definition FRAME_IS_INCOMPLETE :: "32 word" where
  "FRAME_IS_INCOMPLETE = 1"

definition FRAME_IS_SYNC_POINT :: "32 word" where
  "FRAME_IS_SYNC_POINT = 2"

definition MAX_ES_FRAME_SIZE :: nat where
  "MAX_ES_FRAME_SIZE = 1000000"

datatype depack_status = DEPACKETIZER_NEED_MORE | DEPACKETIZER_ERROR | DEPACKETIZER_FRAME

text \<open>
  The \<open>MediaFrame\<close> a depacketizer fills: \<open>data\<close> points into its own buffer and is copied at once by
  the stream, so the model carries the bytes it delimits when \<open>parse\<close> returns. \<open>type\<close> is set later,
  by the stream.
\<close>

record depack_frame =
  df_data :: "byte list"
  df_pts :: "32 word"
  df_payload_type :: int
  df_flags :: "32 word"
  df_packets :: int

text \<open>
  The argument list of \<open>parse\<close> after the packet: marker bit, timestamp, payload type, and whether
  the caller passes a frame to fill.
\<close>

record parse_args =
  pa_marker :: bool
  pa_pts :: "32 word"
  pa_payload_type :: int
  pa_frame :: bool

section \<open>Feeding packets\<close>

text \<open>Feeding a list of packets: the statuses and frames in order, and the state left.\<close>

type_synonym 's parser = "byte list option \<Rightarrow> parse_args \<Rightarrow> 's \<Rightarrow> (depack_status \<times> 's \<times> depack_frame option) res"
type_synonym feed_outs = "(depack_status \<times> depack_frame option) list"

fun feed :: "'s parser \<Rightarrow> (byte list \<times> parse_args) list \<Rightarrow> 's \<Rightarrow> (feed_outs \<times> 's) res" where
  "feed parse [] s = Inr ([], s)"
| "feed parse ((p, a) # ps) s =
     res_bind (parse (Some p) a s) (\<lambda>(st, s, f).
       res_bind (feed parse ps s) (\<lambda>(outs, s). Inr ((st, f) # outs, s)))"

lemma feed_append:
  "feed parse (ps @ qs) s =
     res_bind (feed parse ps s) (\<lambda>(outs, s).
       res_bind (feed parse qs s) (\<lambda>(outs', s). Inr (outs @ outs', s)))"
proof (induction ps arbitrary: s)
  case Nil
  then show ?case by (cases "feed parse qs s") auto
next
  case (Cons q ps)
  obtain p a where q: "q = (p, a)" by force
  show ?case
  proof (cases "parse (Some p) a s")
    case (Inr r)
    obtain st s' f where r: "r = (st, s', f)" by (cases r)
    show ?thesis
      by (cases "feed parse ps s'"; cases "feed parse qs (snd (projr (feed parse ps s')))")
        (auto simp: q Inr r Cons.IH)
  qed (simp add: q)
qed

text \<open>Packets of one timestamp, the marker bit (if any) on the last.\<close>

fun with_marker :: "parse_args \<Rightarrow> byte list list \<Rightarrow> (byte list \<times> parse_args) list" where
  "with_marker a [] = []"
| "with_marker a [p] = [(p, a)]"
| "with_marker a (p # q # ps) = (p, a\<lparr> pa_marker := False \<rparr>) # with_marker a (q # ps)"

lemma with_marker_last: "ps \<noteq> [] \<Longrightarrow> with_marker a ps \<noteq> [] \<and> last (with_marker a ps) = (last ps, a)"
  by (induction a ps rule: with_marker.induct) auto

lemma with_marker_append:
  "qs \<noteq> [] \<Longrightarrow> with_marker a (ps @ qs) = with_marker (a\<lparr> pa_marker := False \<rparr>) ps @ with_marker a qs"
proof (induction ps)
  case (Cons p ps)
  then show ?case by (cases ps; cases qs) auto
qed simp

lemma with_marker_append_False:
  assumes "\<not> pa_marker a"
  shows "with_marker a (ps @ qs) = with_marker a ps @ with_marker a qs"
proof -
  have "a\<lparr> pa_marker := False \<rparr> = a" using assms by simp
  then show ?thesis by (cases "qs = []") (simp_all add: with_marker_append)
qed

definition quiet :: "feed_outs \<Rightarrow> bool" where
  "quiet outs \<longleftrightarrow> (\<forall>out\<in>set outs. out = (DEPACKETIZER_NEED_MORE, None))"

lemma quiet_simps [simp]:
  "quiet []" "quiet (out # outs) \<longleftrightarrow> out = (DEPACKETIZER_NEED_MORE, None) \<and> quiet outs"
  "quiet (outs @ outs') \<longleftrightarrow> quiet outs \<and> quiet outs'" "quiet (replicate n (DEPACKETIZER_NEED_MORE, None))"
  by (auto simp: quiet_def)

end
