(* ===== verification/Depack_H264.thy ===== *)
theory Depack_H264
  imports Media
begin

text \<open>
  The H.264 depacketizer: \<open>Depacketizers/RtpDepacketizerH264.h\<close> and \<open>.cc\<close>. The two heap buffers are
  memory blocks, so cells beyond the current length keep what an earlier unit left there, as
  \<open>m_nalu[STARTCODE_LENGTH]\<close> may read. The macros of \<open>parse\<close> are operations that may take the
  \<open>goto fail\<close>; reads past the packet and writes past a buffer are faults. The lemmas give the frame
  assembly on byte lists (\<open>assemble\<close>) and show that single NAL unit packets, aggregation packets
  and fragmentation units all feed the same units to it.
\<close>

section \<open>State\<close>

record h264 =
  h_nalu :: "byte block option"
  h_nalu_len :: nat
  h_sps_sentry :: bool
  h_pps_sentry :: bool
  h_idr_sentry :: bool
  h_frame :: "byte block option"
  h_frame_len :: nat
  h_packets :: int

definition STARTCODE_LENGTH :: nat where "STARTCODE_LENGTH = 4"
definition SPS_TYPE :: byte where "SPS_TYPE = 7"
definition PPS_TYPE :: byte where "PPS_TYPE = 8"
definition IDR_TYPE :: byte where "IDR_TYPE = 5"

lemmas h264_consts = STARTCODE_LENGTH_def SPS_TYPE_def PPS_TYPE_def IDR_TYPE_def

text \<open>The constructor; a failed allocation leaves a null buffer and is only logged.\<close>

definition h264_new :: "byte block option \<Rightarrow> byte block option \<Rightarrow> h264" where
  "h264_new nalu frame =
     \<lparr> h_nalu = nalu, h_nalu_len = 0, h_sps_sentry = True, h_pps_sentry = True,
       h_idr_sentry = True, h_frame = frame, h_frame_len = 0, h_packets = 0 \<rparr>"

definition h264_set_sync_point :: "h264 \<Rightarrow> h264" where
  "h264_set_sync_point s =
     s\<lparr> h_sps_sentry := True, h_pps_sentry := True, h_idr_sentry := True,
        h_nalu_len := 0, h_frame_len := 0 \<rparr>"

section \<open>The frame assembly\<close>

definition h264_check_rau :: "byte \<Rightarrow> h264 \<Rightarrow> bool \<times> h264" where
  "h264_check_rau nalu_type s =
     (if nalu_type = SPS_TYPE \<or> nalu_type = PPS_TYPE then
        if nalu_type = SPS_TYPE then (True, s\<lparr> h_sps_sentry := False \<rparr>)
        else (True, s\<lparr> h_pps_sentry := False \<rparr>)
      else if h_sps_sentry s \<or> h_pps_sentry s then (False, s)
      else if nalu_type \<noteq> IDR_TYPE then (False, s)
      else (True, s\<lparr> h_idr_sentry := False \<rparr>))"

definition h264_gate :: "byte \<Rightarrow> h264 \<Rightarrow> bool \<times> h264" where
  "h264_gate nalu_type s =
     (if h_sps_sentry s \<or> h_pps_sentry s \<or> h_idr_sentry s then h264_check_rau nalu_type s
      else (True, s))"

type_synonym h264_out = "depack_status \<times> h264 \<times> depack_frame option"

definition h264_emit :: "parse_args \<Rightarrow> 32 word \<Rightarrow> h264 \<Rightarrow> h264_out" where
  "h264_emit a flags s =
     (DEPACKETIZER_FRAME, s\<lparr> h_packets := 0, h_frame_len := 0 \<rparr>,
      case (pa_frame a, h_frame s) of
        (True, Some m) \<Rightarrow> Some
          \<lparr> df_data = region m 0 (h_frame_len s), df_pts = pa_pts a,
            df_payload_type = pa_payload_type a, df_flags = flags, df_packets = h_packets s \<rparr>
      | _ \<Rightarrow> None)"

definition h264_decode_nalu ::
    "byte block option \<Rightarrow> nat \<Rightarrow> byte \<Rightarrow> bool \<Rightarrow> parse_args \<Rightarrow> h264 \<Rightarrow> h264_out res" where
  "h264_decode_nalu nalu nalu_len nalu_type frame_end a s =
     (case nalu of
        None \<Rightarrow> Inr (DEPACKETIZER_ERROR, s, None)
      | Some nal \<Rightarrow>
         if nalu_len = 0 then Inr (DEPACKETIZER_ERROR, s, None)
         else
           let too_large = int nalu_len > int MAX_ES_FRAME_SIZE - int (h_frame_len s);
               flags = (if too_large then FRAME_IS_INCOMPLETE else 0);
               nalu_len = (if too_large then nat (int MAX_ES_FRAME_SIZE - int (h_frame_len s)) else nalu_len);
               frame_end = (too_large \<or> frame_end);
               (pass, s) = h264_gate nalu_type s
           in if \<not> pass then Inr (DEPACKETIZER_NEED_MORE, s, None)
           else
             let flags = (if nalu_type = IDR_TYPE then flags OR FRAME_IS_SYNC_POINT else flags)
             in res_bind
               (if nalu_len > 0 then
                  res_bind (blk_write MAX_ES_FRAME_SIZE (h_frame s) (h_frame_len s) (region nal 0 nalu_len))
                    (\<lambda>m. Inr (s\<lparr> h_frame := m, h_frame_len := h_frame_len s + nalu_len \<rparr>))
                else Inr s)
               (\<lambda>s. if frame_end then Inr (h264_emit a flags s)
                     else Inr (DEPACKETIZER_NEED_MORE, s, None)))"

section \<open>The macros of \<open>parse\<close>\<close>

type_synonym 'a h264_ctl = "(h264, 'a) ctl res"

definition h264_check_size :: "nat \<Rightarrow> h264 \<Rightarrow> h264 h264_ctl" where
  "h264_check_size x s =
     (if int x > int MAX_ES_FRAME_SIZE - int (h_nalu_len s)
      then Inr (Goto_Fail (s\<lparr> h_nalu_len := 0, h_frame_len := 0, h_packets := 0 \<rparr>))
      else Inr (Next s))"

definition h264_append :: "byte list \<Rightarrow> h264 \<Rightarrow> h264 h264_ctl" where
  "h264_append xs s =
     res_bind (blk_write MAX_ES_FRAME_SIZE (h_nalu s) (h_nalu_len s) xs)
       (\<lambda>m. Inr (Next (s\<lparr> h_nalu := m, h_nalu_len := h_nalu_len s + length xs \<rparr>)))"

definition h264_add_startcode :: "h264 \<Rightarrow> h264 h264_ctl" where
  "h264_add_startcode s = ctl_bind (h264_check_size STARTCODE_LENGTH s) (h264_append [0, 0, 0, 1])"

definition h264_start_nalu :: "byte \<Rightarrow> h264 \<Rightarrow> h264 h264_ctl" where
  "h264_start_nalu header s =
     ctl_bind (h264_add_startcode s) (\<lambda>s. ctl_bind (h264_check_size 1 s) (h264_append [header]))"

definition h264_add_buffer :: "byte list \<Rightarrow> h264 \<Rightarrow> h264 h264_ctl" where
  "h264_add_buffer xs s = ctl_bind (h264_check_size (length xs) s) (h264_append xs)"

definition h264_dec_nalu :: "bool \<Rightarrow> parse_args \<Rightarrow> h264 \<Rightarrow> h264_out h264_ctl" where
  "h264_dec_nalu final a s =
     (case h_nalu s of
        None \<Rightarrow> Inl Null_Deref
      | Some nal \<Rightarrow>
          res_bind (h264_decode_nalu (h_nalu s) (h_nalu_len s) (nal STARTCODE_LENGTH AND 0x1f) final a s)
            (\<lambda>(status, s, frame). Inr (Next (status, s\<lparr> h_nalu_len := 0 \<rparr>, frame))))"

section \<open>\<open>parse\<close>\<close>

definition h264_single :: "byte list \<Rightarrow> parse_args \<Rightarrow> h264 \<Rightarrow> h264_out h264_ctl" where
  "h264_single packet a s =
     ctl_bind (h264_add_startcode s) (\<lambda>s.
       ctl_bind (h264_add_buffer packet s) (h264_dec_nalu (pa_marker a) a))"

text \<open>
  The aggregation loop, on the bytes that remain: it reads the two length bytes before it knows
  that two bytes remain.
\<close>

fun h264_stapa :: "byte list \<Rightarrow> parse_args \<Rightarrow> h264 \<Rightarrow> h264_out h264_ctl" where
  "h264_stapa (len_hi # len_lo # packet) a s =
     (let len = unat (be16 len_hi len_lo) in
      if len > length packet then Inr (Goto_Fail s)
      else ctl_bind (h264_add_startcode s) (\<lambda>s.
        ctl_bind (h264_add_buffer (take len packet) s) (\<lambda>s.
          let rest = drop len packet in
          ctl_bind (h264_dec_nalu (if rest = [] then pa_marker a else False) a s)
            (\<lambda>(status, s, frame).
               if rest = [] then Inr (Next (status, s, frame)) else h264_stapa rest a s))))"
| "h264_stapa _ a s = Inl Oob_Read"

definition h264_fua :: "byte \<Rightarrow> byte list \<Rightarrow> parse_args \<Rightarrow> h264 \<Rightarrow> h264_out h264_ctl" where
  "h264_fua indicator packet a s =
     (case packet of
        [] \<Rightarrow> Inl Oob_Read
      | fu # packet \<Rightarrow>
         let temp = indicator AND 0xe0;
             nalu_header = temp OR (fu AND 0x1f);
             start = (fu AND 0x80 > 0);
             end = (fu AND 0x40 > 0)
         in if start \<and> end then Inr (Goto_Fail s)
         else ctl_bind (if start then h264_start_nalu nalu_header s else Inr (Next s)) (\<lambda>s.
           ctl_bind (h264_add_buffer packet s) (\<lambda>s.
             if end then h264_dec_nalu (pa_marker a) a s
             else Inr (Next (DEPACKETIZER_NEED_MORE, s, None)))))"

definition h264_finish :: "h264_out h264_ctl \<Rightarrow> h264_out res" where
  "h264_finish m =
     res_bind m (\<lambda>c. case c of
         Next out \<Rightarrow> Inr out
       | Goto_Fail s \<Rightarrow> Inr (DEPACKETIZER_ERROR, s\<lparr> h_nalu_len := 0 \<rparr>, None))"

definition h264_parse :: "byte list option \<Rightarrow> parse_args \<Rightarrow> h264 \<Rightarrow> h264_out res" where
  "h264_parse packet a s =
     (case packet of
        None \<Rightarrow> Inr (DEPACKETIZER_ERROR, s, None)
      | Some [] \<Rightarrow> Inr (DEPACKETIZER_ERROR, s, None)
      | Some (p0 # rest) \<Rightarrow>
         let s = s\<lparr> h_packets := h_packets s + 1 \<rparr>;
             packet_type = p0 AND 0x1f
         in h264_finish
           (if 1 \<le> packet_type \<and> packet_type \<le> 12 then h264_single (p0 # rest) a s
            else if packet_type = 24 then h264_stapa rest a s
            else if packet_type = 28 then h264_fua p0 rest a s
            else Inr (Goto_Fail s)))"

section \<open>Well-formed states and memory safety\<close>

definition h264_wf :: "h264 \<Rightarrow> bool" where
  "h264_wf s \<longleftrightarrow> h_nalu s \<noteq> None \<and> h_frame s \<noteq> None
     \<and> h_nalu_len s \<le> MAX_ES_FRAME_SIZE \<and> h_frame_len s \<le> MAX_ES_FRAME_SIZE"

lemma h264_wf_new [simp]: "h264_wf (h264_new (Some n) (Some f))"
  by (simp add: h264_wf_def h264_new_def)

lemma h264_wf_simps [simp]:
  "h264_wf s \<Longrightarrow> h264_wf (s\<lparr> h_nalu_len := 0 \<rparr>)"
  "h264_wf s \<Longrightarrow> h264_wf (s\<lparr> h_nalu_len := 0, h_frame_len := 0 \<rparr>)"
  "h264_wf (s\<lparr> h_packets := k \<rparr>) = h264_wf s"
  "h264_wf s \<Longrightarrow> h264_wf (h264_set_sync_point s)"
  by (auto simp: h264_wf_def h264_set_sync_point_def)

text \<open>A control result that is no fault and leaves a well-formed state on either way out.\<close>

definition h264_ctl_ok :: "('a \<Rightarrow> h264) \<Rightarrow> 'a h264_ctl \<Rightarrow> bool" where
  "h264_ctl_ok st m = (case m of Inl _ \<Rightarrow> False | Inr (Next x) \<Rightarrow> h264_wf (st x) | Inr (Goto_Fail s) \<Rightarrow> h264_wf s)"

lemma h264_ctl_ok_simps [simp]:
  "\<not> h264_ctl_ok st (Inl e)"
  "h264_ctl_ok st (Inr (Next x)) = h264_wf (st x)"
  "h264_ctl_ok st (Inr (Goto_Fail s)) = h264_wf s"
  by (simp_all add: h264_ctl_ok_def)

lemma h264_ctl_ok_bind:
  assumes "h264_ctl_ok st m" "\<And>x. m = Inr (Next x) \<Longrightarrow> h264_wf (st x) \<Longrightarrow> h264_ctl_ok st' (f x)"
  shows "h264_ctl_ok st' (ctl_bind m f)"
  using assms by (auto simp: h264_ctl_ok_def ctl_bind_def split: sum.splits ctl.splits)

lemma h264_check_size_ok: "h264_wf s \<Longrightarrow> h264_ctl_ok id (h264_check_size x s)"
  by (simp add: h264_check_size_def)

lemma h264_check_append_ok:
  "h264_wf s \<Longrightarrow> h264_ctl_ok id (ctl_bind (h264_check_size (length xs) s) (h264_append xs))"
  by (auto simp: h264_check_size_def h264_append_def h264_wf_def)

lemma h264_add_startcode_ok: "h264_wf s \<Longrightarrow> h264_ctl_ok id (h264_add_startcode s)"
  using h264_check_append_ok [of s "[0, 0, 0, 1]"]
  by (simp add: h264_add_startcode_def STARTCODE_LENGTH_def numeral_eq_Suc)

lemma h264_start_nalu_ok: "h264_wf s \<Longrightarrow> h264_ctl_ok id (h264_start_nalu h s)"
  unfolding h264_start_nalu_def
  using h264_check_append_ok [of _ "[h]"] by (auto intro!: h264_ctl_ok_bind [OF h264_add_startcode_ok])

lemma h264_add_buffer_ok: "h264_wf s \<Longrightarrow> h264_ctl_ok id (h264_add_buffer xs s)"
  unfolding h264_add_buffer_def by (rule h264_check_append_ok)

lemma h264_gate_frame:
  assumes "h264_gate t s = (p, s')"
  shows "h_frame s' = h_frame s" "h_frame_len s' = h_frame_len s" "h_nalu s' = h_nalu s"
    "h_nalu_len s' = h_nalu_len s" "h_packets s' = h_packets s"
  using assms by (auto simp: h264_gate_def h264_check_rau_def split: if_splits)

lemma h264_gate_wf: "h264_gate t s = (p, s') \<Longrightarrow> h264_wf s' = h264_wf s"
  using h264_gate_frame [of t s p s'] by (simp add: h264_wf_def)

text \<open>The decoding of a unit from a well-formed state, without its dead error branches.\<close>

lemma h264_decode_nalu_eq:
  assumes wf: "h264_wf s" and fm: "h_frame s = Some fm" and n: "0 < n"
    and gate: "h264_gate t s = (pass, s1)"
  shows "h264_decode_nalu (Some nal) n t final a s =
    (if \<not> pass then Inr (DEPACKETIZER_NEED_MORE, s1, None)
     else
       let room = MAX_ES_FRAME_SIZE - h_frame_len s; k = min n room;
           flags = (if room < n then FRAME_IS_INCOMPLETE else 0)
             OR (if t = IDR_TYPE then FRAME_IS_SYNC_POINT else 0);
           s2 = s1\<lparr> h_frame := Some (blit fm (h_frame_len s) (region nal 0 k)),
                    h_frame_len := h_frame_len s + k \<rparr>
       in Inr (if room < n \<or> final then h264_emit a flags s2 else (DEPACKETIZER_NEED_MORE, s2, None)))"
proof -
  let ?room = "MAX_ES_FRAME_SIZE - h_frame_len s"
  have le: "h_frame_len s \<le> MAX_ES_FRAME_SIZE" using wf by (simp add: h264_wf_def)
  then have big: "int MAX_ES_FRAME_SIZE - int (h_frame_len s) < int n \<longleftrightarrow> ?room < n"
    and room: "nat (int MAX_ES_FRAME_SIZE - int (h_frame_len s)) = ?room"
    by linarith+
  note g = h264_gate_frame [OF gate]
  show ?thesis
  proof (cases "?room < n")
    case True
    show ?thesis
      using True n fm g le
      by (cases s1; cases "?room = 0") (simp_all add: h264_decode_nalu_def gate Let_def big room min_def)
  next
    case False
    then show ?thesis
      using n fm g le by (simp add: h264_decode_nalu_def gate Let_def big room min_def)
  qed
qed

lemma h264_decode_nalu_ok:
  assumes "h264_wf s"
  shows "\<exists>st s' f. h264_decode_nalu (Some nal) n t final a s = Inr (st, s', f) \<and> h264_wf s'
    \<and> h_nalu s' = h_nalu s"
proof (cases "n = 0")
  case True
  then show ?thesis using assms by (simp add: h264_decode_nalu_def)
next
  case False
  obtain fm where fm: "h_frame s = Some fm" using assms by (auto simp: h264_wf_def)
  obtain pass s1 where g: "h264_gate t s = (pass, s1)" by force
  from False have n: "0 < n" by simp
  show ?thesis
    using h264_gate_frame [OF g] h264_gate_wf [OF g] assms
    by (auto simp: h264_decode_nalu_eq [OF assms fm n g] Let_def h264_emit_def h264_wf_def)
qed

lemma h264_dec_nalu_ok:
  assumes "h264_wf s"
  shows "h264_ctl_ok (\<lambda>(_, s, _). s) (h264_dec_nalu final a s)"
proof -
  from assms obtain nal where nal: "h_nalu s = Some nal" by (auto simp: h264_wf_def)
  obtain st s' f where
    "h264_decode_nalu (Some nal) (h_nalu_len s) (nal STARTCODE_LENGTH AND 0x1f) final a s = Inr (st, s', f)"
    "h264_wf s'"
    using h264_decode_nalu_ok [OF assms] by blast
  then show ?thesis using nal by (simp add: h264_dec_nalu_def)
qed

text \<open>Whether an aggregation packet ends where its length fields say, so that no read leaves it.\<close>

fun stapa_closed :: "byte list \<Rightarrow> bool" where
  "stapa_closed (len_hi # len_lo # packet) =
     (let len = unat (be16 len_hi len_lo) in
      length packet \<le> len \<or> stapa_closed (drop len packet))"
| "stapa_closed _ = False"

lemma h264_stapa_ok:
  "stapa_closed p \<Longrightarrow> h264_wf s \<Longrightarrow> h264_ctl_ok (\<lambda>(_, s, _). s) (h264_stapa p a s)"
proof (induction p a s rule: h264_stapa.induct)
  case (1 hi lo packet a s)
  let ?len = "unat (be16 hi lo)"
  show ?case
  proof (cases "?len \<le> length packet")
    case False
    then show ?thesis using "1.prems" by (simp add: Let_def)
  next
    case True
    have IH: "h264_ctl_ok (\<lambda>(_, s, _). s) (h264_stapa (drop ?len packet) a s')"
      if "drop ?len packet \<noteq> []" "h264_wf s'" for s'
      using "1.IH" [OF refl _ refl that(1) _] True that "1.prems"(1)
      by (auto simp: Let_def not_less)
    show ?thesis
      using True "1.prems"
      by (auto simp: Let_def not_less intro!: h264_ctl_ok_bind [OF h264_add_startcode_ok]
          h264_ctl_ok_bind [OF h264_add_buffer_ok] h264_ctl_ok_bind [OF h264_dec_nalu_ok] IH)
  qed
qed auto

section \<open>The frame assembly on byte lists\<close>

text \<open>
  What the depacketizer promises, free of buffers: the bytes of the frame so far and the three
  sentries. \<open>assemble u l v\<close> gives the assembly one NAL unit \<open>u\<close> (without start code), \<open>l\<close> marking the
  last of its frame: the unit is dropped while the stream waits for a random access point, else
  appended behind a start code as far as the frame buffer reaches, and the frame comes out with the
  last unit or when the buffer is full.
\<close>

record h264_view =
  v_data :: "byte list"
  v_sps :: bool
  v_pps :: bool
  v_idr :: bool

definition h264_view :: "h264 \<Rightarrow> h264_view" where
  "h264_view s =
     \<lparr> v_data = (case h_frame s of None \<Rightarrow> [] | Some m \<Rightarrow> region m 0 (h_frame_len s)),
       v_sps = h_sps_sentry s, v_pps = h_pps_sentry s, v_idr = h_idr_sentry s \<rparr>"

definition nal_type :: "byte list \<Rightarrow> byte" where
  "nal_type u = hd u AND 0x1f"

definition annexb :: "byte list \<Rightarrow> byte list" where
  "annexb u = [0, 0, 0, 1] @ u"

definition rau_open :: "byte \<Rightarrow> h264_view \<Rightarrow> bool" where
  "rau_open t v \<longleftrightarrow> \<not> (v_sps v \<or> v_pps v \<or> v_idr v) \<or> t = SPS_TYPE \<or> t = PPS_TYPE
     \<or> (\<not> v_sps v \<and> \<not> v_pps v \<and> t = IDR_TYPE)"

definition rau_note :: "byte \<Rightarrow> h264_view \<Rightarrow> h264_view" where
  "rau_note t v =
     v\<lparr> v_sps := v_sps v \<and> t \<noteq> SPS_TYPE, v_pps := v_pps v \<and> t \<noteq> PPS_TYPE,
        v_idr := v_idr v \<and> \<not> (t = IDR_TYPE \<and> \<not> v_sps v \<and> \<not> v_pps v) \<rparr>"

type_synonym assembly = "depack_status \<times> h264_view \<times> (byte list \<times> 32 word) option"

definition assemble :: "byte list \<Rightarrow> bool \<Rightarrow> h264_view \<Rightarrow> assembly" where
  "assemble u final v =
     (let t = nal_type u; room = MAX_ES_FRAME_SIZE - length (v_data v);
          full = room < length (annexb u) in
      if \<not> rau_open t v then (DEPACKETIZER_NEED_MORE, v, None)
      else
        let d = v_data v @ take room (annexb u); v = rau_note t v in
        if full \<or> final then
          (DEPACKETIZER_FRAME, v\<lparr> v_data := [] \<rparr>,
           Some (d, (if full then FRAME_IS_INCOMPLETE else 0)
                    OR (if t = IDR_TYPE then FRAME_IS_SYNC_POINT else 0)))
        else (DEPACKETIZER_NEED_MORE, v\<lparr> v_data := d \<rparr>, None))"

text \<open>What an output of \<open>parse\<close> shows of itself, and the states between units.\<close>

definition h264_shows :: "h264_out \<Rightarrow> assembly" where
  "h264_shows out = (case out of (st, s, f) \<Rightarrow>
     (st, h264_view s, map_option (\<lambda>f. (df_data f, df_flags f)) f))"

definition h264_ready :: "h264 \<Rightarrow> bool" where
  "h264_ready s \<longleftrightarrow> h264_wf s \<and> h_nalu_len s = 0"

lemma h264_gate_view:
  assumes "h264_gate t s = (pass, s1)"
  shows "pass = rau_open t (h264_view s)"
    and "h264_view s1 = (if pass then rau_note t (h264_view s) else h264_view s)"
  using assms
  by (auto simp: h264_gate_def h264_check_rau_def rau_open_def rau_note_def h264_view_def h264_consts
      split: if_splits option.splits)

lemma h264_view_simps [simp]:
  "h264_view (s\<lparr> h_nalu_len := n \<rparr>) = h264_view s"
  "h264_view (s\<lparr> h_nalu := m \<rparr>) = h264_view s"
  "h264_view (s\<lparr> h_packets := k \<rparr>) = h264_view s"
  "h264_view (s\<lparr> h_frame_len := 0 \<rparr>) = (h264_view s)\<lparr> v_data := [] \<rparr>"
  "(h264_view (s\<lparr> h_frame := x \<rparr>))\<lparr> v_data := y \<rparr> = (h264_view s)\<lparr> v_data := y \<rparr>"
  "h264_view (s\<lparr> h_frame := Some fm, h_frame_len := k0 \<rparr>) = (h264_view s)\<lparr> v_data := region fm 0 k0 \<rparr>"
  by (auto simp: h264_view_def split: option.splits)

lemma h264_dec_nalu_assemble:
  assumes wf: "h264_wf s" and nal: "h_nalu s = Some nal" and a: "pa_frame a" and u: "u \<noteq> []"
    and reg: "region nal 0 (h_nalu_len s) = annexb u"
  shows "\<exists>out. h264_dec_nalu final a s = Inr (Next out)
    \<and> h264_shows out = assemble u final (h264_view s) \<and> h264_ready (fst (snd out))"
proof -
  obtain fm where fm: "h_frame s = Some fm" using wf by (auto simp: h264_wf_def)
  have n: "h_nalu_len s = length (annexb u)" using arg_cong [OF reg, of length] by simp
  then have n0: "0 < h_nalu_len s" by (simp add: annexb_def)
  have "nal 4 = region nal 0 (h_nalu_len s) ! 4" using n u by (simp add: annexb_def)
  also have "\<dots> = hd u" using u by (simp add: reg annexb_def hd_conv_nth)
  finally have t: "nal STARTCODE_LENGTH AND 0x1f = nal_type u"
    by (simp add: nal_type_def STARTCODE_LENGTH_def)
  obtain pass s1 where g: "h264_gate (nal_type u) s = (pass, s1)" by force
  note gf = h264_gate_frame [OF g] and gv = h264_gate_view [OF g]
  have vd: "v_data (h264_view s) = region fm 0 (h_frame_len s)" by (simp add: h264_view_def fm)
  let ?n = "length (annexb u)" and ?room = "MAX_ES_FRAME_SIZE - h_frame_len s"
  let ?d = "v_data (h264_view s) @ take ?room (annexb u)"
  let ?t = "nal_type u"
  have k: "region nal 0 (min ?n ?room) = take ?room (annexb u)"
    using reg by (simp add: region_min n)
  have d: "region (blit fm (h_frame_len s) (take ?room (annexb u))) 0 (h_frame_len s + min ?n ?room) = ?d"
    using region_blit_append [of fm "h_frame_len s" "take ?room (annexb u)"] by (simp add: vd)
  have d': "region (blit fm (h_frame_len s) (annexb u)) 0 (h_frame_len s + ?n) = v_data (h264_view s) @ annexb u"
    using region_blit_append [of fm "h_frame_len s" "annexb u"] by (simp add: vd)
  let ?flags = "(if ?room < ?n then FRAME_IS_INCOMPLETE else 0)
    OR (if ?t = IDR_TYPE then FRAME_IS_SYNC_POINT else 0)"
  let ?s2 = "s1\<lparr> h_frame := Some (blit fm (h_frame_len s) (take ?room (annexb u))),
    h_frame_len := h_frame_len s + min ?n ?room \<rparr>"
  have dec: "h264_dec_nalu final a s =
      (case (if \<not> pass then (DEPACKETIZER_NEED_MORE, s1, None)
         else if ?room < ?n \<or> final then h264_emit a ?flags ?s2 else (DEPACKETIZER_NEED_MORE, ?s2, None))
       of (st, s, f) \<Rightarrow> Inr (Next (st, s\<lparr> h_nalu_len := 0 \<rparr>, f)))"
    using h264_decode_nalu_eq [OF wf fm _ g, of ?n nal final a] n n0 reg
    by (simp add: h264_dec_nalu_def nal t Let_def k)
  have asm: "assemble u final (h264_view s) =
      (if \<not> pass then (DEPACKETIZER_NEED_MORE, h264_view s, None)
       else if ?room < ?n \<or> final
         then (DEPACKETIZER_FRAME, (rau_note ?t (h264_view s))\<lparr> v_data := [] \<rparr>, Some (?d, ?flags))
       else (DEPACKETIZER_NEED_MORE, (rau_note ?t (h264_view s))\<lparr> v_data := ?d \<rparr>, None))"
    by (simp add: assemble_def Let_def gv vd)
  have wf': "h264_wf s1" using wf h264_gate_wf [OF g] by simp
  show ?thesis
    unfolding dec asm using wf' gv(2) a gf by (cases pass; cases "?room < ?n \<or> final")
      (auto simp: h264_shows_def h264_emit_def h264_ready_def h264_wf_def d d')
qed

section \<open>From packets to units\<close>

text \<open>A state whose unit buffer holds \<open>p\<close>.\<close>

definition h264_holds :: "byte list \<Rightarrow> h264 \<Rightarrow> bool" where
  "h264_holds p s \<longleftrightarrow> h264_wf s \<and> (\<exists>nal. h_nalu s = Some nal \<and> region nal 0 (h_nalu_len s) = p)"

lemma h264_holds_Nil [simp]: "h264_holds [] s = h264_ready s"
  by (auto simp: h264_holds_def h264_ready_def h264_wf_def simp flip: length_0_conv)

lemma h264_holds_packets [simp]: "h264_holds p (s\<lparr> h_packets := k \<rparr>) = h264_holds p s"
  by (simp add: h264_holds_def)

lemma h264_add_buffer_holds:
  assumes "h264_holds p s" "length p + length xs \<le> MAX_ES_FRAME_SIZE"
  obtains s' where "h264_add_buffer xs s = Inr (Next s')" "h264_holds (p @ xs) s'"
    "h264_view s' = h264_view s"
proof -
  obtain nal where s: "h264_wf s" "h_nalu s = Some nal" "region nal 0 (h_nalu_len s) = p"
    using assms(1) by (auto simp: h264_holds_def)
  have n: "h_nalu_len s = length p" using s(3) by (metis length_region)
  let ?s = "s\<lparr> h_nalu := Some (blit nal (length p) xs), h_nalu_len := length p + length xs \<rparr>"
  have "h264_add_buffer xs s = Inr (Next ?s)"
    using assms(2) s(2) n by (simp add: h264_add_buffer_def h264_check_size_def h264_append_def)
  moreover have "h264_holds (p @ xs) ?s"
    using s n assms(2) region_blit_append [of nal "length p" xs] by (auto simp: h264_holds_def h264_wf_def)
  moreover have "h264_view ?s = h264_view s" by (simp add: h264_view_def cong: option.case_cong)
  ultimately show thesis by (rule that)
qed

lemma h264_add_startcode_buffer: "h264_add_startcode s = h264_add_buffer [0, 0, 0, 1] s"
  by (simp add: h264_add_startcode_def h264_add_buffer_def STARTCODE_LENGTH_def numeral_eq_Suc)

lemma h264_start_nalu_buffer:
  "h264_start_nalu h s = ctl_bind (h264_add_buffer [0, 0, 0, 1] s) (h264_add_buffer [h])"
  by (simp add: h264_start_nalu_def h264_add_startcode_buffer h264_add_buffer_def [abs_def])

lemma h264_unit_holds:
  assumes "h264_ready s" "length u + 4 \<le> MAX_ES_FRAME_SIZE"
  obtains s' where "ctl_bind (h264_add_startcode s) (h264_add_buffer u) = Inr (Next s')"
    "h264_holds (annexb u) s'" "h264_view s' = h264_view s"
proof -
  obtain s1 where s1: "h264_add_startcode s = Inr (Next s1)" "h264_holds [0, 0, 0, 1] s1"
    "h264_view s1 = h264_view s"
    using h264_add_buffer_holds [of "[]" s "[0, 0, 0, 1]"] assms
    by (auto simp: h264_add_startcode_buffer)
  obtain s2 where "h264_add_buffer u s1 = Inr (Next s2)" "h264_holds (annexb u) s2"
    "h264_view s2 = h264_view s1"
    using h264_add_buffer_holds [OF s1(2), of u] assms(2) by (auto simp: annexb_def)
  with s1 that show thesis by simp
qed

lemma h264_dec_nalu_holds:
  assumes "h264_holds (annexb u) s" "pa_frame a" "u \<noteq> []"
  obtains st s' f where "h264_dec_nalu final a s = Inr (Next (st, s', f))"
    "h264_shows (st, s', f) = assemble u final (h264_view s)" "h264_ready s'"
  using assms h264_dec_nalu_assemble [of s _ a u final] by (fastforce simp: h264_holds_def)

lemma h264_unit_assemble:
  assumes "h264_ready s" "length u + 4 \<le> MAX_ES_FRAME_SIZE" "pa_frame a" "u \<noteq> []"
  obtains st s' f where
    "ctl_bind (ctl_bind (h264_add_startcode s) (h264_add_buffer u)) (h264_dec_nalu final a) =
      Inr (Next (st, s', f))"
    "h264_shows (st, s', f) = assemble u final (h264_view s)" "h264_ready s'"
proof -
  obtain s1 where s1: "ctl_bind (h264_add_startcode s) (h264_add_buffer u) = Inr (Next s1)"
    "h264_holds (annexb u) s1" "h264_view s1 = h264_view s"
    by (rule h264_unit_holds [OF assms(1,2)])
  obtain st s' f where "h264_dec_nalu final a s1 = Inr (Next (st, s', f))"
    "h264_shows (st, s', f) = assemble u final (h264_view s1)" "h264_ready s'"
    by (rule h264_dec_nalu_holds [OF s1(2) assms(3,4)])
  with s1 that show thesis by simp
qed

lemma h264_single_assemble:
  assumes "h264_ready s" "length u + 4 \<le> MAX_ES_FRAME_SIZE" "pa_frame a" "u \<noteq> []"
  obtains st s' f where "h264_single u a s = Inr (Next (st, s', f))"
    "h264_shows (st, s', f) = assemble u (pa_marker a) (h264_view s)" "h264_ready s'"
  using h264_unit_assemble [OF assms, of "pa_marker a"] unfolding h264_single_def ctl_bind_assoc
  by blast

text \<open>
  An aggregation packet: each unit behind its length in network order. Its units go to the
  assembly one after the other, the last with the marker of the packet.
\<close>

definition stapa_unit :: "byte list \<Rightarrow> byte list" where
  "stapa_unit u = byte_of 1 (of_nat (length u) :: 16 word) # byte_of 0 (of_nat (length u) :: 16 word) # u"

fun assemble_all :: "byte list list \<Rightarrow> bool \<Rightarrow> assembly \<Rightarrow> assembly" where
  "assemble_all [] m r = r"
| "assemble_all (u # us) m r = assemble_all us m (assemble u (us = [] \<and> m) (fst (snd r)))"

lemma stapa_unit_len:
  assumes "length u < 65536"
  shows "unat (be16 (byte_of 1 (of_nat (length u) :: 16 word)) (byte_of 0 (of_nat (length u) :: 16 word)))
    = length u"
  using assms by (simp add: be16_def unat_of_nat_small)

lemma h264_stapa_assemble:
  assumes "h264_ready s" "pa_frame a" "us \<noteq> []"
    "\<And>u. u \<in> set us \<Longrightarrow> u \<noteq> [] \<and> length u < 65536"
  shows "\<exists>st s' f. h264_stapa (concat (map stapa_unit us)) a s = Inr (Next (st, s', f))
    \<and> h264_shows (st, s', f) = assemble_all us (pa_marker a) (st0, h264_view s, f0) \<and> h264_ready s'"
  using assms
proof (induction us arbitrary: s st0 f0)
  case (Cons u us)
  let ?rest = "concat (map stapa_unit us)"
  have u: "u \<noteq> []" "length u < 65536" "length u + 4 \<le> MAX_ES_FRAME_SIZE"
    using Cons.prems(4) [of u] by (auto simp: MAX_ES_FRAME_SIZE_def)
  have rest: "?rest = [] \<longleftrightarrow> us = []" by (cases us) (simp_all add: stapa_unit_def)
  obtain st s' f where step:
    "ctl_bind (ctl_bind (h264_add_startcode s) (h264_add_buffer u)) (h264_dec_nalu (us = [] \<and> pa_marker a) a) =
      Inr (Next (st, s', f))"
    "h264_shows (st, s', f) = assemble u (us = [] \<and> pa_marker a) (h264_view s)" "h264_ready s'"
    by (rule h264_unit_assemble [OF Cons.prems(1) u(3) Cons.prems(2) u(1)])
  have "h264_stapa (stapa_unit u @ ?rest) a s =
      ctl_bind (ctl_bind (ctl_bind (h264_add_startcode s) (h264_add_buffer u))
        (h264_dec_nalu (us = [] \<and> pa_marker a) a))
        (\<lambda>(st, s, f). if us = [] then Inr (Next (st, s, f)) else h264_stapa ?rest a s)"
    using rest by (simp add: stapa_unit_def stapa_unit_len [OF u(2)] Let_def ctl_bind_assoc del: One_nat_def)
  then have eq: "h264_stapa (concat (map stapa_unit (u # us))) a s =
      (if us = [] then Inr (Next (st, s', f)) else h264_stapa ?rest a s')"
    by (simp add: step(1))
  show ?case
  proof (cases "us = []")
    case True
    then show ?thesis using eq step by simp
  next
    case False
    have view: "assemble u (us = [] \<and> pa_marker a) (h264_view s) =
        (st, h264_view s', map_option (\<lambda>f. (df_data f, df_flags f)) f)"
      using step(2) by (simp add: h264_shows_def)
    show ?thesis
      using Cons.IH [OF step(3) Cons.prems(2) False] Cons.prems(4) eq False view by simp
  qed
qed simp

text \<open>
  Fragmentation units: the fragments of \<open>h # body\<close> carry the start bit on the first, the end bit on
  the last, and the header split over the indicator and the FU header.
\<close>

definition fu_header :: "byte \<Rightarrow> bool \<Rightarrow> bool \<Rightarrow> byte" where
  "fu_header h start final = (if start then 0x80 else 0) OR (if final then 0x40 else 0) OR (h AND 0x1f)"

definition fua_fragment :: "byte \<Rightarrow> bool \<Rightarrow> bool \<Rightarrow> byte list \<Rightarrow> byte list" where
  "fua_fragment h start final chunk =
     ((h AND 0xe0) OR 28) #
     fu_header h start final # chunk"

fun fua_tail :: "byte \<Rightarrow> byte list list \<Rightarrow> byte list list" where
  "fua_tail h [] = []"
| "fua_tail h [c] = [fua_fragment h False True c]"
| "fua_tail h (c # cs) = fua_fragment h False False c # fua_tail h cs"

definition fua_packets :: "byte \<Rightarrow> byte list \<Rightarrow> byte list list \<Rightarrow> byte list list" where
  "fua_packets h c cs = fua_fragment h True False c # fua_tail h cs"

lemma fua_indicator_bits:
  fixes h :: byte
  shows "(h AND 0xe0 OR 28) AND 0x1f = 28" "(h AND 0xe0 OR 28) AND 0xe0 = h AND 0xe0"
  by (simp_all add: bit.conj_disj_distrib2 and.assoc)

lemma fu_header_bits:
  "fu_header h start final AND 0x1f = h AND 0x1f"
  "(0 < fu_header h start final AND 0x80) = start"
  "(0 < fu_header h start final AND 0x40) = final"
  by (cases start; cases final; simp add: fu_header_def bit.conj_disj_distrib2 and.assoc)+

lemma fua_header:
  fixes h :: byte
  shows "(h AND 0xe0) OR (h AND 0x1f) = h"
proof -
  have "(h AND 0xe0) OR (h AND 0x1f) = h AND (0xe0 OR 0x1f)" by (simp only: bit.conj_disj_distrib)
  also have "(0xe0 OR 0x1f :: byte) = - 1" by simp
  finally show ?thesis by simp
qed

lemma h264_fua_fragment:
  "\<not> (start \<and> final) \<Longrightarrow>
   h264_parse (Some (fua_fragment h start final c)) a s = h264_finish (
     ctl_bind (if start then h264_start_nalu h (s\<lparr> h_packets := h_packets s + 1 \<rparr>)
               else Inr (Next (s\<lparr> h_packets := h_packets s + 1 \<rparr>))) (\<lambda>s.
       ctl_bind (h264_add_buffer c s) (\<lambda>s.
         if final then h264_dec_nalu (pa_marker a) a s
         else Inr (Next (DEPACKETIZER_NEED_MORE, s, None)))))"
  by (cases start; cases final; simp add: h264_parse_def h264_fua_def fua_fragment_def Let_def
      fua_indicator_bits fua_header fu_header_bits)

abbreviation h264_feed :: "(byte list \<times> parse_args) list \<Rightarrow> h264 \<Rightarrow> (feed_outs \<times> h264) res" where
  "h264_feed \<equiv> feed h264_parse"

lemma fua_tail_Cons [simp]: "\<exists>q qs. fua_tail h (c # cs) = q # qs"
  by (cases cs) auto

lemma with_marker_fua_tail:
  "with_marker a (p # fua_tail h (c # cs)) = (p, a\<lparr> pa_marker := False \<rparr>) # with_marker a (fua_tail h (c # cs))"
  using fua_tail_Cons [of h c cs] by fastforce

lemma h264_fua_tail_assemble:
  assumes "h264_holds p s" "cs \<noteq> []" "length p + length (concat cs) \<le> MAX_ES_FRAME_SIZE" "pa_frame a"
    "p @ concat cs = annexb u" "u \<noteq> []"
  shows "\<exists>st s' f. h264_feed (with_marker a (fua_tail h cs)) s =
      Inr (replicate (length cs - 1) (DEPACKETIZER_NEED_MORE, None) @ [(st, f)], s')
    \<and> h264_shows (st, s', f) = assemble u (pa_marker a) (h264_view s) \<and> h264_ready s'"
  using assms
proof (induction cs arbitrary: p s)
  case (Cons c cs)
  obtain s1 where s1: "h264_add_buffer c (s\<lparr> h_packets := h_packets s + 1 \<rparr>) = Inr (Next s1)"
    "h264_holds (p @ c) s1" "h264_view s1 = h264_view s"
    using h264_add_buffer_holds [of p "s\<lparr> h_packets := h_packets s + 1 \<rparr>" c] Cons.prems(1,3) by auto
  show ?case
  proof (cases cs)
    case Nil
    have "h264_holds (annexb u) s1" using s1(2) Cons.prems(5) Nil by simp
    then obtain st s' f where "h264_dec_nalu (pa_marker a) a s1 = Inr (Next (st, s', f))"
      "h264_shows (st, s', f) = assemble u (pa_marker a) (h264_view s1)" "h264_ready s'"
      by (rule h264_dec_nalu_holds [OF _ Cons.prems(4,6)])
    then show ?thesis
      using s1 Nil by (simp add: h264_fua_fragment h264_finish_def)
  next
    case (Cons d ds)
    have IH: "\<exists>st s' f. h264_feed (with_marker a (fua_tail h cs)) s1 =
      Inr (replicate (length cs - 1) (DEPACKETIZER_NEED_MORE, None) @ [(st, f)], s')
      \<and> h264_shows (st, s', f) = assemble u (pa_marker a) (h264_view s1) \<and> h264_ready s'"
      by (rule Cons.IH [OF s1(2)]) (use Cons.prems Cons in simp_all)
    then show ?thesis
      using s1 Cons by (auto simp: h264_fua_fragment h264_finish_def with_marker_fua_tail)
  qed
qed simp

lemma h264_fua_assemble:
  assumes "h264_ready s" "cs \<noteq> []" "5 + length c + length (concat cs) \<le> MAX_ES_FRAME_SIZE" "pa_frame a"
  shows "\<exists>st s' f. h264_feed (with_marker a (fua_packets h c cs)) s =
      Inr (replicate (length cs) (DEPACKETIZER_NEED_MORE, None) @ [(st, f)], s')
    \<and> h264_shows (st, s', f) = assemble (h # c @ concat cs) (pa_marker a) (h264_view s) \<and> h264_ready s'"
proof -
  let ?s = "s\<lparr> h_packets := h_packets s + 1 \<rparr>"
  have r: "h264_holds [] ?s" using assms(1) by (simp flip: h264_holds_Nil)
  obtain s1 where s1: "h264_add_buffer [0, 0, 0, 1] ?s = Inr (Next s1)" "h264_holds [0, 0, 0, 1] s1"
    "h264_view s1 = h264_view s"
    using h264_add_buffer_holds [OF r, of "[0, 0, 0, 1]"] assms(3) by auto
  obtain s2 where s2: "h264_add_buffer [h] s1 = Inr (Next s2)" "h264_holds ([0, 0, 0, 1] @ [h]) s2"
    "h264_view s2 = h264_view s1"
    using h264_add_buffer_holds [OF s1(2), of "[h]"] assms(3) by auto
  obtain s3 where s3: "h264_add_buffer c s2 = Inr (Next s3)" "h264_holds (([0, 0, 0, 1] @ [h]) @ c) s3"
    "h264_view s3 = h264_view s2"
    using h264_add_buffer_holds [OF s2(2), of c] assms(3) by auto
  obtain d ds where cs: "cs = d # ds" using assms(2) by (cases cs) auto
  have tail: "\<exists>st s' f. h264_feed (with_marker a (fua_tail h cs)) s3 =
      Inr (replicate (length cs - 1) (DEPACKETIZER_NEED_MORE, None) @ [(st, f)], s')
    \<and> h264_shows (st, s', f) = assemble (h # c @ concat cs) (pa_marker a) (h264_view s3) \<and> h264_ready s'"
    by (rule h264_fua_tail_assemble [OF s3(2) assms(2)]) (use assms in \<open>simp_all add: annexb_def\<close>)
  have "h264_parse (Some (fua_fragment h True False c)) (a\<lparr> pa_marker := False \<rparr>) s =
      Inr (DEPACKETIZER_NEED_MORE, s3, None)"
    using s1 s2 s3 by (simp add: h264_fua_fragment h264_start_nalu_buffer h264_finish_def)
  then show ?thesis
    using tail s1 s2 s3 unfolding fua_packets_def cs with_marker_fua_tail by auto
qed

text \<open>The three ways RFC 6184 carries units, and when a sender may use them.\<close>

datatype h264_pack =
    Single_Nal "byte list"
  | Stap_A byte "byte list list"
  | Fu_A byte "byte list" "byte list list"

fun pack_units :: "h264_pack \<Rightarrow> byte list list" where
  "pack_units (Single_Nal u) = [u]"
| "pack_units (Stap_A b us) = us"
| "pack_units (Fu_A h c cs) = [h # c @ concat cs]"

fun pack_packets :: "h264_pack \<Rightarrow> byte list list" where
  "pack_packets (Single_Nal u) = [u]"
| "pack_packets (Stap_A b us) = [b # concat (map stapa_unit us)]"
| "pack_packets (Fu_A h c cs) = fua_packets h c cs"

fun pack_ok :: "h264_pack \<Rightarrow> bool" where
  "pack_ok (Single_Nal u) \<longleftrightarrow> u \<noteq> [] \<and> 1 \<le> nal_type u \<and> nal_type u \<le> 12 \<and> length u + 4 \<le> MAX_ES_FRAME_SIZE"
| "pack_ok (Stap_A b us) \<longleftrightarrow> b AND 0x1f = 24 \<and> us \<noteq> [] \<and> (\<forall>u\<in>set us. u \<noteq> [] \<and> length u < 65536)"
| "pack_ok (Fu_A h c cs) \<longleftrightarrow> cs \<noteq> [] \<and> 5 + length c + length (concat cs) \<le> MAX_ES_FRAME_SIZE"

lemma h264_pack_feed:
  assumes "h264_ready s" "pa_frame a" "pack_ok k"
  shows "\<exists>outs st s' f. h264_feed (with_marker a (pack_packets k)) s = Inr (outs @ [(st, f)], s')
    \<and> quiet outs
    \<and> h264_shows (st, s', f) = assemble_all (pack_units k) (pa_marker a) (DEPACKETIZER_NEED_MORE, h264_view s, None)
    \<and> h264_ready s'"
proof (cases k)
  case (Single_Nal u)
  then have u: "u \<noteq> []" "1 \<le> hd u AND 0x1f" "hd u AND 0x1f \<le> 12" "length u + 4 \<le> MAX_ES_FRAME_SIZE"
    using assms(3) by (simp_all add: nal_type_def)
  have r: "h264_ready (s\<lparr> h_packets := h_packets s + 1 \<rparr>)" using assms(1) by (simp flip: h264_holds_Nil)
  obtain st s' f where out: "h264_single u a (s\<lparr> h_packets := h_packets s + 1 \<rparr>) = Inr (Next (st, s', f))"
    "h264_shows (st, s', f) = assemble u (pa_marker a) (h264_view s)" "h264_ready s'"
    using h264_single_assemble [OF r u(4) assms(2) u(1)] by auto
  have "h264_parse (Some u) a s = Inr (st, s', f)"
    using u out(1) by (cases u) (simp_all add: h264_parse_def h264_finish_def Let_def)
  then show ?thesis using Single_Nal out by (intro exI [of _ "[]"]) simp
next
  case (Stap_A b us)
  then have b: "b AND 0x1f = 24" and us: "us \<noteq> []" "\<And>u. u \<in> set us \<Longrightarrow> u \<noteq> [] \<and> length u < 65536"
    using assms(3) by auto
  have r: "h264_ready (s\<lparr> h_packets := h_packets s + 1 \<rparr>)" using assms(1) by (simp flip: h264_holds_Nil)
  obtain st s' f where out:
    "h264_stapa (concat (map stapa_unit us)) a (s\<lparr> h_packets := h_packets s + 1 \<rparr>) = Inr (Next (st, s', f))"
    "h264_shows (st, s', f) = assemble_all us (pa_marker a) (DEPACKETIZER_NEED_MORE, h264_view s, None)"
    "h264_ready s'"
    using h264_stapa_assemble [OF r assms(2) us, of DEPACKETIZER_NEED_MORE None] by auto
  have "h264_parse (Some (b # concat (map stapa_unit us))) a s = Inr (st, s', f)"
    using b out(1) by (simp add: h264_parse_def h264_finish_def Let_def)
  then show ?thesis using Stap_A out by (intro exI [of _ "[]"]) simp
next
  case (Fu_A h c cs)
  then have k: "cs \<noteq> []" "5 + length c + length (concat cs) \<le> MAX_ES_FRAME_SIZE" using assms(3) by auto
  obtain st s' f where out: "h264_feed (with_marker a (fua_packets h c cs)) s =
      Inr (replicate (length cs) (DEPACKETIZER_NEED_MORE, None) @ [(st, f)], s')"
    "h264_shows (st, s', f) = assemble (h # c @ concat cs) (pa_marker a) (h264_view s)" "h264_ready s'"
    using h264_fua_assemble [OF assms(1) k assms(2), of h] by auto
  then show ?thesis
    using Fu_A by (intro exI [of _ "replicate (length cs) (DEPACKETIZER_NEED_MORE, None)"]) simp
qed

text \<open>An open gate with room lets every unit through.\<close>

definition gates_open :: "h264_view \<Rightarrow> bool" where
  "gates_open v \<longleftrightarrow> \<not> v_sps v \<and> \<not> v_pps v \<and> \<not> v_idr v"

definition sync_flag :: "byte list \<Rightarrow> 32 word" where
  "sync_flag u = (if nal_type u = IDR_TYPE then FRAME_IS_SYNC_POINT else 0)"

lemma assemble_open:
  assumes "gates_open v" "length (v_data v) + length (annexb u) \<le> MAX_ES_FRAME_SIZE"
  shows "assemble u final v =
    (if final then (DEPACKETIZER_FRAME, v\<lparr> v_data := [] \<rparr>, Some (v_data v @ annexb u, sync_flag u))
     else (DEPACKETIZER_NEED_MORE, v\<lparr> v_data := v_data v @ annexb u \<rparr>, None))"
proof -
  have "rau_note (nal_type u) v = v" using assms(1) by (simp add: rau_note_def gates_open_def)
  then show ?thesis
    using assms by (auto simp: assemble_def Let_def rau_open_def gates_open_def sync_flag_def)
qed

lemma assemble_all_open:
  assumes "gates_open v" "length (v_data v @ concat (map annexb us)) \<le> MAX_ES_FRAME_SIZE" "us \<noteq> []"
  shows "assemble_all us final (st, v, f) =
    (if final then (DEPACKETIZER_FRAME, v\<lparr> v_data := [] \<rparr>,
        Some (v_data v @ concat (map annexb us), sync_flag (last us)))
     else (DEPACKETIZER_NEED_MORE, v\<lparr> v_data := v_data v @ concat (map annexb us) \<rparr>, None))"
  using assms
proof (induction us arbitrary: v st f)
  case (Cons u us)
  have u: "length (v_data v) + length (annexb u) \<le> MAX_ES_FRAME_SIZE" using Cons.prems(2) by simp
  show ?case
  proof (cases "us = []")
    case True
    then show ?thesis using assemble_open [OF Cons.prems(1) u] by simp
  next
    case False
    have "gates_open (v\<lparr> v_data := v_data v @ annexb u \<rparr>)" using Cons.prems(1) by (simp add: gates_open_def)
    then show ?thesis
      using Cons.IH [of "v\<lparr> v_data := v_data v @ annexb u \<rparr>"] Cons.prems False
        assemble_open [OF Cons.prems(1) u] by simp
  qed
qed simp

lemma pack_packets_nonempty: "pack_packets k \<noteq> []"
  by (cases k) (simp_all add: fua_packets_def)

lemma pack_units_nonempty: "pack_ok k \<Longrightarrow> pack_units k \<noteq> []"
  by (cases k) simp_all

lemma h264_packs_quiet:
  assumes "h264_ready s" "gates_open (h264_view s)" "pa_frame a" "\<not> pa_marker a" "\<forall>k\<in>set ks. pack_ok k"
    "length (v_data (h264_view s) @ concat (map annexb (concat (map pack_units ks)))) \<le> MAX_ES_FRAME_SIZE"
  shows "\<exists>outs s'. h264_feed (with_marker a (concat (map pack_packets ks))) s = Inr (outs, s')
    \<and> quiet outs \<and> h264_ready s'
    \<and> h264_view s' = (h264_view s)
        \<lparr> v_data := v_data (h264_view s) @ concat (map annexb (concat (map pack_units ks))) \<rparr>"
  using assms
proof (induction ks arbitrary: s)
  case (Cons k ks)
  let ?us = "pack_units k"
  let ?v = "(h264_view s)\<lparr> v_data := v_data (h264_view s) @ concat (map annexb ?us) \<rparr>"
  obtain outs st s1 f where k: "h264_feed (with_marker a (pack_packets k)) s = Inr (outs @ [(st, f)], s1)"
    "quiet outs"
    "h264_shows (st, s1, f) = assemble_all ?us (pa_marker a) (DEPACKETIZER_NEED_MORE, h264_view s, None)"
    "h264_ready s1"
    using h264_pack_feed [of s a k] Cons.prems by auto
  have "?us \<noteq> []" using Cons.prems(5) by (simp add: pack_units_nonempty)
  then have "assemble_all ?us (pa_marker a) (DEPACKETIZER_NEED_MORE, h264_view s, None) =
      (DEPACKETIZER_NEED_MORE, ?v, None)"
    using assemble_all_open [of "h264_view s" ?us] Cons.prems by simp
  with k(3) have st: "st = DEPACKETIZER_NEED_MORE" "f = None" "h264_view s1 = ?v"
    by (auto simp: h264_shows_def)
  obtain outs' s2 where "h264_feed (with_marker a (concat (map pack_packets ks))) s1 = Inr (outs', s2)"
    "quiet outs'" "h264_ready s2"
    "h264_view s2 = ?v\<lparr> v_data := v_data ?v @ concat (map annexb (concat (map pack_units ks))) \<rparr>"
    using Cons.IH [of s1] k(4) Cons.prems by (auto simp: st(3) gates_open_def)
  then show ?case
    using k st by (simp add: with_marker_append_False [OF Cons.prems(4)] feed_append)
qed simp

lemma h264_picture_feed:
  assumes "h264_ready s" "gates_open (h264_view s)" "v_data (h264_view s) = []"
    and "pa_frame a" "pa_marker a" "ks \<noteq> []" "\<forall>k\<in>set ks. pack_ok k"
    and "length (concat (map annexb (concat (map pack_units ks)))) \<le> MAX_ES_FRAME_SIZE"
  shows "\<exists>outs f s'. h264_feed (with_marker a (concat (map pack_packets ks))) s
        = Inr (outs @ [(DEPACKETIZER_FRAME, Some f)], s')
    \<and> quiet outs
    \<and> df_data f = concat (map annexb (concat (map pack_units ks)))
    \<and> df_flags f = sync_flag (last (concat (map pack_units ks)))
    \<and> h264_ready s' \<and> h264_view s' = h264_view s"
proof -
  obtain ks0 k where ks: "ks = ks0 @ [k]" using assms(6) by (cases ks rule: rev_cases) auto
  let ?a = "a\<lparr> pa_marker := False \<rparr>" and ?u0 = "concat (map annexb (concat (map pack_units ks0)))"
  let ?us = "pack_units k" and ?v = "(h264_view s)\<lparr> v_data := ?u0 \<rparr>"
  obtain outs s1 where s1: "h264_feed (with_marker ?a (concat (map pack_packets ks0))) s = Inr (outs, s1)"
    "quiet outs" "h264_ready s1" "h264_view s1 = ?v"
    using h264_packs_quiet [of s ?a ks0] assms by (auto simp: ks)
  obtain outs' st s2 f where k: "h264_feed (with_marker a (pack_packets k)) s1 = Inr (outs' @ [(st, f)], s2)"
    "quiet outs'" "h264_shows (st, s2, f) = assemble_all ?us True (DEPACKETIZER_NEED_MORE, ?v, None)"
    "h264_ready s2"
    using h264_pack_feed [OF s1(3) assms(4), of k] assms by (auto simp: ks s1(4))
  have us: "?us \<noteq> []" using assms(7) by (simp add: ks pack_units_nonempty)
  have "assemble_all ?us True (DEPACKETIZER_NEED_MORE, ?v, None) =
      (DEPACKETIZER_FRAME, h264_view s, Some (?u0 @ concat (map annexb ?us), sync_flag (last ?us)))"
    using assemble_all_open [of ?v ?us True] us assms by (auto simp: ks gates_open_def)
  with k(3) obtain fr where fr: "st = DEPACKETIZER_FRAME" "h264_view s2 = h264_view s" "f = Some fr"
    "df_data fr = ?u0 @ concat (map annexb ?us)" "df_flags fr = sync_flag (last ?us)"
    by (auto simp: h264_shows_def)
  have "h264_feed (with_marker a (concat (map pack_packets ks))) s =
      Inr ((outs @ outs') @ [(DEPACKETIZER_FRAME, Some fr)], s2)"
    using s1 k fr
    by (simp add: ks with_marker_append [OF pack_packets_nonempty] feed_append)
  then show ?thesis
    using s1 k fr us by (intro exI [of _ "outs @ outs'"] exI [of _ fr] exI [of _ s2]) (simp add: ks)
qed

text \<open>
  C5: however a sender splits the NAL units of a picture over single unit packets, aggregation
  packets and fragmentation units, once the stream is synchronised the depacketizer stays silent up to
  the packet with the marker bit and then returns exactly the Annex B byte stream of those units,
  flagged as a sync point when the last of them is an IDR slice, and is ready for the next picture.
\<close>

theorem h264_picture_reassembled:
  assumes "h264_ready s" "gates_open (h264_view s)" "v_data (h264_view s) = []"
    and "pa_frame a" "pa_marker a" "ks \<noteq> []" "\<forall>k\<in>set ks. pack_ok k"
    and "length (concat (map annexb (concat (map pack_units ks)))) \<le> MAX_ES_FRAME_SIZE"
  shows "\<exists>outs f s'. h264_feed (with_marker a (concat (map pack_packets ks))) s
        = Inr (outs @ [(DEPACKETIZER_FRAME, Some f)], s')
    \<and> quiet outs
    \<and> df_data f = concat (map annexb (concat (map pack_units ks)))
    \<and> df_flags f = sync_flag (last (concat (map pack_units ks)))
    \<and> h264_ready s' \<and> h264_view s' = h264_view s"
  using assms by (rule h264_picture_feed)

theorem h264_picture_reassembled_witness:
  "let s = (h264_new (Some (\<lambda>_. 0)) (Some (\<lambda>_. 0)))
        \<lparr> h_sps_sentry := False, h_pps_sentry := False, h_idr_sentry := False \<rparr>;
       a = \<lparr> pa_marker = True, pa_pts = 3000, pa_payload_type = 96, pa_frame = True \<rparr>;
       ks = [Single_Nal [9, 16], Stap_A 24 [[0x67, 1], [0x68, 2]], Fu_A 0x65 [3] [[4, 5], [6]]]
   in \<exists>outs f s'. h264_feed (with_marker a (concat (map pack_packets ks))) s
        = Inr (outs @ [(DEPACKETIZER_FRAME, Some f)], s')
      \<and> df_data f = [0,0,0,1, 9,16, 0,0,0,1, 0x67,1, 0,0,0,1, 0x68,2, 0,0,0,1, 0x65,3,4,5,6]
      \<and> df_flags f = FRAME_IS_SYNC_POINT"
proof -
  let ?s = "(h264_new (Some (\<lambda>_. 0)) (Some (\<lambda>_. 0)))
        \<lparr> h_sps_sentry := False, h_pps_sentry := False, h_idr_sentry := False \<rparr>"
  let ?a = "\<lparr> pa_marker = True, pa_pts = 3000, pa_payload_type = 96, pa_frame = True \<rparr>"
  let ?ks = "[Single_Nal [9, 16], Stap_A 24 [[0x67, 1], [0x68, 2]], Fu_A 0x65 [3] [[4, 5], [6]]]"
  have r: "h264_ready ?s" by (simp add: h264_ready_def h264_wf_def h264_new_def)
  have g: "gates_open (h264_view ?s)" "v_data (h264_view ?s) = []"
    by (simp_all add: gates_open_def h264_view_def h264_new_def)
  have k: "\<forall>k\<in>set ?ks. pack_ok k" by (simp add: nal_type_def MAX_ES_FRAME_SIZE_def)
  show ?thesis
    using h264_picture_reassembled [OF r g, of ?a ?ks] k
    by (auto simp: Let_def annexb_def MAX_ES_FRAME_SIZE_def sync_flag_def nal_type_def IDR_TYPE_def)
qed

section \<open>The random access gate\<close>

definition param_unit :: "byte list \<Rightarrow> bool" where
  "param_unit u \<longleftrightarrow> nal_type u = SPS_TYPE \<or> nal_type u = PPS_TYPE"

text \<open>
  The gate after the unit types \<open>T\<close>: a sentry falls only for its type, the last one only behind the
  other two; while it stands, the frame holds parameter sets only.
\<close>

definition gate_inv :: "byte set \<Rightarrow> h264_view \<Rightarrow> bool" where
  "gate_inv T v \<longleftrightarrow> (\<not> v_sps v \<longrightarrow> SPS_TYPE \<in> T) \<and> (\<not> v_pps v \<longrightarrow> PPS_TYPE \<in> T)
     \<and> (\<not> v_idr v \<longrightarrow> {SPS_TYPE, PPS_TYPE, IDR_TYPE} \<subseteq> T)
     \<and> (v_idr v \<longrightarrow> (\<exists>us. v_data v = concat (map annexb us) \<and> (\<forall>u\<in>set us. param_unit u)))"

definition only_params :: "byte list \<Rightarrow> bool" where
  "only_params d \<longleftrightarrow> (\<exists>us. take (length d) (concat (map annexb us)) = d \<and> (\<forall>u\<in>set us. param_unit u))"

lemma assemble_gate:
  assumes "gate_inv T v" "nal_type u \<in> T" "\<not> {SPS_TYPE, PPS_TYPE, IDR_TYPE} \<subseteq> T"
    "assemble u final v = (st, v', f)"
  shows "gate_inv T v' \<and> (\<forall>d flags. f = Some (d, flags) \<longrightarrow> only_params d)"
proof (cases "rau_open (nal_type u) v")
  case False
  then show ?thesis using assms by (simp add: assemble_def)
next
  case True
  have idr: "v_idr v" using assms(1,3) by (auto simp: gate_inv_def)
  have p: "param_unit u"
    using True idr assms(1-3) by (auto simp: rau_open_def param_unit_def gate_inv_def)
  obtain us where us: "v_data v = concat (map annexb us)" "\<forall>u\<in>set us. param_unit u"
    using assms(1) idr by (auto simp: gate_inv_def)
  let ?room = "MAX_ES_FRAME_SIZE - length (v_data v)"
  have "only_params (v_data v @ take ?room (annexb u))"
    unfolding only_params_def using us p
    by (intro exI [of _ "us @ [u]"]) (auto simp: min_def)
  moreover have keep: "gate_inv T (rau_note (nal_type u) v\<lparr> v_data := concat (map annexb us) \<rparr>)"
    if "\<forall>u\<in>set us. param_unit u" for us
    using that assms(1,2) idr p by (auto simp: gate_inv_def rau_note_def param_unit_def h264_consts)
  moreover have "gate_inv T (rau_note (nal_type u) v\<lparr> v_data := [] \<rparr>)"
    using keep [of "[]"] by simp
  moreover have "gate_inv T (rau_note (nal_type u) v\<lparr> v_data := v_data v @ annexb u \<rparr>)"
    using keep [of "us @ [u]"] us p by simp
  ultimately show ?thesis
    using assms(4) True by (auto simp: assemble_def Let_def split: if_splits)
qed

lemma assemble_all_gate:
  assumes "gate_inv T v" "\<forall>u\<in>set us. nal_type u \<in> T" "\<not> {SPS_TYPE, PPS_TYPE, IDR_TYPE} \<subseteq> T" "us \<noteq> []"
    "assemble_all us final (st0, v, f0) = (st, v', f)"
  shows "gate_inv T v' \<and> (\<forall>d flags. f = Some (d, flags) \<longrightarrow> only_params d)"
  using assms
proof (induction us arbitrary: v st0 f0)
  case (Cons u us)
  obtain st1 v1 f1 where u: "assemble u (us = [] \<and> final) v = (st1, v1, f1)"
    by (cases "assemble u (us = [] \<and> final) v") auto
  note g = assemble_gate [OF Cons.prems(1) _ Cons.prems(3) u]
  show ?case
  proof (cases "us = []")
    case True
    then show ?thesis using g u Cons.prems by simp
  next
    case False
    then show ?thesis using Cons.IH [of v1 st1 f1] g u Cons.prems by auto
  qed
qed simp



section \<open>Memory safety of \<open>parse\<close>\<close>

definition packet_closed :: "byte list \<Rightarrow> bool" where
  "packet_closed p \<longleftrightarrow>
     (hd p AND 0x1f = 24 \<longrightarrow> stapa_closed (tl p)) \<and> (hd p AND 0x1f = 28 \<longrightarrow> 2 \<le> length p)"

lemma h264_single_ok: "h264_wf s \<Longrightarrow> h264_ctl_ok (\<lambda>(_, s, _). s) (h264_single p a s)"
  unfolding h264_single_def
  by (auto intro!: h264_ctl_ok_bind [OF h264_add_startcode_ok] h264_ctl_ok_bind [OF h264_add_buffer_ok]
      h264_dec_nalu_ok)

lemma h264_fua_ok: "h264_wf s \<Longrightarrow> p \<noteq> [] \<Longrightarrow> h264_ctl_ok (\<lambda>(_, s, _). s) (h264_fua b p a s)"
  unfolding h264_fua_def
  by (auto simp: Let_def split: list.split intro!: h264_ctl_ok_bind [OF h264_start_nalu_ok]
      h264_ctl_ok_bind [OF h264_add_buffer_ok] h264_dec_nalu_ok)

lemma h264_finish_ok:
  "h264_ctl_ok (\<lambda>(_, s, _). s) m \<Longrightarrow> \<exists>st s' f. h264_finish m = Inr (st, s', f) \<and> h264_wf s'"
  by (auto simp: h264_finish_def h264_ctl_ok_def split: sum.splits ctl.splits)

lemma h264_parse_wf:
  assumes "h264_wf s" "\<forall>p. packet = Some p \<longrightarrow> packet_closed p"
  shows "\<exists>st s' f. h264_parse packet a s = Inr (st, s', f) \<and> h264_wf s'"
proof (cases packet)
  case None
  then show ?thesis using assms(1) by (simp add: h264_parse_def)
next
  case (Some p)
  show ?thesis
  proof (cases p)
    case Nil
    then show ?thesis using assms(1) Some by (simp add: h264_parse_def)
  next
    case (Cons p0 rest)
    let ?s = "s\<lparr> h_packets := h_packets s + 1 \<rparr>"
    have wf: "h264_wf ?s" using assms(1) by simp
    have c: "p0 AND 0x1f = 24 \<Longrightarrow> stapa_closed rest" "p0 AND 0x1f = 28 \<Longrightarrow> rest \<noteq> []"
      using assms(2) Some Cons by (auto simp: packet_closed_def)
    show ?thesis
      using h264_finish_ok [OF h264_single_ok [OF wf]] h264_finish_ok [OF h264_stapa_ok [OF _ wf]]
        h264_finish_ok [OF h264_fua_ok [OF wf]] c wf
      by (auto simp: h264_parse_def Some Cons Let_def h264_finish_def [of "Inr (Goto_Fail _)"])
  qed
qed

text \<open>
  C12: \<open>parse\<close> stays inside its buffers for every packet from every well-formed state, also for
  malformed ones, provided a fragmentation unit has its two header bytes and an aggregation packet
  ends where its lengths say; it leaves a well-formed state, so the frame never outgrows its buffer.
\<close>

theorem h264_parse_memory_safe:
  assumes "h264_wf s" "\<forall>p. packet = Some p \<longrightarrow> packet_closed p"
  shows "\<exists>st s' f. h264_parse packet a s = Inr (st, s', f) \<and> h264_wf s'"
  using assms by (rule h264_parse_wf)

theorem h264_parse_memory_safe_witness:
  "\<exists>st s' f. h264_parse (Some [24, 0, 9, 0x67])
     \<lparr> pa_marker = True, pa_pts = 0, pa_payload_type = 96, pa_frame = True \<rparr>
     (h264_new (Some (\<lambda>_. 0)) (Some (\<lambda>_. 0))) = Inr (st, s', f) \<and> h264_wf s'"
  by (rule h264_parse_memory_safe) (auto simp: packet_closed_def be16_def le16_def)

text \<open>
  The two header reads that come before the length checks: a one-byte aggregation or
  fragmentation packet makes \<open>parse\<close> read behind the payload from every well-formed state, and so
  does an aggregation packet with a single byte behind its last unit.
\<close>

lemma h264_parse_overread:
  assumes "h264_wf s" "b AND 0x1f = 24 \<or> b AND 0x1f = 28"
  shows "h264_parse (Some [b]) a s = Inl Oob_Read
    \<and> (b AND 0x1f = 24 \<longrightarrow> h264_parse (Some [b, x]) a s = Inl Oob_Read)"
  using assms(2) by (auto simp: h264_parse_def h264_fua_def h264_finish_def Let_def)

lemma h264_parse_overread_witness:
  "h264_parse (Some [0x7c]) \<lparr> pa_marker = False, pa_pts = 0, pa_payload_type = 96, pa_frame = True \<rparr>
     (h264_new (Some (\<lambda>_. 0)) (Some (\<lambda>_. 0))) = Inl Oob_Read"
  using h264_parse_overread [of "h264_new (Some (\<lambda>_. 0)) (Some (\<lambda>_. 0))" "0x7c"] by simp

text \<open>
  The last fragment of a unit whose first fragment was lost is not refused: the depacketizer
  reads its unit type in the middle of the payload and, when the gate is open, puts the payload into
  the frame with neither start code nor NAL header.
\<close>

lemma h264_orphan_fragment_accepted:
  assumes "h264_ready s" "gates_open (h264_view s)" "v_data (h264_view s) = []"
    and "c \<noteq> []" "length c \<le> MAX_ES_FRAME_SIZE" "pa_frame a" "pa_marker a"
  shows "\<exists>f s'. h264_parse (Some (fua_fragment h False True c)) a s = Inr (DEPACKETIZER_FRAME, s', Some f)
    \<and> df_data f = c"
proof -
  let ?s = "s\<lparr> h_packets := h_packets s + 1 \<rparr>"
  have r: "h264_holds [] ?s" using assms(1) by (simp flip: h264_holds_Nil)
  obtain s1 where s1: "h264_add_buffer c ?s = Inr (Next s1)" "h264_holds c s1" "h264_view s1 = h264_view s"
    using h264_add_buffer_holds [OF r, of c] assms(5) by auto
  obtain nal where nal: "h264_wf s1" "h_nalu s1 = Some nal" "region nal 0 (h_nalu_len s1) = c"
    using s1(2) by (auto simp: h264_holds_def)
  then have n: "h_nalu_len s1 = length c" by (metis length_region)
  obtain fm where fm: "h_frame s1 = Some fm" using nal(1) by (auto simp: h264_wf_def)
  have fl: "h_frame_len s1 = 0" and gate: "h264_gate t s1 = (True, s1)" for t
    using s1(3) assms(2,3) fm
    by (auto simp: h264_view_def gates_open_def h264_gate_def region_def split: option.splits)
  let ?t = "nal STARTCODE_LENGTH AND 0x1f"
  have cpos: "0 < length c" using assms(4) by simp
  have "\<exists>f s'. h264_dec_nalu (pa_marker a) a s1 = Inr (Next (DEPACKETIZER_FRAME, s', Some f)) \<and> df_data f = c"
    using h264_decode_nalu_eq [OF nal(1) fm cpos gate, of nal ?t "pa_marker a" a] nal n fl assms(5-7)
      region_blit_same [of fm 0 c]
    by (simp add: h264_dec_nalu_def h264_emit_def Let_def)
  then show ?thesis using s1(1) by (auto simp: h264_fua_fragment h264_finish_def)
qed

lemma h264_orphan_fragment_accepted_witness:
  "let s = (h264_new (Some (\<lambda>_. 0)) (Some (\<lambda>_. 0)))
        \<lparr> h_sps_sentry := False, h_pps_sentry := False, h_idr_sentry := False \<rparr>;
       a = \<lparr> pa_marker = True, pa_pts = 0, pa_payload_type = 96, pa_frame = True \<rparr>
   in \<exists>f s'. h264_parse (Some (fua_fragment 0x65 False True [1, 2])) a s
        = Inr (DEPACKETIZER_FRAME, s', Some f) \<and> df_data f = [1, 2]"
  unfolding Let_def
  by (rule h264_orphan_fragment_accepted)
    (simp_all add: h264_ready_def h264_wf_def h264_new_def gates_open_def h264_view_def MAX_ES_FRAME_SIZE_def)

end
