(* ===== verification/Depack_Vp8.thy ===== *)
theory Depack_Vp8
  imports Media
begin

text \<open>
  The VP8 depacketizer: \<open>Depacketizers/RtpDepacketizerVp8.h\<close> and \<open>.cc\<close>. The payload descriptor is read
  through a cursor (position, remaining length, bytes parsed) as the source does, so that every
  read is checked against the packet; the frame buffer is a memory block. The lemmas relate the
  parser to the descriptor format of RFC 7741, show that no packet makes it leave its buffers, and
  describe the reassembly of a frame and the wait for a key frame.
\<close>

section \<open>State and parsed header\<close>

datatype vp8_frame_type = kEmptyFrame | kAudioFrameSpeech | kAudioFrameCN | kVideoFrameKey | kVideoFrameDelta

record vp8_header =
  vh_non_reference :: bool
  vh_picture_id :: int
  vh_tl0_pic_idx :: int
  vh_temporal_idx :: byte
  vh_layer_sync :: bool
  vh_key_idx :: int
  vh_partition_id :: nat
  vh_beginning :: bool

definition kNoPictureId :: int where "kNoPictureId = - 1"
definition kNoTl0PicIdx :: int where "kNoTl0PicIdx = - 1"
definition kNoTemporalIdx :: byte where "kNoTemporalIdx = 0xFF"
definition kNoKeyIdx :: int where "kNoKeyIdx = - 1"

lemmas vp8_none = kNoPictureId_def kNoTl0PicIdx_def kNoTemporalIdx_def kNoKeyIdx_def

record vp8 =
  v8_key_required :: bool
  v8_frame_type :: vp8_frame_type
  v8_frame_len :: nat
  v8_frame :: "byte block option"
  v8_packets :: int

definition vp8_new :: "byte block option \<Rightarrow> vp8" where
  "vp8_new frame =
     \<lparr> v8_key_required = True, v8_frame_type = kEmptyFrame, v8_frame_len = 0, v8_frame = frame,
       v8_packets = 0 \<rparr>"

definition vp8_set_sync_point :: "vp8 \<Rightarrow> vp8" where
  "vp8_set_sync_point s = s\<lparr> v8_key_required := True, v8_frame_len := 0 \<rparr>"

section \<open>The payload descriptor\<close>

text \<open>
  A reader at position \<open>pos\<close> with \<open>data_length\<close> bytes left; \<open>None\<close> is the error return \<open>-1\<close>.
\<close>

record vp8_cursor =
  cu_pos :: nat
  cu_left :: nat
  cu_parsed :: nat

definition cu_advance :: "vp8_cursor \<Rightarrow> vp8_cursor" where
  "cu_advance c = c\<lparr> cu_pos := cu_pos c + 1, cu_left := cu_left c - 1, cu_parsed := cu_parsed c + 1 \<rparr>"

type_synonym vp8_step = "(vp8_header \<times> vp8_cursor) option res"

definition ParseVP8PictureID :: "byte list \<Rightarrow> vp8_header \<Rightarrow> vp8_cursor \<Rightarrow> vp8_step" where
  "ParseVP8PictureID b vp8 c =
     (if cu_left c = 0 then Inr None
      else res_bind (rd b (cu_pos c)) (\<lambda>d.
        let pid = uint (d AND 0x7F); vp8 = vp8\<lparr> vh_picture_id := pid \<rparr> in
        if d AND 0x80 \<noteq> 0 then
          let c = cu_advance c in
          if cu_left c = 0 then Inr None
          else res_bind (rd b (cu_pos c)) (\<lambda>d.
            Inr (Some (vp8\<lparr> vh_picture_id := push_bit 8 pid + uint d \<rparr>, cu_advance c)))
        else Inr (Some (vp8, cu_advance c))))"

definition ParseVP8Tl0PicIdx :: "byte list \<Rightarrow> vp8_header \<Rightarrow> vp8_cursor \<Rightarrow> vp8_step" where
  "ParseVP8Tl0PicIdx b vp8 c =
     (if cu_left c = 0 then Inr None
      else res_bind (rd b (cu_pos c)) (\<lambda>d.
        Inr (Some (vp8\<lparr> vh_tl0_pic_idx := uint d \<rparr>, cu_advance c))))"

definition ParseVP8TIDAndKeyIdx ::
    "byte list \<Rightarrow> bool \<Rightarrow> bool \<Rightarrow> vp8_header \<Rightarrow> vp8_cursor \<Rightarrow> vp8_step" where
  "ParseVP8TIDAndKeyIdx b has_tid has_key_idx vp8 c =
     (if cu_left c = 0 then Inr None
      else res_bind (rd b (cu_pos c)) (\<lambda>d.
        let vp8 = (if has_tid then vp8\<lparr> vh_temporal_idx := drop_bit 6 d AND 0x03,
                                         vh_layer_sync := d AND 0x20 \<noteq> 0 \<rparr> else vp8);
            vp8 = (if has_key_idx then vp8\<lparr> vh_key_idx := uint (d AND 0x1F) \<rparr> else vp8)
        in Inr (Some (vp8, cu_advance c))))"

definition vp8_then :: "bool \<Rightarrow> (vp8_header \<Rightarrow> vp8_cursor \<Rightarrow> vp8_step) \<Rightarrow> vp8_step \<Rightarrow> vp8_step" where
  "vp8_then present f m =
     (if present
      then res_bind m (\<lambda>r. case r of None \<Rightarrow> Inr None | Some (vp8, c) \<Rightarrow> f vp8 c)
      else m)"

definition ParseVP8Extension :: "byte list \<Rightarrow> vp8_header \<Rightarrow> nat \<Rightarrow> nat \<Rightarrow> vp8_step" where
  "ParseVP8Extension b vp8 pos data_length =
     res_bind (rd b pos) (\<lambda>d.
       let has_picture_id = d AND 0x80 \<noteq> 0; has_tl0_pic_idx = d AND 0x40 \<noteq> 0;
           has_tid = d AND 0x20 \<noteq> 0; has_key_idx = d AND 0x10 \<noteq> 0;
           c = cu_advance \<lparr> cu_pos = pos, cu_left = data_length, cu_parsed = 0 \<rparr>
       in vp8_then (has_tid \<or> has_key_idx) (ParseVP8TIDAndKeyIdx b has_tid has_key_idx)
            (vp8_then has_tl0_pic_idx (ParseVP8Tl0PicIdx b)
              (vp8_then has_picture_id (ParseVP8PictureID b) (Inr (Some (vp8, c))))))"

text \<open>The frame size of a key frame: width and height, or the error return.\<close>

definition ParseVP8FrameSize ::
    "byte list \<Rightarrow> vp8_frame_type \<Rightarrow> nat \<Rightarrow> nat \<Rightarrow> (16 word \<times> 16 word) option res" where
  "ParseVP8FrameSize b frame_type pos data_length =
     (if frame_type \<noteq> kVideoFrameKey then Inr (Some (0, 0))
      else if data_length < 10 then Inr None
      else res_bind (rd b (pos + 7)) (\<lambda>d7. res_bind (rd b (pos + 6)) (\<lambda>d6.
           res_bind (rd b (pos + 9)) (\<lambda>d9. res_bind (rd b (pos + 8)) (\<lambda>d8.
             Inr (Some (be16 d7 d6 AND 0x3FFF, be16 d9 d8 AND 0x3FFF)))))))"

text \<open>The first half of \<open>parse\<close>: the header, and where the payload begins and how long it is.\<close>

definition vp8_descriptor :: "byte list \<Rightarrow> (vp8_header \<times> nat \<times> nat) option res" where
  "vp8_descriptor b =
     res_bind (rd b 0) (\<lambda>d.
       let extension = d AND 0x80 \<noteq> 0; beginning_of_partition = d AND 0x10 \<noteq> 0;
           partition_id = unat (d AND 0x0F);
           vp8 = \<lparr> vh_non_reference = d AND 0x20 \<noteq> 0, vh_picture_id = kNoPictureId,
                   vh_tl0_pic_idx = kNoTl0PicIdx, vh_temporal_idx = kNoTemporalIdx,
                   vh_layer_sync = False, vh_key_idx = kNoKeyIdx, vh_partition_id = partition_id,
                   vh_beginning = beginning_of_partition \<rparr>
       in if partition_id > 8 then Inr None
       else if length b \<le> 1 then Inr None
       else if extension then
         res_bind (ParseVP8Extension b vp8 1 (length b - 1)) (\<lambda>r.
           case r of
             None \<Rightarrow> Inr None
           | Some (vp8, c) \<Rightarrow>
               let n = length b - 1 - cu_parsed c in
               if n = 0 then Inr None else Inr (Some (vp8, 1 + cu_parsed c, n)))
       else Inr (Some (vp8, 1, length b - 1)))"

section \<open>\<open>parse\<close>\<close>

type_synonym vp8_out = "depack_status \<times> vp8 \<times> depack_frame option"

text \<open>The second half: the payload joins the frame, and the marker bit closes it.\<close>

definition vp8_finish_frame :: "parse_args \<Rightarrow> vp8 \<Rightarrow> vp8_out" where
  "vp8_finish_frame a s =
     (if v8_key_required s \<and> v8_frame_type s \<noteq> kVideoFrameKey then
        (DEPACKETIZER_NEED_MORE, s\<lparr> v8_packets := 0, v8_frame_len := 0 \<rparr>, None)
      else
        (DEPACKETIZER_FRAME, s\<lparr> v8_key_required := False, v8_packets := 0, v8_frame_len := 0 \<rparr>,
         case (pa_frame a, v8_frame s) of
           (True, Some m) \<Rightarrow> Some
             \<lparr> df_data = region m 0 (v8_frame_len s), df_pts = pa_pts a,
               df_payload_type = pa_payload_type a,
               df_flags = (if v8_frame_type s = kVideoFrameKey then FRAME_IS_SYNC_POINT else 0),
               df_packets = v8_packets s \<rparr>
         | _ \<Rightarrow> None))"

definition vp8_payload :: "byte list \<Rightarrow> vp8_header \<Rightarrow> nat \<Rightarrow> nat \<Rightarrow> parse_args \<Rightarrow> vp8 \<Rightarrow> vp8_out res" where
  "vp8_payload b vp8 pos n a s =
     (let first = vh_beginning vp8 \<and> vh_partition_id vp8 = 0 in
      res_bind (if first then
          res_bind (rd b pos) (\<lambda>d.
            let t = (if d AND 0x01 \<noteq> 0 then kVideoFrameDelta else kVideoFrameKey)
            in Inr (t, s\<lparr> v8_frame_type := t \<rparr>))
        else Inr (kVideoFrameDelta, s)) (\<lambda>(frame_type, s).
      res_bind (ParseVP8FrameSize b frame_type pos n) (\<lambda>wh.
        case wh of
          None \<Rightarrow> Inr (DEPACKETIZER_ERROR, s, None)
        | Some _ \<Rightarrow>
            if int n > int MAX_ES_FRAME_SIZE - int (v8_frame_len s) then
              Inr (DEPACKETIZER_ERROR,
                   s\<lparr> v8_frame_type := kEmptyFrame, v8_frame_len := 0, v8_packets := 0 \<rparr>, None)
            else
              res_bind (rd_slice b pos n) (\<lambda>xs.
              res_bind (blk_write MAX_ES_FRAME_SIZE (v8_frame s) (v8_frame_len s) xs) (\<lambda>m.
                let s = s\<lparr> v8_frame := m, v8_frame_len := v8_frame_len s + n \<rparr> in
                if pa_marker a then Inr (vp8_finish_frame a s)
                else Inr (DEPACKETIZER_NEED_MORE, s, None))))))"

definition vp8_parse :: "byte list option \<Rightarrow> parse_args \<Rightarrow> vp8 \<Rightarrow> vp8_out res" where
  "vp8_parse packet a s =
     (case packet of
        None \<Rightarrow> Inl Null_Deref
      | Some b \<Rightarrow>
         if length b = 0 then Inr (DEPACKETIZER_ERROR, s, None)
         else
           let s = s\<lparr> v8_packets := v8_packets s + 1 \<rparr> in
           res_bind (vp8_descriptor b) (\<lambda>r.
             case r of
               None \<Rightarrow> Inr (DEPACKETIZER_ERROR, s, None)
             | Some (vp8, pos, n) \<Rightarrow> vp8_payload b vp8 pos n a s))"

section \<open>Memory safety\<close>

definition cu_ok :: "byte list \<Rightarrow> vp8_cursor \<Rightarrow> bool" where
  "cu_ok b c \<longleftrightarrow> cu_pos c + cu_left c = length b \<and> cu_pos c = 1 + cu_parsed c"

definition vp8_step_ok :: "byte list \<Rightarrow> vp8_step \<Rightarrow> bool" where
  "vp8_step_ok b m = (case m of Inl _ \<Rightarrow> False | Inr None \<Rightarrow> True | Inr (Some (_, c)) \<Rightarrow> cu_ok b c)"

lemma vp8_step_ok_simps [simp]:
  "\<not> vp8_step_ok b (Inl e)" "vp8_step_ok b (Inr None)" "vp8_step_ok b (Inr (Some (h, c))) = cu_ok b c"
  by (simp_all add: vp8_step_ok_def)

lemma cu_ok_advance [simp]: "cu_ok b c \<Longrightarrow> 0 < cu_left c \<Longrightarrow> cu_ok b (cu_advance c)"
  by (auto simp: cu_ok_def cu_advance_def)

lemma cu_advance_simps [simp]:
  "cu_pos (cu_advance c) = cu_pos c + 1" "cu_left (cu_advance c) = cu_left c - 1"
  "cu_parsed (cu_advance c) = cu_parsed c + 1"
  by (simp_all add: cu_advance_def)

lemma cu_ok_rd [simp]: "cu_ok b c \<Longrightarrow> 0 < cu_left c \<Longrightarrow> rd b (cu_pos c) = Inr (b ! cu_pos c)"
  "cu_ok b c \<Longrightarrow> 1 < cu_left c \<Longrightarrow> rd b (Suc (cu_pos c)) = Inr (b ! Suc (cu_pos c))"
  by (auto simp: cu_ok_def)

lemma ParseVP8_steps_ok:
  assumes "cu_ok b c"
  shows "vp8_step_ok b (ParseVP8PictureID b h c)" "vp8_step_ok b (ParseVP8Tl0PicIdx b h c)"
    "vp8_step_ok b (ParseVP8TIDAndKeyIdx b t k h c)"
  using assms
  by (auto simp: ParseVP8PictureID_def ParseVP8Tl0PicIdx_def ParseVP8TIDAndKeyIdx_def Let_def
      simp del: cu_advance_simps)

lemma vp8_then_ok:
  "vp8_step_ok b m \<Longrightarrow> (\<And>h c. cu_ok b c \<Longrightarrow> vp8_step_ok b (f h c)) \<Longrightarrow> vp8_step_ok b (vp8_then p f m)"
  by (cases m) (auto simp: vp8_then_def split: option.split)

lemma ParseVP8Extension_ok:
  assumes "1 < length b"
  shows "vp8_step_ok b (ParseVP8Extension b h 1 (length b - 1))"
  using assms unfolding ParseVP8Extension_def Let_def
  by (auto intro!: vp8_then_ok ParseVP8_steps_ok simp: cu_ok_def cu_advance_def)

lemma vp8_descriptor_ok:
  assumes "b \<noteq> []"
  shows "\<exists>r. vp8_descriptor b = Inr r \<and> (\<forall>h pos n. r = Some (h, pos, n) \<longrightarrow> pos + n = length b \<and> 0 < n)"
proof (cases "length b \<le> 1")
  case True
  then show ?thesis using assms by (auto simp: vp8_descriptor_def Let_def)
next
  case False
  let ?h = "\<lambda>d. \<lparr> vh_non_reference = d AND 0x20 \<noteq> 0, vh_picture_id = kNoPictureId,
                   vh_tl0_pic_idx = kNoTl0PicIdx, vh_temporal_idx = kNoTemporalIdx,
                   vh_layer_sync = False, vh_key_idx = kNoKeyIdx,
                   vh_partition_id = unat ((d :: byte) AND 0x0F), vh_beginning = d AND 0x10 \<noteq> 0 \<rparr>"
  have "vp8_step_ok b (ParseVP8Extension b (?h (b ! 0)) 1 (length b - 1))"
    using False by (intro ParseVP8Extension_ok) simp
  then show ?thesis
    using False assms
    by (auto simp: vp8_descriptor_def Let_def vp8_step_ok_def cu_ok_def
        split: sum.splits option.splits prod.splits)
qed

definition vp8_wf :: "vp8 \<Rightarrow> bool" where
  "vp8_wf s \<longleftrightarrow> v8_frame s \<noteq> None \<and> v8_frame_len s \<le> MAX_ES_FRAME_SIZE"

lemma vp8_wf_simps [simp]:
  "vp8_wf (vp8_new (Some m))" "vp8_wf s \<Longrightarrow> vp8_wf (vp8_set_sync_point s)"
  "vp8_wf (s\<lparr> v8_packets := k \<rparr>) = vp8_wf s" "vp8_wf (s\<lparr> v8_frame_type := t \<rparr>) = vp8_wf s"
  by (auto simp: vp8_wf_def vp8_new_def vp8_set_sync_point_def)

lemma ParseVP8FrameSize_ok:
  "pos + n \<le> length b \<Longrightarrow> \<exists>r. ParseVP8FrameSize b t pos n = Inr r \<and> (r = None \<longleftrightarrow> t = kVideoFrameKey \<and> n < 10)"
  by (auto simp: ParseVP8FrameSize_def)

text \<open>The payload step from a well-formed state, without its dead branches.\<close>

definition vp8_note_type :: "byte list \<Rightarrow> vp8_header \<Rightarrow> nat \<Rightarrow> vp8 \<Rightarrow> vp8" where
  "vp8_note_type b h pos s =
     (if vh_beginning h \<and> vh_partition_id h = 0
      then s\<lparr> v8_frame_type := (if b ! pos AND 0x01 \<noteq> 0 then kVideoFrameDelta else kVideoFrameKey) \<rparr>
      else s)"

definition vp8_key_start :: "byte list \<Rightarrow> vp8_header \<Rightarrow> nat \<Rightarrow> bool" where
  "vp8_key_start b h pos \<longleftrightarrow> vh_beginning h \<and> vh_partition_id h = 0 \<and> b ! pos AND 0x01 = 0"

lemma vp8_payload_eq:
  assumes "pos + n = length b" "0 < n" "v8_frame s = Some m" "v8_frame_len s \<le> MAX_ES_FRAME_SIZE"
  shows "vp8_payload b h pos n a s = (let s1 = vp8_note_type b h pos s in
    if vp8_key_start b h pos \<and> n < 10 then Inr (DEPACKETIZER_ERROR, s1, None)
    else if MAX_ES_FRAME_SIZE < v8_frame_len s + n then
      Inr (DEPACKETIZER_ERROR, s1\<lparr> v8_frame_type := kEmptyFrame, v8_frame_len := 0, v8_packets := 0 \<rparr>, None)
    else
      let s2 = s1\<lparr> v8_frame := Some (blit m (v8_frame_len s) (drop pos b)),
                   v8_frame_len := v8_frame_len s + n \<rparr>
      in if pa_marker a then Inr (vp8_finish_frame a s2) else Inr (DEPACKETIZER_NEED_MORE, s2, None))"
proof -
  have xs: "slice_of b pos n = drop pos b" using assms(1) by (simp add: slice_of_def)
  have big: "int MAX_ES_FRAME_SIZE - int (v8_frame_len s) < int n \<longleftrightarrow> MAX_ES_FRAME_SIZE < v8_frame_len s + n"
    using assms(4) by linarith
  have pos: "pos < length b" using assms(1,2) by linarith
  have n: "length b - pos = n" using assms(1) by linarith
  show ?thesis
    using assms pos n big xs
    by (auto simp: vp8_payload_def vp8_note_type_def vp8_key_start_def ParseVP8FrameSize_def Let_def
        split: option.split)
qed

section \<open>The descriptor format\<close>

text \<open>
  The payload descriptor of RFC 7741 as data: the N and S bits, the partition, and the optional
  picture id of 7 or 15 bits, TL0PICIDX, temporal index with its Y bit, and key index.
\<close>

datatype vp8_pid = Pid7 byte | Pid15 byte byte

record vp8_desc =
  ds_n :: bool
  ds_s :: bool
  ds_part :: byte
  ds_pid :: "vp8_pid option"
  ds_tl0 :: "byte option"
  ds_tid :: "(byte \<times> bool) option"
  ds_key :: "byte option"

definition ds_x :: "vp8_desc \<Rightarrow> bool" where
  "ds_x d \<longleftrightarrow> ds_pid d \<noteq> None \<or> ds_tl0 d \<noteq> None \<or> ds_tid d \<noteq> None \<or> ds_key d \<noteq> None"

definition vp8_byte0 :: "bool \<Rightarrow> bool \<Rightarrow> bool \<Rightarrow> byte \<Rightarrow> byte" where
  "vp8_byte0 x n s part = (if x then 0x80 else 0) OR (if n then 0x20 else 0) OR (if s then 0x10 else 0)
     OR (part AND 0x0F)"

definition vp8_byte1 :: "bool \<Rightarrow> bool \<Rightarrow> bool \<Rightarrow> bool \<Rightarrow> byte" where
  "vp8_byte1 i l t k = (if i then 0x80 else 0) OR (if l then 0x40 else 0) OR (if t then 0x20 else 0)
     OR (if k then 0x10 else 0)"

definition vp8_tk :: "byte \<Rightarrow> bool \<Rightarrow> byte \<Rightarrow> byte" where
  "vp8_tk tid y key = push_bit 6 (tid AND 3) OR (if y then 0x20 else 0) OR (key AND 0x1F)"

fun vp8_pid_bytes :: "vp8_pid option \<Rightarrow> byte list" where
  "vp8_pid_bytes None = []"
| "vp8_pid_bytes (Some (Pid7 p)) = [p AND 0x7F]"
| "vp8_pid_bytes (Some (Pid15 hi lo)) = [0x80 OR (hi AND 0x7F), lo]"

fun vp8_pid_value :: "vp8_pid option \<Rightarrow> int" where
  "vp8_pid_value None = kNoPictureId"
| "vp8_pid_value (Some (Pid7 p)) = uint (p AND 0x7F)"
| "vp8_pid_value (Some (Pid15 hi lo)) = 256 * uint (hi AND 0x7F) + uint lo"

definition vp8_tk_bytes :: "vp8_desc \<Rightarrow> byte list" where
  "vp8_tk_bytes d =
     (if ds_tid d = None \<and> ds_key d = None then []
      else let (tid, y) = (case ds_tid d of None \<Rightarrow> (0, False) | Some ty \<Rightarrow> ty)
           in [vp8_tk tid y (case ds_key d of None \<Rightarrow> 0 | Some k \<Rightarrow> k)])"

definition vp8_ext_bytes :: "vp8_desc \<Rightarrow> byte list" where
  "vp8_ext_bytes d =
     (if ds_x d then
        vp8_byte1 (ds_pid d \<noteq> None) (ds_tl0 d \<noteq> None) (ds_tid d \<noteq> None) (ds_key d \<noteq> None)
        # vp8_pid_bytes (ds_pid d) @ (case ds_tl0 d of None \<Rightarrow> [] | Some i \<Rightarrow> [i]) @ vp8_tk_bytes d
      else [])"

definition vp8_encode :: "vp8_desc \<Rightarrow> byte list" where
  "vp8_encode d = vp8_byte0 (ds_x d) (ds_n d) (ds_s d) (ds_part d) # vp8_ext_bytes d"

definition vp8_header_of :: "vp8_desc \<Rightarrow> vp8_header" where
  "vp8_header_of d =
     \<lparr> vh_non_reference = ds_n d,
       vh_picture_id = vp8_pid_value (ds_pid d),
       vh_tl0_pic_idx = (case ds_tl0 d of None \<Rightarrow> kNoTl0PicIdx | Some i \<Rightarrow> uint i),
       vh_temporal_idx = (case ds_tid d of None \<Rightarrow> kNoTemporalIdx | Some (t, _) \<Rightarrow> t AND 3),
       vh_layer_sync = (case ds_tid d of None \<Rightarrow> False | Some (_, y) \<Rightarrow> y),
       vh_key_idx = (case ds_key d of None \<Rightarrow> kNoKeyIdx | Some k \<Rightarrow> uint (k AND 0x1F)),
       vh_partition_id = unat (ds_part d AND 0x0F),
       vh_beginning = ds_s d \<rparr>"

lemma vp8_byte0_bits [simp]:
  "vp8_byte0 x n s part AND 0x80 \<noteq> 0 \<longleftrightarrow> x" "vp8_byte0 x n s part AND 0x20 \<noteq> 0 \<longleftrightarrow> n"
  "vp8_byte0 x n s part AND 0x10 \<noteq> 0 \<longleftrightarrow> s" "vp8_byte0 x n s part AND 0x0F = part AND 0x0F"
  by (cases x; cases n; cases s; simp add: vp8_byte0_def bit.conj_disj_distrib2 and.assoc)+

lemma vp8_byte1_bits [simp]:
  "vp8_byte1 i l t k AND 0x80 \<noteq> 0 \<longleftrightarrow> i" "vp8_byte1 i l t k AND 0x40 \<noteq> 0 \<longleftrightarrow> l"
  "vp8_byte1 i l t k AND 0x20 \<noteq> 0 \<longleftrightarrow> t" "vp8_byte1 i l t k AND 0x10 \<noteq> 0 \<longleftrightarrow> k"
  by (cases i; cases l; cases t; cases k; simp add: vp8_byte1_def)+

lemma vp8_tk_tid [simp]: "drop_bit 6 (vp8_tk tid y key) AND 3 = tid AND 3"
proof -
  have m: "(3 :: byte) = mask 2" "(0x1F :: byte) = mask 5" "(0x20 :: byte) = push_bit 5 1"
    by (simp_all add: mask_eq_exp_minus_1)
  show ?thesis unfolding vp8_tk_def m
    by (rule bit_word_eqI) (auto simp: bit_simps simp del: mask_numeral push_bit_of_1)
qed

lemma vp8_tk_rest [simp]:
  "vp8_tk tid y key AND 0x20 \<noteq> 0 \<longleftrightarrow> y" "vp8_tk tid y key AND 0x1F = key AND 0x1F"
proof -
  have p: "push_bit 6 (x :: byte) AND 0x20 = 0" "push_bit 6 (x :: byte) AND 0x1F = 0" for x
  proof -
    have "push_bit 6 x = push_bit 6 x AND 0xC0"
    proof (rule bit_word_eqI)
      fix k assume "k < LENGTH(8)"
      then have "k < 6 \<or> k = 6 \<or> k = 7" by simp arith
      then show "bit (push_bit 6 x) k = bit (push_bit 6 x AND 0xC0) k"
        by (auto simp: bit_simps)
    qed
    then have "push_bit 6 x AND m = push_bit 6 x AND (0xC0 AND m)" for m
      by (metis and.assoc)
    from this [of "0x20"] this [of "0x1F"] show "push_bit 6 x AND 0x20 = 0" "push_bit 6 x AND 0x1F = 0"
      by simp_all
  qed
  show "vp8_tk tid y key AND 0x20 \<noteq> 0 \<longleftrightarrow> y" "vp8_tk tid y key AND 0x1F = key AND 0x1F"
    by (cases y; simp add: vp8_tk_def bit.conj_disj_distrib2 and.assoc p)+
qed

text \<open>The extension parser, one optional field after the other.\<close>

definition cu_at :: "nat \<Rightarrow> nat \<Rightarrow> vp8_cursor" where
  "cu_at k n = \<lparr> cu_pos = Suc k, cu_left = n - k, cu_parsed = k \<rparr>"

lemma cu_at_simps [simp]:
  "cu_pos (cu_at k n) = Suc k" "cu_left (cu_at k n) = n - k" "cu_parsed (cu_at k n) = k"
  "cu_advance (cu_at k n) = cu_at (Suc k) n"
  by (simp_all add: cu_at_def cu_advance_def)

lemma pid_step:
  assumes "b = x0 # xs @ vp8_pid_bytes (Some pid) @ rest" "rest \<noteq> []"
  shows "ParseVP8PictureID b h (cu_at (length xs) (length b - 1)) =
    Inr (Some (h\<lparr> vh_picture_id := vp8_pid_value (Some pid) \<rparr>,
               cu_at (length xs + length (vp8_pid_bytes (Some pid))) (length b - 1)))"
proof (cases pid)
  case (Pid7 p)
  then show ?thesis using assms
    by (simp add: ParseVP8PictureID_def Let_def nth_append and.assoc)
next
  case (Pid15 hi lo)
  then show ?thesis using assms
    by (simp add: ParseVP8PictureID_def Let_def nth_append bit.conj_disj_distrib2 and.assoc
        push_bit_eq_mult cu_at_def)
qed

lemma tl0_step:
  assumes "b = x0 # xs @ i # rest"
  shows "ParseVP8Tl0PicIdx b h (cu_at (length xs) (length b - 1)) =
    Inr (Some (h\<lparr> vh_tl0_pic_idx := uint i \<rparr>, cu_at (Suc (length xs)) (length b - 1)))"
  using assms by (simp add: ParseVP8Tl0PicIdx_def nth_append)

lemma tk_step:
  assumes "b = x0 # xs @ vp8_tk tid y key # rest"
  shows "ParseVP8TIDAndKeyIdx b t k h (cu_at (length xs) (length b - 1)) =
    Inr (Some (let h = (if t then h\<lparr> vh_temporal_idx := tid AND 3, vh_layer_sync := y \<rparr> else h) in
               if k then h\<lparr> vh_key_idx := uint (key AND 0x1F) \<rparr> else h,
               cu_at (Suc (length xs)) (length b - 1)))"
  using assms vp8_tk_rest [of tid y key] by (simp add: ParseVP8TIDAndKeyIdx_def nth_append Let_def)

lemma ParseVP8Extension_encode:
  assumes "ds_x d" "pl \<noteq> []" and b: "b = x0 # vp8_ext_bytes d @ pl"
    and h: "vh_picture_id h = kNoPictureId" "vh_tl0_pic_idx h = kNoTl0PicIdx"
      "vh_temporal_idx h = kNoTemporalIdx" "\<not> vh_layer_sync h" "vh_key_idx h = kNoKeyIdx"
  shows "ParseVP8Extension b h 1 (length b - 1) =
    Inr (Some (h\<lparr> vh_picture_id := vh_picture_id (vp8_header_of d),
                 vh_tl0_pic_idx := vh_tl0_pic_idx (vp8_header_of d),
                 vh_temporal_idx := vh_temporal_idx (vp8_header_of d),
                 vh_layer_sync := vh_layer_sync (vp8_header_of d),
                 vh_key_idx := vh_key_idx (vp8_header_of d) \<rparr>,
               cu_at (length (vp8_ext_bytes d)) (length b - 1)))"
proof -
  let ?x1 = "vp8_byte1 (ds_pid d \<noteq> None) (ds_tl0 d \<noteq> None) (ds_tid d \<noteq> None) (ds_key d \<noteq> None)"
  let ?P = "vp8_pid_bytes (ds_pid d)" and ?L = "case ds_tl0 d of None \<Rightarrow> [] | Some i \<Rightarrow> [i]"
    and ?T = "vp8_tk_bytes d" and ?n = "length b - 1"
  have b': "b = x0 # [?x1] @ ?P @ ?L @ ?T @ pl" using b assms(1) by (simp add: vp8_ext_bytes_def)
  have ext: "length (vp8_ext_bytes d) = 1 + length ?P + length ?L + length ?T"
    using assms(1) by (simp add: vp8_ext_bytes_def)
  let ?h1 = "h\<lparr> vh_picture_id := vh_picture_id (vp8_header_of d) \<rparr>"
  let ?h2 = "?h1\<lparr> vh_tl0_pic_idx := vh_tl0_pic_idx (vp8_header_of d) \<rparr>"
  have e1: "vp8_then (ds_pid d \<noteq> None) (ParseVP8PictureID b) (Inr (Some (h, cu_at 1 ?n))) =
      Inr (Some (?h1, cu_at (1 + length ?P) ?n))"
  proof (cases "ds_pid d")
    case None
    then show ?thesis using h by (simp add: vp8_then_def vp8_header_of_def)
  next
    case (Some pid)
    then show ?thesis using pid_step [of b x0 "[?x1]" pid "?L @ ?T @ pl" h] b' assms(2)
      by (simp add: vp8_then_def vp8_header_of_def)
  qed
  have e2: "vp8_then (ds_tl0 d \<noteq> None) (ParseVP8Tl0PicIdx b) (Inr (Some (?h1, cu_at (1 + length ?P) ?n))) =
      Inr (Some (?h2, cu_at (1 + length ?P + length ?L) ?n))"
  proof (cases "ds_tl0 d")
    case None
    then show ?thesis using h by (simp add: vp8_then_def vp8_header_of_def)
  next
    case (Some i)
    then show ?thesis using tl0_step [of b x0 "?x1 # ?P" i "?T @ pl" ?h1] b'
      by (simp add: vp8_then_def vp8_header_of_def)
  qed
  have e3: "vp8_then (ds_tid d \<noteq> None \<or> ds_key d \<noteq> None)
        (ParseVP8TIDAndKeyIdx b (ds_tid d \<noteq> None) (ds_key d \<noteq> None))
        (Inr (Some (?h2, cu_at (1 + length ?P + length ?L) ?n))) =
      Inr (Some (?h2\<lparr> vh_temporal_idx := vh_temporal_idx (vp8_header_of d),
                      vh_layer_sync := vh_layer_sync (vp8_header_of d),
                      vh_key_idx := vh_key_idx (vp8_header_of d) \<rparr>,
                 cu_at (1 + length ?P + length ?L + length ?T) ?n))"
  proof (cases "ds_tid d = None \<and> ds_key d = None")
    case True
    then show ?thesis using h by (simp add: vp8_then_def vp8_header_of_def vp8_tk_bytes_def)
  next
    case False
    define ty where "ty = (case ds_tid d of None \<Rightarrow> (0, False) | Some ty \<Rightarrow> ty)"
    define key where "key = (case ds_key d of None \<Rightarrow> 0 | Some k \<Rightarrow> k)"
    have T: "?T = [vp8_tk (fst ty) (snd ty) key]"
      using False by (auto simp: vp8_tk_bytes_def ty_def key_def split: prod.split)
    show ?thesis
      using tk_step [of b x0 "?x1 # ?P @ ?L" "fst ty" "snd ty" key pl "ds_tid d \<noteq> None" "ds_key d \<noteq> None" ?h2] b' T False h
      by (auto simp: vp8_then_def vp8_header_of_def Let_def ty_def key_def split: option.splits)
  qed
  have e4: "rd b 1 = Inr ?x1" and e5: "cu_advance \<lparr> cu_pos = 1, cu_left = ?n, cu_parsed = 0 \<rparr> = cu_at 1 ?n"
    using b' by (simp_all add: cu_advance_def cu_at_def)
  show ?thesis
    by (simp only: ParseVP8Extension_def e4 e5 res_bind_simps Let_def vp8_byte1_bits e1 e2 e3 ext)
qed

lemma vp8_descriptor_encode:
  assumes "pl \<noteq> []" "unat (ds_part d AND 0x0F) \<le> 8"
  shows "vp8_descriptor (vp8_encode d @ pl) =
    Inr (Some (vp8_header_of d, length (vp8_encode d), length pl))"
proof -
  define b where "b = vp8_encode d @ pl"
  let ?x0 = "vp8_byte0 (ds_x d) (ds_n d) (ds_s d) (ds_part d)"
  have b: "b = ?x0 # vp8_ext_bytes d @ pl" by (simp add: b_def vp8_encode_def)
  have pl: "0 < length pl" using assms(1) by simp
  then have rd0: "rd b 0 = Inr ?x0" and len: "\<not> length b \<le> 1"
    and left: "length b - (1 + length (vp8_ext_bytes d)) = length pl"
      "\<not> length b \<le> 1 + length (vp8_ext_bytes d)"
    by (simp_all add: b)
  have "vp8_descriptor b = Inr (Some (vp8_header_of d, length (vp8_encode d), length pl))"
  proof (cases "ds_x d")
    case True
    note E = ParseVP8Extension_encode [OF True assms(1) b]
    show ?thesis
      using assms(2) pl True by (simp add: vp8_descriptor_def rd0 Let_def E len left vp8_encode_def
          vp8_header_of_def del: One_nat_def)
  next
    case False
    then show ?thesis
      using assms(2) pl
      by (cases "ds_tid d") (auto simp: vp8_descriptor_def rd0 len b Let_def vp8_ext_bytes_def vp8_encode_def vp8_header_of_def ds_x_def)
  qed
  then show ?thesis by (simp add: b_def)
qed

text \<open>
  The descriptor parser inverts the RFC 7741 encoding: for every choice of optional fields it
  returns exactly the encoded header, and the payload begins right behind the descriptor.
\<close>

lemma vp8_descriptor_roundtrip:
  assumes "pl \<noteq> []" "unat (ds_part d AND 0x0F) \<le> 8"
  shows "vp8_descriptor (vp8_encode d @ pl) =
    Inr (Some (vp8_header_of d, length (vp8_encode d), length pl))"
  using assms by (rule vp8_descriptor_encode)

lemma vp8_descriptor_roundtrip_witness:
  "vp8_descriptor (vp8_encode \<lparr> ds_n = True, ds_s = True, ds_part = 0, ds_pid = Some (Pid15 1 2),
       ds_tl0 = Some 7, ds_tid = Some (2, True), ds_key = None \<rparr> @ [0x10, 9]) =
    Inr (Some (\<lparr> vh_non_reference = True, vh_picture_id = 258, vh_tl0_pic_idx = 7,
       vh_temporal_idx = 2, vh_layer_sync = True, vh_key_idx = - 1, vh_partition_id = 0,
       vh_beginning = True \<rparr>, 6, 2))"
  using vp8_descriptor_roundtrip [of "[0x10, 9]" "\<lparr> ds_n = True, ds_s = True, ds_part = 0,
       ds_pid = Some (Pid15 1 2), ds_tl0 = Some 7, ds_tid = Some (2, True), ds_key = None \<rparr>"]
  by (simp add: vp8_header_of_def vp8_none vp8_encode_def vp8_ext_bytes_def ds_x_def vp8_tk_bytes_def)

section \<open>\<open>parse\<close> from a well-formed state\<close>

lemma vp8_note_type_simps [simp]:
  "v8_frame (vp8_note_type b h p s) = v8_frame s" "v8_frame_len (vp8_note_type b h p s) = v8_frame_len s"
  "v8_packets (vp8_note_type b h p s) = v8_packets s"
  "v8_key_required (vp8_note_type b h p s) = v8_key_required s"
  by (simp_all add: vp8_note_type_def)

lemma vp8_finish_frame_wf: "vp8_wf s \<Longrightarrow> vp8_wf (fst (snd (vp8_finish_frame a s)))"
  by (simp add: vp8_finish_frame_def vp8_wf_def)

lemma vp8_parse_wf:
  assumes "vp8_wf s"
  shows "\<exists>st s' f. vp8_parse (Some b) a s = Inr (st, s', f) \<and> vp8_wf s'"
proof (cases "b = []")
  case True
  then show ?thesis using assms by (simp add: vp8_parse_def)
next
  case False
  obtain r where r: "vp8_descriptor b = Inr r"
    "\<And>h pos n. r = Some (h, pos, n) \<Longrightarrow> pos + n = length b \<and> 0 < n"
    using vp8_descriptor_ok [OF False] by blast
  show ?thesis
  proof (cases r)
    case None
    then show ?thesis using False r assms by (simp add: vp8_parse_def)
  next
    case (Some x)
    obtain h pos n where x: "x = (h, pos, n)" by (cases x)
    let ?s = "s\<lparr> v8_packets := v8_packets s + 1 \<rparr>"
    obtain m where m: "v8_frame ?s = Some m" "v8_frame_len ?s \<le> MAX_ES_FRAME_SIZE"
      using assms by (auto simp: vp8_wf_def)
    have p: "pos + n = length b" "0 < n" using r(2) Some x by auto
    let ?s1 = "vp8_note_type b h pos ?s"
    let ?s2 = "?s1\<lparr> v8_frame := Some (blit m (v8_frame_len ?s) (drop pos b)), v8_frame_len := v8_frame_len ?s + n \<rparr>"
    have s1: "vp8_wf ?s1" using assms by (simp add: vp8_wf_def)
    have "vp8_wf (fst (snd (vp8_finish_frame a ?s2)))" if "v8_frame_len ?s + n \<le> MAX_ES_FRAME_SIZE"
      by (rule vp8_finish_frame_wf) (use that in \<open>simp add: vp8_wf_def\<close>)
    then have "case vp8_payload b h pos n a ?s of Inl _ \<Rightarrow> False | Inr out \<Rightarrow> vp8_wf (fst (snd out))"
      unfolding vp8_payload_eq [OF p m] Let_def using s1 by (simp add: vp8_wf_def)
    then have "\<exists>st s' f. vp8_payload b h pos n a ?s = Inr (st, s', f) \<and> vp8_wf s'"
      by (auto split: sum.splits)
    then show ?thesis using False r Some x by (simp add: vp8_parse_def)
  qed
qed

text \<open>
  C13: for every packet of at least one byte, well formed or not, and from every well-formed state,
  the VP8 \<open>parse\<close> reads and writes inside its buffers and leaves a well-formed state.
\<close>

theorem vp8_parse_memory_safe:
  assumes "vp8_wf s"
  shows "\<exists>st s' f. vp8_parse (Some b) a s = Inr (st, s', f) \<and> vp8_wf s'"
  using assms by (rule vp8_parse_wf)

theorem vp8_parse_memory_safe_witness:
  "\<exists>st s' f. vp8_parse (Some [0x90, 0x80])
     \<lparr> pa_marker = True, pa_pts = 0, pa_payload_type = 97, pa_frame = True \<rparr>
     (vp8_new (Some (\<lambda>_. 0))) = Inr (st, s', f) \<and> vp8_wf s'"
  by (rule vp8_parse_memory_safe) simp

section \<open>Reassembly\<close>

definition vp8_data :: "vp8 \<Rightarrow> byte list" where
  "vp8_data s = (case v8_frame s of None \<Rightarrow> [] | Some m \<Rightarrow> region m 0 (v8_frame_len s))"

text \<open>A packet as a descriptor and a payload, the frame type it announces, and when it is well formed.\<close>

type_synonym vp8_packet = "vp8_desc \<times> byte list"

definition vp8_wire :: "vp8_packet \<Rightarrow> byte list" where
  "vp8_wire p = vp8_encode (fst p) @ snd p"

definition vp8_first :: "vp8_desc \<Rightarrow> bool" where
  "vp8_first d \<longleftrightarrow> ds_s d \<and> ds_part d AND 0x0F = 0"

definition vp8_type_after :: "vp8_packet \<Rightarrow> vp8_frame_type \<Rightarrow> vp8_frame_type" where
  "vp8_type_after p t =
     (if vp8_first (fst p) then (if hd (snd p) AND 1 \<noteq> 0 then kVideoFrameDelta else kVideoFrameKey) else t)"

definition vp8_packet_ok :: "vp8_packet \<Rightarrow> bool" where
  "vp8_packet_ok p \<longleftrightarrow> snd p \<noteq> [] \<and> unat (ds_part (fst p) AND 0x0F) \<le> 8
     \<and> (vp8_first (fst p) \<and> hd (snd p) AND 1 = 0 \<longrightarrow> 10 \<le> length (snd p))"

lemma vp8_parse_packet:
  assumes "vp8_wf s" "vp8_packet_ok p" "v8_frame_len s + length (snd p) \<le> MAX_ES_FRAME_SIZE"
  obtains s' where
    "vp8_parse (Some (vp8_wire p)) a s =
       Inr (if pa_marker a then vp8_finish_frame a s' else (DEPACKETIZER_NEED_MORE, s', None))"
    "vp8_wf s'" "vp8_data s' = vp8_data s @ snd p" "v8_frame_type s' = vp8_type_after p (v8_frame_type s)"
    "v8_key_required s' = v8_key_required s" "v8_frame_len s' = v8_frame_len s + length (snd p)"
    "v8_packets s' = v8_packets s + 1"
proof -
  obtain d c where p: "p = (d, c)" by force
  let ?b = "vp8_encode d @ c" and ?pos = "length (vp8_encode d)" and ?s = "s\<lparr> v8_packets := v8_packets s + 1 \<rparr>"
  have c: "c \<noteq> []" "unat (ds_part d AND 0x0F) \<le> 8" using assms(2) by (simp_all add: vp8_packet_ok_def p)
  obtain m where m: "v8_frame ?s = Some m" "v8_frame_len ?s \<le> MAX_ES_FRAME_SIZE"
    using assms(1) by (auto simp: vp8_wf_def)
  have n: "?pos + length c = length ?b" "0 < length c" using c by simp_all
  have hd: "?b ! ?pos = hd c" using c by (simp add: nth_append hd_conv_nth)
  have first: "vh_beginning (vp8_header_of d) \<and> vh_partition_id (vp8_header_of d) = 0 \<longleftrightarrow> vp8_first d"
    by (simp add: vp8_header_of_def vp8_first_def unat_eq_0)
  have key: "\<not> (vp8_key_start ?b (vp8_header_of d) ?pos \<and> length c < 10)"
    using assms(2) first hd by (auto simp: vp8_key_start_def vp8_packet_ok_def p)
  let ?s1 = "vp8_note_type ?b (vp8_header_of d) ?pos ?s"
  let ?s2 = "?s1\<lparr> v8_frame := Some (blit m (v8_frame_len s) c), v8_frame_len := v8_frame_len s + length c \<rparr>"
  have type: "v8_frame_type ?s1 = vp8_type_after p (v8_frame_type s)"
    using first hd by (auto simp: vp8_note_type_def vp8_type_after_def p)
  have "vp8_parse (Some ?b) a s = Inr (if pa_marker a then vp8_finish_frame a ?s2 else (DEPACKETIZER_NEED_MORE, ?s2, None))"
    using c key assms(3) by (auto simp add: vp8_parse_def vp8_descriptor_encode vp8_payload_eq [OF n m] Let_def p)
  moreover have "vp8_wf ?s2" using assms(3) by (simp add: vp8_wf_def p)
  moreover have "vp8_data ?s2 = vp8_data s @ c"
    using m region_blit_append [of m "v8_frame_len s" c] by (simp add: vp8_data_def)
  ultimately show thesis using that [of ?s2] type by (simp add: vp8_wire_def p)
qed

lemma vp8_feed_quiet:
  assumes "vp8_wf s" "\<forall>p\<in>set ps. vp8_packet_ok p" "\<not> pa_marker a"
    "v8_frame_len s + length (concat (map snd ps)) \<le> MAX_ES_FRAME_SIZE"
  shows "\<exists>outs s'. feed vp8_parse (with_marker a (map vp8_wire ps)) s = Inr (outs, s') \<and> quiet outs
    \<and> vp8_wf s' \<and> vp8_data s' = vp8_data s @ concat (map snd ps)
    \<and> v8_frame_type s' = fold vp8_type_after ps (v8_frame_type s)
    \<and> v8_key_required s' = v8_key_required s
    \<and> v8_frame_len s' = v8_frame_len s + length (concat (map snd ps))
    \<and> v8_packets s' = v8_packets s + int (length ps)"
  using assms
proof (induction ps arbitrary: s)
  case (Cons p ps)
  have p: "vp8_packet_ok p" "v8_frame_len s + length (snd p) \<le> MAX_ES_FRAME_SIZE" using Cons.prems by auto
  obtain s1 where s1: "vp8_parse (Some (vp8_wire p)) a s = Inr (DEPACKETIZER_NEED_MORE, s1, None)"
    "vp8_wf s1" "vp8_data s1 = vp8_data s @ snd p" "v8_frame_type s1 = vp8_type_after p (v8_frame_type s)"
    "v8_key_required s1 = v8_key_required s" "v8_frame_len s1 = v8_frame_len s + length (snd p)"
    "v8_packets s1 = v8_packets s + 1"
    using vp8_parse_packet [OF Cons.prems(1) p, of a] Cons.prems(3) by auto
  then show ?case
    using Cons.IH [OF s1(2)] Cons.prems(2-4)
    by (auto simp: with_marker_append_False [OF Cons.prems(3), of "[vp8_wire p]", simplified])
qed simp

text \<open>
  C6: the payloads of the packets of one VP8 frame, the marker on the last, come out as one frame:
  their concatenation in order, with the packet count, flagged as a sync point exactly for a key
  frame; a delta frame is dropped instead while a key frame is required. Either way the
  depacketizer is ready for the next frame.
\<close>

theorem vp8_frame_reassembled:
  assumes "vp8_wf s" "v8_frame_len s = 0" "v8_packets s = 0" "ps \<noteq> []" "\<forall>p\<in>set ps. vp8_packet_ok p"
    and "vp8_first (fst (hd ps))" "\<forall>p\<in>set (tl ps). \<not> vp8_first (fst p)"
    and "length (concat (map snd ps)) \<le> MAX_ES_FRAME_SIZE" "pa_marker a" "pa_frame a"
  shows "\<exists>outs s' out. feed vp8_parse (with_marker a (map vp8_wire ps)) s = Inr (outs @ [out], s')
    \<and> quiet outs \<and> vp8_wf s' \<and> v8_frame_len s' = 0 \<and> v8_packets s' = 0
    \<and> (let key = (hd (snd (hd ps)) AND 1 = 0) in
        if v8_key_required s \<and> \<not> key then out = (DEPACKETIZER_NEED_MORE, None) \<and> v8_key_required s'
        else \<not> v8_key_required s' \<and> out = (DEPACKETIZER_FRAME, Some
          \<lparr> df_data = concat (map snd ps), df_pts = pa_pts a, df_payload_type = pa_payload_type a,
            df_flags = (if key then FRAME_IS_SYNC_POINT else 0), df_packets = int (length ps) \<rparr>))"
proof -
  obtain qs q where ps: "ps = qs @ [q]" using assms(4) by (cases ps rule: rev_cases) auto
  let ?key = "hd (snd (hd ps)) AND 1 = 0" and ?a = "a\<lparr> pa_marker := False \<rparr>"
  have len: "v8_frame_len s + length (concat (map snd qs)) \<le> MAX_ES_FRAME_SIZE"
    "\<forall>p\<in>set qs. vp8_packet_ok p" using assms by (auto simp: ps)
  obtain outs s1 where s1: "feed vp8_parse (with_marker ?a (map vp8_wire qs)) s = Inr (outs, s1)" "quiet outs"
    "vp8_wf s1" "vp8_data s1 = vp8_data s @ concat (map snd qs)"
    "v8_frame_type s1 = fold vp8_type_after qs (v8_frame_type s)" "v8_key_required s1 = v8_key_required s"
    "v8_frame_len s1 = length (concat (map snd qs))" "v8_packets s1 = int (length qs)"
    using vp8_feed_quiet [OF assms(1) len(2) _ len(1), of ?a] assms(2,3) by auto
  have q: "vp8_packet_ok q" "v8_frame_len s1 + length (snd q) \<le> MAX_ES_FRAME_SIZE"
    using assms(5,8) s1(7) by (simp_all add: ps)
  obtain s2 where s2: "vp8_parse (Some (vp8_wire q)) a s1 = Inr (vp8_finish_frame a s2)"
    "vp8_wf s2" "vp8_data s2 = vp8_data s1 @ snd q" "v8_frame_type s2 = vp8_type_after q (v8_frame_type s1)"
    "v8_key_required s2 = v8_key_required s1" "v8_frame_len s2 = v8_frame_len s1 + length (snd q)"
    "v8_packets s2 = v8_packets s1 + 1"
    using vp8_parse_packet [OF s1(3) q, of a] assms(9) by auto
  have same: "fold vp8_type_after rs t = t" if "\<forall>p\<in>set rs. \<not> vp8_first (fst p)" for rs t
    using that by (induction rs) (auto simp: vp8_type_after_def)
  have "v8_frame_type s2 = fold vp8_type_after ps (v8_frame_type s)" using s1(5) s2(4) by (simp add: ps)
  also have "\<dots> = (if ?key then kVideoFrameKey else kVideoFrameDelta)"
    using assms(4,6,7) same by (cases ps) (auto simp: vp8_type_after_def)
  finally have t: "v8_frame_type s2 = (if ?key then kVideoFrameKey else kVideoFrameDelta)" .
  obtain m where m: "v8_frame s2 = Some m" using s2(2) by (auto simp: vp8_wf_def)
  have "vp8_data s = []" using assms(1,2) by (auto simp: vp8_data_def vp8_wf_def)
  then have d: "region m 0 (v8_frame_len s2) = concat (map snd ps)"
    using s1(4) s2(3) m by (simp add: vp8_data_def ps)
  obtain st s3 f where f: "vp8_finish_frame a s2 = (st, s3, f)" by (cases "vp8_finish_frame a s2")
  have "feed vp8_parse (with_marker a (map vp8_wire ps)) s = Inr (outs @ [(st, f)], s3)"
    using s1(1) s2(1) f by (simp add: ps with_marker_append feed_append)
  moreover have "vp8_wf s3" using vp8_finish_frame_wf [OF s2(2), of a] f by simp
  ultimately show ?thesis
    using s1(2) t m d s1(6,8) s2(5,7) assms(10) f
    by (intro exI [of _ outs] exI [of _ s3] exI [of _ "(st, f)"]) (auto simp: vp8_finish_frame_def Let_def ps split: if_splits)
qed

theorem vp8_frame_reassembled_witness:
  "let d0 = \<lparr> ds_n = False, ds_s = True, ds_part = 0, ds_pid = Some (Pid7 3), ds_tl0 = None,
              ds_tid = None, ds_key = None \<rparr>;
       d1 = d0\<lparr> ds_s := False \<rparr>;
       a = \<lparr> pa_marker = True, pa_pts = 90, pa_payload_type = 97, pa_frame = True \<rparr>
   in \<exists>outs s'. feed vp8_parse (with_marker a (map vp8_wire [(d0, [16,0,0,0x9d,1,0x2a,8,0,8,0]), (d1, [7, 9])]))
        (vp8_new (Some (\<lambda>_. 0))) = Inr (outs @ [(DEPACKETIZER_FRAME, Some
          \<lparr> df_data = [16,0,0,0x9d,1,0x2a,8,0,8,0,7,9], df_pts = 90, df_payload_type = 97,
            df_flags = FRAME_IS_SYNC_POINT, df_packets = 2 \<rparr>)], s')"
  using vp8_frame_reassembled [of "vp8_new (Some (\<lambda>_. 0))"
      "[(\<lparr> ds_n = False, ds_s = True, ds_part = 0, ds_pid = Some (Pid7 3), ds_tl0 = None,
              ds_tid = None, ds_key = None \<rparr>, [16,0,0,0x9d,1,0x2a,8,0,8,0]),
        (\<lparr> ds_n = False, ds_s = False, ds_part = 0, ds_pid = Some (Pid7 3), ds_tl0 = None,
              ds_tid = None, ds_key = None \<rparr>, [7, 9])]"
      "\<lparr> pa_marker = True, pa_pts = 90, pa_payload_type = 97, pa_frame = True \<rparr>"]
  by (auto simp: vp8_new_def vp8_wf_def vp8_packet_ok_def vp8_first_def MAX_ES_FRAME_SIZE_def Let_def)

section \<open>The wait for a key frame\<close>

definition vp8_starts_key :: "byte list \<Rightarrow> bool" where
  "vp8_starts_key b \<longleftrightarrow>
     (case vp8_descriptor b of Inr (Some (h, pos, _)) \<Rightarrow> vp8_key_start b h pos | _ \<Rightarrow> False)"

definition vp8_waiting :: "vp8 \<Rightarrow> bool" where
  "vp8_waiting s \<longleftrightarrow> vp8_wf s \<and> v8_key_required s \<and> v8_frame_type s \<noteq> kVideoFrameKey"

lemma vp8_parse_waiting:
  assumes "vp8_waiting s" "\<not> vp8_starts_key b"
  shows "\<exists>st s' f. vp8_parse (Some b) a s = Inr (st, s', f) \<and> st \<noteq> DEPACKETIZER_FRAME \<and> vp8_waiting s'"
proof (cases "b = []")
  case True
  then show ?thesis using assms by (simp add: vp8_parse_def)
next
  case False
  obtain r where r: "vp8_descriptor b = Inr r"
    "\<And>h pos n. r = Some (h, pos, n) \<Longrightarrow> pos + n = length b \<and> 0 < n"
    using vp8_descriptor_ok [OF False] by blast
  show ?thesis
  proof (cases r)
    case None
    then show ?thesis using False r assms by (simp add: vp8_parse_def vp8_waiting_def)
  next
    case (Some x)
    obtain h pos n where x: "x = (h, pos, n)" by (cases x)
    let ?s = "s\<lparr> v8_packets := v8_packets s + 1 \<rparr>"
    obtain m where m: "v8_frame ?s = Some m" "v8_frame_len ?s \<le> MAX_ES_FRAME_SIZE"
      using assms(1) by (auto simp: vp8_wf_def vp8_waiting_def)
    have p: "pos + n = length b" "0 < n" using r(2) Some x by auto
    have key: "\<not> vp8_key_start b h pos" using assms(2) r Some x by (simp add: vp8_starts_key_def)
    let ?s1 = "vp8_note_type b h pos ?s"
    have t: "v8_frame_type ?s1 \<noteq> kVideoFrameKey"
      using key assms(1) by (auto simp: vp8_note_type_def vp8_key_start_def vp8_waiting_def)
    let ?s2 = "?s1\<lparr> v8_frame := Some (blit m (v8_frame_len s) (drop pos b)), v8_frame_len := v8_frame_len s + n \<rparr>"
    have fin: "vp8_finish_frame a ?s2 = (DEPACKETIZER_NEED_MORE, ?s2\<lparr> v8_packets := 0, v8_frame_len := 0 \<rparr>, None)"
      using t assms(1) by (simp add: vp8_finish_frame_def vp8_waiting_def)
    show ?thesis
      using False r Some x assms(1) t m
      by (auto simp: vp8_parse_def vp8_payload_eq [OF p m] Let_def key fin vp8_waiting_def vp8_wf_def)
  qed
qed

text \<open>
  C11: a freshly made depacketizer returns no frame before it has seen the start of a key frame: no
  sequence of packets without one, malformed packets included, makes it answer with a frame.
\<close>

theorem vp8_waits_for_key_frame:
  assumes "\<forall>p\<in>set ps. \<not> vp8_starts_key (fst p)"
  shows "\<exists>outs s'. feed vp8_parse ps (vp8_new (Some m)) = Inr (outs, s')
    \<and> DEPACKETIZER_FRAME \<notin> fst ` set outs \<and> v8_key_required s'"
proof -
  have gen: "\<exists>outs s'. feed vp8_parse ps s = Inr (outs, s') \<and> DEPACKETIZER_FRAME \<notin> fst ` set outs \<and> vp8_waiting s'"
    if "vp8_waiting s" for s
    using that assms
  proof (induction ps arbitrary: s)
    case (Cons p ps)
    obtain b a where p: "p = (b, a)" by force
    obtain st s1 f where "vp8_parse (Some b) a s = Inr (st, s1, f)" "st \<noteq> DEPACKETIZER_FRAME" "vp8_waiting s1"
      using vp8_parse_waiting [OF Cons.prems(1), of b a] Cons.prems(2) p by auto
    then show ?case using Cons.IH [of s1] Cons.prems(2) p by fastforce
  qed simp
  have "vp8_waiting (vp8_new (Some m))" by (simp add: vp8_waiting_def) (simp add: vp8_new_def)
  from gen [OF this] show ?thesis by (auto simp: vp8_waiting_def)
qed

theorem vp8_waits_for_key_frame_witness:
  "\<exists>outs s'. feed vp8_parse [([0x10, 1, 2], \<lparr> pa_marker = True, pa_pts = 0, pa_payload_type = 97, pa_frame = True \<rparr>)]
       (vp8_new (Some (\<lambda>_. 0))) = Inr (outs, s')
    \<and> DEPACKETIZER_FRAME \<notin> fst ` set outs \<and> v8_key_required s'"
  by (rule vp8_waits_for_key_frame)
    (simp add: vp8_starts_key_def vp8_descriptor_def Let_def vp8_key_start_def)

text \<open>
  \<open>set_sync_point\<close> forgets the bytes but not the type of the frame under way: when a key frame
  was the last to begin, a continuation packet with the marker bit comes out right behind the reset
  as a frame of its own, flagged as a sync point, though no key frame follows the reset.
\<close>

lemma vp8_stale_key_frame:
  assumes "vp8_wf s" "v8_frame_type s = kVideoFrameKey" "vp8_packet_ok (d, c)" "\<not> vp8_first d"
    and "length c \<le> MAX_ES_FRAME_SIZE" "pa_marker a" "pa_frame a"
  shows "\<exists>s' f. vp8_parse (Some (vp8_wire (d, c))) a (vp8_set_sync_point s) = Inr (DEPACKETIZER_FRAME, s', Some f)
    \<and> df_data f = c \<and> df_flags f = FRAME_IS_SYNC_POINT"
proof -
  let ?s = "vp8_set_sync_point s"
  have wf: "vp8_wf ?s" using assms(1) by simp
  have len: "v8_frame_len ?s + length (snd (d, c)) \<le> MAX_ES_FRAME_SIZE"
    using assms(5) by (simp add: vp8_set_sync_point_def)
  have d: "vp8_data ?s = []" by (simp add: vp8_data_def vp8_set_sync_point_def split: option.split)
  obtain s2 where "vp8_parse (Some (vp8_wire (d, c))) a ?s = Inr (vp8_finish_frame a s2)"
    "vp8_wf s2" "vp8_data s2 = c" "v8_frame_type s2 = kVideoFrameKey"
    using vp8_parse_packet [OF wf assms(3) len, of a] assms(2,4,6) d
    by (auto simp: vp8_type_after_def vp8_set_sync_point_def)
  then show ?thesis
    using assms(7) by (auto simp: vp8_finish_frame_def vp8_data_def vp8_wf_def)
qed

lemma vp8_stale_key_frame_witness:
  "let d = \<lparr> ds_n = False, ds_s = False, ds_part = 0, ds_pid = None, ds_tl0 = None, ds_tid = None, ds_key = None \<rparr>;
       s = (vp8_new (Some (\<lambda>_. 0)))\<lparr> v8_frame_type := kVideoFrameKey, v8_key_required := False \<rparr>;
       a = \<lparr> pa_marker = True, pa_pts = 0, pa_payload_type = 97, pa_frame = True \<rparr>
   in \<exists>s' f. vp8_parse (Some (vp8_wire (d, [1, 2]))) a (vp8_set_sync_point s) = Inr (DEPACKETIZER_FRAME, s', Some f)
        \<and> df_data f = [1, 2] \<and> df_flags f = FRAME_IS_SYNC_POINT"
  unfolding Let_def
  by (rule vp8_stale_key_frame)
    (simp_all add: vp8_new_def vp8_wf_def vp8_packet_ok_def vp8_first_def MAX_ES_FRAME_SIZE_def)

end
