(* ===== verification/Depacketizer.thy ===== *)
theory Depacketizer
  imports Depack_H264 Depack_Vp8
begin

text \<open>
  The interface \<open>Depacketizers/RtpDepacketizer.h\<close> and the factory \<open>RtpDepacketizer.cc\<close>: a depacketizer
  is one of the two classes, and a video stream calls it through \<open>parse\<close> and \<open>set_sync_point\<close>. The
  locale states what the stream relies on; it is interpreted on both classes and on their union.
\<close>

section \<open>The factory\<close>

datatype depacketizer = Depack_H264 h264 | Depack_Vp8 vp8

text \<open>\<open>nalu\<close> and \<open>frame\<close> are the buffers the constructors get, null when their allocation fails.\<close>

definition create_depacketizer ::
    "bool \<Rightarrow> byte block option \<Rightarrow> byte block option \<Rightarrow> rtp_media_type \<Rightarrow> depacketizer option" where
  "create_depacketizer new_ok nalu frame media =
     (if media = RTP_MEDIA_VIDEO_AVC then if new_ok then Some (Depack_H264 (h264_new nalu frame)) else None
      else if media = RTP_MEDIA_VIDEO_VP8 then if new_ok then Some (Depack_Vp8 (vp8_new frame)) else None
      else None)"

fun depack_parse :: "depacketizer parser" where
  "depack_parse p a (Depack_H264 s) = res_bind (h264_parse p a s) (\<lambda>(st, s, f). Inr (st, Depack_H264 s, f))"
| "depack_parse p a (Depack_Vp8 s) = res_bind (vp8_parse p a s) (\<lambda>(st, s, f). Inr (st, Depack_Vp8 s, f))"

fun depack_set_sync_point :: "depacketizer \<Rightarrow> depacketizer" where
  "depack_set_sync_point (Depack_H264 s) = Depack_H264 (h264_set_sync_point s)"
| "depack_set_sync_point (Depack_Vp8 s) = Depack_Vp8 (vp8_set_sync_point s)"

section \<open>The interface\<close>

text \<open>
  \<open>wf\<close> are the states a parser keeps, \<open>safe s p\<close> says that the packet \<open>p\<close> does not make it leave its
  buffers; a frame that is announced is there, fits the limit of an elementary stream frame and carries
  the timestamp and payload type of the packet.
\<close>

definition frame_given :: "parse_args \<Rightarrow> depack_status \<Rightarrow> depack_frame option \<Rightarrow> bool" where
  "frame_given a st f \<longleftrightarrow>
     (st = DEPACKETIZER_FRAME \<and> pa_frame a \<longrightarrow>
        (\<exists>fr. f = Some fr \<and> length (df_data fr) \<le> MAX_ES_FRAME_SIZE \<and> df_pts fr = pa_pts a
           \<and> df_payload_type fr = pa_payload_type a))"

locale packet_parser =
  fixes parse :: "'s parser"
    and reset :: "'s \<Rightarrow> 's"
    and wf :: "'s \<Rightarrow> bool"
    and safe :: "'s \<Rightarrow> byte list \<Rightarrow> bool"
  assumes reset_wf: "wf s \<Longrightarrow> wf (reset s)"
    and parse_wf: "wf s \<Longrightarrow> safe s p \<Longrightarrow> \<exists>st s' f. parse (Some p) a s = Inr (st, s', f) \<and> wf s'"
    and parse_gives: "wf s \<Longrightarrow> parse (Some p) a s = Inr (st, s', f) \<Longrightarrow> frame_given a st f"
    and safe_later: "wf s \<Longrightarrow> parse (Some p) a s = Inr (st, s', f) \<Longrightarrow> safe s' q = safe s q"
begin

lemma parse_step:
  assumes "wf s" "safe s p"
  obtains st s' f where "parse (Some p) a s = Inr (st, s', f)" "wf s'" "frame_given a st f" "\<And>q. safe s' q = safe s q"
  using parse_wf [OF assms, of a] parse_gives [OF assms(1)] safe_later [OF assms(1)] by metis

lemma feed_wf:
  assumes "wf s" "\<forall>(p, a)\<in>set ps. safe s p"
  shows "\<exists>outs s'. feed parse ps s = Inr (outs, s') \<and> wf s' \<and> length outs = length ps
    \<and> (\<forall>((p, a), st, f)\<in>set (zip ps outs). frame_given a st f)"
  using assms
proof (induction ps arbitrary: s)
  case (Cons q ps)
  obtain p a where q: "q = (p, a)" by force
  have "safe s p" using Cons.prems(2) by (simp add: q)
  then obtain st s1 f where s1: "parse (Some p) a s = Inr (st, s1, f)" "wf s1" "frame_given a st f"
    "\<And>q. safe s1 q = safe s q"
    using parse_step [OF Cons.prems(1)] by blast
  moreover have "\<forall>(p, a)\<in>set ps. safe s1 p" using Cons.prems(2) s1(4) by auto
  ultimately obtain outs s' where "feed parse ps s1 = Inr (outs, s')" "wf s'" "length outs = length ps"
    "\<forall>((p, a), st, f)\<in>set (zip ps outs). frame_given a st f"
    using Cons.IH [of s1] by blast
  then show ?case using s1 by (auto simp: q)
qed simp

end

section \<open>The H.264 depacketizer\<close>

definition h264_gives :: "parse_args \<Rightarrow> h264_out h264_ctl \<Rightarrow> bool" where
  "h264_gives a m = (case m of Inr (Next (st, s, f)) \<Rightarrow> frame_given a st f | _ \<Rightarrow> True)"

lemma h264_gives_simps [simp]:
  "h264_gives a (Inl e)" "h264_gives a (Inr (Goto_Fail s))"
  "h264_gives a (Inr (Next (st, s, f))) = frame_given a st f"
  by (simp_all add: h264_gives_def)

lemma h264_gives_bind:
  "h264_ctl_ok st m \<Longrightarrow> (\<And>x. m = Inr (Next x) \<Longrightarrow> h264_wf (st x) \<Longrightarrow> h264_gives a (f x)) \<Longrightarrow> h264_gives a (ctl_bind m f)"
  by (auto simp: h264_ctl_ok_def ctl_bind_def split: sum.splits ctl.splits)

lemma frame_given_other [simp]:
  "frame_given a DEPACKETIZER_NEED_MORE f" "frame_given a DEPACKETIZER_ERROR f"
  by (simp_all add: frame_given_def)

lemma h264_dec_nalu_gives: 
  assumes "h264_wf s"
  shows "h264_gives a (h264_dec_nalu final a s)"
proof -
  from assms obtain nal fm where b: "h_nalu s = Some nal" "h_frame s = Some fm" by (auto simp: h264_wf_def)
  let ?t = "nal STARTCODE_LENGTH AND 0x1f"
  obtain pass s1 where g: "h264_gate ?t s = (pass, s1)" by force
  show ?thesis
  proof (cases "h_nalu_len s = 0")
    case True
    then show ?thesis using b by (simp add: h264_dec_nalu_def h264_decode_nalu_def)
  next
    case False
    then have n: "0 < h_nalu_len s" by simp
    have "h_frame_len s \<le> MAX_ES_FRAME_SIZE" using assms by (simp add: h264_wf_def)
    then show ?thesis
      using b h264_gate_frame [OF g] unfolding h264_dec_nalu_def b(1)
      by (auto simp: h264_decode_nalu_eq [OF assms b(2) n g] Let_def h264_emit_def frame_given_def)
  qed
qed

lemma h264_single_gives: "h264_wf s \<Longrightarrow> h264_gives a (h264_single p a s)"
  unfolding h264_single_def
  by (auto intro!: h264_gives_bind [OF h264_add_startcode_ok] h264_gives_bind [OF h264_add_buffer_ok]
      h264_dec_nalu_gives)

lemma h264_fua_gives: "h264_wf s \<Longrightarrow> h264_gives a (h264_fua b p a s)"
  unfolding h264_fua_def
  by (auto simp: Let_def split: list.split intro!: h264_gives_bind [OF h264_start_nalu_ok]
      h264_gives_bind [OF h264_add_buffer_ok] h264_dec_nalu_gives)

lemma h264_stapa_gives: "h264_wf s \<Longrightarrow> h264_gives a (h264_stapa p a s)"
proof (induction p a s rule: h264_stapa.induct)
  case (1 hi lo packet a s)
  let ?len = "unat (be16 hi lo)"
  show ?case
  proof (cases "?len \<le> length packet")
    case True
    have IH: "h264_gives a (h264_stapa (drop ?len packet) a s')"
      if "drop ?len packet \<noteq> []" "h264_wf s'" for s'
      using "1.IH" [OF refl _ refl that(1) _] True that by (auto simp: not_less)
    have dec: "h264_gives a (ctl_bind (h264_dec_nalu l a s2) (\<lambda>(status, s, frame).
          if drop ?len packet = [] then Inr (Next (status, s, frame)) else h264_stapa (drop ?len packet) a s))"
      if "h264_wf s2" for l s2
    proof (cases "drop ?len packet = []")
      case True
      have "ctl_bind m (\<lambda>(status, s, frame). Inr (Next (status, s, frame))) = m" for m :: "h264_out h264_ctl"
        by (cases m) (auto simp: ctl_bind_def split: ctl.split)
      then show ?thesis using True h264_dec_nalu_gives [OF that] by simp
    next
      case False
      then show ?thesis using that IH by (auto intro!: h264_gives_bind [OF h264_dec_nalu_ok])
    qed
    show ?thesis
      using True "1.prems" dec
      by (auto simp: Let_def not_less simp del: drop_eq_Nil intro!: h264_gives_bind [OF h264_add_startcode_ok]
          h264_gives_bind [OF h264_add_buffer_ok])
  qed (use "1.prems" in \<open>simp add: Let_def\<close>)
qed auto

lemma h264_finish_gives: "h264_gives a m \<Longrightarrow> h264_finish m = Inr (st, s', f) \<Longrightarrow> frame_given a st f"
  by (auto simp: h264_finish_def h264_gives_def split: sum.splits ctl.splits)

lemma h264_parse_gives:
  assumes "h264_wf s" "h264_parse (Some p) a s = Inr (st, s', f)"
  shows "frame_given a st f"
proof (cases p)
  case (Cons p0 rest)
  have wf: "h264_wf (s\<lparr> h_packets := h_packets s + 1 \<rparr>)" using assms(1) by simp
  show ?thesis
    using assms(2) h264_finish_gives [OF h264_single_gives [OF wf]] h264_finish_gives [OF h264_fua_gives [OF wf]]
      h264_finish_gives [OF h264_stapa_gives [OF wf]]
    by (auto simp: h264_parse_def Cons Let_def h264_finish_def [of "Inr (Goto_Fail _)"] split: if_splits)
qed (use assms in \<open>auto simp: h264_parse_def\<close>)

interpretation h264: packet_parser h264_parse h264_set_sync_point h264_wf "\<lambda>_. packet_closed"
proof unfold_locales
  fix s p a
  assume "h264_wf s" "packet_closed p"
  then show "\<exists>st s' f. h264_parse (Some p) a s = Inr (st, s', f) \<and> h264_wf s'" using h264_parse_wf [of s "Some p" a] by simp
qed (auto intro: h264_parse_gives)

section \<open>The VP8 depacketizer\<close>

lemma vp8_parse_gives:
  assumes "vp8_wf s" "vp8_parse (Some p) a s = Inr (st, s', f)"
  shows "frame_given a st f"
proof (cases "p = []")
  case True
  then show ?thesis using assms by (auto simp: vp8_parse_def)
next
  case False
  obtain r where r: "vp8_descriptor p = Inr r" "\<And>h pos n. r = Some (h, pos, n) \<Longrightarrow> pos + n = length p \<and> 0 < n"
    using vp8_descriptor_ok [OF False] by blast
  show ?thesis
  proof (cases r)
    case None
    then show ?thesis using False r assms by (auto simp: vp8_parse_def)
  next
    case (Some x)
    obtain h pos n where x: "x = (h, pos, n)" by (cases x)
    let ?s = "s\<lparr> v8_packets := v8_packets s + 1 \<rparr>"
    obtain m where m: "v8_frame ?s = Some m" "v8_frame_len ?s \<le> MAX_ES_FRAME_SIZE"
      using assms by (auto simp: vp8_wf_def)
    have q: "pos + n = length p" "0 < n" using r(2) Some x by auto
    have "vp8_payload p h pos n a ?s = Inr (st, s', f)" using False r Some x assms(2) by (simp add: vp8_parse_def)
    then show ?thesis
      unfolding vp8_payload_eq [OF q m] Let_def
      by (auto simp: vp8_finish_frame_def frame_given_def split: if_splits)
  qed
qed

interpretation vp8: packet_parser vp8_parse vp8_set_sync_point vp8_wf "\<lambda>_ _. True"
proof unfold_locales
  fix s :: vp8 and p a
  assume "vp8_wf s"
  then show "\<exists>st s' f. vp8_parse (Some p) a s = Inr (st, s', f) \<and> vp8_wf s'" by (rule vp8_parse_wf)
qed (auto intro: vp8_parse_gives)

section \<open>Either class\<close>

fun depack_wf :: "depacketizer \<Rightarrow> bool" where
  "depack_wf (Depack_H264 s) = h264_wf s"
| "depack_wf (Depack_Vp8 s) = vp8_wf s"

fun depack_safe :: "depacketizer \<Rightarrow> byte list \<Rightarrow> bool" where
  "depack_safe (Depack_H264 s) p = packet_closed p"
| "depack_safe (Depack_Vp8 s) p = True"

interpretation depack: packet_parser depack_parse depack_set_sync_point depack_wf depack_safe
proof unfold_locales
  fix d p a
  assume d: "depack_wf d" "depack_safe d p"
  show "\<exists>st s' f. depack_parse (Some p) a d = Inr (st, s', f) \<and> depack_wf s'"
  proof (cases d)
    case (Depack_H264 s)
    then show ?thesis using h264.parse_wf [of s p a] d by auto
  next
    case (Depack_Vp8 s)
    then show ?thesis using vp8.parse_wf [of s p a] d by auto
  qed
next
  fix d p a st d' f q
  assume d: "depack_wf d" "depack_parse (Some p) a d = Inr (st, d', f)"
  show "frame_given a st f"
    using d h264_parse_gives vp8_parse_gives by (cases d) (auto simp: res_bind_Inr_iff)
  show "depack_safe d' q = depack_safe d q" using d by (cases d) (auto simp: res_bind_Inr_iff)
next
  fix d
  assume "depack_wf d"
  then show "depack_wf (depack_set_sync_point d)" by (cases d) auto
qed

lemma create_depacketizer_wf:
  "create_depacketizer new_ok (Some n) (Some m) media = Some d \<Longrightarrow> depack_wf d"
  by (auto simp: create_depacketizer_def split: if_splits)

text \<open>Feeding the union is feeding the class.\<close>

lemma feed_depack:
  "feed depack_parse ps (Depack_H264 s) = res_bind (feed h264_parse ps s) (\<lambda>(outs, s). Inr (outs, Depack_H264 s))"
  "feed depack_parse ps (Depack_Vp8 v) = res_bind (feed vp8_parse ps v) (\<lambda>(outs, v). Inr (outs, Depack_Vp8 v))"
proof (induction ps arbitrary: s v)
  case (Cons q ps)
  obtain p a where q: "q = (p, a)" by force
  {
    case 1
    show ?case
    proof (cases "h264_parse (Some p) a s")
      case (Inr r)
      obtain st s' f where r: "r = (st, s', f)" by (cases r)
      show ?thesis by (cases "feed h264_parse ps s'") (auto simp: q Inr r Cons.IH)
    qed (simp add: q)
  next
    case 2
    show ?case
    proof (cases "vp8_parse (Some p) a v")
      case (Inr r)
      obtain st v' f where r: "r = (st, v', f)" by (cases r)
      show ?thesis by (cases "feed vp8_parse ps v'") (auto simp: q Inr r Cons.IH)
    qed (simp add: q)
  }
qed simp_all

text \<open>
  C38: the contract a video stream relies on: a depacketizer made by the factory, whose buffers could be
  allocated, takes any list of packets (aggregation packets and fragments complete, for H.264) without
  leaving its buffers, and whenever it announces a frame to a caller that passes one to fill, the frame is
  there, is no longer than the limit of an elementary stream frame, and carries the timestamp and payload
  type of the packet that completed it; a reset keeps the contract.
\<close>

theorem depacketizer_contract:
  assumes "create_depacketizer True (Some n) (Some m) media = Some d" "\<forall>(p, a)\<in>set ps. depack_safe d p"
  shows "\<exists>outs d'. feed depack_parse ps d = Inr (outs, d') \<and> depack_wf d' \<and> depack_wf (depack_set_sync_point d')
    \<and> length outs = length ps
    \<and> (\<forall>((p, a), st, f)\<in>set (zip ps outs). st = DEPACKETIZER_FRAME \<and> pa_frame a \<longrightarrow>
         (\<exists>fr. f = Some fr \<and> length (df_data fr) \<le> MAX_ES_FRAME_SIZE \<and> df_pts fr = pa_pts a
            \<and> df_payload_type fr = pa_payload_type a))"
proof -
  have "depack_wf d" using create_depacketizer_wf [OF assms(1)] .
  from depack.feed_wf [OF this assms(2)] show ?thesis
    using depack.reset_wf unfolding frame_given_def by blast
qed

theorem depacketizer_contract_witness:
  "\<exists>outs d'. feed depack_parse [([0x90, 0x80, 0xF0], \<lparr> pa_marker = True, pa_pts = 5, pa_payload_type = 97, pa_frame = True \<rparr>)]
      (Depack_Vp8 (vp8_new (Some (\<lambda>_. 0)))) = Inr (outs, d') \<and> depack_wf d' \<and> length outs = 1"
proof -
  have c: "create_depacketizer True (Some (\<lambda>_. 0)) (Some (\<lambda>_. 0)) RTP_MEDIA_VIDEO_VP8 = Some (Depack_Vp8 (vp8_new (Some (\<lambda>_. 0))))"
    by (simp add: create_depacketizer_def)
  show ?thesis
    using depacketizer_contract [OF c, of "[([0x90, 0x80, 0xF0], \<lparr> pa_marker = True, pa_pts = 5, pa_payload_type = 97, pa_frame = True \<rparr>)]"]
    by auto
qed

end
