(* ===== verification/Rtp_Stream.thy ===== *)
theory Rtp_Stream
  imports Rtp_Packet Depacketizer
begin

text \<open>
  From the socket to the decoder's queue: \<open>Networks/Session\<close>, \<open>UdpSession\<close> and \<open>UdpServer\<close>,
  \<open>Rtp/RtpClient\<close>, and \<open>Streams/RtpStream\<close> with \<open>VideoStream\<close> and \<open>AudioStream\<close>. A completed
  asynchronous receive is an event with an error code and the bytes of the datagram; the statistics, the
  command task and the allocator are parameters that work on a state of their own. What a step hands to
  the command task is its output. The lemmas show which frames the datagrams of a sender become, and when
  a client goes deaf.
\<close>

section \<open>State\<close>

record udp_session =
  us_buffer_size :: nat
  us_reads :: nat
  us_read_handler :: bool
  us_complete_handler :: bool

definition udp_session_new :: udp_session where
  "udp_session_new = \<lparr> us_buffer_size = 0, us_reads = 0, us_read_handler = False, us_complete_handler = False \<rparr>"

definition udp_read :: "udp_session \<Rightarrow> udp_session" where
  "udp_read us = us\<lparr> us_buffer_size := 64 * 1024, us_reads := us_reads us + 1 \<rparr>"

record rtp_client =
  rc_exit :: bool
  rc_observer :: bool
  rc_session :: "udp_session option"
  rc_server :: bool
  rc_service :: bool

definition rtp_client_new :: rtp_client where
  "rtp_client_new =
     \<lparr> rc_exit = False, rc_observer = False, rc_session = None, rc_server = False, rc_service = False \<rparr>"

record media_frame =
  mf_type :: rtp_media_type
  mf_data :: "byte list"
  mf_pts :: "32 word"
  mf_payload_type :: int
  mf_flags :: "32 word"
  mf_packets :: int

datatype stream_kind = Audio_Stream | Video_Stream "depacketizer option"

text \<open>\<open>rs_task\<close> says whether the command task runs; \<open>rs_world\<close> is the state of the parameters.\<close>

record 'x rtp_stream =
  rs_kind :: stream_kind
  rs_media :: rtp_media_type
  rs_payload_type :: int
  rs_client :: "rtp_client option"
  rs_task :: bool
  rs_world :: 'x

definition rtp_stream_new :: "stream_kind \<Rightarrow> 'x \<Rightarrow> 'x rtp_stream" where
  "rtp_stream_new k w =
     \<lparr> rs_kind = k, rs_media = RTP_MEDIA_INVALID, rs_payload_type = 0, rs_client = None, rs_task = False,
       rs_world = w \<rparr>"

text \<open>
  The parameters: the two allocations of an \<open>RtpPacket\<close> and what its block holds; the allocations of a
  \<open>MediaFrame\<close> and its data; the creation of a command, and its acceptance by the task; the statistics.
\<close>

record 'x stream_env =
  se_new_packet :: "'x \<Rightarrow> (bool \<times> bool \<times> byte block) \<times> 'x"
  se_new_frame :: "nat \<Rightarrow> 'x \<Rightarrow> (bool \<times> bool) \<times> 'x"
  se_new_command :: "'x \<Rightarrow> bool \<times> 'x"
  se_put :: "media_frame \<Rightarrow> 'x \<Rightarrow> bool \<times> 'x"
  se_loss_count :: "'x \<Rightarrow> int"
  se_loss_push :: "16 word \<Rightarrow> 'x \<Rightarrow> 'x"
  se_framerate_push :: "'x \<Rightarrow> 'x"
  se_bitrate_push :: "int \<Rightarrow> 'x \<Rightarrow> 'x"

text \<open>A step yields the frames handed to the task, in order, and the state.\<close>

type_synonym 'x stream_out = "(media_frame list \<times> 'x rtp_stream) res"

section \<open>The streams\<close>

text \<open>The copy of the frame; the first allocation is not checked.\<close>

definition send_frame :: "'x stream_env \<Rightarrow> depack_frame \<Rightarrow> 'x rtp_stream \<Rightarrow> 'x stream_out" where
  "send_frame env f s =
     (let ((frame_ok, data_ok), w) = se_new_frame env (length (df_data f)) (rs_world s) in
      if \<not> frame_ok then Inl Null_Deref
      else if \<not> data_ok \<and> df_data f \<noteq> [] then Inl Null_Deref
      else
        let mf = \<lparr> mf_type = rs_media s, mf_data = df_data f, mf_pts = df_pts f,
                   mf_payload_type = df_payload_type f, mf_flags = df_flags f, mf_packets = df_packets f \<rparr>;
            (command_ok, w) = se_new_command env w
        in if \<not> command_ok then Inr ([], s\<lparr> rs_world := w \<rparr>)
           else let (put_ok, w) = se_put env mf w in
             Inr (if put_ok then [mf] else [], s\<lparr> rs_world := w \<rparr>))"

definition audio_stream_on_packet :: "'x stream_env \<Rightarrow> rtp_packet \<Rightarrow> bool \<Rightarrow> 'x rtp_stream \<Rightarrow> 'x stream_out" where
  "audio_stream_on_packet env pk discontinuous s =
     send_frame env \<lparr> df_data = payload pk, df_pts = timestamp pk, df_payload_type = rs_payload_type s,
                      df_flags = 0, df_packets = 1 \<rparr> s"

definition packet_args :: "rtp_packet \<Rightarrow> parse_args" where
  "packet_args pk =
     \<lparr> pa_marker = marker pk, pa_pts = timestamp pk, pa_payload_type = uint (payload_type pk), pa_frame = True \<rparr>"

definition video_stream_on_packet :: "'x stream_env \<Rightarrow> rtp_packet \<Rightarrow> bool \<Rightarrow> 'x rtp_stream \<Rightarrow> 'x stream_out" where
  "video_stream_on_packet env pk discontinuous s =
     (case rs_kind s of
        Video_Stream (Some d) \<Rightarrow>
          res_bind (depack_parse (Some (payload pk)) (packet_args pk) d) (\<lambda>(status, d, frame).
            let s = s\<lparr> rs_kind := Video_Stream (Some d) \<rparr> in
            if status = DEPACKETIZER_FRAME then
              (case frame of None \<Rightarrow> Inl Uninit_Read | Some f \<Rightarrow> send_frame env f s)
            else Inr ([], s))
      | _ \<Rightarrow> Inr ([], s))"

definition stream_on_packet :: "'x stream_env \<Rightarrow> rtp_packet \<Rightarrow> 'x rtp_stream \<Rightarrow> 'x stream_out" where
  "stream_on_packet env pk s =
     (let prev_losses = se_loss_count env (rs_world s) in
      if uint (payload_type pk) \<noteq> rs_payload_type s then Inr ([], s)
      else
        let w = (if ISVIDEO (rs_media s) \<and> marker pk then se_framerate_push env (rs_world s) else rs_world s);
            w = se_loss_push env (sequence pk) (se_bitrate_push env (uint (payload_size pk) * 8) w);
            discontinuous = (se_loss_count env w \<noteq> prev_losses);
            s = s\<lparr> rs_world := w \<rparr>
        in (case rs_kind s of
              Audio_Stream \<Rightarrow> audio_stream_on_packet env pk discontinuous s
            | Video_Stream _ \<Rightarrow> video_stream_on_packet env pk discontinuous s))"

text \<open>The task thread: the observer gets the frame, then it is deleted.\<close>

definition on_send_frame :: "(media_frame \<Rightarrow> 'o \<Rightarrow> 'o res) option \<Rightarrow> media_frame option \<Rightarrow> 'o \<Rightarrow> 'o res" where
  "on_send_frame observer frame obs =
     (case frame of None \<Rightarrow> Inr obs
      | Some mf \<Rightarrow> (case observer of None \<Rightarrow> Inr obs | Some on_media_frame \<Rightarrow> on_media_frame mf obs))"

section \<open>The client\<close>

definition client_read :: "'x rtp_stream \<Rightarrow> 'x rtp_stream" where
  "client_read s =
     (case rs_client s of
        None \<Rightarrow> s
      | Some c \<Rightarrow>
          (case rc_session c of
             Some us \<Rightarrow> if rc_exit c then s else s\<lparr> rs_client := Some (c\<lparr> rc_session := Some (udp_read us) \<rparr>) \<rparr>
           | None \<Rightarrow> s))"

text \<open>\<open>data\<close> is the buffer of \<open>Session::on_read\<close>, \<open>n\<close> the bytes received.\<close>

definition client_on_network_read :: "'x stream_env \<Rightarrow> byte list \<Rightarrow> nat \<Rightarrow> 'x rtp_stream \<Rightarrow> 'x stream_out" where
  "client_on_network_read env data n s =
     (case rs_client s of
        None \<Rightarrow> Inl Null_Deref
      | Some c \<Rightarrow>
          if \<not> rc_observer c then Inr ([], s)
          else res_bind (rtp_parse (Some data) (of_nat n)) (\<lambda>r.
            if \<not> pr_ok r then Inr ([], s)
            else case pr_hdr r of
              None \<Rightarrow> Inl Uninit_Read
            | Some h \<Rightarrow>
                let ((new_ok, alloc_ok, junk), w) = se_new_packet env (rs_world s); s = s\<lparr> rs_world := w \<rparr> in
                res_bind (rtp_create_instance new_ok alloc_ok junk h
                            (map_option (\<lambda>p. drop p data) (pr_payload r)) (pr_size r)) (\<lambda>packet.
                case packet of
                  None \<Rightarrow> Inr ([], client_read s)
                | Some pk \<Rightarrow> res_bind (stream_on_packet env pk s) (\<lambda>(fs, s). Inr (fs, client_read s)))))"

datatype asio_error = No_Error | Eof | Other_Error

text \<open>
  A receive completes: the read handler gets the bytes behind which a zero is put; a missing
  completion handler is an empty \<open>std::function\<close>, whose call throws. The client connects no error
  handler to its session.
\<close>

definition session_on_read :: "'x stream_env \<Rightarrow> asio_error \<Rightarrow> byte list \<Rightarrow> 'x rtp_stream \<Rightarrow> 'x stream_out" where
  "session_on_read env err bytes s =
     (case rs_client s of None \<Rightarrow> Inl Use_After_Free
      | Some c \<Rightarrow> (case rc_session c of None \<Rightarrow> Inl Use_After_Free
        | Some us \<Rightarrow>
            res_bind
              (if bytes \<noteq> [] \<and> us_read_handler us then client_on_network_read env (bytes @ [0]) (length bytes) s
               else Inr ([], s)) (\<lambda>(fs, s').
            if err = Eof \<and> \<not> us_complete_handler us then Inl Uncaught_Exception else Inr (fs, s'))))"

text \<open>A datagram arrives: it is taken if a receive is pending, and otherwise stays in the socket.\<close>

definition datagram :: "'x stream_env \<Rightarrow> asio_error \<Rightarrow> byte list \<Rightarrow> 'x rtp_stream \<Rightarrow> 'x stream_out" where
  "datagram env err bytes s =
     (case rs_client s of
        None \<Rightarrow> Inr ([], s)
      | Some c \<Rightarrow>
          (case rc_session c of
             None \<Rightarrow> Inr ([], s)
           | Some us \<Rightarrow>
               if us_reads us = 0 then Inr ([], s)
               else session_on_read env err bytes
                      (s\<lparr> rs_client := Some (c\<lparr> rc_session := Some (us\<lparr> us_reads := us_reads us - 1 \<rparr>) \<rparr>) \<rparr>)))"

fun datagrams :: "'x stream_env \<Rightarrow> byte list list \<Rightarrow> 'x rtp_stream \<Rightarrow> 'x stream_out" where
  "datagrams env [] s = Inr ([], s)"
| "datagrams env (b # bs) s =
     res_bind (datagram env No_Error b s) (\<lambda>(fs, s).
       res_bind (datagrams env bs s) (\<lambda>(gs, s). Inr (fs @ gs, s)))"

section \<open>Setting up and tearing down\<close>

definition on_network_accept :: "udp_session \<Rightarrow> 'x rtp_stream \<Rightarrow> 'x rtp_stream" where
  "on_network_accept us s =
     (case rs_client s of
        None \<Rightarrow> s
      | Some c \<Rightarrow>
          client_read (s\<lparr> rs_task := (if rc_observer c then True else rs_task s),
                          rs_client := Some (c\<lparr> rc_session := Some (us\<lparr> us_read_handler := True \<rparr>) \<rparr>) \<rparr>))"

text \<open>\<open>UdpServer::accept\<close>: an error of the socket is reported to the error handler, which logs it.\<close>

definition server_accept :: "bool \<Rightarrow> bool \<Rightarrow> 'x rtp_stream \<Rightarrow> 'x rtp_stream" where
  "server_accept open_ok bind_ok s =
     (if \<not> open_ok then s else if \<not> bind_ok then s else on_network_accept udp_session_new s)"

definition client_build :: "bool \<Rightarrow> bool \<Rightarrow> bool \<Rightarrow> 'x rtp_stream \<Rightarrow> bool \<times> 'x rtp_stream" where
  "client_build server_ok open_ok bind_ok s =
     (case rs_client s of
        None \<Rightarrow> (False, s)
      | Some c \<Rightarrow>
          if \<not> server_ok then (False, s\<lparr> rs_client := Some (c\<lparr> rc_service := True \<rparr>) \<rparr>)
          else
            (True, server_accept open_ok bind_ok
                     (s\<lparr> rs_client := Some (c\<lparr> rc_service := True, rc_server := True, rc_observer := True \<rparr>) \<rparr>)))"

text \<open>The destructor of the client.\<close>

definition client_tear :: "'x rtp_stream \<Rightarrow> 'x rtp_stream res" where
  "client_tear s =
     (case rs_client s of
        None \<Rightarrow> Inr s
      | Some c \<Rightarrow>
          if \<not> rc_service c then Inl Null_Deref
          else Inr (s\<lparr> rs_task := (if rc_observer c then False else rs_task s),
                       rs_client := Some (c\<lparr> rc_exit := True, rc_server := False, rc_session := None,
                                             rc_service := False \<rparr>) \<rparr>))"

definition delete_client :: "'x rtp_stream \<Rightarrow> 'x rtp_stream res" where
  "delete_client s = res_bind (client_tear s) (\<lambda>s. Inr (s\<lparr> rs_client := None \<rparr>))"

definition set_media ::
    "bool \<Rightarrow> bool \<Rightarrow> bool \<Rightarrow> bool \<Rightarrow> rtp_media_type \<Rightarrow> int \<Rightarrow> 'x rtp_stream \<Rightarrow> (bool \<times> 'x rtp_stream) res" where
  "set_media new_ok server_ok open_ok bind_ok media pt s =
     (if \<not> new_ok then Inr (False, s\<lparr> rs_client := None \<rparr>)
      else
        let (ok, s) = client_build server_ok open_ok bind_ok (s\<lparr> rs_client := Some rtp_client_new \<rparr>) in
        if \<not> ok then res_bind (delete_client s) (\<lambda>s. Inr (False, s))
        else Inr (True, s\<lparr> rs_media := media, rs_payload_type := pt \<rparr>))"

definition set_audio_media ::
    "bool \<Rightarrow> bool \<Rightarrow> bool \<Rightarrow> bool \<Rightarrow> rtp_media_type \<Rightarrow> int \<Rightarrow> 'x rtp_stream \<Rightarrow> (bool \<times> 'x rtp_stream) res" where
  "set_audio_media = set_media"

definition set_video_media ::
    "bool \<Rightarrow> byte block option \<Rightarrow> byte block option \<Rightarrow> bool \<Rightarrow> bool \<Rightarrow> bool \<Rightarrow> bool \<Rightarrow> rtp_media_type \<Rightarrow> int \<Rightarrow> 'x rtp_stream
     \<Rightarrow> (bool \<times> 'x rtp_stream) res" where
  "set_video_media depack_ok nalu frame new_ok server_ok open_ok bind_ok media pt s =
     (let depack = create_depacketizer depack_ok nalu frame media;
          s = s\<lparr> rs_kind := Video_Stream depack \<rparr>
      in
      if depack = None then Inr (False, s)
      else res_bind (set_media new_ok server_ok open_ok bind_ok media pt s) (\<lambda>(ok, s).
        if \<not> ok then Inr (False, s\<lparr> rs_kind := Video_Stream None \<rparr>) else Inr (True, s)))"

definition rtp_stream_destroy :: "'x rtp_stream \<Rightarrow> 'x rtp_stream res" where
  "rtp_stream_destroy s = delete_client s"

section \<open>Datagrams of a sender\<close>

record dgram =
  dg_hdr :: rtp_header
  dg_csrcs :: "byte list"
  dg_ext :: "(16 word \<times> byte list) option"
  dg_body :: "byte list"
  dg_pad :: "byte option"

definition dg_wire :: "dgram \<Rightarrow> byte list" where
  "dg_wire g = wire_build (dg_hdr g) (dg_csrcs g) (dg_ext g) (dg_body g) (dg_pad g)"

definition dg_ok :: "dgram \<Rightarrow> bool" where
  "dg_ok g \<longleftrightarrow> wire_fields_ok (dg_hdr g) (dg_csrcs g) (dg_ext g) (dg_pad g) \<and> length (dg_wire g) < 65536
     \<and> dg_body g \<noteq> [] \<and> length (dg_body g) \<le> MAX_PAYLOAD_BYTES"

definition dg_args :: "dgram \<Rightarrow> parse_args" where
  "dg_args g = \<lparr> pa_marker = (hdr_m (dg_hdr g) \<noteq> 0), pa_pts = swap32 (hdr_ts (dg_hdr g)),
     pa_payload_type = uint (ucast (hdr_pt (dg_hdr g)) :: byte), pa_frame = True \<rparr>"

text \<open>An environment in which the allocations succeed and the task accepts the commands.\<close>

definition env_healthy :: "'x stream_env \<Rightarrow> bool" where
  "env_healthy env \<longleftrightarrow>
     (\<forall>w. fst (fst (se_new_packet env w)) \<and> fst (snd (fst (se_new_packet env w)))
        \<and> (\<forall>n. fst (se_new_frame env n w) = (True, True))
        \<and> fst (se_new_command env w) \<and> (\<forall>mf. fst (se_put env mf w)))"

text \<open>A stream that plays: its client has an observer, a session and one receive pending.\<close>

definition client_ready :: "nat \<Rightarrow> rtp_client \<Rightarrow> bool" where
  "client_ready n c \<longleftrightarrow> \<not> rc_exit c \<and> rc_observer c
     \<and> (\<exists>us. rc_session c = Some us \<and> us_reads us = n \<and> us_read_handler us \<and> \<not> us_complete_handler us)"

definition playing :: "'x rtp_stream \<Rightarrow> bool" where
  "playing s \<longleftrightarrow> (\<exists>c. rs_client s = Some c \<and> client_ready 1 c)"

text \<open>The parts of a stream that a packet leaves alone.\<close>

definition same_setup_stream :: "'x rtp_stream \<Rightarrow> 'x rtp_stream \<Rightarrow> bool" where
  "same_setup_stream s s' \<longleftrightarrow> rs_media s' = rs_media s \<and> rs_payload_type s' = rs_payload_type s \<and> rs_task s' = rs_task s"

lemma same_setup_stream_trans: "same_setup_stream s s1 \<Longrightarrow> same_setup_stream s1 s2 \<Longrightarrow> same_setup_stream s s2"
  by (simp add: same_setup_stream_def)

definition media_of :: "rtp_media_type \<Rightarrow> depack_frame \<Rightarrow> media_frame" where
  "media_of m f = \<lparr> mf_type = m, mf_data = df_data f, mf_pts = df_pts f, mf_payload_type = df_payload_type f,
     mf_flags = df_flags f, mf_packets = df_packets f \<rparr>"

lemma send_frame_healthy:
  assumes "env_healthy env"
  shows "\<exists>w. send_frame env f s = Inr ([media_of (rs_media s) f], s\<lparr> rs_world := w \<rparr>)"
proof -
  have ok: "fst (se_new_frame env n w) = (True, True)" "fst (se_new_command env w)" "fst (se_put env mf w)" for n w mf
    using assms by (simp_all add: env_healthy_def)
  obtain w1 where w1: "se_new_frame env (length (df_data f)) (rs_world s) = ((True, True), w1)"
    using ok(1) by (metis surjective_pairing)
  obtain w2 where w2: "se_new_command env w1 = (True, w2)" using ok(2) by (metis surjective_pairing)
  obtain w3 where w3: "se_put env (media_of (rs_media s) f) w2 = (True, w3)" using ok(3) by (metis surjective_pairing)
  show ?thesis using w1 w2 w3 by (intro exI [of _ w3]) (simp add: send_frame_def media_of_def Let_def)
qed

text \<open>A datagram reaches the stream as the packet it carries.\<close>

lemma datagram_packet:
  assumes "playing s" "dg_ok g" "env_healthy env"
  obtains pk s1 where "datagram env No_Error (dg_wire g) s
      = res_bind (stream_on_packet env pk s1) (\<lambda>(fs, s). Inr (fs, client_read s))"
    "payload pk = dg_body g" "packet_args pk = dg_args g"
    "s1 = s\<lparr> rs_client := rs_client s1, rs_world := rs_world s1 \<rparr>"
    "\<exists>c. rs_client s1 = Some c \<and> client_ready 0 c"
proof -
  let ?b = "dg_wire g"
  obtain c us where c: "rs_client s = Some c" "\<not> rc_exit c" "rc_observer c" "rc_session c = Some us" "us_reads us = 1"
    "us_read_handler us" "\<not> us_complete_handler us"
    using assms(1) by (auto simp: playing_def client_ready_def)
  let ?c = "c\<lparr> rc_session := Some (us\<lparr> us_reads := 0 \<rparr>) \<rparr>"
  obtain r where r: "rtp_parse (Some ?b) (of_nat (length ?b)) = Inr r" "pr_ok r" "pr_hdr r = Some (dg_hdr g)"
    "payload_bytes ?b r = dg_body g" "unat (pr_size r) = length (dg_body g)"
    using rtp_parse_wire_build [of "dg_hdr g" "dg_csrcs g" "dg_ext g" "dg_pad g" "dg_body g"] assms(2)
    by (auto simp: dg_ok_def dg_wire_def)
  obtain pos where pos: "pr_payload r = Some pos" "slice_of ?b pos (length (dg_body g)) = dg_body g"
    using r(4,5) assms(2) by (auto simp: payload_bytes_def dg_ok_def split: option.splits)
  have len: "length ?b < 65536" and body: "0 < length (dg_body g)" "length (dg_body g) \<le> 64512"
    using assms(2) by (simp_all add: dg_ok_def MAX_PAYLOAD_BYTES_def)
  have n0: "pr_size r \<noteq> 0" using r(5) body(1) by auto
  obtain ok1 ok2 junk w where w0: "se_new_packet env (rs_world s) = ((ok1, ok2, junk), w)"
    by (cases "se_new_packet env (rs_world s)") auto
  have "fst (fst (se_new_packet env (rs_world s))) \<and> fst (snd (fst (se_new_packet env (rs_world s))))"
    using assms(3) unfolding env_healthy_def by blast
  then have w: "se_new_packet env (rs_world s) = ((True, True, junk), w)" using w0 by simp
  let ?p = "drop pos (?b @ [0])"
  have inb: "length (dg_body g) \<le> length (drop pos ?b)"
    using arg_cong [OF pos(2), of length] by (simp add: slice_of_def)
  then have p: "unat (pr_size r) \<le> length ?p" "take (unat (pr_size r)) ?p = dg_body g"
    using pos(2) r(5) by (simp_all add: slice_of_def)
  obtain pk where pk: "rtp_create_instance True True junk (dg_hdr g) (Some ?p) (pr_size r) = Inr (Some pk)"
    "packet_hdr pk = dg_hdr g" "payload pk = take (unat (pr_size r)) ?p"
    using rtp_create_instance_some [OF p(1) n0, of True True junk "dg_hdr g"] body r(5) by auto
  have nonempty: "?b \<noteq> []" using inb body(1) by auto
  have parse: "rtp_parse (Some (?b @ [0])) (of_nat (length ?b)) = Inr r"
    using rtp_parse_longer [OF len, of "[0]"] r(1) by simp
  let ?s1 = "s\<lparr> rs_client := Some ?c, rs_world := w \<rparr>"
  show thesis
  proof (rule that [of pk ?s1])
    show "datagram env No_Error ?b s = res_bind (stream_on_packet env pk ?s1) (\<lambda>(fs, s). Inr (fs, client_read s))"
      using c r(2,3) pos(1) pk(1) w nonempty parse
      by (simp add: datagram_def session_on_read_def client_on_network_read_def Let_def)
    show "payload pk = dg_body g" using pk(3) p(2) by simp
    show "packet_args pk = dg_args g"
      using pk(2) by (simp add: packet_args_def dg_args_def packet_getters)
    show "\<exists>c. rs_client ?s1 = Some c \<and> client_ready 0 c" using c by (simp add: client_ready_def)
  qed simp
qed

lemma client_read_ready:
  "rs_client s = Some c \<Longrightarrow> client_ready 0 c \<Longrightarrow>
    playing (client_read s) \<and> rs_kind (client_read s) = rs_kind s \<and> same_setup_stream s (client_read s)"
  by (auto simp: client_read_def client_ready_def playing_def udp_read_def same_setup_stream_def)

definition dg_matches :: "'x rtp_stream \<Rightarrow> dgram \<Rightarrow> bool" where
  "dg_matches s g \<longleftrightarrow> pa_payload_type (dg_args g) = rs_payload_type s"

lemma packet_args_fields:
  "packet_args pk = dg_args g \<Longrightarrow> uint (payload_type pk) = pa_payload_type (dg_args g) \<and> timestamp pk = pa_pts (dg_args g)"
  by (simp add: packet_args_def dg_args_def)

section \<open>What a stream makes of the datagrams\<close>

text \<open>The frames a depacketizer announces, as the stream passes them on.\<close>

definition stream_frames :: "rtp_media_type \<Rightarrow> feed_outs \<Rightarrow> media_frame list" where
  "stream_frames m outs = map (\<lambda>(st, f). media_of m (the f)) (filter (\<lambda>(st, f). st = DEPACKETIZER_FRAME) outs)"

lemma stream_frames_simps [simp]:
  "stream_frames m [] = []"
  "stream_frames m ((st, f) # outs) = (if st = DEPACKETIZER_FRAME then [media_of m (the f)] else []) @ stream_frames m outs"
  "stream_frames m (outs @ outs') = stream_frames m outs @ stream_frames m outs'"
  by (simp_all add: stream_frames_def)

lemma video_datagram:
  assumes "playing s" "rs_kind s = Video_Stream (Some d)" "depack_wf d" "dg_ok g" "env_healthy env"
    and "dg_matches s g \<Longrightarrow> depack_safe d (dg_body g)"
  shows "if dg_matches s g
    then \<exists>st d' f s'. depack_parse (Some (dg_body g)) (dg_args g) d = Inr (st, d', f) \<and> depack_wf d'
      \<and> (\<forall>q. depack_safe d' q = depack_safe d q) \<and> datagram env No_Error (dg_wire g) s = Inr (stream_frames (rs_media s) [(st, f)], s')
      \<and> playing s' \<and> rs_kind s' = Video_Stream (Some d') \<and> same_setup_stream s s'
    else \<exists>s'. datagram env No_Error (dg_wire g) s = Inr ([], s')
      \<and> playing s' \<and> rs_kind s' = rs_kind s \<and> same_setup_stream s s'"
proof -
  obtain pk s1 where d: "datagram env No_Error (dg_wire g) s
      = res_bind (stream_on_packet env pk s1) (\<lambda>(fs, s). Inr (fs, client_read s))"
    "payload pk = dg_body g" "packet_args pk = dg_args g"
    "s1 = s\<lparr> rs_client := rs_client s1, rs_world := rs_world s1 \<rparr>"
    "\<exists>c. rs_client s1 = Some c \<and> client_ready 0 c"
    using datagram_packet [OF assms(1,4,5)] by blast
  obtain c where c: "rs_client s1 = Some c" "client_ready 0 c" using d(5) by blast
  have same: "rs_kind s1 = rs_kind s" "rs_media s1 = rs_media s" "rs_payload_type s1 = rs_payload_type s"
    "rs_task s1 = rs_task s" by (subst d(4); simp)+
  note pt = packet_args_fields [OF d(3)]
  show ?thesis
  proof (cases "dg_matches s g")
    case False
    then have "stream_on_packet env pk s1 = Inr ([], s1)"
      using pt same(3) by (simp add: stream_on_packet_def dg_matches_def)
    then show ?thesis
      using False d(1) client_read_ready [OF c] same by (simp add: same_setup_stream_def)
  next
    case True
    obtain st d' f where p: "depack_parse (Some (dg_body g)) (dg_args g) d = Inr (st, d', f)" "depack_wf d'"
      "frame_given (dg_args g) st f" "\<And>q. depack_safe d' q = depack_safe d q"
      using depack.parse_step [OF assms(3) assms(6) [OF True]] by metis
    have "\<exists>w. stream_on_packet env pk s1 = Inr (stream_frames (rs_media s) [(st, f)],
        s1\<lparr> rs_kind := Video_Stream (Some d'), rs_world := w \<rparr>)"
    proof (cases "st = DEPACKETIZER_FRAME")
      case frame: True
      then obtain fr where fr: "f = Some fr" using p(3) by (auto simp: frame_given_def dg_args_def)
      have "\<exists>w0. stream_on_packet env pk s1 = send_frame env fr (s1\<lparr> rs_world := w0, rs_kind := Video_Stream (Some d') \<rparr>)"
        using True p(1) pt same assms(2) d(2,3) frame fr
        by (simp add: stream_on_packet_def dg_matches_def video_stream_on_packet_def Let_def) blast
      then obtain w0 where w0: "stream_on_packet env pk s1
          = send_frame env fr (s1\<lparr> rs_world := w0, rs_kind := Video_Stream (Some d') \<rparr>)" by blast
      obtain w where "send_frame env fr (s1\<lparr> rs_world := w0, rs_kind := Video_Stream (Some d') \<rparr>) = Inr
          ([media_of (rs_media s) fr], s1\<lparr> rs_kind := Video_Stream (Some d'), rs_world := w \<rparr>)"
        using send_frame_healthy [OF assms(5), of fr "s1\<lparr> rs_world := w0, rs_kind := Video_Stream (Some d') \<rparr>"] same
        by auto
      then show ?thesis using w0 frame fr by (intro exI [of _ w]) simp
    next
      case False
      then have "\<exists>w. stream_on_packet env pk s1 = Inr ([], s1\<lparr> rs_world := w, rs_kind := Video_Stream (Some d') \<rparr>)"
        using True p(1) pt same assms(2) d(2,3)
        by (auto simp: stream_on_packet_def dg_matches_def video_stream_on_packet_def Let_def)
      moreover have "s1\<lparr> rs_world := w, rs_kind := k \<rparr> = s1\<lparr> rs_kind := k, rs_world := w \<rparr>" for w k by simp
      ultimately show ?thesis using False by simp
    qed
    then obtain w where w: "stream_on_packet env pk s1 = Inr (stream_frames (rs_media s) [(st, f)],
        s1\<lparr> rs_kind := Video_Stream (Some d'), rs_world := w \<rparr>)" by blast
    let ?s2 = "s1\<lparr> rs_kind := Video_Stream (Some d'), rs_world := w \<rparr>"
    have "rs_client ?s2 = Some c" using c by simp
    from client_read_ready [OF this c(2)]
    have "playing (client_read ?s2) \<and> rs_kind (client_read ?s2) = Video_Stream (Some d') \<and> same_setup_stream s (client_read ?s2)"
      using same by (simp add: same_setup_stream_def)
    moreover have "datagram env No_Error (dg_wire g) s = Inr (stream_frames (rs_media s) [(st, f)], client_read ?s2)"
      by (simp only: d(1) w res_bind_simps prod.case)
    ultimately show ?thesis using True p(1,2,4) by auto
  qed
qed

lemma dg_matches_same: "same_setup_stream s s' \<Longrightarrow> dg_matches s' g = dg_matches s g"
  by (simp add: dg_matches_def same_setup_stream_def)

lemma video_datagrams:
  assumes "playing s" "rs_kind s = Video_Stream (Some d)" "depack_wf d" "\<forall>g\<in>set gs. dg_ok g" "env_healthy env"
    and "\<forall>g\<in>set gs. dg_matches s g \<longrightarrow> depack_safe d (dg_body g)"
  shows "\<exists>outs d' s'. feed depack_parse (map (\<lambda>g. (dg_body g, dg_args g)) (filter (dg_matches s) gs)) d = Inr (outs, d')
    \<and> datagrams env (map dg_wire gs) s = Inr (stream_frames (rs_media s) outs, s')
    \<and> playing s' \<and> rs_kind s' = Video_Stream (Some d') \<and> depack_wf d' \<and> same_setup_stream s s'"
  using assms(1-4,6)
proof (induction gs arbitrary: s d)
  case Nil
  then show ?case by (simp add: same_setup_stream_def)
next
  case (Cons g gs)
  note g = video_datagram [OF Cons.prems(1-3) _ assms(5), of g]
  show ?case
  proof (cases "dg_matches s g")
    case True
    then obtain st d1 f s1 where s1: "depack_parse (Some (dg_body g)) (dg_args g) d = Inr (st, d1, f)" "depack_wf d1"
      "\<forall>q. depack_safe d1 q = depack_safe d q" "datagram env No_Error (dg_wire g) s = Inr (stream_frames (rs_media s) [(st, f)], s1)"
      "playing s1" "rs_kind s1 = Video_Stream (Some d1)" "same_setup_stream s s1"
      using g Cons.prems(4,5) by auto
    have m: "dg_matches s1 = dg_matches s" "rs_media s1 = rs_media s"
      using dg_matches_same [OF s1(7)] s1(7) by (auto simp: same_setup_stream_def)
    obtain outs d' s' where "feed depack_parse (map (\<lambda>g. (dg_body g, dg_args g)) (filter (dg_matches s) gs)) d1 = Inr (outs, d')"
      "datagrams env (map dg_wire gs) s1 = Inr (stream_frames (rs_media s) outs, s')"
      "playing s'" "rs_kind s' = Video_Stream (Some d')" "depack_wf d'" "same_setup_stream s1 s'"
      using Cons.IH [OF s1(5,6,2)] Cons.prems(4,5) s1(3) m by auto
    then show ?thesis using True s1 same_setup_stream_trans [OF s1(7)] by auto
  next
    case False
    then obtain s1 where s1: "datagram env No_Error (dg_wire g) s = Inr ([], s1)" "playing s1"
      "rs_kind s1 = rs_kind s" "same_setup_stream s s1"
      using g Cons.prems(4,5) by auto
    have m: "dg_matches s1 = dg_matches s" "rs_media s1 = rs_media s"
      using dg_matches_same [OF s1(4)] s1(4) by (auto simp: same_setup_stream_def)
    show ?thesis
      using Cons.IH [OF s1(2) _ Cons.prems(3)] Cons.prems s1 m False same_setup_stream_trans [OF s1(4)] by auto
  qed
qed


section \<open>From the sender's picture to the decoder\<close>

lemma stapa_units_closed:
  "us \<noteq> [] \<Longrightarrow> \<forall>u\<in>set us. length u < 65536 \<Longrightarrow> stapa_closed (concat (map stapa_unit us))"
proof (induction us)
  case (Cons u us)
  have len: "unat (be16 (byte_of 1 (of_nat (length u) :: 16 word)) (byte_of 0 (of_nat (length u) :: 16 word))) = length u"
    by (rule stapa_unit_len) (use Cons.prems(2) in simp)
  show ?case
    using Cons len by (cases "us = []") (simp_all add: stapa_unit_def Let_def del: byte_of_Suc_0)
qed simp

lemma fua_fragment_closed: "packet_closed (fua_fragment h st fin c)"
  using fua_indicator_bits(1) [of h] by (simp add: packet_closed_def fua_fragment_def)

lemma fua_tail_closed: "p \<in> set (fua_tail h cs) \<Longrightarrow> packet_closed p"
  by (induction h cs rule: fua_tail.induct) (auto simp: fua_fragment_closed)

lemma pack_packets_closed: "pack_ok k \<Longrightarrow> p \<in> set (pack_packets k) \<Longrightarrow> packet_closed p"
proof (cases k)
  case (Single_Nal u)
  assume "pack_ok k" "p \<in> set (pack_packets k)"
  moreover have "\<not> (24 :: byte) \<le> 12" "\<not> (28 :: byte) \<le> 12" by simp_all
  ultimately show ?thesis using Single_Nal by (auto simp: packet_closed_def nal_type_def)
next
  case (Stap_A b us)
  assume "pack_ok k" "p \<in> set (pack_packets k)"
  then show ?thesis using Stap_A stapa_units_closed [of us] by (auto simp: packet_closed_def)
next
  case (Fu_A h c cs)
  assume "pack_ok k" "p \<in> set (pack_packets k)"
  then show ?thesis using Fu_A fua_tail_closed by (auto simp: fua_packets_def fua_fragment_closed)
qed

lemma stream_frames_quiet: "quiet outs \<Longrightarrow> stream_frames m outs = []"
  by (induction outs) auto


section \<open>Audio\<close>

text \<open>
  An audio stream queues the payload of every well-formed datagram with its payload type as one frame,
  in the order of arrival, with the timestamp of the datagram, and ignores the others.
\<close>

lemma rtp_audio_stream_frames:
  assumes "playing s" "rs_kind s = Audio_Stream" "\<forall>g\<in>set gs. dg_ok g" "env_healthy env"
  shows "\<exists>s'. datagrams env (map dg_wire gs) s = Inr (map (\<lambda>g.
        \<lparr> mf_type = rs_media s, mf_data = dg_body g, mf_pts = pa_pts (dg_args g), mf_payload_type = rs_payload_type s,
          mf_flags = 0, mf_packets = 1 \<rparr>) (filter (dg_matches s) gs), s') \<and> playing s' \<and> rs_kind s' = Audio_Stream"
  using assms(1-3)
proof (induction gs arbitrary: s)
  case (Cons g gs)
  obtain pk s1 where d: "datagram env No_Error (dg_wire g) s
      = res_bind (stream_on_packet env pk s1) (\<lambda>(fs, s). Inr (fs, client_read s))"
    "payload pk = dg_body g" "packet_args pk = dg_args g"
    "s1 = s\<lparr> rs_client := rs_client s1, rs_world := rs_world s1 \<rparr>"
    "\<exists>c. rs_client s1 = Some c \<and> client_ready 0 c"
    using datagram_packet [OF Cons.prems(1) _ assms(4), of g] Cons.prems(3) by auto
  obtain c where c: "rs_client s1 = Some c" "client_ready 0 c" using d(5) by blast
  have same: "rs_kind s1 = rs_kind s" "rs_media s1 = rs_media s" "rs_payload_type s1 = rs_payload_type s"
    "rs_task s1 = rs_task s" by (subst d(4); simp)+
  note pt = packet_args_fields [OF d(3)]
  let ?mf = "\<lparr> mf_type = rs_media s, mf_data = dg_body g, mf_pts = pa_pts (dg_args g),
      mf_payload_type = rs_payload_type s, mf_flags = 0, mf_packets = 1 \<rparr>"
  have "\<exists>w. stream_on_packet env pk s1 = Inr (if dg_matches s g then [?mf] else [], s1\<lparr> rs_world := w \<rparr>)"
  proof (cases "dg_matches s g")
    case True
    let ?f = "\<lparr> df_data = payload pk, df_pts = timestamp pk, df_payload_type = rs_payload_type s1, df_flags = 0, df_packets = 1 \<rparr>"
    have "\<exists>w0. stream_on_packet env pk s1 = send_frame env ?f (s1\<lparr> rs_world := w0 \<rparr>)"
      using True pt same Cons.prems(2)
      by (auto simp: stream_on_packet_def audio_stream_on_packet_def dg_matches_def Let_def)
    then obtain w0 where w0: "stream_on_packet env pk s1 = send_frame env ?f (s1\<lparr> rs_world := w0 \<rparr>)" by blast
    show ?thesis
      using send_frame_healthy [OF assms(4), of ?f "s1\<lparr> rs_world := w0 \<rparr>"] w0 True pt same d(2)
      by (auto simp: media_of_def)
  next
    case False
    then show ?thesis using pt same by (intro exI [of _ "rs_world s1"]) (simp add: stream_on_packet_def dg_matches_def)
  qed
  then obtain w where w: "stream_on_packet env pk s1 = Inr (if dg_matches s g then [?mf] else [], s1\<lparr> rs_world := w \<rparr>)"
    by blast
  let ?s2 = "client_read (s1\<lparr> rs_world := w \<rparr>)"
  have "rs_client (s1\<lparr> rs_world := w \<rparr>) = Some c" using c by simp
  from client_read_ready [OF this c(2)] have s2: "playing ?s2" "rs_kind ?s2 = Audio_Stream" "same_setup_stream s ?s2"
    using same Cons.prems(2) by (simp_all add: same_setup_stream_def)
  have m: "dg_matches ?s2 = dg_matches s" "rs_media ?s2 = rs_media s" "rs_payload_type ?s2 = rs_payload_type s"
    using dg_matches_same [OF s2(3)] s2(3) by (auto simp: same_setup_stream_def)
  have "datagram env No_Error (dg_wire g) s = Inr (if dg_matches s g then [?mf] else [], ?s2)"
    by (simp only: d(1) w res_bind_simps prod.case)
  then show ?case using Cons.IH [OF s2(1,2)] Cons.prems(3) m by auto
qed simp

section \<open>When a client goes deaf\<close>

definition deaf :: "'x rtp_stream \<Rightarrow> bool" where
  "deaf s \<longleftrightarrow> (\<forall>c us. rs_client s = Some c \<and> rc_session c = Some us \<longrightarrow> us_reads us = 0)"

lemma deaf_datagrams: "deaf s \<Longrightarrow> datagrams env bs s = Inr ([], s)"
  by (induction bs) (auto simp: datagram_def deaf_def split: option.split)

text \<open>
  C39: one bad datagram silences a stream for good: after an empty datagram, or one the RTP parser refuses,
  no receive is pending any more, so whatever arrives later is never read and no frame comes out again.
\<close>

theorem rtp_client_goes_deaf:
  assumes "playing s" "b = [] \<or> length b < 65536 \<and> \<not> wire_valid b"
  shows "\<exists>s'. deaf s' \<and> datagrams env (b # bs) s = Inr ([], s')"
proof -
  obtain c us where c: "rs_client s = Some c" "\<not> rc_exit c" "rc_observer c" "rc_session c = Some us" "us_reads us = 1"
    "us_read_handler us" "\<not> us_complete_handler us"
    using assms(1) by (auto simp: playing_def client_ready_def)
  let ?s = "s\<lparr> rs_client := Some (c\<lparr> rc_session := Some (us\<lparr> us_reads := 0 \<rparr>) \<rparr>) \<rparr>"
  have "datagram env No_Error b s = Inr ([], ?s)"
  proof (cases "b = []")
    case True
    then show ?thesis using c by (simp add: datagram_def session_on_read_def)
  next
    case False
    then have len: "length b < 65536" "\<not> wire_valid b" using assms(2) by auto
    have "rtp_parse (Some (b @ [0])) (of_nat (length b)) = Inr (parse_failed (if length b < 12 then None else Some (load_header b 0)))"
      using rtp_parse_longer [OF len(1), of "[0]"] rtp_parse_eq [OF len(1)] len(2) by simp
    then show ?thesis
      using c False by (simp add: datagram_def session_on_read_def client_on_network_read_def parse_failed_def)
  qed
  moreover have "deaf ?s" by (simp add: deaf_def)
  ultimately show ?thesis by (auto simp: deaf_datagrams)
qed

text \<open>
  Setting a stream up: when the socket opens and binds, the stream plays, with its media and payload
  type, and tearing it down leaves no client; when the port cannot be bound the set-up reports success all
  the same, and the stream is deaf from the start.
\<close>

lemma rtp_stream_setup:
  "(\<exists>s'. set_media True True True True media pt s = Inr (True, s') \<and> playing s' \<and> rs_task s' \<and> rs_media s' = media
      \<and> rs_payload_type s' = pt \<and> rs_kind s' = rs_kind s
      \<and> (\<exists>s''. rtp_stream_destroy s' = Inr s'' \<and> rs_client s'' = None \<and> \<not> rs_task s''))
   \<and> (\<exists>s'. set_media True True open_ok False media pt s = Inr (True, s') \<and> deaf s' \<and> datagrams env bs s' = Inr ([], s'))"
proof -
  have "\<exists>s'. set_media True True open_ok False media pt s = Inr (True, s') \<and> deaf s'"
    by (simp add: set_media_def client_build_def server_accept_def rtp_client_new_def deaf_def)
  then show ?thesis
    by (auto simp: deaf_datagrams set_media_def client_build_def server_accept_def on_network_accept_def rtp_client_new_def
        udp_session_new_def client_read_def udp_read_def playing_def client_ready_def rtp_stream_destroy_def
        delete_client_def client_tear_def Let_def)
qed

section \<open>Instances\<close>

text \<open>An environment without memory, one datagram with a single NAL unit, and streams that play.\<close>

definition demo_env :: "unit stream_env" where
  "demo_env = \<lparr> se_new_packet = (\<lambda>w. ((True, True, \<lambda>_. 0), w)), se_new_frame = (\<lambda>n w. ((True, True), w)),
     se_new_command = (\<lambda>w. (True, w)), se_put = (\<lambda>mf w. (True, w)), se_loss_count = (\<lambda>w. 0), se_loss_push = (\<lambda>q w. w),
     se_framerate_push = (\<lambda>w. w), se_bitrate_push = (\<lambda>n w. w) \<rparr>"

definition demo_dgram :: dgram where
  "demo_dgram = \<lparr> dg_hdr = load_header [0x80, 0xE0, 0, 1, 0, 0, 0, 2, 0, 0, 0, 3] 0, dg_csrcs = [], dg_ext = None,
     dg_body = [9, 16], dg_pad = None \<rparr>"

definition demo_h264 :: h264 where
  "demo_h264 = (h264_new (Some (\<lambda>_. 0)) (Some (\<lambda>_. 0)))
     \<lparr> h_sps_sentry := False, h_pps_sentry := False, h_idr_sentry := False \<rparr>"

definition demo_client :: rtp_client where
  "demo_client = \<lparr> rc_exit = False, rc_observer = True, rc_session = Some (udp_read (udp_session_new\<lparr> us_read_handler := True \<rparr>)),
     rc_server = True, rc_service = True \<rparr>"

definition demo_stream :: "stream_kind \<Rightarrow> unit rtp_stream" where
  "demo_stream k = (rtp_stream_new k ())
     \<lparr> rs_media := RTP_MEDIA_VIDEO_AVC, rs_payload_type := 96, rs_client := Some demo_client \<rparr>"

lemma demo_env_healthy: "env_healthy demo_env"
  by (simp add: env_healthy_def demo_env_def)

lemma demo_stream_playing: "playing (demo_stream k)" "rs_kind (demo_stream k) = k"
  by (simp_all add: playing_def demo_stream_def rtp_stream_new_def client_ready_def demo_client_def udp_read_def
      udp_session_new_def)

lemma demo_dgram_ok: "dg_ok demo_dgram" "dg_matches (demo_stream k) demo_dgram" "dg_body demo_dgram = [9, 16]"
  by (simp_all add: dg_ok_def dg_wire_def demo_dgram_def wire_fields_ok_def load_header_def wire_build_def wire_ext_def
      wire_pad_def MAX_PAYLOAD_BYTES_def dg_matches_def dg_args_def demo_stream_def rtp_stream_new_def)

lemma demo_h264_ready: "h264_ready demo_h264" "gates_open (h264_view demo_h264)" "v_data (h264_view demo_h264) = []"
  by (simp_all add: demo_h264_def h264_ready_def h264_wf_def h264_new_def gates_open_def h264_view_def)

lemma demo_args: "pa_marker (dg_args demo_dgram)" "pa_frame (dg_args demo_dgram)"
  "pa_payload_type (dg_args demo_dgram) = rs_payload_type (demo_stream k)"
  by (simp_all add: dg_args_def demo_dgram_def load_header_def demo_stream_def rtp_stream_new_def)



lemma rtp_audio_stream_frames_witness:
  "\<exists>mf s'. datagrams demo_env [dg_wire demo_dgram] (demo_stream Audio_Stream) = Inr ([mf], s') \<and> mf_data mf = [9, 16]"
  using rtp_audio_stream_frames [OF demo_stream_playing(1) demo_stream_playing(2) _ demo_env_healthy, of "[demo_dgram]"]
    demo_dgram_ok by auto

theorem rtp_client_goes_deaf_witness:
  "\<exists>s'. deaf s' \<and> datagrams demo_env ([0x40] # [dg_wire demo_dgram]) (demo_stream Audio_Stream) = Inr ([], s')"
  by (rule rtp_client_goes_deaf [OF demo_stream_playing(1)]) (simp add: wire_valid_def)

end
