(* ===== verification/Av_Sync.thy ===== *)
theory Av_Sync
  imports Media
begin

text \<open>
  The clocks and the synchroniser: \<open>Common/AVClock.h\<close>, \<open>Common/AVTimer.h\<close> and \<open>Player/AVSync\<close>.
  \<open>Timer::now()\<close> is an argument. A frame is its identity with the fields the synchroniser reads, and
  the reference counts of the frames are a field of the state, so that who holds a frame can be said.
  The jitter estimate (\<open>Common/AVJitter.h\<close>, floating point) is read by nobody and left out. The lemmas
  show what the clocks measure, when buffering starts and ends, that frames leave in order and when,
  and how the schedule rounds.
\<close>

section \<open>The timer\<close>

text \<open>The times are \<open>int64_t\<close>; what \<open>clock_ms\<close> returns is an \<open>int\<close>.\<close>

record av_timer =
  at_stopped :: bool
  at_start_time :: int
  at_end_time :: int

definition to_int32 :: "int \<Rightarrow> int" where
  "to_int32 x = sint (word_of_int x :: 32 word)"

lemma to_int32_small [simp]: "- (2 ^ 31) \<le> x \<Longrightarrow> x < 2 ^ 31 \<Longrightarrow> to_int32 x = x"
  by (simp add: to_int32_def sint_sbintrunc' signed_take_bit_int_eq_self)

definition av_timer_new :: av_timer where
  "av_timer_new = \<lparr> at_stopped = True, at_start_time = - 1, at_end_time = - 1 \<rparr>"

definition timer_start_clock :: "int \<Rightarrow> int \<Rightarrow> av_timer \<Rightarrow> av_timer" where
  "timer_start_clock now offset_ms t = t\<lparr> at_start_time := now - offset_ms, at_stopped := False \<rparr>"

definition timer_stop_clock :: "int \<Rightarrow> av_timer \<Rightarrow> av_timer" where
  "timer_stop_clock now t =
     (if \<not> at_stopped t then t\<lparr> at_end_time := now, at_stopped := True \<rparr> else t)"

definition timer_clock_ms :: "int \<Rightarrow> av_timer \<Rightarrow> int" where
  "timer_clock_ms now t =
     (if at_stopped t then to_int32 (at_end_time t - at_start_time t) else to_int32 (now - at_start_time t))"

definition timer_resume_clock :: "int \<Rightarrow> av_timer \<Rightarrow> av_timer" where
  "timer_resume_clock now t = timer_start_clock now (timer_clock_ms now t) t"

text \<open>
  A timer that runs for \<open>r\<close> ms and is stopped for \<open>p\<close> ms, for each \<open>(r, p)\<close> in turn, from a given time
  on; the time at the end.
\<close>

fun timer_cycles :: "(int \<times> int) list \<Rightarrow> int \<Rightarrow> av_timer \<Rightarrow> int \<times> av_timer" where
  "timer_cycles [] now t = (now, t)"
| "timer_cycles ((r, p) # cs) now t =
     timer_cycles cs (now + r + p) (timer_resume_clock (now + r + p) (timer_stop_clock (now + r) t))"

lemma timer_cycles_running:
  assumes "\<not> at_stopped t" "\<forall>(r, p)\<in>set cs. 0 \<le> r \<and> 0 \<le> p" "0 \<le> now - at_start_time t"
    "now - at_start_time t + sum_list (map fst cs) < 2 ^ 31"
  shows "\<exists>t'. timer_cycles cs now t = (now + sum_list (map (\<lambda>(r, p). r + p) cs), t') \<and> \<not> at_stopped t'
    \<and> now + sum_list (map (\<lambda>(r, p). r + p) cs) - at_start_time t'
        = now - at_start_time t + sum_list (map fst cs)"
  using assms
proof (induction cs arbitrary: now t)
  case (Cons c cs)
  obtain r p where c: "c = (r, p)" by force
  let ?now = "now + r + p"
  let ?t = "timer_resume_clock ?now (timer_stop_clock (now + r) t)"
  have rp: "0 \<le> r" "0 \<le> p" and cs: "\<forall>(r, p)\<in>set cs. 0 \<le> r \<and> 0 \<le> p" using Cons.prems(2) by (auto simp: c)
  have "0 \<le> sum_list (map fst cs)" using cs by (intro sum_list_nonneg) auto
  then have el: "0 \<le> now + r - at_start_time t" "now + r - at_start_time t < 2 ^ 31"
    using Cons.prems rp by (simp_all add: c)
  then have t: "at_start_time ?t = ?now - (now + r - at_start_time t)" "\<not> at_stopped ?t"
    using Cons.prems(1)
    by (simp_all add: timer_resume_clock_def timer_stop_clock_def timer_start_clock_def timer_clock_ms_def)
  show ?case
    using Cons.IH [OF t(2) cs, of ?now] t(1) el(1) Cons.prems(4) by (auto simp: c algebra_simps)
qed simp

text \<open>
  The timer measures the time it ran: started with an offset, then stopped and resumed any number of
  times, it shows the offset plus the lengths of the running phases, and not the pauses, both while it
  runs and when it is stopped again.
\<close>

lemma av_timer_elapsed:
  assumes "timer_cycles cs now (timer_start_clock now offset_ms t0) = (time, t)"
    and "\<forall>(r, p)\<in>set cs. 0 \<le> r \<and> 0 \<le> p" "0 \<le> offset_ms" "0 \<le> d" "0 \<le> d'"
    and "offset_ms + sum_list (map fst cs) + d < 2 ^ 31"
  shows "timer_clock_ms (time + d) t = offset_ms + sum_list (map fst cs) + d
    \<and> timer_clock_ms (time + d + d') (timer_stop_clock (time + d) t) = offset_ms + sum_list (map fst cs) + d"
proof -
  have nonneg: "0 \<le> sum_list (map fst cs)" using assms(2) by (intro sum_list_nonneg) auto
  then obtain t' where "timer_cycles cs now (timer_start_clock now offset_ms t0)
      = (now + sum_list (map (\<lambda>(r, p). r + p) cs), t')" "\<not> at_stopped t'"
    "now + sum_list (map (\<lambda>(r, p). r + p) cs) - at_start_time t' = offset_ms + sum_list (map fst cs)"
    using timer_cycles_running [of "timer_start_clock now offset_ms t0" cs now] assms
    by (auto simp: timer_start_clock_def)
  then have t: "\<not> at_stopped t" "time - at_start_time t = offset_ms + sum_list (map fst cs)"
    using assms(1) by auto
  then have "time + d - at_start_time t = offset_ms + sum_list (map fst cs) + d" by simp
  then show ?thesis
    using t(1) assms(3-6) nonneg by (simp add: timer_clock_ms_def timer_stop_clock_def)
qed

lemma av_timer_elapsed_witness:
  "\<exists>t. timer_cycles [(100, 50), (30, 1000)] 5000 (timer_start_clock 5000 0 av_timer_new) = (6180, t)
     \<and> timer_clock_ms (6180 + 20) t = 150"
proof -
  obtain time t where t: "timer_cycles [(100, 50), (30, 1000)] 5000 (timer_start_clock 5000 0 av_timer_new) = (time, t)"
    by force
  then have "time = 6180" by (simp add: timer_resume_clock_def)
  then show ?thesis using av_timer_elapsed [OF t, of 20 0] t by simp
qed

section \<open>The clock interface\<close>

text \<open>\<open>AVClock\<close>: the virtual functions, each with the time it is called at.\<close>

record 'c clock_ops =
  ck_start :: "int \<Rightarrow> int \<Rightarrow> 'c \<Rightarrow> 'c"
  ck_stop :: "int \<Rightarrow> 'c \<Rightarrow> 'c"
  ck_resume :: "int \<Rightarrow> 'c \<Rightarrow> 'c"
  ck_ms :: "int \<Rightarrow> 'c \<Rightarrow> int"

definition timer_ops :: "av_timer clock_ops" where
  "timer_ops = \<lparr> ck_start = timer_start_clock, ck_stop = timer_stop_clock, ck_resume = timer_resume_clock,
     ck_ms = timer_clock_ms \<rparr>"

section \<open>The synchroniser\<close>

record av_frame =
  fr_id :: nat
  fr_pts :: "32 word"
  fr_sample_rate :: int

text \<open>\<open>m_clock\<close>: the timer the synchroniser owns (\<open>m_avtimer\<close>), or a clock of somebody else.\<close>

datatype 'c sync_clock = Internal av_timer | External "'c ptr"

text \<open>
  The last five fields are ghosts: the frames pushed and handed out, the frames the renderers hold, and
  the timestamps of the frames handed out since the schedule was last anchored.
\<close>

record 'c av_sync =
  as_video :: "av_frame list"
  as_audio :: "av_frame list"
  as_last_video_ts :: "32 word"
  as_video_duration :: "32 word"
  as_clock :: "'c sync_clock"
  as_buffering :: bool
  as_refs :: "nat \<Rightarrow> int"
  as_video_in :: "av_frame list"
  as_video_out :: "av_frame list"
  as_audio_in :: "av_frame list"
  as_audio_out :: "av_frame list"
  as_held :: "av_frame list"
  as_played :: "32 word list"

definition av_sync_new :: "int \<Rightarrow> 'c av_sync" where
  "av_sync_new now =
     \<lparr> as_video = [], as_audio = [], as_last_video_ts = 0, as_video_duration = 0,
       as_clock = Internal (timer_start_clock now 0 av_timer_new), as_buffering = False, as_refs = (\<lambda>_. 0),
       as_video_in = [], as_video_out = [], as_audio_in = [], as_audio_out = [], as_held = [], as_played = [] \<rparr>"

definition frame_add_ref :: "av_frame \<Rightarrow> 'c av_sync \<Rightarrow> 'c av_sync" where
  "frame_add_ref f s = s\<lparr> as_refs := (as_refs s)(fr_id f := as_refs s (fr_id f) + 1) \<rparr>"

definition frame_release :: "av_frame \<Rightarrow> 'c av_sync \<Rightarrow> 'c av_sync" where
  "frame_release f s = s\<lparr> as_refs := (as_refs s)(fr_id f := as_refs s (fr_id f) - 1) \<rparr>"

text \<open>The destructor releases the queued frames, and the timer it owns goes with it.\<close>

definition av_sync_destroy :: "'c av_sync \<Rightarrow> 'c av_sync" where
  "av_sync_destroy s =
     (let s = fold frame_release (as_video s) s; s = fold frame_release (as_audio s) s
      in s\<lparr> as_video := [], as_audio := [], as_clock := External Freed \<rparr>)"

definition set_clock :: "'c ptr \<Rightarrow> 'c av_sync \<Rightarrow> 'c av_sync" where
  "set_clock c s = s\<lparr> as_clock := External c \<rparr>"

text \<open>\<open>uint32_t\<close> arithmetic: the division comes first.\<close>

definition video_latency_ms :: "'c av_sync \<Rightarrow> int" where
  "video_latency_ms s =
     (if as_video s = [] then 0
      else to_int32 (uint ((fr_pts (last (as_video s)) - fr_pts (hd (as_video s))) div of_nat RTP_VIDEO_CLOCK * 1000)))"

definition audio_latency_ms :: "'c av_sync \<Rightarrow> int res" where
  "audio_latency_ms s =
     (if as_audio s = [] then Inr 0
      else let rate = (word_of_int (fr_sample_rate (hd (as_audio s))) :: 32 word) in
        if rate = 0 then Inl Div_By_Zero
        else Inr (to_int32 (uint ((fr_pts (last (as_audio s)) - fr_pts (hd (as_audio s))) * 1000 div rate))))"

text \<open>
  \<open>push_video\<close> takes the lock three times: to queue the frame, to measure the latency, and to decide on
  it. The renderers may run in between.
\<close>

definition push_video_queue :: "av_frame \<Rightarrow> 'c av_sync \<Rightarrow> 'c av_sync" where
  "push_video_queue f s =
     (let s = frame_add_ref f s;
          s = (if as_video s = [] then s\<lparr> as_buffering := True \<rparr> else s)
      in s\<lparr> as_video := as_video s @ [f], as_video_in := as_video_in s @ [f] \<rparr>)"

definition push_video_settle :: "int \<Rightarrow> 'c av_sync \<Rightarrow> 'c av_sync" where
  "push_video_settle latency s = (if as_buffering s \<and> 300 \<le> latency then s\<lparr> as_buffering := False \<rparr> else s)"

definition push_video :: "av_frame \<Rightarrow> 'c av_sync \<Rightarrow> 'c av_sync" where
  "push_video f s = (let s = push_video_queue f s in push_video_settle (video_latency_ms s) s)"

definition push_audio :: "av_frame \<Rightarrow> 'c av_sync \<Rightarrow> 'c av_sync" where
  "push_audio f s =
     (let s = frame_add_ref f s in s\<lparr> as_audio := as_audio s @ [f], as_audio_in := as_audio_in s @ [f] \<rparr>)"

definition sync_clock_ms :: "'c clock_ops \<Rightarrow> int \<Rightarrow> 'c sync_clock \<Rightarrow> int res" where
  "sync_clock_ms ops now k =
     (case k of Internal t \<Rightarrow> Inr (timer_clock_ms now t)
      | External p \<Rightarrow> res_bind (deref p) (\<lambda>c. Inr (ck_ms ops now c)))"

text \<open>\<open>stop_clock()\<close>, then \<open>start_clock(0)\<close>.\<close>

definition sync_clock_restart :: "'c clock_ops \<Rightarrow> int \<Rightarrow> 'c sync_clock \<Rightarrow> 'c sync_clock res" where
  "sync_clock_restart ops now k =
     (case k of Internal t \<Rightarrow> Inr (Internal (timer_start_clock now 0 (timer_stop_clock now t)))
      | External p \<Rightarrow> res_bind (deref p) (\<lambda>c. Inr (External (To (ck_start ops now 0 (ck_stop ops now c))))))"

definition gap_ms :: "32 word \<Rightarrow> 32 word \<Rightarrow> 32 word" where
  "gap_ms from_ts to_ts = (to_ts - from_ts) * 1000 div of_nat RTP_VIDEO_CLOCK"

text \<open>\<open>time_now >= m_video_duration + duration\<close> compares an \<open>int\<close> with a \<open>uint32_t\<close>, as unsigned.\<close>

definition sync_video_frame :: "'c clock_ops \<Rightarrow> int \<Rightarrow> 'c av_sync \<Rightarrow> (int \<times> av_frame option \<times> 'c av_sync) res" where
  "sync_video_frame ops now s =
     (if as_video s = [] \<or> as_buffering s then Inr (1, None, s)
      else
        let f = hd (as_video s) in
        res_bind
          (if as_video_duration s = 0 then
             res_bind (sync_clock_restart ops now (as_clock s)) (\<lambda>k.
               Inr (s\<lparr> as_last_video_ts := fr_pts f, as_video_duration := 40, as_clock := k, as_played := [] \<rparr>))
           else Inr s) (\<lambda>s.
        res_bind (sync_clock_ms ops now (as_clock s)) (\<lambda>time_now.
          let duration = gap_ms (as_last_video_ts s) (fr_pts f) in
          if as_video_duration s + duration \<le> word_of_int time_now then
            Inr (0, Some f,
                 s\<lparr> as_video := tl (as_video s), as_last_video_ts := fr_pts f,
                    as_video_duration := as_video_duration s + duration,
                    as_video_out := as_video_out s @ [f], as_held := f # as_held s,
                    as_played := as_played s @ [fr_pts f] \<rparr>)
          else Inr (1, None, s))))"

definition sync_audio_frame :: "'c av_sync \<Rightarrow> int \<times> av_frame option \<times> 'c av_sync" where
  "sync_audio_frame s =
     (if as_audio s = [] \<or> as_buffering s then (1, None, s)
      else let f = hd (as_audio s) in
        (0, Some f, s\<lparr> as_audio := tl (as_audio s), as_audio_out := as_audio_out s @ [f], as_held := f # as_held s \<rparr>))"

definition release_frame :: "av_frame option \<Rightarrow> 'c av_sync \<Rightarrow> 'c av_sync" where
  "release_frame fo s =
     (case fo of None \<Rightarrow> s | Some f \<Rightarrow> (frame_release f s)\<lparr> as_held := remove1 f (as_held s) \<rparr>)"

section \<open>Interleavings\<close>

text \<open>
  What the threads do, one critical section at a time. The latency a settling \<open>push_video\<close> decides on
  was measured earlier and is any number; the owner of an external clock may move it at any time.
\<close>

datatype 'c sync_action =
    Queue_Video av_frame
  | Settle int
  | Queue_Audio av_frame
  | Take_Video int
  | Take_Audio
  | Release_Frame av_frame
  | Set_Clock "'c ptr"

fun sync_do :: "'c clock_ops \<Rightarrow> 'c sync_action \<Rightarrow> 'c av_sync \<Rightarrow> 'c av_sync res" where
  "sync_do ops (Queue_Video f) s = Inr (push_video_queue f s)"
| "sync_do ops (Settle latency) s = Inr (push_video_settle latency s)"
| "sync_do ops (Queue_Audio f) s = Inr (push_audio f s)"
| "sync_do ops (Take_Video now) s = res_bind (sync_video_frame ops now s) (\<lambda>(r, f, s). Inr s)"
| "sync_do ops Take_Audio s = Inr (snd (snd (sync_audio_frame s)))"
| "sync_do ops (Release_Frame f) s = Inr (if f \<in> set (as_held s) then release_frame (Some f) s else s)"
| "sync_do ops (Set_Clock p) s = Inr (set_clock p s)"

inductive sync_reach :: "'c clock_ops \<Rightarrow> 'c av_sync \<Rightarrow> bool" for ops where
  new: "sync_reach ops (av_sync_new now)"
| step: "sync_reach ops s \<Longrightarrow> sync_do ops a s = Inr s' \<Longrightarrow> sync_reach ops s'"

fun sync_run :: "'c clock_ops \<Rightarrow> 'c sync_action list \<Rightarrow> 'c av_sync \<Rightarrow> 'c av_sync res" where
  "sync_run ops [] s = Inr s"
| "sync_run ops (a # as) s = res_bind (sync_do ops a s) (sync_run ops as)"

lemma sync_run_reach: "sync_reach ops s \<Longrightarrow> sync_run ops as s = Inr s' \<Longrightarrow> sync_reach ops s'"
  by (induction as arbitrary: s) (auto simp: res_bind_Inr_iff intro: sync_reach.step)

text \<open>The time the schedule gives to the last of the frames handed out, in ms from the anchor.\<close>

fun sync_due_from :: "32 word \<Rightarrow> 32 word \<Rightarrow> 32 word list \<Rightarrow> 32 word" where
  "sync_due_from d p [] = d"
| "sync_due_from d p (q # qs) = sync_due_from (d + gap_ms p q) q qs"

definition sync_due :: "32 word list \<Rightarrow> 32 word" where
  "sync_due ps = sync_due_from 40 (hd ps) (tl ps)"

lemma sync_due_from_append: "sync_due_from d p (qs @ [q]) = sync_due_from d p qs + gap_ms (last (p # qs)) q"
  by (induction qs arbitrary: d p) auto

lemma sync_due_append: "ps \<noteq> [] \<Longrightarrow> sync_due (ps @ [q]) = sync_due ps + gap_ms (last ps) q"
  by (cases ps) (simp_all add: sync_due_def sync_due_from_append)

lemma sync_due_single [simp]: "sync_due [p] = 40"
  by (simp add: sync_due_def)

definition sync_order :: "'c av_sync \<Rightarrow> bool" where
  "sync_order s \<longleftrightarrow> as_video_in s = as_video_out s @ as_video s \<and> as_audio_in s = as_audio_out s @ as_audio s"

definition sync_refs :: "'c av_sync \<Rightarrow> bool" where
  "sync_refs s \<longleftrightarrow> (\<forall>i. as_refs s i = int (count_list (map fr_id (as_video s @ as_audio s @ as_held s)) i))"

definition sync_sched :: "'c av_sync \<Rightarrow> bool" where
  "sync_sched s \<longleftrightarrow> as_video_duration s \<noteq> 0 \<longrightarrow>
     (if as_played s = [] then as_video_duration s = 40 \<and> as_video s \<noteq> [] \<and> as_last_video_ts s = fr_pts (hd (as_video s))
      else as_video_duration s = sync_due (as_played s) \<and> as_last_video_ts s = last (as_played s))"

lemmas sync_defs = sync_order_def sync_refs_def sync_sched_def

text \<open>The outcomes of a poll.\<close>

lemma video_frame_cases:
  assumes "sync_video_frame ops now s = Inr (r, fo, s')"
  obtains (none) "r = 1" "fo = None" "s' = s"
    | (wait) k where "r = 1" "fo = None" "as_video s \<noteq> []"
        "s' = s\<lparr> as_last_video_ts := fr_pts (hd (as_video s)), as_video_duration := 40, as_clock := k, as_played := [] \<rparr>"
    | (first) k where "r = 0" "fo = Some (hd (as_video s))" "as_video s \<noteq> []"
        "s' = s\<lparr> as_video := tl (as_video s), as_last_video_ts := fr_pts (hd (as_video s)),
                 as_video_duration := 40, as_clock := k, as_video_out := as_video_out s @ [hd (as_video s)],
                 as_held := hd (as_video s) # as_held s, as_played := [fr_pts (hd (as_video s))] \<rparr>"
    | (go) "r = 0" "fo = Some (hd (as_video s))" "as_video s \<noteq> []" "as_video_duration s \<noteq> 0"
        "s' = s\<lparr> as_video := tl (as_video s), as_last_video_ts := fr_pts (hd (as_video s)),
                 as_video_duration := as_video_duration s + gap_ms (as_last_video_ts s) (fr_pts (hd (as_video s))),
                 as_video_out := as_video_out s @ [hd (as_video s)], as_held := hd (as_video s) # as_held s,
                 as_played := as_played s @ [fr_pts (hd (as_video s))] \<rparr>"
proof (cases "as_video s = [] \<or> as_buffering s")
  case True
  then show thesis using assms none by (simp add: sync_video_frame_def)
next
  case False
  show thesis
  proof (cases "as_video_duration s = 0")
    case True
    then obtain k where k: "sync_clock_restart ops now (as_clock s) = Inr k"
      using assms False by (auto simp: sync_video_frame_def Let_def res_bind_Inr_iff)
    obtain time where time: "sync_clock_ms ops now k = Inr time"
      using assms False True k by (auto simp: sync_video_frame_def Let_def res_bind_Inr_iff)
    have g: "gap_ms p p = 0" for p by (simp add: gap_ms_def)
    have eq: "sync_video_frame ops now s = (if 40 \<le> (word_of_int time :: 32 word) then
        Inr (0, Some (hd (as_video s)),
          s\<lparr> as_video := tl (as_video s), as_last_video_ts := fr_pts (hd (as_video s)),
             as_video_duration := 40, as_clock := k, as_video_out := as_video_out s @ [hd (as_video s)],
             as_held := hd (as_video s) # as_held s, as_played := [fr_pts (hd (as_video s))] \<rparr>)
        else Inr (1, None, s\<lparr> as_last_video_ts := fr_pts (hd (as_video s)), as_video_duration := 40,
                              as_clock := k, as_played := [] \<rparr>))"
      using False True k time by (simp add: sync_video_frame_def Let_def g)
    show thesis
    proof (cases "40 \<le> (word_of_int time :: 32 word)")
      case True
      then show thesis using eq assms False by (intro first [of k]) simp_all
    next
      case other: False
      then show thesis using eq assms False by (intro wait [of k]) simp_all
    qed
  next
    case dur: False
    obtain time where time: "sync_clock_ms ops now (as_clock s) = Inr time"
      using assms False dur by (auto simp: sync_video_frame_def Let_def res_bind_Inr_iff)
    let ?due = "as_video_duration s + gap_ms (as_last_video_ts s) (fr_pts (hd (as_video s)))"
    show thesis
    proof (cases "?due \<le> word_of_int time")
      case True
      then show thesis using assms False dur time by (intro go) (simp_all add: sync_video_frame_def Let_def)
    next
      case other: False
      then show thesis using assms False dur time by (intro none) (simp_all add: sync_video_frame_def Let_def)
    qed
  qed
qed

lemma audio_frame_same [simp]:
  "as_video (snd (snd (sync_audio_frame s))) = as_video s"
  "as_video_duration (snd (snd (sync_audio_frame s))) = as_video_duration s"
  "as_last_video_ts (snd (snd (sync_audio_frame s))) = as_last_video_ts s"
  "as_played (snd (snd (sync_audio_frame s))) = as_played s"
  by (simp_all add: sync_audio_frame_def Let_def)

lemma push_same [simp]:
  "as_video_duration (push_video_queue f s) = as_video_duration s"
  "as_last_video_ts (push_video_queue f s) = as_last_video_ts s"
  "as_played (push_video_queue f s) = as_played s"
  "as_video (push_video_queue f s) = as_video s @ [f]"
  "as_video_duration (push_video_settle l s) = as_video_duration s"
  "as_last_video_ts (push_video_settle l s) = as_last_video_ts s"
  "as_played (push_video_settle l s) = as_played s"
  "as_video (push_video_settle l s) = as_video s"
  "as_video_duration (push_audio f s) = as_video_duration s"
  "as_last_video_ts (push_audio f s) = as_last_video_ts s"
  "as_played (push_audio f s) = as_played s"
  "as_video (push_audio f s) = as_video s"
  "as_video_duration (release_frame fo s) = as_video_duration s"
  "as_last_video_ts (release_frame fo s) = as_last_video_ts s"
  "as_played (release_frame fo s) = as_played s"
  "as_video (release_frame fo s) = as_video s"
  "as_video_duration (set_clock c s) = as_video_duration s"
  "as_last_video_ts (set_clock c s) = as_last_video_ts s"
  "as_played (set_clock c s) = as_played s"
  "as_video (set_clock c s) = as_video s"
  by (simp_all add: push_video_queue_def push_video_settle_def push_audio_def frame_add_ref_def set_clock_def
      release_frame_def frame_release_def Let_def split: option.split)

lemma count_list_hd_tl: "xs \<noteq> [] \<Longrightarrow> count_list (map f xs) i = count_list (map f (tl xs)) i + (if f (hd xs) = i then 1 else 0)"
  by (cases xs) auto

lemma count_list_remove1:
  "x \<in> set xs \<Longrightarrow> count_list (map f xs) i = count_list (map f (remove1 x xs)) i + (if f x = i then 1 else 0)"
  by (induction xs) auto

lemma sync_do_order:
  assumes "sync_order s" "sync_do ops a s = Inr s'"
  shows "sync_order s'"
proof (cases a)
  case (Take_Video now)
  then obtain r fo where "sync_video_frame ops now s = Inr (r, fo, s')" using assms(2) by (auto simp: res_bind_Inr_iff)
  then show ?thesis
    by (cases rule: video_frame_cases) (use assms(1) in \<open>auto simp: sync_order_def\<close>)
next
  case Take_Audio
  then show ?thesis using assms by (auto simp: sync_order_def sync_audio_frame_def Let_def)
qed (use assms in \<open>auto simp: sync_order_def push_video_queue_def push_video_settle_def push_audio_def frame_add_ref_def
       set_clock_def release_frame_def frame_release_def Let_def\<close>)

lemma sync_do_refs:
  assumes "sync_refs s" "sync_do ops a s = Inr s'"
  shows "sync_refs s'"
proof (cases a)
  case (Take_Video now)
  then obtain r fo where "sync_video_frame ops now s = Inr (r, fo, s')" using assms(2) by (auto simp: res_bind_Inr_iff)
  then show ?thesis
    by (cases rule: video_frame_cases) (use assms(1) in \<open>auto simp: sync_refs_def count_list_hd_tl [of "as_video s"]\<close>)
next
  case Take_Audio
  then show ?thesis
    using assms by (auto simp: sync_refs_def sync_audio_frame_def Let_def count_list_hd_tl [of "as_audio s"])
next
  case (Release_Frame f)
  show ?thesis
  proof (cases "f \<in> set (as_held s)")
    case True
    then show ?thesis
      using assms Release_Frame
      by (auto simp: sync_refs_def release_frame_def frame_release_def count_list_remove1 [OF True, of fr_id])
  qed (use assms Release_Frame in simp)
qed (use assms in \<open>auto simp: sync_refs_def push_video_queue_def push_video_settle_def push_audio_def frame_add_ref_def
       set_clock_def Let_def\<close>)

lemma sync_do_sched:
  assumes "sync_sched s" "sync_do ops a s = Inr s'"
  shows "sync_sched s'"
proof (cases a)
  case (Take_Video now)
  then obtain r fo where "sync_video_frame ops now s = Inr (r, fo, s')" using assms(2) by (auto simp: res_bind_Inr_iff)
  then show ?thesis
  proof (cases rule: video_frame_cases)
    case go
    show ?thesis
    proof (cases "as_played s = []")
      case True
      then show ?thesis using go assms(1) by (simp add: sync_sched_def gap_ms_def)
    next
      case False
      then show ?thesis using go assms(1) by (simp add: sync_sched_def sync_due_append)
    qed
  qed (use assms(1) in \<open>simp_all add: sync_sched_def\<close>)
next
  case Take_Audio
  then show ?thesis using assms by (auto simp: sync_sched_def)
qed (use assms in \<open>auto simp: sync_sched_def split: if_splits\<close>)

lemma sync_reach_inv: "sync_reach ops s \<Longrightarrow> sync_order s \<and> sync_refs s \<and> sync_sched s"
proof (induction rule: sync_reach.induct)
  case (new now)
  then show ?case by (simp add: av_sync_new_def sync_defs)
next
  case (step s a s')
  then show ?case using sync_do_order sync_do_refs sync_do_sched by blast
qed

lemma fold_frame_release:
  "as_refs (fold frame_release fs s) i = as_refs s i - int (count_list (map fr_id fs) i)"
  "as_audio (fold frame_release fs s) = as_audio s" "as_held (fold frame_release fs s) = as_held s"
  by (induction fs arbitrary: s) (auto simp: frame_release_def)

text \<open>
  C18: the synchroniser neither loses, duplicates nor reorders frames, and leaks no reference: however the
  decoders, the renderers and the owner of the clock interleave, the frames pushed are those handed out
  followed by those queued, for video and for audio; each reference taken is that of a frame queued or
  of one a renderer has not given back, and the destructor leaves only the latter.
\<close>

theorem av_sync_fifo:
  assumes "sync_reach ops s"
  shows "as_video_in s = as_video_out s @ as_video s \<and> as_audio_in s = as_audio_out s @ as_audio s
    \<and> as_refs s i = int (count_list (map fr_id (as_video s @ as_audio s @ as_held s)) i)
    \<and> as_refs (av_sync_destroy s) i = int (count_list (map fr_id (as_held s)) i)"
  using sync_reach_inv [OF assms]
  by (simp add: sync_order_def sync_refs_def av_sync_destroy_def Let_def fold_frame_release)

text \<open>A poll of an anchored schedule.\<close>

lemma sync_poll_due:
  assumes "sync_reach ops s" "as_video s = f # fs" "\<not> as_buffering s" "as_video_duration s \<noteq> 0"
    and "sync_clock_ms ops now (as_clock s) = Inr ms"
  shows "if sync_due (as_played s @ [fr_pts f]) \<le> word_of_int ms
    then \<exists>s'. sync_video_frame ops now s = Inr (0, Some f, s') \<and> as_video s' = fs
          \<and> as_video_out s' = as_video_out s @ [f] \<and> as_played s' = as_played s @ [fr_pts f]
    else sync_video_frame ops now s = Inr (1, None, s)"
proof -
  have "sync_sched s" using sync_reach_inv [OF assms(1)] by simp
  then have "as_video_duration s + gap_ms (as_last_video_ts s) (fr_pts f) = sync_due (as_played s @ [fr_pts f])"
    using assms(2,4) by (auto simp: sync_sched_def sync_due_append gap_ms_def split: if_splits)
  then show ?thesis
    using assms(2-5) by (auto simp: sync_video_frame_def Let_def)
qed

text \<open>
  C19: the schedule: once anchored, and while nothing is buffering, the frame at the head goes out at the
  first poll whose clock reading has reached 40 ms plus the gaps between the timestamps of the frames
  played since, each gap rounded down to whole ms; before that the poll returns nothing and changes
  nothing.
\<close>

theorem av_sync_schedule:
  assumes "sync_reach ops s" "as_video s = f # fs" "\<not> as_buffering s" "as_video_duration s \<noteq> 0"
    and "sync_clock_ms ops now (as_clock s) = Inr ms"
  shows "if sync_due (as_played s @ [fr_pts f]) \<le> word_of_int ms
    then \<exists>s'. sync_video_frame ops now s = Inr (0, Some f, s') \<and> as_video s' = fs
          \<and> as_video_out s' = as_video_out s @ [f] \<and> as_played s' = as_played s @ [fr_pts f]
    else sync_video_frame ops now s = Inr (1, None, s)"
  using assms by (rule sync_poll_due)

definition demo_frame :: "nat \<Rightarrow> 32 word \<Rightarrow> av_frame" where
  "demo_frame i p = \<lparr> fr_id = i, fr_pts = p, fr_sample_rate = 48000 \<rparr>"

text \<open>Two video frames a second apart; one poll anchors the schedule, the next takes a frame.\<close>

definition demo_sync :: "av_timer av_sync" where
  "demo_sync = (av_sync_new 0)
     \<lparr> as_video := [demo_frame 2 90000], as_last_video_ts := 0, as_video_duration := 40,
        as_clock := Internal \<lparr> at_stopped = False, at_start_time = 10, at_end_time = 10 \<rparr>,
        as_refs := (\<lambda>_. 0)(1 := 1, 2 := 1), as_video_in := [demo_frame 1 0, demo_frame 2 90000],
        as_video_out := [demo_frame 1 0], as_held := [demo_frame 1 0], as_played := [0] \<rparr>"

lemma demo_sync_reach: "sync_reach timer_ops demo_sync"
proof -
  let ?f = "demo_frame 1 0" and ?g = "demo_frame 2 90000"
  have "sync_run timer_ops
      [Queue_Video ?f, Settle 0, Queue_Video ?g, Settle 1000, Take_Video 10, Take_Video 60] (av_sync_new 0) = Inr demo_sync"
    by (simp add: av_sync_new_def push_video_queue_def push_video_settle_def frame_add_ref_def sync_video_frame_def
        sync_clock_restart_def sync_clock_ms_def timer_start_clock_def timer_stop_clock_def timer_clock_ms_def
        av_timer_new_def gap_ms_def demo_frame_def demo_sync_def fun_upd_def Let_def cong: if_cong)
  then show ?thesis by (rule sync_run_reach [OF sync_reach.new])
qed

theorem av_sync_fifo_witness:
  "as_video_in demo_sync = as_video_out demo_sync @ as_video demo_sync
   \<and> as_refs (av_sync_destroy demo_sync) 1 = 1 \<and> as_refs (av_sync_destroy demo_sync) 2 = 0"
proof -
  note w = av_sync_fifo [OF demo_sync_reach]
  have "map fr_id (as_held demo_sync) = [1]" by (simp add: demo_sync_def demo_frame_def)
  then show ?thesis using w [of 1] w [of 2] by simp
qed

theorem av_sync_schedule_witness:
  "sync_video_frame timer_ops 1049 demo_sync = Inr (1, None, demo_sync)
   \<and> (\<exists>s'. sync_video_frame timer_ops 1050 demo_sync = Inr (0, Some (demo_frame 2 90000), s'))"
proof -
  have due: "sync_due (as_played demo_sync @ [fr_pts (demo_frame 2 90000)]) = 1040"
    by (simp add: demo_sync_def demo_frame_def sync_due_def gap_ms_def RTP_VIDEO_CLOCK_def)
  have q: "as_video demo_sync = demo_frame 2 90000 # []" "\<not> as_buffering demo_sync" "as_video_duration demo_sync \<noteq> 0"
    by (simp_all add: demo_sync_def av_sync_new_def)
  have ms: "sync_clock_ms timer_ops 1049 (as_clock demo_sync) = Inr 1039"
    "sync_clock_ms timer_ops 1050 (as_clock demo_sync) = Inr 1040"
    by (simp_all add: sync_clock_ms_def timer_clock_ms_def demo_sync_def)
  show ?thesis
    using av_sync_schedule [OF demo_sync_reach q ms(1)] av_sync_schedule [OF demo_sync_reach q ms(2)]
    unfolding due by auto
qed

section \<open>Rounding\<close>

lemma unat_gap_ms_const:
  assumes "1000 * g < 2 ^ 32"
  shows "unat (gap_ms p (p + of_nat g)) = 1000 * g div 90000"
proof -
  have "(of_nat g * 1000 :: 32 word) = of_nat (1000 * g)" by simp
  moreover have "unat (of_nat (1000 * g) :: 32 word) = 1000 * g" by (rule unat_of_nat_small) (use assms in simp)
  ultimately have "unat (of_nat g * 1000 :: 32 word) = 1000 * g" by (simp only:)
  then show ?thesis by (simp add: gap_ms_def RTP_VIDEO_CLOCK_def unat_div_distrib)
qed

lemma unat_sync_due_const:
  assumes "1000 * g < 2 ^ 32" "40 + n * (1000 * g div 90000) < 2 ^ 32"
  shows "unat (sync_due (map (\<lambda>k. p + of_nat (k * g)) [0..<Suc n])) = 40 + n * (1000 * g div 90000)"
  using assms(2)
proof (induction n)
  case (Suc n)
  let ?ps = "map (\<lambda>k. p + of_nat (k * g)) [0..<Suc n]" and ?q = "p + of_nat (n * g) :: 32 word"
  have q: "p + of_nat (Suc n * g) = ?q + of_nat g" by (simp only: mult_Suc of_nat_add add.assoc add.commute [of "of_nat g"])
  have "last ?ps = ?q" by simp
  then have "sync_due (?ps @ [p + of_nat (Suc n * g)]) = sync_due ?ps + gap_ms ?q (?q + of_nat g)"
    unfolding q by (subst sync_due_append) simp_all
  moreover have "unat (sync_due ?ps) = 40 + n * (1000 * g div 90000)" using Suc by simp
  ultimately have "unat (sync_due (?ps @ [p + of_nat (Suc n * g)])) = 40 + Suc n * (1000 * g div 90000)"
    using unat_gap_ms_const [OF assms(1), of ?q] Suc.prems by (simp add: unat_word_ariths)
  moreover have "map (\<lambda>k. p + of_nat (k * g)) [0..<Suc (Suc n)] = ?ps @ [p + of_nat (Suc n * g)]" by (simp del: of_nat_mult mult_Suc of_nat_Suc)
  ultimately show ?case by (simp only:)
qed simp

text \<open>
  The rounding of the gaps adds up: for a stream of constant frame duration \<open>g\<close> (in ticks of the 90 kHz
  clock) the \<open>n\<close>-th frame after the anchor is due at \<open>40 + n * (1000 * g div 90000)\<close> ms, ahead of its
  timestamp by \<open>n\<close> times the fraction of a millisecond that one gap loses; at 30 frames a second that is
  10 ms for every second of video.
\<close>

lemma av_sync_schedule_drifts:
  assumes "1000 * g < 2 ^ 32" "40 + n * (1000 * g div 90000) < 2 ^ 32"
  shows "40 + (1000 * (n * g)) div 90000
    = unat (sync_due (map (\<lambda>k. p + of_nat (k * g)) [0..<Suc n])) + (n * (1000 * g mod 90000)) div 90000"
proof -
  define d m where "d = 1000 * g div 90000" and "m = 1000 * g mod 90000"
  have "1000 * g = m + 90000 * d" by (simp only: d_def m_def mod_mult_div_eq)
  then have "1000 * (n * g) = n * m + 90000 * (n * d)" by (metis add_mult_distrib2 mult.left_commute)
  then have "(1000 * (n * g)) div 90000 = (n * m) div 90000 + n * d" by simp
  then show ?thesis using unat_sync_due_const [OF assms, of p] unfolding d_def m_def by linarith
qed

lemma av_sync_schedule_drifts_witness:
  "40 + (1000 * (3600 * 30 * 3000)) div (90000 :: nat)
     = unat (sync_due (map (\<lambda>k. 7 + of_nat (k * 3000)) [0..<Suc (3600 * 30)])) + 36000"
  using av_sync_schedule_drifts [of 3000 "3600 * 30" 7] by simp

section \<open>Buffering\<close>

lemma video_latency_settles: "300 \<le> to_int32 (uint ((d :: 32 word) div of_nat RTP_VIDEO_CLOCK * 1000)) \<longleftrightarrow> of_nat RTP_VIDEO_CLOCK \<le> d"
proof -
  let ?q = "unat d div 90000"
  have "unat d < 2 ^ 32" using unsigned_less [of d, where ?'a = nat] by simp
  then have q: "?q * 1000 < 2 ^ 31" by (simp add: div_less_iff_less_mult)
  then have "unat (d div of_nat RTP_VIDEO_CLOCK * 1000) = ?q * 1000"
    by (simp add: RTP_VIDEO_CLOCK_def unat_div_distrib unat_word_ariths)
  then have "uint (d div of_nat RTP_VIDEO_CLOCK * 1000) = int (?q * 1000)" by (metis int_nat_eq uint_nat)
  then have "to_int32 (uint (d div of_nat RTP_VIDEO_CLOCK * 1000)) = int (?q * 1000)" using q by simp
  moreover have "90000 \<le> d \<longleftrightarrow> 90000 \<le> unat d" by (simp add: word_le_nat_alt)
  moreover have "300 \<le> int (?q * 1000) \<longleftrightarrow> 1 \<le> ?q" by linarith
  moreover have "1 \<le> ?q \<longleftrightarrow> 90000 \<le> unat d" by (simp add: less_eq_div_iff_mult_less_eq)
  ultimately show ?thesis by (simp add: RTP_VIDEO_CLOCK_def)
qed

lemma push_video_buffering:
  assumes "as_video s = [] \<or> as_buffering s"
  shows "as_buffering (push_video f s) \<longleftrightarrow> as_video s = [] \<or> fr_pts f - fr_pts (hd (as_video s)) < of_nat RTP_VIDEO_CLOCK"
proof -
  have lat: "video_latency_ms (push_video_queue f s) =
      (if as_video s = [] then 0
       else to_int32 (uint ((fr_pts f - fr_pts (hd (as_video s))) div of_nat RTP_VIDEO_CLOCK * 1000)))"
    by (simp add: video_latency_ms_def)
  have b: "as_buffering (push_video_queue f s)"
    using assms by (auto simp: push_video_queue_def frame_add_ref_def Let_def)
  then show ?thesis
    unfolding push_video_def Let_def push_video_settle_def lat
    by (auto simp: video_latency_settles simp flip: not_le)
qed

text \<open>
  Buffering: a frame pushed into an empty queue starts it, and it goes on, with no video and no audio
  handed out, until the queued timestamps span a full second: the latency the code compares with 300
  is computed from whole seconds only.
\<close>

lemma av_sync_buffering:
  assumes "as_video s = [] \<or> as_buffering s"
  shows "if as_video s = [] \<or> fr_pts f - fr_pts (hd (as_video s)) < of_nat RTP_VIDEO_CLOCK
    then as_buffering (push_video f s) \<and> sync_video_frame ops now (push_video f s) = Inr (1, None, push_video f s)
         \<and> sync_audio_frame (push_video f s) = (1, None, push_video f s)
    else \<not> as_buffering (push_video f s)"
  using push_video_buffering [OF assms] by (auto simp: sync_video_frame_def sync_audio_frame_def)

lemma av_sync_buffering_witness:
  "as_buffering (push_video (demo_frame 2 89999) (push_video (demo_frame 1 0) (av_sync_new 0 :: av_timer av_sync)))"
proof -
  let ?s = "av_sync_new 0 :: av_timer av_sync" and ?f = "demo_frame 1 0" and ?g = "demo_frame 2 89999"
  have "as_buffering (push_video ?f ?s)" using av_sync_buffering [of ?s ?f] by (simp add: av_sync_new_def)
  moreover have "as_video (push_video ?f ?s) = [?f]" by (simp add: push_video_def av_sync_new_def Let_def)
  ultimately show ?thesis
    using av_sync_buffering [of "push_video ?f ?s" ?g] by (simp add: demo_frame_def RTP_VIDEO_CLOCK_def)
qed

section \<open>What the synchroniser needs of a clock\<close>

text \<open>Restarting shows zero. The first poll then anchors the schedule and waits, whatever the clock.\<close>

locale av_clock =
  fixes ops :: "'c clock_ops"
  assumes restart: "ck_ms ops now (ck_start ops now 0 (ck_stop ops now c)) = 0"
begin

lemma first_poll:
  assumes "as_video s \<noteq> []" "\<not> as_buffering s" "as_video_duration s = 0" "as_clock s = External (To c)"
  shows "\<exists>c'. ck_ms ops now c' = 0 \<and> sync_video_frame ops now s = Inr (1, None,
    s\<lparr> as_last_video_ts := fr_pts (hd (as_video s)), as_video_duration := 40, as_clock := External (To c'),
       as_played := [] \<rparr>)"
  using assms restart
  by (intro exI [of _ "ck_start ops now 0 (ck_stop ops now c)"])
    (simp add: sync_video_frame_def sync_clock_restart_def sync_clock_ms_def gap_ms_def Let_def)

end

interpretation timer: av_clock timer_ops
  by unfold_locales (simp add: timer_ops_def timer_start_clock_def timer_clock_ms_def)

end
