(* ===== verification/Player.thy ===== *)
theory Player
  imports Av_Sync "HOL-Library.Multiset"
begin

text \<open>
  The players: \<open>Player/BasePlayer\<close>, \<open>VideoPlayer\<close>, \<open>AudioPlayer\<close> and \<open>RtpPlayer\<close>, as owners of reference
  counted objects. An object is a number; the heap holds the counts of the live ones. Whether a
  construction step succeeds is an argument of the operation. The lemmas show that every sequence of
  operations, with every pattern of failures, releases what it holds exactly once, and which pointer the
  code leaves dangling.
\<close>

section \<open>Objects\<close>

record objects =
  ob_next :: nat
  ob_refs :: "nat \<Rightarrow> int option"

definition no_objects :: objects where
  "no_objects = \<lparr> ob_next = 0, ob_refs = (\<lambda>_. None) \<rparr>"

definition obj_new :: "objects \<Rightarrow> nat \<times> objects" where
  "obj_new h = (ob_next h, h\<lparr> ob_next := ob_next h + 1, ob_refs := (ob_refs h)(ob_next h := Some 1) \<rparr>)"

definition obj_add_ref :: "nat \<Rightarrow> objects \<Rightarrow> objects res" where
  "obj_add_ref i h =
     (case ob_refs h i of None \<Rightarrow> Inl Use_After_Free
      | Some n \<Rightarrow> Inr (h\<lparr> ob_refs := (ob_refs h)(i := Some (n + 1)) \<rparr>))"

definition obj_release :: "nat \<Rightarrow> objects \<Rightarrow> objects res" where
  "obj_release i h =
     (case ob_refs h i of None \<Rightarrow> Inl Use_After_Free
      | Some n \<Rightarrow> Inr (h\<lparr> ob_refs := (ob_refs h)(i := (if n = 1 then None else Some (n - 1))) \<rparr>))"

section \<open>A player\<close>

text \<open>
  \<open>pl_params\<close> are the parameters a player notes of the stream: width and height, or sample rate,
  channels and sample size.
\<close>

record player =
  pl_stream :: "nat option"
  pl_decoder :: "nat option"
  pl_renderer :: "nat option"
  pl_sync :: "nat option"
  pl_params :: "int list"
  pl_start_ts :: "32 word"

definition player_new :: "int list \<Rightarrow> player" where
  "player_new junk = \<lparr> pl_stream = None, pl_decoder = None, pl_renderer = None, pl_sync = None, pl_params = junk,
     pl_start_ts = 0 \<rparr>"

definition opt_release :: "nat option \<Rightarrow> objects \<Rightarrow> objects res" where
  "opt_release p h = (case p of None \<Rightarrow> Inr h | Some i \<Rightarrow> obj_release i h)"

text \<open>\<open>BasePlayer::clear\<close>: the pointers are taken under the lock, then each object is released.\<close>

definition player_clear :: "player \<Rightarrow> objects \<Rightarrow> (player \<times> objects) res" where
  "player_clear pl h =
     res_bind (opt_release (pl_stream pl) h) (\<lambda>h.
     res_bind (opt_release (pl_decoder pl) h) (\<lambda>h.
     res_bind (opt_release (pl_renderer pl) h) (\<lambda>h.
     res_bind (opt_release (pl_sync pl) h) (\<lambda>h.
     Inr (pl\<lparr> pl_stream := None, pl_decoder := None, pl_renderer := None, pl_sync := None \<rparr>, h)))))"

definition player_tear :: "int list \<Rightarrow> player \<Rightarrow> objects \<Rightarrow> (player \<times> objects) res" where
  "player_tear zeros pl h = res_bind (player_clear pl h) (\<lambda>(pl, h). Inr (pl\<lparr> pl_params := zeros \<rparr>, h))"

text \<open>
  How the construction steps turn out: the allocation of the renderer; that of the decoder and its
  \<open>build\<close>; that of the stream and its \<open>set_..._media\<close>. A renderer starts exactly with a source.
\<close>

record build_env =
  be_renderer :: bool
  be_decoder :: bool
  be_decoder_build :: bool
  be_stream :: bool
  be_set_media :: bool

definition obj_make :: "bool \<Rightarrow> objects \<Rightarrow> nat option \<times> objects" where
  "obj_make ok h = (if ok then let (i, h) = obj_new h in (Some i, h) else (None, h))"

definition player_build ::
    "bool \<Rightarrow> int list \<Rightarrow> build_env \<Rightarrow> nat option \<Rightarrow> player \<Rightarrow> objects \<Rightarrow> (bool \<times> player \<times> objects) res" where
  "player_build media_ok zeros be sync pl h =
     (if \<not> media_ok then Inr (False, pl, h)
      else
        let fail = (\<lambda>pl h. res_bind (player_tear zeros pl h) (\<lambda>(pl, h). Inr (False, pl, h)));
            (r, h) = obj_make (be_renderer be) h;
            pl = pl\<lparr> pl_renderer := r \<rparr>
        in if r = None then fail pl h
        else if sync = None then fail pl h
        else
          let (d, h) = obj_make (be_decoder be) h; pl = pl\<lparr> pl_decoder := d \<rparr> in
          if d = None \<or> \<not> be_decoder_build be then fail pl h
          else
            let (t, h) = obj_make (be_stream be) h; pl = pl\<lparr> pl_stream := t \<rparr> in
            if t = None then fail pl h
            else if \<not> be_set_media be then fail pl h
            else res_bind (obj_add_ref (the sync) h) (\<lambda>h.
              Inr (True, pl\<lparr> pl_params := zeros, pl_sync := sync \<rparr>, h)))"

definition video_build where
  "video_build media = player_build (media = RTP_MEDIA_VIDEO_AVC \<or> media = RTP_MEDIA_VIDEO_VP8) [0, 0]"

definition audio_build where
  "audio_build media = player_build (media = RTP_MEDIA_AUDIO_AAC \<or> media = RTP_MEDIA_AUDIO_OPUS) [0, 0, 0]"

section \<open>The player of a program\<close>

text \<open>\<open>rp_clock\<close>: the renderer the synchroniser uses as its clock, once \<open>set_clock\<close> was called.\<close>

record rtp_player =
  rp_video :: "(nat \<times> player) option"
  rp_audio :: "(nat \<times> player) option"
  rp_sync :: "nat option"
  rp_clock :: "nat option"
  rp_heap :: objects

definition rtp_player_new :: rtp_player where
  "rtp_player_new = \<lparr> rp_video = None, rp_audio = None, rp_sync = None, rp_clock = None, rp_heap = no_objects \<rparr>"

definition rtp_player_build :: "bool \<Rightarrow> rtp_player \<Rightarrow> bool \<times> rtp_player" where
  "rtp_player_build ok rp =
     (let (s, h) = obj_make ok (rp_heap rp) in (s \<noteq> None, rp\<lparr> rp_sync := s, rp_clock := None, rp_heap := h \<rparr>))"

text \<open>\<open>delete\<close> of a player: its destructors tear it down again, and the object goes whatever its count.\<close>

definition player_delete :: "int list \<Rightarrow> nat \<times> player \<Rightarrow> objects \<Rightarrow> objects res" where
  "player_delete zeros p h =
     res_bind (player_tear zeros (snd p) h) (\<lambda>(pl, h). res_bind (player_clear pl h) (\<lambda>(pl, h).
       if ob_refs h (fst p) = None then Inl Double_Free
       else Inr (h\<lparr> ob_refs := (ob_refs h)(fst p := None) \<rparr>)))"

text \<open>\<open>release\<close> of a player that was torn down: the last reference deletes it.\<close>

definition player_release :: "int list \<Rightarrow> nat \<times> player \<Rightarrow> objects \<Rightarrow> objects res" where
  "player_release zeros p h =
     (case ob_refs h (fst p) of None \<Rightarrow> Inl Use_After_Free
      | Some n \<Rightarrow> if n = 1 then player_delete zeros p h
                   else Inr (h\<lparr> ob_refs := (ob_refs h)(fst p := Some (n - 1)) \<rparr>))"

definition play_video :: "bool \<Rightarrow> build_env \<Rightarrow> int list \<Rightarrow> rtp_media_type \<Rightarrow> rtp_player \<Rightarrow> (bool \<times> rtp_player) res" where
  "play_video new_ok be junk media rp =
     (if rp_video rp \<noteq> None then Inr (False, rp)
      else if \<not> new_ok then Inr (False, rp)
      else
        let (i, h) = obj_new (rp_heap rp) in
        res_bind (video_build media be (rp_sync rp) (player_new junk) h) (\<lambda>(ok, pl, h).
          if \<not> ok then res_bind (player_delete [0, 0] (i, pl) h) (\<lambda>h. Inr (False, rp\<lparr> rp_heap := h \<rparr>))
          else Inr (True, rp\<lparr> rp_video := Some (i, pl), rp_heap := h \<rparr>)))"

definition play_audio :: "bool \<Rightarrow> build_env \<Rightarrow> int list \<Rightarrow> rtp_media_type \<Rightarrow> rtp_player \<Rightarrow> (bool \<times> rtp_player) res" where
  "play_audio new_ok be junk media rp =
     (if rp_audio rp \<noteq> None then Inr (False, rp)
      else if \<not> new_ok then Inr (False, rp)
      else
        let (i, h) = obj_new (rp_heap rp) in
        res_bind (audio_build media be (rp_sync rp) (player_new junk) h) (\<lambda>(ok, pl, h).
          if \<not> ok then res_bind (player_delete [0, 0, 0] (i, pl) h) (\<lambda>h. Inr (False, rp\<lparr> rp_heap := h \<rparr>))
          else Inr (True, rp\<lparr> rp_audio := Some (i, pl), rp_heap := h, rp_clock := pl_renderer pl \<rparr>)))"

definition remove_player :: "int list \<Rightarrow> (nat \<times> player) option \<Rightarrow> objects \<Rightarrow> objects res" where
  "remove_player zeros p h =
     (case p of None \<Rightarrow> Inr h
      | Some (i, pl) \<Rightarrow> res_bind (player_tear zeros pl h) (\<lambda>(pl, h). player_release zeros (i, pl) h))"

definition remove_video :: "rtp_player \<Rightarrow> rtp_player res" where
  "remove_video rp =
     res_bind (remove_player [0, 0] (rp_video rp) (rp_heap rp)) (\<lambda>h. Inr (rp\<lparr> rp_video := None, rp_heap := h \<rparr>))"

definition remove_audio :: "rtp_player \<Rightarrow> rtp_player res" where
  "remove_audio rp =
     res_bind (remove_player [0, 0, 0] (rp_audio rp) (rp_heap rp)) (\<lambda>h. Inr (rp\<lparr> rp_audio := None, rp_heap := h \<rparr>))"

definition rtp_player_tear :: "rtp_player \<Rightarrow> rtp_player res" where
  "rtp_player_tear rp =
     res_bind (remove_video rp) (\<lambda>rp. res_bind (remove_audio rp) (\<lambda>rp.
       res_bind (opt_release (rp_sync rp) (rp_heap rp)) (\<lambda>h. Inr (rp\<lparr> rp_sync := None, rp_heap := h \<rparr>))))"

section \<open>Who owns what\<close>

text \<open>A heap whose counts are exactly the references of a multiset.\<close>

definition owns :: "objects \<Rightarrow> nat multiset \<Rightarrow> bool" where
  "owns h M \<longleftrightarrow> (\<forall>i. ob_refs h i = (if i \<in># M then Some (int (count M i)) else None))
     \<and> (\<forall>i\<in>#M. i < ob_next h)"

lemma owns_new: "owns h M \<Longrightarrow> owns (snd (obj_new h)) (add_mset (ob_next h) M) \<and> count M (ob_next h) = 0"
  by (auto simp: owns_def obj_new_def less_Suc_eq not_in_iff)

lemma owns_add_ref:
  "owns h M \<Longrightarrow> i \<in># M \<Longrightarrow> \<exists>h'. obj_add_ref i h = Inr h' \<and> owns h' (add_mset i M) \<and> ob_next h' = ob_next h"
  by (auto simp: owns_def obj_add_ref_def)

lemma owns_release:
  "owns h (add_mset i M) \<Longrightarrow> \<exists>h'. obj_release i h = Inr h' \<and> owns h' M \<and> ob_next h' = ob_next h"
  by (auto simp: owns_def obj_release_def not_in_iff split: if_splits)

definition opt_mset :: "nat option \<Rightarrow> nat multiset" where
  "opt_mset p = (case p of None \<Rightarrow> {#} | Some i \<Rightarrow> {#i#})"

lemma opt_mset_simps [simp]: "opt_mset None = {#}" "opt_mset (Some i) = {#i#}"
  by (simp_all add: opt_mset_def)

lemma owns_opt_release:
  "owns h (opt_mset p + M) \<Longrightarrow> \<exists>h'. opt_release p h = Inr h' \<and> owns h' M \<and> ob_next h' = ob_next h"
  using owns_release by (cases p) (auto simp: opt_release_def)

definition player_refs :: "player \<Rightarrow> nat multiset" where
  "player_refs pl = opt_mset (pl_stream pl) + opt_mset (pl_decoder pl) + opt_mset (pl_renderer pl) + opt_mset (pl_sync pl)"

definition player_idle :: "player \<Rightarrow> bool" where
  "player_idle pl \<longleftrightarrow> pl_stream pl = None \<and> pl_decoder pl = None \<and> pl_renderer pl = None \<and> pl_sync pl = None"

lemma player_refs_idle [simp]: "player_idle pl \<Longrightarrow> player_refs pl = {#}"
  by (simp add: player_idle_def player_refs_def)

lemma owns_clear:
  assumes "owns h (player_refs pl + M)"
  shows "\<exists>pl' h'. player_clear pl h = Inr (pl', h') \<and> player_idle pl' \<and> owns h' M \<and> ob_next h' = ob_next h"
proof -
  have "owns h (opt_mset (pl_stream pl) + (opt_mset (pl_decoder pl) + (opt_mset (pl_renderer pl) + (opt_mset (pl_sync pl) + M))))"
    using assms by (simp add: player_refs_def add.assoc)
  then obtain h1 where h1: "opt_release (pl_stream pl) h = Inr h1" "ob_next h1 = ob_next h"
    "owns h1 (opt_mset (pl_decoder pl) + (opt_mset (pl_renderer pl) + (opt_mset (pl_sync pl) + M)))"
    using owns_opt_release by blast
  obtain h2 where h2: "opt_release (pl_decoder pl) h1 = Inr h2" "owns h2 (opt_mset (pl_renderer pl) + (opt_mset (pl_sync pl) + M))"
    "ob_next h2 = ob_next h1" using owns_opt_release [OF h1(3)] by blast
  obtain h3 where h3: "opt_release (pl_renderer pl) h2 = Inr h3" "owns h3 (opt_mset (pl_sync pl) + M)"
    "ob_next h3 = ob_next h2" using owns_opt_release [OF h2(2)] by blast
  obtain h4 where h4: "opt_release (pl_sync pl) h3 = Inr h4" "owns h4 M" "ob_next h4 = ob_next h3"
    using owns_opt_release [OF h3(2)] by blast
  show ?thesis using h1 h2 h3 h4 by (simp add: player_clear_def player_idle_def)
qed

lemma owns_tear:
  assumes "owns h (player_refs pl + M)"
  shows "\<exists>pl' h'. player_tear zeros pl h = Inr (pl', h') \<and> player_idle pl' \<and> owns h' M \<and> ob_next h' = ob_next h"
  using owns_clear [OF assms] by (auto simp: player_tear_def player_idle_def)

lemma owns_make:
  assumes "owns h M" "obj_make ok h = (p, h')"
  shows "owns h' (opt_mset p + M)" "ob_next h \<le> ob_next h'" "p = Some i \<Longrightarrow> i = ob_next h" "(p = None) = (\<not> ok)"
  using assms owns_new [OF assms(1)] by (auto simp: obj_make_def obj_new_def Let_def split: if_splits)

lemma owns_build:
  assumes "owns h M" "player_idle pl" "\<And>s. sync = Some s \<Longrightarrow> s \<in># M"
  shows "\<exists>ok pl' h'. player_build media_ok zeros be sync pl h = Inr (ok, pl', h') \<and> owns h' (player_refs pl' + M)
    \<and> ob_next h \<le> ob_next h' \<and> (\<not> ok \<longrightarrow> player_idle pl') \<and> (ok \<longrightarrow> pl_renderer pl' = Some (ob_next h))
    \<and> (\<forall>x\<in>#player_refs pl'. ob_next h \<le> x \<or> sync = Some x)"
proof -
  have tear: "\<exists>pl' h'. player_tear zeros pl h = Inr (pl', h') \<and> player_idle pl' \<and> owns h' M \<and> ob_next h' = ob_next h"
    if "owns h (player_refs pl + M)" for pl h using owns_tear [OF that] .
  obtain r h1 where r: "obj_make (be_renderer be) h = (r, h1)" by force
  note o1 = owns_make [OF assms(1) r]
  obtain d h2 where d: "obj_make (be_decoder be) h1 = (d, h2)" by force
  note o2 = owns_make [OF o1(1) d]
  obtain t h3 where t: "obj_make (be_stream be) h2 = (t, h3)" by force
  note o3 = owns_make [OF o2(1) t]
  let ?p1 = "pl\<lparr> pl_renderer := r \<rparr>" let ?p2 = "?p1\<lparr> pl_decoder := d \<rparr>" let ?p3 = "?p2\<lparr> pl_stream := t \<rparr>"
  have i: "pl_stream pl = None" "pl_decoder pl = None" "pl_renderer pl = None" "pl_sync pl = None"
    using assms(2) by (simp_all add: player_idle_def)
  have w1: "owns h1 (player_refs ?p1 + M)" using o1(1) i by (simp add: player_refs_def)
  have w2: "owns h2 (player_refs ?p2 + M)" using o2(1) i by (simp add: player_refs_def add.assoc)
  have w3: "owns h3 (player_refs ?p3 + M)" using o3(1) i by (simp add: player_refs_def add.assoc)
  show ?thesis
  proof (cases "media_ok \<and> r \<noteq> None \<and> sync \<noteq> None \<and> d \<noteq> None \<and> be_decoder_build be \<and> t \<noteq> None \<and> be_set_media be")
    case True
    then obtain s where s: "sync = Some s" "s \<in># player_refs ?p3 + M" using assms(3) by auto
    obtain h4 where "obj_add_ref s h3 = Inr h4" "owns h4 (add_mset s (player_refs ?p3 + M))" "ob_next h4 = ob_next h3"
      using owns_add_ref [OF w3 s(2)] by blast
    moreover obtain r' d' t' where rdt: "r = Some r'" "d = Some d'" "t = Some t'" using True by auto
    moreover from this have "r' = ob_next h" "d' = ob_next h1" "t' = ob_next h2" using o1(3) o2(3) o3(3) by auto
    moreover have "player_build media_ok zeros be sync pl h = Inr (True, ?p3\<lparr> pl_params := zeros, pl_sync := sync \<rparr>, h4)"
      using True r d t s(1) rdt calculation(1) by (simp add: player_build_def)
    moreover have "player_refs (?p3\<lparr> pl_params := zeros, pl_sync := sync \<rparr>) = add_mset s (player_refs ?p3)"
      using i s(1) by (simp add: player_refs_def)
    ultimately show ?thesis using i o1(2) o2(2) o3(2) s(1) by (auto simp: player_refs_def)
  next
    case False
    let ?fail = "\<lambda>pl h. res_bind (player_tear zeros pl h) (\<lambda>(pl, h). Inr (False, pl, h))"
    have "player_build media_ok zeros be sync pl h \<in> {Inr (False, pl, h), ?fail ?p1 h1, ?fail ?p2 h2, ?fail ?p3 h3}"
      using False r d t by (auto simp: player_build_def Let_def)
    moreover have "\<exists>pl' h'. ?fail ?p1 h1 = Inr (False, pl', h') \<and> player_idle pl' \<and> owns h' M \<and> ob_next h' = ob_next h1"
      "\<exists>pl' h'. ?fail ?p2 h2 = Inr (False, pl', h') \<and> player_idle pl' \<and> owns h' M \<and> ob_next h' = ob_next h2"
      "\<exists>pl' h'. ?fail ?p3 h3 = Inr (False, pl', h') \<and> player_idle pl' \<and> owns h' M \<and> ob_next h' = ob_next h3"
      using tear [OF w1] tear [OF w2] tear [OF w3] by auto
    moreover have "ob_next h \<le> ob_next h1" "ob_next h \<le> ob_next h2" "ob_next h \<le> ob_next h3"
      using o1(2) o2(2) o3(2) by auto
    ultimately have "\<exists>pl' h'. player_build media_ok zeros be sync pl h = Inr (False, pl', h') \<and> player_idle pl' \<and> owns h' M
        \<and> ob_next h \<le> ob_next h'"
      using assms(1,2) by auto
    then show ?thesis by auto
  qed
qed

section \<open>The life of an \<open>RtpPlayer\<close>\<close>

definition slot_refs :: "(nat \<times> player) option \<Rightarrow> nat multiset" where
  "slot_refs p = (case p of None \<Rightarrow> {#} | Some (i, pl) \<Rightarrow> add_mset i (player_refs pl))"

lemma slot_refs_simps [simp]: "slot_refs None = {#}" "slot_refs (Some (i, pl)) = add_mset i (player_refs pl)"
  by (simp_all add: slot_refs_def)

definition rp_refs :: "rtp_player \<Rightarrow> nat multiset" where
  "rp_refs rp = opt_mset (rp_sync rp) + slot_refs (rp_video rp) + slot_refs (rp_audio rp)"

text \<open>A player object is referenced by its slot alone.\<close>

definition slot_ok :: "(nat \<times> player) option \<Rightarrow> nat multiset \<Rightarrow> bool" where
  "slot_ok p M \<longleftrightarrow> (\<forall>i pl. p = Some (i, pl) \<longrightarrow> count M i = 1)"

definition rp_inv :: "rtp_player \<Rightarrow> bool" where
  "rp_inv rp \<longleftrightarrow> owns (rp_heap rp) (rp_refs rp) \<and> slot_ok (rp_video rp) (rp_refs rp) \<and> slot_ok (rp_audio rp) (rp_refs rp)"

lemma rp_inv_new: "rp_inv rtp_player_new"
  by (simp add: rp_inv_def rtp_player_new_def rp_refs_def owns_def no_objects_def slot_ok_def)

lemma owns_delete:
  assumes "owns h (add_mset i (player_refs pl + M))" "i \<notin># M"
  shows "\<exists>h'. player_delete zeros (i, pl) h = Inr h' \<and> owns h' M \<and> ob_next h' = ob_next h"
proof -
  have "owns h (player_refs pl + add_mset i M)" using assms(1) by simp
  then obtain pl1 h1 where t: "player_tear zeros pl h = Inr (pl1, h1)" "player_idle pl1" "owns h1 (add_mset i M)"
    "ob_next h1 = ob_next h" using owns_tear by blast
  then have "owns h1 (player_refs pl1 + add_mset i M)" by simp
  then obtain pl2 h2 where c: "player_clear pl1 h1 = Inr (pl2, h2)" "owns h2 (add_mset i M)" "ob_next h2 = ob_next h1"
    using owns_clear by blast
  have "ob_refs h2 i = Some 1" using c(2) assms(2) by (simp add: owns_def not_in_iff)
  moreover have "owns (h2\<lparr> ob_refs := (ob_refs h2)(i := None) \<rparr>) M"
    using c(2) assms(2) by (auto simp: owns_def)
  ultimately show ?thesis using t c by (simp add: player_delete_def)
qed

lemma remove_player_ok:
  assumes "owns h (slot_refs p + M)" "slot_ok p (slot_refs p + M)"
  shows "\<exists>h'. remove_player zeros p h = Inr h' \<and> owns h' M \<and> ob_next h' = ob_next h"
proof (cases p)
  case None
  then show ?thesis using assms by (simp add: remove_player_def)
next
  case (Some q)
  obtain i pl where q: "q = (i, pl)" by force
  have o: "owns h (player_refs pl + add_mset i M)" using assms(1) by (simp add: Some q)
  obtain pl1 h1 where t: "player_tear zeros pl h = Inr (pl1, h1)" "player_idle pl1" "owns h1 (add_mset i M)"
    "ob_next h1 = ob_next h" using owns_tear [OF o] by blast
  have c: "count M i = 0" using assms(2) by (simp add: slot_ok_def Some q)
  then have n: "i \<notin># M" by (simp add: not_in_iff)
  have "owns h1 (add_mset i (player_refs pl1 + M))" using t by simp
  from owns_delete [OF this n] obtain h2 where d: "player_delete zeros (i, pl1) h1 = Inr h2" "owns h2 M"
    "ob_next h2 = ob_next h1" by blast
  have "ob_refs h1 i = Some 1" using t(3) n by (simp add: owns_def not_in_iff)
  then show ?thesis using t d by (simp add: remove_player_def Some q player_release_def)
qed

lemma remove_video_ok:
  assumes "rp_inv rp"
  shows "\<exists>rp'. remove_video rp = Inr rp' \<and> rp_inv rp' \<and> rp_video rp' = None \<and> rp_audio rp' = rp_audio rp
    \<and> rp_sync rp' = rp_sync rp \<and> rp_clock rp' = rp_clock rp"
proof -
  have r: "rp_refs rp = slot_refs (rp_video rp) + (opt_mset (rp_sync rp) + slot_refs (rp_audio rp))"
    by (simp add: rp_refs_def ac_simps)
  obtain h where h: "remove_player [0, 0] (rp_video rp) (rp_heap rp) = Inr h"
    "owns h (opt_mset (rp_sync rp) + slot_refs (rp_audio rp))"
    using remove_player_ok [of "rp_heap rp" "rp_video rp" _ "[0, 0]"] assms unfolding rp_inv_def r by blast
  have "slot_ok (rp_audio rp) (opt_mset (rp_sync rp) + slot_refs (rp_audio rp))"
    using assms by (auto simp: rp_inv_def rp_refs_def slot_ok_def)
  then show ?thesis using h by (simp add: remove_video_def rp_inv_def rp_refs_def slot_ok_def)
qed

lemma remove_audio_ok:
  assumes "rp_inv rp"
  shows "\<exists>rp'. remove_audio rp = Inr rp' \<and> rp_inv rp' \<and> rp_audio rp' = None \<and> rp_video rp' = rp_video rp
    \<and> rp_sync rp' = rp_sync rp \<and> rp_clock rp' = rp_clock rp"
proof -
  have r: "rp_refs rp = slot_refs (rp_audio rp) + (opt_mset (rp_sync rp) + slot_refs (rp_video rp))"
    by (simp add: rp_refs_def ac_simps)
  obtain h where h: "remove_player [0, 0, 0] (rp_audio rp) (rp_heap rp) = Inr h"
    "owns h (opt_mset (rp_sync rp) + slot_refs (rp_video rp))"
    using remove_player_ok [of "rp_heap rp" "rp_audio rp" _ "[0, 0, 0]"] assms unfolding rp_inv_def r by blast
  have "slot_ok (rp_video rp) (opt_mset (rp_sync rp) + slot_refs (rp_video rp))"
    using assms by (auto simp: rp_inv_def rp_refs_def slot_ok_def)
  then show ?thesis using h by (simp add: remove_audio_def rp_inv_def rp_refs_def slot_ok_def)
qed

text \<open>A player that is built is new to everybody.\<close>

lemma play_ok:
  assumes "rp_inv rp"
  obtains ok pl h where "player_build media_ok zeros be (rp_sync rp) (player_new junk) (snd (obj_new (rp_heap rp))) = Inr (ok, pl, h)"
    "owns h (add_mset (ob_next (rp_heap rp)) (player_refs pl + rp_refs rp))" "ob_next (rp_heap rp) \<notin># rp_refs rp"
    "ok \<Longrightarrow> pl_renderer pl = Some (ob_next (rp_heap rp) + 1)"
    "\<not> ok \<Longrightarrow> \<exists>h'. player_delete zeros (ob_next (rp_heap rp), pl) h = Inr h' \<and> owns h' (rp_refs rp)"
    "\<forall>x\<in>#player_refs pl. ob_next (rp_heap rp) < x \<or> rp_sync rp = Some x"
proof -
  let ?i = "ob_next (rp_heap rp)" and ?h = "snd (obj_new (rp_heap rp))"
  have o: "owns ?h (add_mset ?i (rp_refs rp))" "count (rp_refs rp) ?i = 0"
    using owns_new assms by (simp_all add: rp_inv_def)
  have idle: "player_idle (player_new junk)" by (simp add: player_idle_def player_new_def)
  have n: "ob_next ?h = ?i + 1" by (simp add: obj_new_def)
  have sync: "s \<in># add_mset ?i (rp_refs rp)" if "rp_sync rp = Some s" for s using that by (simp add: rp_refs_def)
  obtain ok pl h where b: "player_build media_ok zeros be (rp_sync rp) (player_new junk) ?h = Inr (ok, pl, h)"
    "owns h (player_refs pl + add_mset ?i (rp_refs rp))" "ob_next ?h \<le> ob_next h" "\<not> ok \<longrightarrow> player_idle pl"
    "ok \<longrightarrow> pl_renderer pl = Some (ob_next ?h)" "\<forall>x\<in>#player_refs pl. ob_next ?h \<le> x \<or> rp_sync rp = Some x"
    using owns_build [OF o(1) idle sync] by blast
  have w: "owns h (add_mset ?i (player_refs pl + rp_refs rp))" using b(2) by simp
  have fresh: "?i \<notin># rp_refs rp" using o(2) by (simp add: not_in_iff)
  have del: "\<exists>h'. player_delete zeros (?i, pl) h = Inr h' \<and> owns h' (rp_refs rp)" using owns_delete [OF w fresh] by blast
  have "\<forall>x\<in>#player_refs pl. ?i < x \<or> rp_sync rp = Some x" using b(6) n by (auto simp: Suc_le_eq)
  moreover have "ok \<Longrightarrow> pl_renderer pl = Some (?i + 1)" using b(5) n by simp
  ultimately show thesis using that [OF b(1) w fresh _ del] by blast
qed

text \<open>Putting it into its empty slot.\<close>

lemma slot_fill:
  assumes "owns h0 M" "slot_ok p M" "M = opt_mset sync + slot_refs p" "i = ob_next h0"
    and "\<forall>x\<in>#player_refs pl. i < x \<or> sync = Some x"
  shows "slot_ok (Some (i, pl)) (add_mset i (player_refs pl + M)) \<and> slot_ok p (add_mset i (player_refs pl + M))"
proof -
  have below: "x < i" if "x \<in># M" for x using assms(1,4) that by (simp add: owns_def)
  then have "i \<notin># M" by blast
  moreover have "i \<notin># player_refs pl" using assms(5) below assms(3) by fastforce
  moreover have "count (player_refs pl) j = 0 \<and> j \<noteq> i" if "p = Some (j, q)" for j q
  proof -
    have "count M j = 1" using assms(2) that by (simp add: slot_ok_def)
    then have "sync \<noteq> Some j" "j \<in># M" using assms(3) that by auto
    then show ?thesis using assms(5) below [of j] by (auto simp: count_eq_zero_iff)
  qed
  ultimately show ?thesis using assms(2) by (auto simp: slot_ok_def count_eq_zero_iff)
qed

lemma play_video_ok:
  assumes "rp_inv rp"
  shows "\<exists>ok rp'. play_video new_ok be junk media rp = Inr (ok, rp') \<and> rp_inv rp' \<and> rp_sync rp' = rp_sync rp"
proof (cases "rp_video rp = None \<and> new_ok")
  case False
  then show ?thesis using assms by (auto simp: play_video_def)
next
  case True
  obtain ok pl h where p: "video_build media be (rp_sync rp) (player_new junk) (snd (obj_new (rp_heap rp))) = Inr (ok, pl, h)"
    "owns h (add_mset (ob_next (rp_heap rp)) (player_refs pl + rp_refs rp))"
    "\<not> ok \<Longrightarrow> \<exists>h'. player_delete [0, 0] (ob_next (rp_heap rp), pl) h = Inr h' \<and> owns h' (rp_refs rp)"
    "\<forall>x\<in>#player_refs pl. ob_next (rp_heap rp) < x \<or> rp_sync rp = Some x"
    using play_ok [OF assms, of "media = RTP_MEDIA_VIDEO_AVC \<or> media = RTP_MEDIA_VIDEO_VP8" "[0, 0]" be junk]
    unfolding video_build_def by metis
  let ?i = "ob_next (rp_heap rp)"
  obtain h1 where new: "obj_new (rp_heap rp) = (?i, h1)" by (simp add: obj_new_def)
  have m: "rp_refs rp = opt_mset (rp_sync rp) + slot_refs (rp_audio rp)" using True by (simp add: rp_refs_def)
  have slots: "slot_ok (Some (?i, pl)) (add_mset ?i (player_refs pl + rp_refs rp))"
    "slot_ok (rp_audio rp) (add_mset ?i (player_refs pl + rp_refs rp))"
    using slot_fill [OF _ _ m refl p(4)] assms by (simp_all add: rp_inv_def)
  let ?rp = "rp\<lparr> rp_video := Some (?i, pl), rp_heap := h \<rparr>"
  have r: "rp_refs ?rp = add_mset ?i (player_refs pl + rp_refs rp)" using True by (simp add: rp_refs_def ac_simps)
  have "rp_inv ?rp" using p(2) slots by (simp add: rp_inv_def r)
  moreover have "play_video new_ok be junk media rp = (if ok then Inr (True, ?rp)
      else res_bind (player_delete [0, 0] (?i, pl) h) (\<lambda>h. Inr (False, rp\<lparr> rp_heap := h \<rparr>)))"
    using True p(1) by (simp add: play_video_def new)
  moreover have "rp_inv (rp\<lparr> rp_heap := h' \<rparr>)" if "owns h' (rp_refs rp)" for h'
    using assms that by (simp add: rp_inv_def rp_refs_def)
  ultimately show ?thesis using p(3) by (cases ok) auto
qed

lemma play_audio_ok:
  assumes "rp_inv rp"
  shows "\<exists>ok rp'. play_audio new_ok be junk media rp = Inr (ok, rp') \<and> rp_inv rp' \<and> rp_sync rp' = rp_sync rp
    \<and> (ok \<longrightarrow> rp_audio rp = None \<and> rp_clock rp' = Some (ob_next (rp_heap rp) + 1) \<and> rp_video rp' = rp_video rp)"
proof (cases "rp_audio rp = None \<and> new_ok")
  case False
  then show ?thesis using assms by (auto simp: play_audio_def)
next
  case True
  obtain ok pl h where p: "audio_build media be (rp_sync rp) (player_new junk) (snd (obj_new (rp_heap rp))) = Inr (ok, pl, h)"
    "owns h (add_mset (ob_next (rp_heap rp)) (player_refs pl + rp_refs rp))"
    "\<not> ok \<Longrightarrow> \<exists>h'. player_delete [0, 0, 0] (ob_next (rp_heap rp), pl) h = Inr h' \<and> owns h' (rp_refs rp)"
    "\<forall>x\<in>#player_refs pl. ob_next (rp_heap rp) < x \<or> rp_sync rp = Some x"
    "ok \<Longrightarrow> pl_renderer pl = Some (ob_next (rp_heap rp) + 1)"
    using play_ok [OF assms, of "media = RTP_MEDIA_AUDIO_AAC \<or> media = RTP_MEDIA_AUDIO_OPUS" "[0, 0, 0]" be junk]
    unfolding audio_build_def by metis
  let ?i = "ob_next (rp_heap rp)"
  obtain h1 where new: "obj_new (rp_heap rp) = (?i, h1)" by (simp add: obj_new_def)
  have m: "rp_refs rp = opt_mset (rp_sync rp) + slot_refs (rp_video rp)" using True by (simp add: rp_refs_def)
  have slots: "slot_ok (Some (?i, pl)) (add_mset ?i (player_refs pl + rp_refs rp))"
    "slot_ok (rp_video rp) (add_mset ?i (player_refs pl + rp_refs rp))"
    using slot_fill [OF _ _ m refl p(4)] assms by (simp_all add: rp_inv_def)
  let ?rp = "rp\<lparr> rp_audio := Some (?i, pl), rp_heap := h, rp_clock := pl_renderer pl \<rparr>"
  have r: "rp_refs ?rp = add_mset ?i (player_refs pl + rp_refs rp)" using True by (simp add: rp_refs_def ac_simps)
  have "rp_inv ?rp" using p(2) slots by (simp add: rp_inv_def r)
  moreover have "play_audio new_ok be junk media rp = (if ok then Inr (True, ?rp)
      else res_bind (player_delete [0, 0, 0] (?i, pl) h) (\<lambda>h. Inr (False, rp\<lparr> rp_heap := h \<rparr>)))"
    using True p(1) by (simp add: play_audio_def new)
  moreover have "rp_inv (rp\<lparr> rp_heap := h' \<rparr>)" if "owns h' (rp_refs rp)" for h'
    using assms that by (simp add: rp_inv_def rp_refs_def)
  ultimately show ?thesis using p(3,5) True by (cases ok) auto
qed

datatype player_call =
    Call_Build bool
  | Call_Play_Video bool build_env "int list" rtp_media_type
  | Call_Play_Audio bool build_env "int list" rtp_media_type
  | Call_Remove_Video
  | Call_Remove_Audio
  | Call_Tear

fun player_do :: "player_call \<Rightarrow> rtp_player \<Rightarrow> rtp_player res" where
  "player_do (Call_Build ok) rp = Inr (snd (rtp_player_build ok rp))"
| "player_do (Call_Play_Video new_ok be junk media) rp = res_bind (play_video new_ok be junk media rp) (\<lambda>(ok, rp). Inr rp)"
| "player_do (Call_Play_Audio new_ok be junk media) rp = res_bind (play_audio new_ok be junk media rp) (\<lambda>(ok, rp). Inr rp)"
| "player_do Call_Remove_Video rp = remove_video rp"
| "player_do Call_Remove_Audio rp = remove_audio rp"
| "player_do Call_Tear rp = rtp_player_tear rp"

fun player_run :: "player_call list \<Rightarrow> rtp_player \<Rightarrow> rtp_player res" where
  "player_run [] rp = Inr rp"
| "player_run (a # as) rp = res_bind (player_do a rp) (player_run as)"

text \<open>A client that builds a player only when it has not been built, or was torn down since.\<close>

fun calls_ok :: "player_call list \<Rightarrow> rtp_player \<Rightarrow> bool" where
  "calls_ok [] rp = True"
| "calls_ok (a # as) rp =
     ((case a of Call_Build ok \<Rightarrow> rp_sync rp = None | _ \<Rightarrow> True)
      \<and> (case player_do a rp of Inl _ \<Rightarrow> True | Inr rp' \<Rightarrow> calls_ok as rp'))"

lemma rp_tear_ok:
  assumes "rp_inv rp"
  shows "\<exists>rp'. rtp_player_tear rp = Inr rp' \<and> rp_inv rp' \<and> rp_refs rp' = {#} \<and> ob_refs (rp_heap rp') = (\<lambda>_. None)"
proof -
  obtain rp1 where v: "remove_video rp = Inr rp1" "rp_inv rp1" "rp_video rp1 = None" using remove_video_ok [OF assms] by blast
  obtain rp2 where a: "remove_audio rp1 = Inr rp2" "rp_inv rp2" "rp_audio rp2 = None" "rp_video rp2 = rp_video rp1"
    using remove_audio_ok [OF v(2)] by blast
  have "owns (rp_heap rp2) (opt_mset (rp_sync rp2) + {#})" using a v by (simp add: rp_inv_def rp_refs_def)
  then obtain h where h: "opt_release (rp_sync rp2) (rp_heap rp2) = Inr h" "owns h {#}" using owns_opt_release by blast
  then have "ob_refs h = (\<lambda>_. None)" by (auto simp: owns_def)
  then show ?thesis
    using v a h by (simp add: rtp_player_tear_def rp_inv_def rp_refs_def slot_ok_def)
qed

lemma player_do_ok:
  assumes "rp_inv rp" "case a of Call_Build ok \<Rightarrow> rp_sync rp = None | _ \<Rightarrow> True"
  shows "\<exists>rp'. player_do a rp = Inr rp' \<and> rp_inv rp'"
proof (cases a)
  case (Call_Build ok)
  obtain p h where m: "obj_make ok (rp_heap rp) = (p, h)" by force
  have none: "rp_sync rp = None" using assms(2) Call_Build by simp
  have o: "owns (rp_heap rp) (rp_refs rp)" using assms(1) by (simp add: rp_inv_def)
  note w = owns_make [OF o m]
  have "q \<notin># rp_refs rp" if "p = Some q" for q using o w(3) [OF that] by (auto simp: owns_def)
  then have "slot_ok (rp_video rp) (opt_mset p + rp_refs rp) \<and> slot_ok (rp_audio rp) (opt_mset p + rp_refs rp)"
    using assms(1) by (cases p) (auto simp: rp_inv_def slot_ok_def not_in_iff)
  then show ?thesis
    using Call_Build w(1) none m by (simp add: rtp_player_build_def rp_inv_def rp_refs_def ac_simps)
next
  case (Call_Play_Video new_ok be junk media)
  then show ?thesis using play_video_ok [OF assms(1), of new_ok be junk media] by auto
next
  case (Call_Play_Audio new_ok be junk media)
  then show ?thesis using play_audio_ok [OF assms(1), of new_ok be junk media] by auto
next
  case Call_Remove_Video
  then show ?thesis using remove_video_ok [OF assms(1)] by auto
next
  case Call_Remove_Audio
  then show ?thesis using remove_audio_ok [OF assms(1)] by auto
next
  case Call_Tear
  then show ?thesis using rp_tear_ok [OF assms(1)] by auto
qed

lemma player_run_ok: "rp_inv rp \<Longrightarrow> calls_ok as rp \<Longrightarrow> \<exists>rp'. player_run as rp = Inr rp' \<and> rp_inv rp'"
proof (induction as arbitrary: rp)
  case (Cons a as)
  obtain rp1 where "player_do a rp = Inr rp1" "rp_inv rp1"
    using player_do_ok [OF Cons.prems(1), of a] Cons.prems(2) by auto
  then show ?case using Cons by simp
qed simp


definition all_ok :: build_env where
  "all_ok = \<lparr> be_renderer = True, be_decoder = True, be_decoder_build = True, be_stream = True, be_set_media = True \<rparr>"

definition demo_calls :: "player_call list" where
  "demo_calls = [Call_Build True, Call_Play_Video True (all_ok\<lparr> be_set_media := False \<rparr>) [] RTP_MEDIA_VIDEO_VP8,
     Call_Play_Video True all_ok [] RTP_MEDIA_VIDEO_VP8]"

lemma demo_calls_ok: "calls_ok demo_calls rtp_player_new"
  by (simp add: demo_calls_def rtp_player_new_def split: sum.split)


section \<open>The clock that is left behind\<close>

text \<open>The clock pointer of the synchroniser, as the heap has it; \<open>c\<close> is the renderer's state.\<close>

definition clock_cell :: "rtp_player \<Rightarrow> 'c \<Rightarrow> 'c ptr" where
  "clock_cell rp c = (case rp_clock rp of None \<Rightarrow> Null | Some r \<Rightarrow> if ob_refs (rp_heap rp) r = None then Freed else To c)"

text \<open>
  C40: removing the audio leaves the synchroniser with a dangling clock: after any calls, if \<open>play_audio\<close>
  succeeds and \<open>remove_audio\<close> follows, the clock is still the audio renderer, which is freed, and the next
  poll of the video renderer that finds a frame, while nothing is buffering, uses it.
\<close>

theorem rtp_player_clock_dangles:
  assumes "calls_ok as rtp_player_new" "player_run as rtp_player_new = Inr rp"
    and "play_audio new_ok be junk media rp = Inr (True, rp1)"
    and "as_video s \<noteq> []" "\<not> as_buffering s"
  shows "\<exists>rp2. remove_audio rp1 = Inr rp2 \<and> clock_cell rp2 c = Freed
    \<and> sync_video_frame ops now (set_clock (clock_cell rp2 c) s) = Inl Use_After_Free"
proof -
  have inv: "rp_inv rp" using player_run_ok [OF rp_inv_new assms(1)] assms(2) by simp
  have p: "rp_inv rp1" "rp_audio rp = None" "rp_clock rp1 = Some (ob_next (rp_heap rp) + 1)" "rp_sync rp1 = rp_sync rp"
    "rp_video rp1 = rp_video rp"
    using play_audio_ok [OF inv, of new_ok be junk media] assms(3) by auto
  obtain rp2 where r: "remove_audio rp1 = Inr rp2" "rp_inv rp2" "rp_audio rp2 = None" "rp_video rp2 = rp_video rp1"
    "rp_sync rp2 = rp_sync rp1" "rp_clock rp2 = rp_clock rp1"
    using remove_audio_ok [OF p(1)] by blast
  have "rp_refs rp2 = rp_refs rp" using p r by (simp add: rp_refs_def)
  moreover have "ob_next (rp_heap rp) + 1 \<notin># rp_refs rp" using inv by (auto simp: rp_inv_def owns_def)
  ultimately have "ob_refs (rp_heap rp2) (ob_next (rp_heap rp) + 1) = None" using r(2) by (simp add: rp_inv_def owns_def)
  then have "clock_cell rp2 c = Freed" using p(3) r(6) by (simp add: clock_cell_def)
  then show ?thesis
    using r(1) assms(4,5)
    by (auto simp: sync_video_frame_def set_clock_def sync_clock_restart_def sync_clock_ms_def Let_def)
qed

theorem rtp_player_clock_dangles_witness:
  "\<exists>rp rp1 rp2. player_run [Call_Build True] rtp_player_new = Inr rp
     \<and> play_audio True all_ok [] RTP_MEDIA_AUDIO_OPUS rp = Inr (True, rp1) \<and> remove_audio rp1 = Inr rp2
     \<and> sync_video_frame timer_ops 0 (set_clock (clock_cell rp2 av_timer_new)
          ((av_sync_new 0)\<lparr> as_video := [\<lparr> fr_id = 1, fr_pts = 0, fr_sample_rate = 0 \<rparr>] \<rparr>)) = Inl Use_After_Free"
proof -
  let ?s = "(av_sync_new 0)\<lparr> as_video := [\<lparr> fr_id = 1, fr_pts = 0, fr_sample_rate = 0 \<rparr>] \<rparr> :: av_timer av_sync"
  have ok: "calls_ok [Call_Build True] rtp_player_new" by (simp add: rtp_player_new_def)
  obtain rp where rp: "player_run [Call_Build True] rtp_player_new = Inr rp" "rp_sync rp = Some 0" "rp_audio rp = None"
    "rp_heap rp = snd (obj_new no_objects)"
    by (simp add: rtp_player_build_def rtp_player_new_def obj_make_def obj_new_def no_objects_def)
  obtain rp1 where rp1: "play_audio True all_ok [] RTP_MEDIA_AUDIO_OPUS rp = Inr (True, rp1)"
    using rp(2-4) by (simp add: play_audio_def audio_build_def player_build_def all_ok_def obj_make_def obj_new_def
        no_objects_def obj_add_ref_def player_new_def Let_def)
  have s: "as_video ?s \<noteq> []" "\<not> as_buffering ?s" by (simp_all add: av_sync_new_def)
  show ?thesis using rtp_player_clock_dangles [OF ok rp(1) rp1 s, of av_timer_new timer_ops 0] rp(1) rp1 by blast
qed

section \<open>Frames from the decoder\<close>

definition set_params :: "int list \<Rightarrow> player \<Rightarrow> player" where
  "set_params ps pl = pl\<lparr> pl_params := ps \<rparr>"

definition on_decoded_image ::
    "int \<Rightarrow> int \<Rightarrow> av_frame \<Rightarrow> player \<Rightarrow> 'c av_sync \<Rightarrow> (player \<times> 'c av_sync) res" where
  "on_decoded_image w h f pl s =
     (if w \<le> 0 \<or> h \<le> 0 then Inr (pl, s)
      else res_bind
        (if 0 \<in> set (pl_params pl) then
           (if pl_sync pl = None then Inl Null_Deref
            else res_bind (audio_latency_ms s) (\<lambda>_. Inr (pl\<lparr> pl_start_ts := fr_pts f \<rparr>)))
         else Inr pl)
        (\<lambda>pl. Inr (set_params [w, h] pl, if pl_sync pl = None then s else push_video f s)))"

definition on_decoded_pcm ::
    "int \<Rightarrow> int \<Rightarrow> int \<Rightarrow> av_frame \<Rightarrow> player \<Rightarrow> 'c av_sync \<Rightarrow> (player \<times> 'c av_sync) res" where
  "on_decoded_pcm rate channels bits f pl s =
     (if rate \<le> 0 \<or> channels \<le> 0 \<or> bits \<le> 0 then Inr (pl, s)
      else res_bind
        (if 0 \<in> set (pl_params pl) then
           (if pl_sync pl = None then Inl Null_Deref else Inr (pl\<lparr> pl_start_ts := fr_pts f \<rparr>))
         else Inr pl)
        (\<lambda>pl. Inr (set_params [rate, channels, bits] pl, if pl_sync pl = None then s else push_audio f s)))"

text \<open>The first frame after the pointers were cleared crashes the thread that delivers it.\<close>

lemma first_frame_after_clear:
  assumes "player_clear pl h = Inr (pl', h')" "0 \<in> set (pl_params pl)" "0 < w" "0 < ht" "0 < rate" "0 < ch" "0 < bits"
  shows "on_decoded_image w ht f pl' s = Inl Null_Deref \<and> on_decoded_pcm rate ch bits f pl' s = Inl Null_Deref"
proof -
  have "pl_sync pl' = None \<and> pl_params pl' = pl_params pl" using assms(1) by (auto simp: player_clear_def res_bind_Inr_iff)
  then show ?thesis using assms(2-7) by (simp add: on_decoded_image_def on_decoded_pcm_def)
qed

end
