(* ===== verification/Video_Out.thy ===== *)
theory Video_Out
  imports Video_Dec
begin

text \<open>
  The video renderer \<open>Renders/VideoOut\<close>: when the size of the picture changes it sets up EGL, the
  shaders, the program and three textures, and it loads the planes of every picture into the textures.
  What EGL and OpenGL answer, and what a texture holds after an upload, are parameters. The lemmas
  show which pixels reach the screen, for decoded pictures of even size those of the decoder, and
  what becomes of odd sizes and of a failed set-up.
\<close>

section \<open>State\<close>

text \<open>A texture: the members the code sets, the size of its storage and the lines it holds.\<close>

record gl_texture =
  tx_data :: "byte list option"
  tx_width :: int
  tx_height :: int
  tx_stride :: int
  tx_storage :: "int \<times> int"
  tx_lines :: "byte list list"

text \<open>
  Handles are \<open>True\<close> when they are not zero. Two ghosts: whether a context is current for the thread,
  and what each draw showed, with whether a context was current then.
\<close>

record video_out =
  vo_window :: bool
  vo_image_width :: int
  vo_image_height :: int
  vo_surface_size :: "int \<times> int"
  vo_egl_display :: bool
  vo_egl_surface :: bool
  vo_egl_context :: bool
  vo_program :: bool
  vo_vertex_shader :: bool
  vo_fragment_shader :: bool
  vo_textures :: "nat \<Rightarrow> gl_texture"
  vo_current :: bool
  vo_drawn :: "(bool \<times> (nat \<Rightarrow> byte list list)) list"

text \<open>How the calls of one set-up turn out, and the size of the surface when it is asked for.\<close>

record gl_env =
  ge_display :: bool
  ge_config :: bool
  ge_surface :: bool
  ge_context :: bool
  ge_make_current :: bool
  ge_vertex :: bool
  ge_fragment :: bool
  ge_program :: bool
  ge_link :: bool
  ge_validate :: bool
  ge_surface_size :: "int \<times> int"

text \<open>
  An upload with \<open>GL_UNPACK_ALIGNMENT\<close> 1: the data, the size of the rectangle and
  \<open>GL_UNPACK_ROW_LENGTH\<close>. OpenGL documents that line \<open>y\<close> begins at \<open>y\<close> times the row length.
\<close>

type_synonym gl_upload = "byte list option \<Rightarrow> int \<Rightarrow> int \<Rightarrow> int \<Rightarrow> byte list list res"

definition gl_documented :: "gl_upload \<Rightarrow> bool" where
  "gl_documented up \<longleftrightarrow> (\<forall>d w h stride. 0 < w \<and> w \<le> stride \<and> 0 < h
     \<and> nat (h - 1) * nat stride + nat w \<le> length d \<longrightarrow>
       up (Some d) w h stride = Inr (map (\<lambda>y. slice_of d (y * nat stride) (nat w)) [0..<nat h]))"

text \<open>The constructor leaves the EGL handles uninitialised.\<close>

definition empty_texture :: gl_texture where
  "empty_texture = \<lparr> tx_data = None, tx_width = 0, tx_height = 0, tx_stride = 0, tx_storage = (0, 0), tx_lines = [] \<rparr>"

definition video_out_new :: "bool \<Rightarrow> bool \<Rightarrow> bool \<Rightarrow> bool \<Rightarrow> video_out" where
  "video_out_new window junk_display junk_surface junk_context =
     \<lparr> vo_window = window, vo_image_width = 0, vo_image_height = 0, vo_surface_size = (0, 0),
       vo_egl_display = junk_display, vo_egl_surface = junk_surface, vo_egl_context = junk_context,
       vo_program = False, vo_vertex_shader = False, vo_fragment_shader = False,
       vo_textures = (\<lambda>_. empty_texture), vo_current = False, vo_drawn = [] \<rparr>"

section \<open>Set-up and clean-up\<close>

text \<open>The result of each step is whether it succeeded.\<close>

definition egl_init_display :: "gl_env \<Rightarrow> video_out \<Rightarrow> bool \<times> video_out" where
  "egl_init_display env s =
     (let s = s\<lparr> vo_egl_display := ge_display env \<rparr> in
      if \<not> ge_display env then (False, s)
      else if \<not> ge_config env then (False, s)
      else
        let s = s\<lparr> vo_egl_surface := ge_surface env \<rparr> in
        if \<not> ge_surface env then (False, s)
        else
          let s = s\<lparr> vo_egl_context := ge_context env \<rparr> in
          if \<not> ge_context env then (False, s)
          else if \<not> ge_make_current env then (False, s)
          else (True, s\<lparr> vo_current := True \<rparr>))"

text \<open>The handles keep their values: none of them is set to its null handle.\<close>

definition egl_destroy_display :: "video_out \<Rightarrow> video_out" where
  "egl_destroy_display s = (if vo_egl_display s then s\<lparr> vo_current := False \<rparr> else s)"

definition video_out_clear :: "video_out \<Rightarrow> video_out" where
  "video_out_clear s =
     (let s = egl_destroy_display s in
      if vo_program s then s\<lparr> vo_program := False, vo_vertex_shader := False, vo_fragment_shader := False \<rparr> else s)"

definition init_shaders :: "gl_env \<Rightarrow> video_out \<Rightarrow> bool \<times> video_out" where
  "init_shaders env s =
     (let s = s\<lparr> vo_vertex_shader := ge_vertex env \<rparr> in
      if \<not> ge_vertex env then (False, s)
      else (ge_fragment env, s\<lparr> vo_fragment_shader := ge_fragment env \<rparr>))"

definition init_program :: "gl_env \<Rightarrow> video_out \<Rightarrow> bool \<times> video_out" where
  "init_program env s = (ge_link env \<and> ge_validate env, s\<lparr> vo_program := ge_program env \<rparr>)"

text \<open>\<open>width >> 1\<close> and \<open>height >> 1\<close> for the chroma planes.\<close>

definition plane_shift :: "nat \<Rightarrow> int \<Rightarrow> int" where
  "plane_shift plane v = (if plane = 0 then v else drop_bit 1 v)"

definition init_textures :: "int \<Rightarrow> int \<Rightarrow> video_out \<Rightarrow> bool \<times> video_out" where
  "init_textures width height s =
     (True, s\<lparr> vo_textures := (\<lambda>p. if p < 3 then (vo_textures s p)\<lparr> tx_width := plane_shift p width,
        tx_height := plane_shift p height, tx_storage := (plane_shift p width, plane_shift p height) \<rparr>
        else vo_textures s p) \<rparr>)"

definition video_out_init :: "gl_env \<Rightarrow> int \<Rightarrow> int \<Rightarrow> video_out \<Rightarrow> bool \<times> video_out" where
  "video_out_init env width height s =
     (if \<not> vo_window s then (False, s)
      else let (ok, s) = egl_init_display env s in
        if \<not> ok then (False, s)
        else let (ok, s) = init_shaders env s in
          if \<not> ok then (False, video_out_clear s)
          else let (ok, s) = init_program env s in
            if \<not> ok then (False, video_out_clear s)
            else let (ok, s) = init_textures width height s in
              if \<not> ok then (False, video_out_clear s) else (True, s))"

section \<open>A frame\<close>

definition update_surface_size :: "gl_env \<Rightarrow> video_out \<Rightarrow> video_out" where
  "update_surface_size env s =
     (if ge_surface_size env \<noteq> vo_surface_size s then s\<lparr> vo_surface_size := ge_surface_size env \<rparr> else s)"

definition set_texture :: "video_surface \<Rightarrow> int \<Rightarrow> int \<Rightarrow> int \<Rightarrow> nat \<Rightarrow> gl_texture \<Rightarrow> gl_texture" where
  "set_texture f width height stride p t =
     t\<lparr> tx_data := vs_planes f p, tx_width := plane_shift p width, tx_height := plane_shift p height,
        tx_stride := plane_shift p stride \<rparr>"

definition upload_texture :: "gl_upload \<Rightarrow> gl_texture \<Rightarrow> gl_texture res" where
  "upload_texture up t =
     res_bind (up (tx_data t) (tx_width t) (tx_height t) (tx_stride t)) (\<lambda>ls. Inr (t\<lparr> tx_lines := ls \<rparr>))"

definition update_textures :: "gl_upload \<Rightarrow> video_surface \<Rightarrow> int \<Rightarrow> int \<Rightarrow> int \<Rightarrow> video_out \<Rightarrow> video_out res" where
  "update_textures up f width height stride s =
     (let t = (\<lambda>p. set_texture f width height stride p (vo_textures s p)) in
      res_bind (upload_texture up (t 0)) (\<lambda>y.
      res_bind (upload_texture up (t 1)) (\<lambda>u.
      res_bind (upload_texture up (t 2)) (\<lambda>v.
      Inr (s\<lparr> vo_textures := (vo_textures s)(0 := y, 1 := u, 2 := v) \<rparr>)))))"

text \<open>\<open>glDrawArrays\<close> shows what the textures hold.\<close>

definition gl_draw :: "video_out \<Rightarrow> video_out" where
  "gl_draw s = s\<lparr> vo_drawn := vo_drawn s @ [(vo_current s, \<lambda>p. tx_lines (vo_textures s p))] \<rparr>"

text \<open>\<open>get_width\<close>, \<open>get_height\<close> and \<open>get_stride\<close> of the frame are those of its first plane.\<close>

definition video_out_on_frame :: "gl_upload \<Rightarrow> gl_env \<Rightarrow> video_surface \<Rightarrow> video_out \<Rightarrow> video_out res" where
  "video_out_on_frame up env f s =
     (let w = sint (vs_width f 0); h = sint (vs_height f 0); stride = sint (vs_pitch f 0);
          (ok, s) =
            (if w \<noteq> vo_image_width s \<or> h \<noteq> vo_image_height s then
               let (ok, s) = video_out_init env w h (video_out_clear s) in
               (ok, if ok then s\<lparr> vo_image_width := w, vo_image_height := h \<rparr> else s)
             else (True, s))
      in if \<not> ok then Inr s
         else res_bind (update_textures up f w h stride (update_surface_size env s)) (\<lambda>s. Inr (gl_draw s)))"

section \<open>What is shown\<close>

text \<open>A draw shows an image: three planes of its size, each pixel in its place.\<close>

definition shows_plane :: "dec_image \<Rightarrow> nat \<Rightarrow> byte list list \<Rightarrow> bool" where
  "shows_plane img p ls \<longleftrightarrow> length ls = nat (plane_height p (di_height img))
     \<and> (\<forall>y<nat (plane_height p (di_height img)). length (ls ! y) = nat (plane_width p (di_width img))
          \<and> (\<forall>x<nat (plane_width p (di_width img)). ls ! y ! x = image_pixel img p x y))"

definition shows_image :: "(nat \<Rightarrow> byte list list) \<Rightarrow> dec_image \<Rightarrow> bool" where
  "shows_image px img \<longleftrightarrow> (\<forall>p<3. shows_plane img p (px p))"

definition even_size :: "dec_image \<Rightarrow> bool" where
  "even_size img \<longleftrightarrow> 0 < di_width img \<and> di_width img < 2 ^ 31 \<and> even (di_width img)
     \<and> 0 < di_height img \<and> di_height img < 2 ^ 31 \<and> even (di_height img)"

definition gl_works :: "gl_env \<Rightarrow> bool" where
  "gl_works env \<longleftrightarrow> ge_display env \<and> ge_config env \<and> ge_surface env \<and> ge_context env \<and> ge_make_current env
     \<and> ge_vertex env \<and> ge_fragment env \<and> ge_program env \<and> ge_link env \<and> ge_validate env"

text \<open>The lines of an upload begin at multiples of the row length.\<close>

lemma upload_lines:
  assumes "gl_documented up" "0 < w" "w \<le> stride" "0 < h" "nat (h - 1) * nat stride + nat w \<le> length d"
  shows "\<exists>ls. up (Some d) w h stride = Inr ls \<and> length ls = nat h
    \<and> (\<forall>y<nat h. length (ls ! y) = nat w \<and> (\<forall>x<nat w. ls ! y ! x = d ! (y * nat stride + x)))"
proof -
  have fit: "y * nat stride + nat w \<le> length d" if "y < nat h" for y
  proof -
    have "y \<le> nat (h - 1)" using that by simp
    then have "y * nat stride + nat w \<le> nat (h - 1) * nat stride + nat w" by (intro add_mono mult_le_mono1) simp_all
    then show ?thesis using assms(5) by (rule le_trans)
  qed
  have "up (Some d) w h stride = Inr (map (\<lambda>y. slice_of d (y * nat stride) (nat w)) [0..<nat h])"
    using assms by (simp add: gl_documented_def)
  moreover have "slice_of d (y * nat stride) (nat w) ! x = d ! (y * nat stride + x)" if "y < nat h" "x < nat w" for x y
    using fit [OF that(1)] that(2) by (simp add: slice_of_def)
  ultimately show ?thesis using fit by simp
qed

text \<open>The planes of a surface that holds an image without padding.\<close>

definition tight_plane :: "video_surface \<Rightarrow> dec_image \<Rightarrow> nat \<Rightarrow> byte list \<Rightarrow> bool" where
  "tight_plane f img p bs \<longleftrightarrow> vs_planes f p = Some bs
     \<and> length bs = nat (plane_height p (di_height img)) * nat (plane_width p (di_width img))
     \<and> (\<forall>y<nat (plane_height p (di_height img)). \<forall>x<nat (plane_width p (di_width img)).
          bs ! (y * nat (plane_width p (di_width img)) + x) = image_pixel img p x y)"

definition surface_of :: "video_surface \<Rightarrow> dec_image \<Rightarrow> bool" where
  "surface_of f img \<longleftrightarrow> vs_width f 0 = word_of_int (di_width img) \<and> vs_height f 0 = word_of_int (di_height img)
     \<and> vs_pitch f 0 = vs_width f 0 \<and> (\<forall>p<3. \<exists>bs. tight_plane f img p bs)"

lemma send_image_surface:
  assumes "image_ok img" "\<forall>k. alloc k"
  shows "\<exists>f. video_dec_send_image True alloc img pts opaque = Inr (Some f) \<and> surface_of f img"
proof -
  have p0: "plane_width 0 v = v" "plane_height 0 v = v" for v by (simp_all add: plane_width_def plane_height_def)
  show ?thesis
    using send_image_planes [OF assms, of pts opaque] p0 unfolding Let_def tight_plane_def surface_of_def
    by (metis zero_less_numeral)
qed

lemma sint_small: "0 \<le> v \<Longrightarrow> v < 2 ^ 31 \<Longrightarrow> sint (word_of_int v :: 32 word) = v"
  by (simp add: sint_sbintrunc' signed_take_bit_int_eq_self)

lemma update_textures_lines:
  assumes "\<And>p t. p < 3 \<Longrightarrow> \<exists>t'. upload_texture up (set_texture f w h stride p t) = Inr t' \<and> Q p (tx_lines t')"
  shows "\<exists>t. update_textures up f w h stride s = Inr (s\<lparr> vo_textures := t \<rparr>) \<and> (\<forall>p<3. Q p (tx_lines (t p)))"
proof -
  have "\<forall>p. \<exists>t'. p < 3 \<longrightarrow>
      upload_texture up (set_texture f w h stride p (vo_textures s p)) = Inr t' \<and> Q p (tx_lines t')"
    using assms by blast
  from choice [OF this] obtain t where t: "\<And>p. p < 3 \<Longrightarrow>
      upload_texture up (set_texture f w h stride p (vo_textures s p)) = Inr (t p) \<and> Q p (tx_lines (t p))"
    by blast
  let ?t = "(vo_textures s)(0 := t 0, 1 := t 1, 2 := t 2)"
  have "?t p = t p" if "p < 3" for p
    using that less_Suc_eq [of p] by (auto simp: numeral_3_eq_3 numeral_2_eq_2)
  then have "\<forall>p<3. Q p (tx_lines (?t p))" using t by simp
  moreover have "update_textures up f w h stride s = Inr (s\<lparr> vo_textures := ?t \<rparr>)"
    using t [of 0] t [of 1] t [of 2] by (simp add: update_textures_def Let_def)
  ultimately show ?thesis by blast
qed

text \<open>Between two frames: the window is there, and a context is current once a size is set.\<close>

definition vo_ready :: "video_out \<Rightarrow> bool" where
  "vo_ready s \<longleftrightarrow> vo_window s \<and> (vo_image_width s \<noteq> 0 \<longrightarrow> vo_current s)"

text \<open>A frame of whatever size is drawn with a current context, if its textures can be loaded.\<close>

lemma video_out_frame:
  assumes "gl_works env" "vo_ready s" "surface_of f img"
    and "0 < di_width img" "di_width img < 2 ^ 31" "0 < di_height img" "di_height img < 2 ^ 31"
    and "\<And>p t. p < 3 \<Longrightarrow> \<exists>t'. upload_texture up
           (set_texture f (di_width img) (di_height img) (di_width img) p t) = Inr t' \<and> Q p (tx_lines t')"
  shows "\<exists>s' px. video_out_on_frame up env f s = Inr s' \<and> vo_ready s' \<and> vo_drawn s' = vo_drawn s @ [(True, px)]
    \<and> (\<forall>p<3. Q p (px p))"
proof -
  have sz: "sint (vs_width f 0) = di_width img" "sint (vs_height f 0) = di_height img"
    "sint (vs_pitch f 0) = di_width img" "di_width img \<noteq> 0"
    using assms(3-7) by (simp_all add: surface_of_def sint_small)
  define s1 where "s1 = (if di_width img \<noteq> vo_image_width s \<or> di_height img \<noteq> vo_image_height s
    then (snd (video_out_init env (di_width img) (di_height img) (video_out_clear s)))
           \<lparr> vo_image_width := di_width img, vo_image_height := di_height img \<rparr> else s)"
  have init: "fst (video_out_init env (di_width img) (di_height img) (video_out_clear s))"
    "vo_ready s1" "vo_current s1" "vo_drawn s1 = vo_drawn s"
    using assms(1,2) sz(4)
    by (auto simp: s1_def vo_ready_def video_out_init_def video_out_clear_def egl_destroy_display_def egl_init_display_def
        init_shaders_def init_program_def init_textures_def gl_works_def Let_def)
  obtain t where t: "update_textures up f (di_width img) (di_height img) (di_width img) (update_surface_size env s1)
      = Inr ((update_surface_size env s1)\<lparr> vo_textures := t \<rparr>)" "\<forall>p<3. Q p (tx_lines (t p))"
    using update_textures_lines [OF assms(8)] by blast
  have "video_out_on_frame up env f s
      = Inr (gl_draw ((update_surface_size env s1)\<lparr> vo_textures := t \<rparr>))"
    using init(1) t(1) by (auto simp: video_out_on_frame_def sz Let_def s1_def split_def split: if_splits)
  then show ?thesis
    using t(2) init by (auto simp: gl_draw_def update_surface_size_def vo_ready_def)
qed

lemma plane_shift_even:
  "even v \<Longrightarrow> 0 < v \<Longrightarrow> plane_shift p v = plane_width p v \<and> plane_shift p v = plane_height p v \<and> 0 < plane_shift p v"
  by (auto simp: plane_shift_def plane_width_def plane_height_def drop_bit_eq_div elim!: evenE)

lemma upload_even:
  assumes "gl_documented up" "even_size img" "tight_plane f img p bs"
  shows "\<exists>t'. upload_texture up (set_texture f (di_width img) (di_height img) (di_width img) p t) = Inr t'
    \<and> shows_plane img p (tx_lines t')"
proof -
  let ?w = "plane_width p (di_width img)" and ?h = "plane_height p (di_height img)"
  have sz: "plane_shift p (di_width img) = ?w" "plane_shift p (di_height img) = ?h" "0 < ?w" "0 < ?h"
    using assms(2) plane_shift_even [of "di_width img" p] plane_shift_even [of "di_height img" p]
    by (simp_all add: even_size_def)
  have "nat ?h = Suc (nat (?h - 1))" using sz(4) by simp
  then have "nat (?h - 1) * nat ?w + nat ?w \<le> length bs" using assms(3) by (simp add: tight_plane_def)
  then obtain ls where ls: "up (Some bs) ?w ?h ?w = Inr ls" "length ls = nat ?h"
    "\<forall>y<nat ?h. length (ls ! y) = nat ?w \<and> (\<forall>x<nat ?w. ls ! y ! x = bs ! (y * nat ?w + x))"
    using upload_lines [OF assms(1) sz(3) order_refl sz(4)] by blast
  have "shows_plane img p ls" using ls(2,3) assms(3) by (simp add: shows_plane_def tight_plane_def)
  then show ?thesis
    using ls(1) sz assms(3) by (simp add: upload_texture_def set_texture_def tight_plane_def)
qed

fun show_images :: "gl_upload \<Rightarrow> gl_env \<Rightarrow> (dec_image \<times> int \<times> int) list \<Rightarrow> video_out \<Rightarrow> video_out res" where
  "show_images up env [] s = Inr s"
| "show_images up env ((img, pts, opaque) # imgs) s =
     res_bind (video_dec_send_image True (\<lambda>_. True) img pts opaque) (\<lambda>f.
     res_bind (case f of None \<Rightarrow> Inr s | Some f \<Rightarrow> video_out_on_frame up env f s) (show_images up env imgs))"

text \<open>One picture from the decoder to the screen.\<close>

lemma video_out_image:
  assumes "gl_documented up" "gl_works env" "image_ok img" "even_size img" "vo_ready s"
    and "video_dec_send_image True (\<lambda>_. True) img pts opaque = Inr (Some f)"
  shows "\<exists>s' px. video_out_on_frame up env f s = Inr s' \<and> vo_ready s' \<and> vo_drawn s' = vo_drawn s @ [(True, px)]
    \<and> shows_image px img"
proof -
  have f: "surface_of f img" using send_image_surface [OF assms(3), of "\<lambda>_. True" pts opaque] assms(6) by simp
  have "\<exists>t'. upload_texture up (set_texture f (di_width img) (di_height img) (di_width img) p t) = Inr t'
      \<and> shows_plane img p (tx_lines t')" if "p < 3" for p t
    using upload_even [OF assms(1,4)] f that by (auto simp: surface_of_def)
  then obtain s' px where "video_out_on_frame up env f s = Inr s'" "vo_ready s'"
    "vo_drawn s' = vo_drawn s @ [(True, px)]" "\<forall>p<3. shows_plane img p (px p)"
    using video_out_frame [OF assms(2,5) f, of up "shows_plane img"] assms(4) by (auto simp: even_size_def)
  then show ?thesis by (auto simp: shows_image_def)
qed

lemma show_images_ready:
  assumes "gl_documented up" "gl_works env" "\<forall>i\<in>set imgs. image_ok (fst i) \<and> even_size (fst i)" "vo_ready s"
  shows "\<exists>s' ds. show_images up env imgs s = Inr s' \<and> vo_drawn s' = vo_drawn s @ ds
    \<and> list_all2 (\<lambda>d i. fst d \<and> shows_image (snd d) (fst i)) ds imgs"
  using assms(3,4)
proof (induction imgs arbitrary: s)
  case (Cons i imgs)
  obtain img pts opaque where i: "i = (img, pts, opaque)" by (cases i)
  have img: "image_ok img" "even_size img" using Cons.prems(1) i by auto
  obtain f where f: "video_dec_send_image True (\<lambda>_. True) img pts opaque = Inr (Some f)"
    using send_image_surface [OF img(1), of "\<lambda>_. True" pts opaque] by blast
  obtain s' px where "video_out_on_frame up env f s = Inr s'" "vo_ready s'" "vo_drawn s' = vo_drawn s @ [(True, px)]"
    "shows_image px img" using video_out_image [OF assms(1,2) img Cons.prems(2) f] by blast
  then show ?case using Cons.IH [of s'] Cons.prems(1) f i by auto
qed simp


definition demo_upload :: gl_upload where
  "demo_upload d w h stride =
     (case d of None \<Rightarrow> Inl Null_Deref
      | Some d \<Rightarrow> if nat (h - 1) * nat stride + nat w \<le> length d
                  then Inr (map (\<lambda>y. slice_of d (y * nat stride) (nat w)) [0..<nat h]) else Inl Oob_Read)"

definition demo_gl :: gl_env where
  "demo_gl = \<lparr> ge_display = True, ge_config = True, ge_surface = True, ge_context = True, ge_make_current = True,
     ge_vertex = True, ge_fragment = True, ge_program = True, ge_link = True, ge_validate = True,
     ge_surface_size = (100, 100) \<rparr>"

lemma demo_gl_works: "gl_documented demo_upload" "gl_works demo_gl"
  by (simp_all add: gl_documented_def demo_upload_def gl_works_def demo_gl_def)

definition demo_picture :: dec_image where
  "demo_picture = vd_image\<lparr> di_width := 2 \<rparr>"

lemma demo_picture_ok: "image_ok demo_picture" "even_size demo_picture"
proof -
  have "y = 0 \<or> y = 1" if "0 \<le> y" "y < plane_height p 2" for p and y :: int
    using that by (auto simp: plane_height_def split: if_splits)
  then show "image_ok demo_picture"
    unfolding image_ok_def by (fastforce simp: demo_picture_def vd_image_def plane_width_def)
qed (simp add: demo_picture_def vd_image_def even_size_def)


section \<open>Odd sizes and failed set-ups\<close>

text \<open>
  The chroma planes of a picture of odd width \<open>2 * k + 1\<close> have lines of \<open>k + 1\<close> pixels, but the renderer
  takes \<open>k\<close> for their stride: pixel \<open>x\<close> of line \<open>y\<close> is the pixel that many places further on in the plane.
\<close>

lemma video_out_odd_width:
  assumes "gl_documented up" "gl_works env" "vo_ready s" "surface_of f img"
    and "di_width img = 2 * int k + 1" "0 < k" "k < 2 ^ 30" "di_height img = 2 * int m" "0 < m" "m < 2 ^ 30"
  shows "\<exists>s' px. video_out_on_frame up env f s = Inr s' \<and> vo_drawn s' = vo_drawn s @ [(True, px)]
    \<and> (\<forall>p\<in>{1, 2}. \<forall>y<m. \<forall>x<k. px p ! y ! x = image_pixel img p ((y * k + x) mod (k + 1)) ((y * k + x) div (k + 1)))"
proof -
  let ?Q = "\<lambda>p ls. p = 0 \<or> (\<forall>y<m. \<forall>x<k. ls ! y ! x = image_pixel img p ((y * k + x) mod (k + 1)) ((y * k + x) div (k + 1)))"
  have sz: "plane_shift p (di_width img) = int k" "plane_shift p (di_height img) = int m"
    "nat (plane_width p (di_width img)) = k + 1" "nat (plane_height p (di_height img)) = m" if "p \<noteq> 0" for p
    using that assms(5,8) by (simp_all add: plane_shift_def plane_width_def plane_height_def drop_bit_eq_div nat_add_distrib)
  have up: "\<exists>t'. upload_texture up (set_texture f (di_width img) (di_height img) (di_width img) p t) = Inr t'
      \<and> ?Q p (tx_lines t')" if p3: "p < 3" for p t
  proof -
    obtain bs where bs: "tight_plane f img p bs" using assms(4) p3 by (auto simp: surface_of_def)
    show ?thesis
    proof (cases "p = 0")
      case True
      have "Suc (nat (di_height img - 1)) = nat (di_height img)" using assms(8,9) by simp
      then have "nat (di_height img - 1) * nat (di_width img) + nat (di_width img) = nat (di_height img) * nat (di_width img)"
        by (metis mult_Suc add.commute)
      then obtain ls where "up (Some bs) (di_width img) (di_height img) (di_width img) = Inr ls"
        using upload_lines [OF assms(1), of "di_width img" "di_width img" "di_height img" bs] bs assms(5,8,9) True
        by (auto simp: tight_plane_def plane_width_def plane_height_def)
      then show ?thesis
        using bs True by (simp add: upload_texture_def set_texture_def tight_plane_def plane_shift_def)
    next
      case False
      note z = sz [OF False]
      have len: "length bs = m * (k + 1)" using bs z by (simp add: tight_plane_def)
      have in_plane: "y * k + x < m * k" if "y < m" "x < k" for x y
      proof -
        have "y * k + x < Suc y * k" using that(2) by simp
        also have "\<dots> \<le> m * k" using that(1) by (intro mult_le_mono1) simp
        finally show ?thesis .
      qed
      have "(m - 1) * k + k = m * k" using assms(9) by (cases m) simp_all
      then have "nat (int m - 1) * nat (int k) + nat (int k) \<le> length bs"
        using len assms(9) by (simp add: nat_diff_distrib)
      then obtain ls where ls: "up (Some bs) (int k) (int m) (int k) = Inr ls"
        "\<forall>y<m. \<forall>x<k. ls ! y ! x = bs ! (y * k + x)"
        using upload_lines [OF assms(1), of "int k" "int k" "int m" bs] assms(6,9) by auto
      have "ls ! y ! x = image_pixel img p ((y * k + x) mod (k + 1)) ((y * k + x) div (k + 1))" if "y < m" "x < k" for x y
      proof -
        let ?j = "y * k + x"
        have "?j < m * (k + 1)" using in_plane [OF that] by simp
        then have "?j div (k + 1) < m" by (simp add: less_mult_imp_div_less)
        moreover have "?j mod (k + 1) < k + 1" by simp
        ultimately have "bs ! (?j div (k + 1) * (k + 1) + ?j mod (k + 1)) = image_pixel img p (?j mod (k + 1)) (?j div (k + 1))"
          using bs z(3,4) unfolding tight_plane_def by metis
        then show ?thesis using ls(2) that by (simp only: div_mult_mod_eq)
      qed
      then show ?thesis
        using ls(1) bs z by (simp add: upload_texture_def set_texture_def tight_plane_def)
    qed
  qed
  have dims: "0 < di_width img" "di_width img < 2 ^ 31" "0 < di_height img" "di_height img < 2 ^ 31"
    using assms(5-10) by simp_all
  obtain s' px where s': "video_out_on_frame up env f s = Inr s'" "vo_drawn s' = vo_drawn s @ [(True, px)]"
    and q: "\<forall>p<3. ?Q p (px p)"
    using video_out_frame [OF assms(2-4) dims up] by blast
  have "\<forall>p\<in>{1, 2}. p < 3 \<and> p \<noteq> (0 :: nat)" by simp
  then show ?thesis using s' q by blast
qed

text \<open>
  When the set-up for a new size fails, the old size stays noted although its context is gone: the next
  picture of the old size is drawn without a context.
\<close>

lemma video_out_init_failed:
  assumes "video_out_init env w h s = (ok, s')" "\<not> ok" "\<not> vo_current s"
  shows "\<not> vo_current s' \<and> vo_drawn s' = vo_drawn s \<and> vo_image_width s' = vo_image_width s
    \<and> vo_image_height s' = vo_image_height s"
  using assms
  by (auto simp: video_out_init_def video_out_clear_def egl_destroy_display_def egl_init_display_def
      init_shaders_def init_program_def init_textures_def Let_def split: if_splits prod.splits)

lemma video_out_failed_setup:
  assumes "vo_egl_display s" "surface_of f img" "surface_of f' img'"
    and "sint (vs_width f 0) \<noteq> vo_image_width s"
    and "\<not> fst (video_out_init env (sint (vs_width f 0)) (sint (vs_height f 0)) (video_out_clear s))"
    and "sint (vs_width f' 0) = vo_image_width s" "sint (vs_height f' 0) = vo_image_height s"
    and "video_out_on_frame up env f s = Inr s1" "video_out_on_frame up env' f' s1 = Inr s2"
  shows "\<exists>px. vo_drawn s2 = vo_drawn s @ [(False, px)]"
proof -
  have s1: "s1 = snd (video_out_init env (sint (vs_width f 0)) (sint (vs_height f 0)) (video_out_clear s))"
    using assms(4,5,8) by (auto simp: video_out_on_frame_def Let_def split_def)
  have "\<not> vo_current (video_out_clear s)" "vo_drawn (video_out_clear s) = vo_drawn s"
    "vo_image_width (video_out_clear s) = vo_image_width s" "vo_image_height (video_out_clear s) = vo_image_height s"
    using assms(1) by (simp_all add: video_out_clear_def egl_destroy_display_def Let_def)
  then have "\<not> vo_current s1 \<and> vo_drawn s1 = vo_drawn s \<and> vo_image_width s1 = vo_image_width s
      \<and> vo_image_height s1 = vo_image_height s"
    using video_out_init_failed [OF prod.collapse [symmetric] assms(5)] unfolding s1 by simp
  then show ?thesis
    using assms(6,7,9)
    by (auto simp: video_out_on_frame_def update_textures_def update_surface_size_def gl_draw_def Let_def
        res_bind_Inr_iff split: if_splits)
qed

end
