(* ===== verification/Audio_Out.thy ===== *)
theory Audio_Out
  imports Av_Sync
begin

text \<open>
  The audio renderer \<open>Renders/AudioOut\<close>: the 20 ms double buffer in front of the OpenSL ES queue, and the
  render time that \<open>AVSync\<close> uses as its clock. The calls of OpenSL ES are parameters: whether the engine
  and the device open; the device is the list of the buffers enqueued. The lemmas show that no sample is
  lost, repeated or reordered, that no write leaves the buffers, and what the clock shows.
\<close>

section \<open>State\<close>

definition SAMPLE_BLOCK_SIZE_MS :: int where "SAMPLE_BLOCK_SIZE_MS = 20"

text \<open>The fields of an \<open>AVFrame\<close> with audio that the renderer reads, the data as samples.\<close>

record pcm_frame =
  pf_pcm :: "16 word list"
  pf_pcm_len :: int
  pf_sample_rate :: int
  pf_channels :: int
  pf_bits_per_sample :: int
  pf_duration_ms :: int
  pf_pts :: "32 word"

record audio_out =
  ao_open :: bool
  ao_buffers :: "(16 word block \<times> 16 word block) option"
  ao_out_buf_samples :: int
  ao_index :: int
  ao_second :: bool
  ao_channels :: int
  ao_sample_rate :: int
  ao_render_time :: int
  ao_last_pts :: "32 word"
  ao_last_duration :: "32 word"
  ao_enqueued :: "16 word list list"

text \<open>The constructor leaves the buffers, their size and their indices uninitialised.\<close>

definition audio_out_new :: "int \<Rightarrow> int \<Rightarrow> bool \<Rightarrow> audio_out" where
  "audio_out_new junk_samples junk_index junk_second =
     \<lparr> ao_open = False, ao_buffers = None, ao_out_buf_samples = junk_samples, ao_index = junk_index,
       ao_second = junk_second, ao_channels = 0, ao_sample_rate = 0, ao_render_time = 0, ao_last_pts = 0,
       ao_last_duration = 0, ao_enqueued = [] \<rparr>"

definition sl_sampling_rate :: "int \<Rightarrow> bool" where
  "sl_sampling_rate r \<longleftrightarrow>
     r \<in> {8000, 11025, 16000, 22050, 24000, 32000, 44100, 48000, 64000, 88200, 96000, 192000}"

definition open_device :: "bool \<Rightarrow> int \<Rightarrow> int \<Rightarrow> int \<Rightarrow> bool" where
  "open_device sl_ok sample_rate channels bits_per_sample \<longleftrightarrow>
     channels > 0 \<and> (bits_per_sample = 8 \<or> bits_per_sample = 16) \<and> sl_sampling_rate sample_rate \<and> sl_ok"

definition audio_out_clear :: "audio_out \<Rightarrow> audio_out" where
  "audio_out_clear a = a\<lparr> ao_open := False, ao_channels := 0, ao_sample_rate := 0 \<rparr>"

text \<open>\<open>new short[n]\<close> throws rather than failing, and the old buffers are not freed.\<close>

definition audio_out_init ::
    "bool \<Rightarrow> bool \<Rightarrow> 16 word block \<times> 16 word block \<Rightarrow> int \<Rightarrow> int \<Rightarrow> audio_out \<Rightarrow> bool \<times> audio_out" where
  "audio_out_init engine_ok sl_ok junk sample_rate channels a =
     (let bufferframes = (SAMPLE_BLOCK_SIZE_MS * sample_rate) sdiv 1000 in
      if \<not> engine_ok then (False, audio_out_clear a)
      else if \<not> open_device sl_ok sample_rate channels 16 then (False, audio_out_clear a)
      else
        let n = bufferframes * channels;
            a = a\<lparr> ao_open := True, ao_out_buf_samples := n \<rparr>;
            a = (if n \<noteq> 0 then a\<lparr> ao_buffers := Some junk \<rparr> else a)
        in (True, a\<lparr> ao_render_time := 0, ao_channels := channels, ao_sample_rate := sample_rate,
                     ao_index := 0, ao_second := False \<rparr>))"

definition out_buffer :: "audio_out \<Rightarrow> 16 word block" where
  "out_buffer a = (case ao_buffers a of None \<Rightarrow> (\<lambda>_. 0) | Some (x, y) \<Rightarrow> if ao_second a then y else x)"

definition set_out_buffer :: "16 word block \<Rightarrow> audio_out \<Rightarrow> audio_out" where
  "set_out_buffer m a =
     (case ao_buffers a of None \<Rightarrow> a
      | Some (x, y) \<Rightarrow> a\<lparr> ao_buffers := Some (if ao_second a then (x, m) else (m, y)) \<rparr>)"

text \<open>
  One turn of the copy loop. A full buffer goes to the device, the thread waits, and the other half is
  next.
\<close>

definition out_sample :: "16 word \<Rightarrow> audio_out \<Rightarrow> audio_out res" where
  "out_sample x a =
     (if ao_buffers a = None then Inl Uninit_Read
      else if ao_index a < 0 \<or> ao_out_buf_samples a \<le> ao_index a then Inl Oob_Write
      else
        let a = set_out_buffer (blit (out_buffer a) (nat (ao_index a)) [x]) a;
            a = a\<lparr> ao_index := ao_index a + 1 \<rparr>
        in if ao_out_buf_samples a \<le> ao_index a then
             if \<not> ao_open a then Inl Null_Deref
             else Inr (a\<lparr> ao_enqueued := ao_enqueued a @ [region (out_buffer a) 0 (nat (ao_out_buf_samples a))],
                          ao_second := \<not> ao_second a, ao_index := 0 \<rparr>)
           else Inr a)"

fun out_samples :: "16 word list \<Rightarrow> nat \<Rightarrow> nat \<Rightarrow> audio_out \<Rightarrow> audio_out res" where
  "out_samples buffer i 0 a = Inr a"
| "out_samples buffer i (Suc n) a =
     res_bind (rd buffer i) (\<lambda>x. res_bind (out_sample x a) (out_samples buffer (i + 1) n))"

text \<open>\<open>m_render_time += gap + duration\<close> mixes \<open>int\<close> and \<open>uint32_t\<close>: it is computed modulo \<open>2 ^ 32\<close>.\<close>

definition out_gap :: "pcm_frame \<Rightarrow> audio_out \<Rightarrow> 32 word" where
  "out_gap f a = (pf_pts f - ao_last_pts a) * 1000 div word_of_int (pf_sample_rate f) - ao_last_duration a"

definition out_time :: "pcm_frame \<Rightarrow> audio_out \<Rightarrow> audio_out res" where
  "out_time f a =
     (if ao_render_time a \<noteq> 0 \<and> (word_of_int (pf_sample_rate f) :: 32 word) = 0 then Inl Div_By_Zero
      else
        let gap = (if ao_render_time a = 0 then 0 else out_gap f a) in
        Inr (a\<lparr> ao_render_time := sint (word_of_int (ao_render_time a) + (gap + word_of_int (pf_duration_ms f))),
                ao_last_pts := pf_pts f, ao_last_duration := word_of_int (pf_duration_ms f) \<rparr>))"

definition audio_out_on_frame ::
    "bool \<Rightarrow> bool \<Rightarrow> 16 word block \<times> 16 word block \<Rightarrow> pcm_frame \<Rightarrow> audio_out \<Rightarrow> audio_out res" where
  "audio_out_on_frame engine_ok sl_ok junk f a =
     (if pf_bits_per_sample f \<noteq> 16 then Inr a
      else
        let n = pf_pcm_len f sdiv 2;
            (ok, a) =
              (if ao_channels a \<noteq> pf_channels f \<or> ao_sample_rate a \<noteq> pf_sample_rate f
               then audio_out_init engine_ok sl_ok junk (pf_sample_rate f) (pf_channels f) (audio_out_clear a)
               else (True, a))
        in if \<not> ok then Inr a
           else res_bind (out_samples (pf_pcm f) 0 (nat n) a) (out_time f))"

text \<open>The renderer as a clock of \<open>AVSync\<close>; starting and resuming do nothing.\<close>

definition audio_out_ops :: "audio_out clock_ops" where
  "audio_out_ops =
     \<lparr> ck_start = (\<lambda>now offset_ms a. a), ck_stop = (\<lambda>now a. a\<lparr> ao_render_time := 0 \<rparr>),
       ck_resume = (\<lambda>now a. a), ck_ms = (\<lambda>now a. ao_render_time a) \<rparr>"

interpretation renderer: av_clock audio_out_ops
  by unfold_locales (simp add: audio_out_ops_def)

section \<open>The samples\<close>

fun out_frames ::
    "16 word block \<times> 16 word block \<Rightarrow> pcm_frame list \<Rightarrow> audio_out \<Rightarrow> audio_out res" where
  "out_frames junk [] a = Inr a"
| "out_frames junk (f # fs) a = res_bind (audio_out_on_frame True True junk f a) (out_frames junk fs)"

definition out_ready :: "int \<Rightarrow> int \<Rightarrow> audio_out \<Rightarrow> bool" where
  "out_ready r c a \<longleftrightarrow> ao_open a \<and> ao_buffers a \<noteq> None \<and> ao_sample_rate a = r \<and> ao_channels a = c
     \<and> ao_out_buf_samples a = 20 * r div 1000 * c \<and> 0 \<le> ao_index a \<and> ao_index a < ao_out_buf_samples a
     \<and> (\<forall>b\<in>set (ao_enqueued a). length b = nat (20 * r div 1000 * c))"

text \<open>What the device got, and what waits in the half-filled buffer.\<close>

definition out_stream :: "audio_out \<Rightarrow> 16 word list" where
  "out_stream a = concat (ao_enqueued a) @ region (out_buffer a) 0 (nat (ao_index a))"

lemma out_sample_ready:
  assumes "out_ready r c a"
  shows "\<exists>a'. out_sample x a = Inr a' \<and> out_ready r c a' \<and> out_stream a' = out_stream a @ [x]
    \<and> ao_render_time a' = ao_render_time a \<and> ao_last_pts a' = ao_last_pts a \<and> ao_last_duration a' = ao_last_duration a"
proof -
  let ?k = "nat (ao_index a)" and ?m = "blit (out_buffer a) (nat (ao_index a)) [x]"
  obtain b1 b2 where b: "ao_buffers a = Some (b1, b2)" using assms by (auto simp: out_ready_def)
  let ?a = "set_out_buffer ?m a"
  have m: "out_buffer (?a\<lparr> ao_index := i \<rparr>) = ?m" for i
    using b by (simp add: set_out_buffer_def out_buffer_def)
  have m0: "out_buffer ?a = ?m" using b by (simp add: set_out_buffer_def out_buffer_def)
  have n: "nat (ao_index a + 1) = ?k + 1" and k: "region ?m 0 (?k + 1) = region (out_buffer a) 0 ?k @ [x]"
    using assms region_blit_append [of "out_buffer a" ?k "[x]"] by (auto simp: out_ready_def)
  show ?thesis
  proof (cases "ao_out_buf_samples a \<le> ao_index a + 1")
    case True
    then have "nat (ao_out_buf_samples a) = ?k + 1" using assms by (auto simp: out_ready_def)
    then show ?thesis
      using assms b True n k
      by (auto simp: out_sample_def Let_def out_ready_def out_stream_def set_out_buffer_def out_buffer_def)
  next
    case False
    then show ?thesis
      using assms b n k
      by (auto simp: out_sample_def Let_def out_ready_def out_stream_def set_out_buffer_def out_buffer_def)
  qed
qed

lemma out_samples_ready:
  assumes "out_ready r c a" "i + n \<le> length buf"
  shows "\<exists>a'. out_samples buf i n a = Inr a' \<and> out_ready r c a' \<and> out_stream a' = out_stream a @ slice_of buf i n
    \<and> ao_render_time a' = ao_render_time a \<and> ao_last_pts a' = ao_last_pts a \<and> ao_last_duration a' = ao_last_duration a"
  using assms
proof (induction n arbitrary: i a)
  case (Suc n)
  obtain a1 where a1: "out_sample (buf ! i) a = Inr a1" "out_ready r c a1" "out_stream a1 = out_stream a @ [buf ! i]"
    "ao_render_time a1 = ao_render_time a" "ao_last_pts a1 = ao_last_pts a" "ao_last_duration a1 = ao_last_duration a"
    using out_sample_ready [OF Suc.prems(1), of "buf ! i"] by blast
  have "slice_of buf i (Suc n) = buf ! i # slice_of buf (i + 1) n"
    using Suc.prems(2) by (simp add: slice_of_def Cons_nth_drop_Suc [of i buf, symmetric])
  then show ?case using Suc.IH [OF a1(2), of "i + 1"] a1 Suc.prems(2) by auto
qed (simp add: slice_of_def)

definition out_format :: "int \<Rightarrow> int \<Rightarrow> pcm_frame \<Rightarrow> bool" where
  "out_format r c f \<longleftrightarrow> pf_sample_rate f = r \<and> pf_channels f = c \<and> pf_bits_per_sample f = 16
     \<and> pf_pcm_len f = 2 * int (length (pf_pcm f))"

lemma out_frame_ready:
  assumes "out_format r c f" "sl_sampling_rate r" "0 < c"
    and "out_ready r c a \<or> ao_channels a = 0 \<and> ao_enqueued a = []"
  shows "\<exists>a1 a'. audio_out_on_frame True True junk f a = Inr a' \<and> out_time f a1 = Inr a'
    \<and> ao_render_time a1 = (if ao_channels a = 0 then 0 else ao_render_time a)
    \<and> ao_last_pts a1 = ao_last_pts a \<and> ao_last_duration a1 = ao_last_duration a
    \<and> out_ready r c a' \<and> out_stream a' = (if ao_channels a = 0 then [] else out_stream a) @ pf_pcm f"
proof -
  have r: "0 < r" "0 < 20 * r div 1000" using assms(2) by (auto simp: sl_sampling_rate_def)
  define a0 where "a0 = (if ao_channels a = 0 then snd (audio_out_init True True junk r c (audio_out_clear a)) else a)"
  have pos: "0 < 20 * r div 1000 * c" using r(2) assms(3) by simp
  have a0: "out_ready r c a0" "out_stream a0 = (if ao_channels a = 0 then [] else out_stream a)"
    "ao_render_time a0 = (if ao_channels a = 0 then 0 else ao_render_time a)"
    "ao_last_pts a0 = ao_last_pts a" "ao_last_duration a0 = ao_last_duration a"
    using assms pos r
    by (auto simp: a0_def audio_out_init_def open_device_def audio_out_clear_def SAMPLE_BLOCK_SIZE_MS_def
        out_ready_def out_stream_def signed_divide_int_def Let_def)
  obtain a1 where a1: "out_samples (pf_pcm f) 0 (length (pf_pcm f)) a0 = Inr a1" "out_ready r c a1"
    "out_stream a1 = out_stream a0 @ pf_pcm f" "ao_render_time a1 = ao_render_time a0"
    "ao_last_pts a1 = ao_last_pts a0" "ao_last_duration a1 = ao_last_duration a0"
    using out_samples_ready [OF a0(1), of 0 "length (pf_pcm f)" "pf_pcm f"] by (auto simp: slice_of_def)
  have rate: "(word_of_int (pf_sample_rate f) :: 32 word) \<noteq> 0"
    using assms(1,2) by (auto simp: out_format_def sl_sampling_rate_def)
  then obtain a' where a': "out_time f a1 = Inr a'" "out_ready r c a'" "out_stream a' = out_stream a1"
    using a1(2) by (auto simp: out_time_def Let_def out_ready_def out_stream_def out_buffer_def)
  have len: "nat (pf_pcm_len f sdiv 2) = length (pf_pcm f)"
    using assms(1) by (cases "pf_pcm f") (simp_all add: out_format_def signed_divide_int_def)
  have "audio_out_on_frame True True junk f a = Inr a'"
    using assms a1(1) a'(1) len pos
    by (auto simp: audio_out_on_frame_def a0_def out_format_def audio_out_init_def open_device_def out_ready_def Let_def)
  then show ?thesis using a0 a1 a' by (intro exI [of _ a1] exI [of _ a']) simp
qed

lemma out_frames_ready:
  assumes "out_ready r c a" "\<forall>f\<in>set fs. out_format r c f" "sl_sampling_rate r" "0 < c"
  shows "\<exists>a'. out_frames junk fs a = Inr a' \<and> out_ready r c a' \<and> out_stream a' = out_stream a @ concat (map pf_pcm fs)"
  using assms(1,2)
proof (induction fs arbitrary: a)
  case (Cons f fs)
  have "ao_channels a \<noteq> 0" using Cons.prems(1) assms(4) by (auto simp: out_ready_def)
  then obtain a1 where a1: "audio_out_on_frame True True junk f a = Inr a1" "out_ready r c a1"
    "out_stream a1 = out_stream a @ pf_pcm f"
    using out_frame_ready [of r c f a junk] Cons.prems assms by auto
  then show ?case using Cons.IH [OF a1(2)] Cons.prems(2) by auto
qed simp

lemma out_frames_new:
  assumes "\<forall>f\<in>set fs. out_format r c f" "sl_sampling_rate r" "0 < c" "fs \<noteq> []"
  shows "\<exists>a. out_frames junk fs (audio_out_new n k b) = Inr a
    \<and> concat (ao_enqueued a) @ region (out_buffer a) 0 (nat (ao_index a)) = concat (map pf_pcm fs)
    \<and> (\<forall>buf\<in>set (ao_enqueued a). length buf = nat (20 * r div 1000 * c))
    \<and> nat (ao_index a) < nat (20 * r div 1000 * c)"
proof -
  obtain f gs where fs: "fs = f # gs" using assms(4) by (cases fs) auto
  obtain a1 where a1: "audio_out_on_frame True True junk f (audio_out_new n k b) = Inr a1" "out_ready r c a1"
    "out_stream a1 = pf_pcm f"
    using out_frame_ready [of r c f "audio_out_new n k b" junk] assms by (auto simp: fs audio_out_new_def)
  obtain a where a: "out_frames junk gs a1 = Inr a" "out_ready r c a"
    "out_stream a = out_stream a1 @ concat (map pf_pcm gs)"
    using out_frames_ready [OF a1(2), of gs junk] assms by (auto simp: fs)
  then show ?thesis using a1 by (auto simp: fs out_stream_def out_ready_def)
qed

text \<open>
  C20: the renderer plays what it is given: for frames of one supported format, from a fresh renderer whose
  device opens, no write leaves the buffers, the device receives buffers of exactly 20 ms, and these,
  followed by the samples waiting in the half-filled buffer, are the samples of the frames in order.
\<close>

theorem audio_out_plays_all:
  assumes "\<forall>f\<in>set fs. out_format r c f" "sl_sampling_rate r" "0 < c" "fs \<noteq> []"
  shows "\<exists>a. out_frames junk fs (audio_out_new n k b) = Inr a
    \<and> concat (ao_enqueued a) @ region (out_buffer a) 0 (nat (ao_index a)) = concat (map pf_pcm fs)
    \<and> (\<forall>buf\<in>set (ao_enqueued a). length buf = nat (20 * r div 1000 * c))
    \<and> nat (ao_index a) < nat (20 * r div 1000 * c)"
  using assms by (rule out_frames_new)

definition demo_pcm :: "nat \<Rightarrow> 32 word \<Rightarrow> pcm_frame" where
  "demo_pcm n p = \<lparr> pf_pcm = replicate n 7, pf_pcm_len = 2 * int n, pf_sample_rate = 8000, pf_channels = 1,
     pf_bits_per_sample = 16, pf_duration_ms = 20, pf_pts = p \<rparr>"

theorem audio_out_plays_all_witness:
  "\<exists>a. out_frames (\<lambda>_. 0, \<lambda>_. 0) [demo_pcm 100 0, demo_pcm 100 160] (audio_out_new 0 0 False) = Inr a
     \<and> length (concat (ao_enqueued a)) + nat (ao_index a) = 200"
proof -
  have "\<forall>f\<in>set [demo_pcm 100 0, demo_pcm 100 160]. out_format 8000 1 f" by (simp add: out_format_def demo_pcm_def)
  then obtain a where a: "out_frames (\<lambda>_. 0, \<lambda>_. 0) [demo_pcm 100 0, demo_pcm 100 160] (audio_out_new 0 0 False) = Inr a"
    "concat (ao_enqueued a) @ region (out_buffer a) 0 (nat (ao_index a))
       = concat (map pf_pcm [demo_pcm 100 0, demo_pcm 100 160])"
    using audio_out_plays_all [of "[demo_pcm 100 0, demo_pcm 100 160]" 8000 1 "(\<lambda>_. 0, \<lambda>_. 0)" 0 0 False]
    by (auto simp: sl_sampling_rate_def)
  from arg_cong [OF a(2), of length] have "length (concat (ao_enqueued a)) + nat (ao_index a) = 200"
    by (simp add: demo_pcm_def)
  then show ?thesis using a(1) by blast
qed

section \<open>The clock\<close>

text \<open>The distance between the first and the last timestamp, in ms, each gap rounded down.\<close>

fun pts_span :: "int \<Rightarrow> 32 word \<Rightarrow> pcm_frame list \<Rightarrow> nat" where
  "pts_span r p [] = 0"
| "pts_span r p (f # fs) = unat ((pf_pts f - p) * 1000 div word_of_int r) + pts_span r (pf_pts f) fs"

lemma out_time_step:
  assumes "ao_render_time a = s + uint (ao_last_duration a)" "0 < ao_render_time a"
    and "s + int (unat ((pf_pts f - ao_last_pts a) * 1000 div word_of_int (pf_sample_rate f))) + pf_duration_ms f < 2 ^ 31"
    and "0 \<le> s" "0 < pf_duration_ms f" "out_time f a = Inr a'"
  shows "ao_render_time a' = s + int (unat ((pf_pts f - ao_last_pts a) * 1000 div word_of_int (pf_sample_rate f)))
      + pf_duration_ms f"
    and "ao_last_pts a' = pf_pts f" "uint (ao_last_duration a') = pf_duration_ms f"
proof -
  let ?g = "(pf_pts f - ao_last_pts a) * 1000 div word_of_int (pf_sample_rate f)"
  have a': "a' = a\<lparr> ao_render_time := sint (word_of_int (ao_render_time a) + (out_gap f a + word_of_int (pf_duration_ms f))),
      ao_last_pts := pf_pts f, ao_last_duration := word_of_int (pf_duration_ms f) \<rparr>"
    using assms(2,6) by (auto simp: out_time_def Let_def split: if_splits)
  have "(word_of_int (ao_render_time a) :: 32 word) = word_of_int s + ao_last_duration a"
    unfolding assms(1) by (simp add: word_of_int_uint)
  then have "word_of_int (ao_render_time a) + (out_gap f a + word_of_int (pf_duration_ms f))
      = (word_of_int s + ?g + word_of_int (pf_duration_ms f) :: 32 word)"
    by (simp add: out_gap_def)
  also have "\<dots> = word_of_int (s + int (unat ?g) + pf_duration_ms f)" by simp
  finally have w: "word_of_int (ao_render_time a) + (out_gap f a + word_of_int (pf_duration_ms f))
      = (word_of_int (s + int (unat ?g) + pf_duration_ms f) :: 32 word)" .
  have "ao_render_time a' = sint (word_of_int (ao_render_time a) + (out_gap f a + word_of_int (pf_duration_ms f)))"
    by (simp add: a')
  then have "ao_render_time a' = to_int32 (s + int (unat ?g) + pf_duration_ms f)"
    unfolding to_int32_def w .
  moreover have "to_int32 (s + int (unat ?g) + pf_duration_ms f) = s + int (unat ?g) + pf_duration_ms f"
    by (rule to_int32_small) (use assms(3-5) in linarith)+
  ultimately show "ao_render_time a' = s + int (unat ?g) + pf_duration_ms f" by (simp only:)
  show "ao_last_pts a' = pf_pts f" by (simp add: a')
  have "pf_duration_ms f < 2 ^ 31" using assms(3,4) by linarith
  then show "uint (ao_last_duration a') = pf_duration_ms f" using assms(5) by (simp add: a' uint_word_of_int)
qed

lemma out_frames_clock:
  assumes "out_ready r c a" "\<forall>f\<in>set fs. out_format r c f \<and> 0 < pf_duration_ms f \<and> pf_duration_ms f \<le> d"
    and "sl_sampling_rate r" "0 < c" "ao_render_time a = s + uint (ao_last_duration a)" "0 < ao_render_time a" "0 \<le> s"
    and "s + int (pts_span r (ao_last_pts a) fs) + d < 2 ^ 31" "out_frames junk fs a = Inr a'"
  shows "ao_render_time a' = s + int (pts_span r (ao_last_pts a) fs)
    + (if fs = [] then uint (ao_last_duration a) else pf_duration_ms (last fs))"
  using assms(1,2,5-9)
proof (induction fs arbitrary: a s)
  case (Cons f fs)
  let ?g = "unat ((pf_pts f - ao_last_pts a) * 1000 div word_of_int r)"
  have f: "out_format r c f" "0 < pf_duration_ms f" "pf_duration_ms f \<le> d" "pf_sample_rate f = r"
    using Cons.prems(2) by (auto simp: out_format_def)
  have "ao_channels a \<noteq> 0" using Cons.prems(1) assms(4) by (auto simp: out_ready_def)
  then obtain a0 a1 where a1: "audio_out_on_frame True True junk f a = Inr a1" "out_time f a0 = Inr a1"
    "ao_render_time a0 = ao_render_time a" "ao_last_pts a0 = ao_last_pts a"
    "ao_last_duration a0 = ao_last_duration a" "out_ready r c a1"
    using out_frame_ready [of r c f a junk] f assms(3,4) Cons.prems(1) by auto
  have b: "s + int ?g + pf_duration_ms f < 2 ^ 31" using Cons.prems(6) f(3) by simp
  note t = out_time_step [of a0 s f a1, unfolded f(4) a1(3-5), OF Cons.prems(3,4) b Cons.prems(5) f(2) a1(2)]
  have "ao_render_time a' = (s + int ?g) + int (pts_span r (ao_last_pts a1) fs)
      + (if fs = [] then uint (ao_last_duration a1) else pf_duration_ms (last fs))"
    by (rule Cons.IH [OF a1(6)]) (use Cons.prems a1(1) t f(2) in \<open>auto simp: add_nonneg_pos\<close>)
  then show ?case using t by auto
qed simp

text \<open>
  What the renderer shows as a clock: after frames of one format the render time is the distance from
  the first to the last timestamp plus the duration of the last frame, so frames lost on the way are
  accounted for; only the rounding of each gap is lost.
\<close>

lemma audio_out_clock:
  assumes "\<forall>f\<in>set (f0 # fs). out_format r c f \<and> 0 < pf_duration_ms f \<and> pf_duration_ms f \<le> d"
    and "sl_sampling_rate r" "0 < c" "int (pts_span r (pf_pts f0) fs) + d < 2 ^ 31"
  shows "\<exists>a. out_frames junk (f0 # fs) (audio_out_new n k b) = Inr a
    \<and> ck_ms audio_out_ops now a = int (pts_span r (pf_pts f0) fs) + pf_duration_ms (last (f0 # fs))"
proof -
  have f0: "out_format r c f0" "0 < pf_duration_ms f0" "pf_duration_ms f0 \<le> d" using assms(1) by auto
  obtain a0 a1 where a1: "audio_out_on_frame True True junk f0 (audio_out_new n k b) = Inr a1" "out_time f0 a0 = Inr a1"
    "ao_render_time a0 = 0" "out_ready r c a1"
    using out_frame_ready [of r c f0 "audio_out_new n k b" junk] f0 assms(2,3) by (auto simp: audio_out_new_def)
  have small: "pf_duration_ms f0 < 2 ^ 31" using f0(3) assms(4) by linarith
  have t: "ao_render_time a1 = pf_duration_ms f0" "ao_last_pts a1 = pf_pts f0" "uint (ao_last_duration a1) = pf_duration_ms f0"
    using a1(2,3) f0(2) small to_int32_small [of "pf_duration_ms f0"]
    by (auto simp: out_time_def Let_def to_int32_def uint_word_of_int)
  obtain a where a: "out_frames junk fs a1 = Inr a"
    using out_frames_ready [OF a1(4), of fs junk] assms by auto
  have "ao_render_time a = 0 + int (pts_span r (ao_last_pts a1) fs)
      + (if fs = [] then uint (ao_last_duration a1) else pf_duration_ms (last fs))"
    by (rule out_frames_clock [OF a1(4) _ assms(2,3) _ _ _ _ a]) (use assms t f0 in auto)
  then show ?thesis using a1(1) a t by (intro exI [of _ a]) (simp add: audio_out_ops_def)
qed

lemma audio_out_clock_witness:
  "\<exists>a. out_frames (\<lambda>_. 0, \<lambda>_. 0) [demo_pcm 160 0, demo_pcm 160 160, demo_pcm 160 480] (audio_out_new 0 0 False) = Inr a
     \<and> ck_ms audio_out_ops 0 a = 80"
  using audio_out_clock [of "demo_pcm 160 0" "[demo_pcm 160 160, demo_pcm 160 480]" 8000 1 20 "(\<lambda>_. 0, \<lambda>_. 0)" 0 0 False 0]
  by (simp add: out_format_def demo_pcm_def sl_sampling_rate_def)

end
