(* ===== verification/Render_Loop.thy ===== *)
theory Render_Loop
  imports Audio_Out
begin

text \<open>
  The renderer threads \<open>Renders/AVOutBase\<close> over the source interface of \<open>Renders/AVOut.h\<close>: a thread
  polls its source until \<open>stop()\<close> is called, renders each frame it gets and gives it back. The loop is
  a partial function: that it does not return is the value \<open>None\<close>. The lemmas show when it returns, and
  that a thread renders the frames of its queue of the synchroniser in order, whatever the other threads do.
\<close>

section \<open>The source and the thread\<close>

type_synonym ('f, 'w) source_get = "int \<Rightarrow> 'w \<Rightarrow> (int \<times> 'f option \<times> 'w) res"

text \<open>
  What is outside the thread at its \<open>i\<close>-th turn: whether \<open>m_exit\<close> is set, the time, and what the other
  threads have done to the source since the last turn. A frame is rendered without the source, so what they
  do meanwhile is part of the next turn.
\<close>

record 'w poll_env =
  pe_exit :: bool
  pe_now :: int
  pe_others :: "'w \<Rightarrow> 'w"

definition svc_poll ::
    "('f, 'w) source_get \<Rightarrow> ('f option \<Rightarrow> 'w \<Rightarrow> 'w) \<Rightarrow> ('f \<Rightarrow> 'r \<Rightarrow> 'r res) \<Rightarrow> 'w poll_env \<Rightarrow> 'w \<Rightarrow> 'r
     \<Rightarrow> ('w \<times> 'r) res" where
  "svc_poll get release on_frame e w r =
     res_bind (get (pe_now e) (pe_others e w)) (\<lambda>(idle_time, frame, w).
       case frame of
         None \<Rightarrow> Inr (w, r)
       | Some f \<Rightarrow> res_bind (on_frame f r) (\<lambda>r. Inr (release (Some f) w, r)))"

partial_function (option) svc_loop ::
    "('f, 'w) source_get \<Rightarrow> ('f option \<Rightarrow> 'w \<Rightarrow> 'w) \<Rightarrow> ('f \<Rightarrow> 'r \<Rightarrow> 'r res) \<Rightarrow> (nat \<Rightarrow> 'w poll_env) \<Rightarrow> nat
     \<Rightarrow> 'w \<Rightarrow> 'r \<Rightarrow> ('w \<times> 'r) res option" where
  "svc_loop get release on_frame env i w r =
     (if pe_exit (env i) then Some (Inr (w, r))
      else case svc_poll get release on_frame (env i) w r of
          Inl e \<Rightarrow> Some (Inl e)
        | Inr (w, r) \<Rightarrow> svc_loop get release on_frame env (Suc i) w r)"

text \<open>\<open>Svc\<close>: the hooks around the loop are those of the renderer.\<close>

definition av_out_svc ::
    "('f, 'w) source_get \<Rightarrow> ('f option \<Rightarrow> 'w \<Rightarrow> 'w) \<Rightarrow> ('r \<Rightarrow> 'r) \<Rightarrow> ('f \<Rightarrow> 'r \<Rightarrow> 'r res) \<Rightarrow> ('r \<Rightarrow> 'r)
     \<Rightarrow> (nat \<Rightarrow> 'w poll_env) \<Rightarrow> 'w \<Rightarrow> 'r \<Rightarrow> ('w \<times> 'r) res option" where
  "av_out_svc get release on_start on_frame on_end env w r =
     map_option (\<lambda>res. res_bind res (\<lambda>(w, r). Inr (w, on_end r))) (svc_loop get release on_frame env 0 w (on_start r))"

text \<open>\<open>m_exit\<close> and \<open>m_source\<close>; \<open>start()\<close> tells whether it spawned the thread. Nothing resets \<open>m_exit\<close>.\<close>

record av_out_base =
  ob_exit :: bool
  ob_source :: bool

definition av_out_new :: av_out_base where
  "av_out_new = \<lparr> ob_exit = False, ob_source = False \<rparr>"

definition av_out_set_source :: "bool \<Rightarrow> av_out_base \<Rightarrow> av_out_base" where
  "av_out_set_source source b = b\<lparr> ob_source := source \<rparr>"

definition av_out_start :: "av_out_base \<Rightarrow> bool" where
  "av_out_start b = ob_source b"

definition av_out_stop :: "av_out_base \<Rightarrow> av_out_base" where
  "av_out_stop b = b\<lparr> ob_exit := True \<rparr>"

section \<open>When the loop returns\<close>

fun svc_polls ::
    "('f, 'w) source_get \<Rightarrow> ('f option \<Rightarrow> 'w \<Rightarrow> 'w) \<Rightarrow> ('f \<Rightarrow> 'r \<Rightarrow> 'r res) \<Rightarrow> 'w poll_env list \<Rightarrow> 'w \<Rightarrow> 'r
     \<Rightarrow> ('w \<times> 'r) res" where
  "svc_polls get release on_frame [] w r = Inr (w, r)"
| "svc_polls get release on_frame (e # es) w r =
     res_bind (svc_poll get release on_frame e w r) (\<lambda>(w, r). svc_polls get release on_frame es w r)"

lemma svc_loop_polls:
  assumes "\<forall>j<k. \<not> pe_exit (env (i + j))" "pe_exit (env (i + k))"
  shows "svc_loop get release on_frame env i w r = Some (svc_polls get release on_frame (map env [i..<i + k]) w r)"
  using assms
proof (induction k arbitrary: i w r)
  case 0
  then show ?case by (subst svc_loop.simps) simp
next
  case (Suc k)
  have turn: "\<not> pe_exit (env i)" using Suc.prems(1) by force
  have rest: "\<forall>j<k. \<not> pe_exit (env (Suc i + j))" "pe_exit (env (Suc i + k))"
    using Suc.prems by (auto simp: less_Suc_eq_0_disj)
  have es: "map env [i..<i + Suc k] = env i # map env [Suc i..<Suc i + k]" by (simp add: upt_conv_Cons del: upt_Suc)
  show ?case
  proof (cases "svc_poll get release on_frame (env i) w r")
    case (Inl e)
    then show ?thesis using turn unfolding es by (subst svc_loop.simps) simp
  next
    case (Inr wr)
    then show ?thesis
      using turn Suc.IH [OF rest, of "fst wr" "snd wr"] unfolding es
      by (subst svc_loop.simps) (simp add: split_def)
  qed
qed

lemma svc_returns:
  assumes "pe_exit (env k)"
  shows "av_out_svc get release on_start on_frame on_end env w r =
    Some (res_bind (svc_polls get release on_frame (map env [0..<LEAST k. pe_exit (env k)]) w (on_start r))
           (\<lambda>(w, r). Inr (w, on_end r)))"
proof -
  define n where "n = (LEAST k. pe_exit (env k))"
  have "pe_exit (env n)" unfolding n_def using assms by (rule LeastI)
  moreover have "\<not> pe_exit (env j)" if "j < n" for j using that unfolding n_def by (rule not_less_Least)
  ultimately have "svc_loop get release on_frame env 0 w (on_start r)
      = Some (svc_polls get release on_frame (map env [0..<n]) w (on_start r))"
    using svc_loop_polls [of n env 0] by simp
  then show ?thesis by (simp add: av_out_svc_def n_def)
qed


section \<open>What is rendered\<close>

fun play :: "('f \<Rightarrow> 'r \<Rightarrow> 'r res) \<Rightarrow> 'f list \<Rightarrow> 'r \<Rightarrow> 'r res" where
  "play on_frame [] r = Inr r"
| "play on_frame (f # fs) r = res_bind (on_frame f r) (play on_frame fs)"

lemma play_append: "play on_frame (fs @ gs) r = res_bind (play on_frame fs r) (play on_frame gs)"
  by (induction fs arbitrary: r) (auto simp: res_bind_def split: sum.split)

text \<open>
  What a renderer needs of its source: \<open>taken\<close> are the frames handed out, and \<open>inv\<close> holds between two turns,
  when the frame of the last one has been given back.
\<close>

locale av_source =
  fixes get :: "('f, 'w) source_get"
    and release :: "'f option \<Rightarrow> 'w \<Rightarrow> 'w"
    and taken :: "'w \<Rightarrow> 'f list"
    and inv :: "'w \<Rightarrow> bool"
  assumes get_taken: "get now w = Inr (idle, fo, w') \<Longrightarrow> taken w' = taken w @ (case fo of None \<Rightarrow> [] | Some f \<Rightarrow> [f])"
    and release_none: "release None w = w"
    and release_taken: "taken (release fo w) = taken w"
    and turn_inv: "inv w \<Longrightarrow> get now w = Inr (idle, fo, w') \<Longrightarrow> inv (release fo w')"
begin

text \<open>What the other threads may do: all that keeps the invariant and takes no frame of this queue.\<close>

definition polite :: "'w poll_env \<Rightarrow> bool" where
  "polite e \<longleftrightarrow> (\<forall>w. inv w \<longrightarrow> inv (pe_others e w) \<and> taken (pe_others e w) = taken w)"

lemma poll_plays:
  assumes "svc_poll get release on_frame e w r = Inr (w', r')" "inv w" "polite e"
  shows "inv w' \<and> (\<exists>fs. taken w' = taken w @ fs \<and> play on_frame fs r = Inr r')"
proof -
  have o: "inv (pe_others e w)" "taken (pe_others e w) = taken w" using assms(2,3) by (simp_all add: polite_def)
  obtain idle fo w1 where g: "get (pe_now e) (pe_others e w) = Inr (idle, fo, w1)"
    and rest: "(case fo of None \<Rightarrow> Inr (w1, r)
       | Some f \<Rightarrow> res_bind (on_frame f r) (\<lambda>r. Inr (release (Some f) w1, r))) = Inr (w', r')"
    using assms(1) by (auto simp: svc_poll_def res_bind_Inr_iff)
  show ?thesis
    using rest get_taken [OF g] turn_inv [OF o(1) g] o(2) release_taken release_none
    by (cases fo) (auto simp: res_bind_Inr_iff intro: exI [of _ "[]"] exI [of _ "[_]"])
qed

lemma polls_play:
  assumes "svc_polls get release on_frame es w r = Inr (w', r')" "inv w" "\<forall>e\<in>set es. polite e"
  shows "inv w' \<and> (\<exists>fs. taken w' = taken w @ fs \<and> play on_frame fs r = Inr r')"
  using assms
proof (induction es arbitrary: w r)
  case (Cons e es)
  obtain w1 r1 where p: "svc_poll get release on_frame e w r = Inr (w1, r1)"
    "svc_polls get release on_frame es w1 r1 = Inr (w', r')"
    using Cons.prems(1) by (auto simp: res_bind_Inr_iff)
  obtain fs where fs: "inv w1" "taken w1 = taken w @ fs" "play on_frame fs r = Inr r1"
    using poll_plays [OF p(1) Cons.prems(2)] Cons.prems(3) by auto
  obtain gs where gs: "inv w'" "taken w' = taken w1 @ gs" "play on_frame gs r1 = Inr r'"
    using Cons.IH [OF p(2) fs(1)] Cons.prems(3) by auto
  show ?case using fs gs by (intro conjI exI [of _ "fs @ gs"]) (auto simp: play_append)
qed simp

lemma polls_no_fault:
  assumes "\<And>now w. inv w \<Longrightarrow> no_fault (get now w)"
    and "\<And>now w idle f w'. inv w \<Longrightarrow> get now w = Inr (idle, Some f, w') \<Longrightarrow> good f"
    and "\<And>f r. good f \<Longrightarrow> ok r \<Longrightarrow> \<exists>r'. on_frame f r = Inr r' \<and> ok r'"
    and "inv w" "ok r" "\<forall>e\<in>set es. polite e"
  shows "no_fault (svc_polls get release on_frame es w r)"
  using assms(4-6)
proof (induction es arbitrary: w r)
  case (Cons e es)
  have o: "inv (pe_others e w)" using Cons.prems by (simp add: polite_def)
  obtain idle fo w1 where g: "get (pe_now e) (pe_others e w) = Inr (idle, fo, w1)"
    using assms(1) [OF o, of "pe_now e"] by (auto simp: no_fault_iff)
  have i: "inv (release fo w1)" by (rule turn_inv [OF o g])
  have "\<exists>w2 r2. svc_poll get release on_frame e w r = Inr (w2, r2) \<and> inv w2 \<and> ok r2"
  proof (cases fo)
    case None
    then show ?thesis using g i Cons.prems(2) release_none by (simp add: svc_poll_def)
  next
    case (Some f)
    then have "good f" using assms(2) [OF o] g by blast
    then show ?thesis using Some g i assms(3) [OF _ Cons.prems(2), of f] by (auto simp: svc_poll_def)
  qed
  then show ?case using Cons.IH Cons.prems(3) by auto
qed simp

end

section \<open>The synchroniser as a source\<close>

lemma sync_video_taken:
  assumes "sync_video_frame ops now s = Inr (r, fo, s')"
  shows "as_video_out s' = as_video_out s @ (case fo of None \<Rightarrow> [] | Some f \<Rightarrow> [f])"
  using assms by (cases rule: video_frame_cases) auto

lemma sync_audio_taken:
  "sync_audio_frame s = (r, fo, s') \<Longrightarrow> as_audio_out s' = as_audio_out s @ (case fo of None \<Rightarrow> [] | Some f \<Rightarrow> [f])"
  by (auto simp: sync_audio_frame_def Let_def split: if_splits)

lemma release_frame_out [simp]:
  "as_video_out (release_frame fo s) = as_video_out s" "as_audio_out (release_frame fo s) = as_audio_out s"
  by (simp_all add: release_frame_def frame_release_def split: option.split)

lemma sync_reach_release:
  "sync_reach ops s \<Longrightarrow> (\<And>f. fo = Some f \<Longrightarrow> f \<in> set (as_held s)) \<Longrightarrow> sync_reach ops (release_frame fo s)"
  by (cases fo) (auto simp: release_frame_def intro: sync_reach.step [of _ _ "Release_Frame _"])

lemma video_turn_reach:
  assumes "sync_reach ops s" "sync_video_frame ops now s = Inr (r, fo, s')"
  shows "sync_reach ops (release_frame fo s')"
proof (rule sync_reach_release)
  show "sync_reach ops s'" using assms sync_reach.step [of ops s "Take_Video now" s'] by simp
  show "f \<in> set (as_held s')" if "fo = Some f" for f
    using assms(2) that by (cases rule: video_frame_cases) auto
qed

lemma audio_turn_reach:
  assumes "sync_reach ops s" "sync_audio_frame s = (r, fo, s')"
  shows "sync_reach ops (release_frame fo s')"
proof (rule sync_reach_release)
  show "sync_reach ops s'" using assms sync_reach.step [of ops s Take_Audio s'] by simp
  show "f \<in> set (as_held s')" if "fo = Some f" for f
    using assms(2) that by (auto simp: sync_audio_frame_def Let_def split: if_splits)
qed

interpretation video_source: av_source "sync_video_frame ops" release_frame as_video_out "sync_reach ops" for ops
  by unfold_locales (auto simp: sync_video_taken release_frame_def [of None] intro: video_turn_reach)

interpretation audio_source: av_source "\<lambda>_ s. Inr (sync_audio_frame s)" release_frame as_audio_out "sync_reach ops" for ops
  by unfold_locales (auto simp: sync_audio_taken release_frame_def [of None] intro: audio_turn_reach)

text \<open>Any sequence of actions of the other threads is polite if it takes no frame of this queue.\<close>

definition others_do :: "'c clock_ops \<Rightarrow> ('c sync_action \<Rightarrow> bool) \<Rightarrow> 'c av_sync poll_env \<Rightarrow> bool" where
  "others_do ops allowed e \<longleftrightarrow> (\<forall>s. sync_reach ops s \<longrightarrow>
     (\<exists>as. (\<forall>a\<in>set as. allowed a) \<and> sync_run ops as s = Inr (pe_others e s)))"

lemma sync_run_out:
  assumes "sync_run ops as s = Inr s'"
  shows "(\<forall>a\<in>set as. \<forall>now. a \<noteq> Take_Video now) \<Longrightarrow> as_video_out s' = as_video_out s"
    and "(\<forall>a\<in>set as. a \<noteq> Take_Audio) \<Longrightarrow> as_audio_out s' = as_audio_out s"
proof -
  have step: "(\<forall>now. a \<noteq> Take_Video now) \<longrightarrow> as_video_out s2 = as_video_out s1"
    "a \<noteq> Take_Audio \<longrightarrow> as_audio_out s2 = as_audio_out s1" if "sync_do ops a s1 = Inr s2" for a s1 s2
    using that by (cases a; auto simp: res_bind_Inr_iff push_video_queue_def push_video_settle_def push_audio_def
        frame_add_ref_def set_clock_def sync_audio_frame_def Let_def elim!: video_frame_cases split: if_splits)+
  show "(\<forall>a\<in>set as. \<forall>now. a \<noteq> Take_Video now) \<Longrightarrow> as_video_out s' = as_video_out s"
    using assms by (induction as arbitrary: s) (fastforce simp: res_bind_Inr_iff dest: step(1))+
  show "(\<forall>a\<in>set as. a \<noteq> Take_Audio) \<Longrightarrow> as_audio_out s' = as_audio_out s"
    using assms by (induction as arbitrary: s) (fastforce simp: res_bind_Inr_iff dest: step(2))+
qed

lemma others_polite:
  "others_do ops (\<lambda>a. \<forall>now. a \<noteq> Take_Video now) e \<Longrightarrow> video_source.polite ops e"
  "others_do ops (\<lambda>a. a \<noteq> Take_Audio) e \<Longrightarrow> audio_source.polite ops e"
  unfolding others_do_def video_source.polite_def audio_source.polite_def
  by (metis sync_run_reach sync_run_out)+

section \<open>The threads of the two renderers\<close>

text \<open>A turn in which the other threads do nothing; the flag is found set at turn \<open>k\<close>.\<close>

definition demo_turns :: "nat \<Rightarrow> int \<Rightarrow> nat \<Rightarrow> 'w poll_env" where
  "demo_turns k now i = \<lparr> pe_exit = (k \<le> i), pe_now = now, pe_others = (\<lambda>w. w) \<rparr>"

lemma demo_turns_ok: "pe_exit (demo_turns k now k)" "others_do ops allowed (demo_turns k now i)"
  by (auto simp: demo_turns_def others_do_def intro: exI [of _ "[]"])

lemma demo_turns_least: "(LEAST i. pe_exit (demo_turns k now i)) = k"
  by (auto simp: demo_turns_def intro: Least_equality)


text \<open>
  The video thread: it returns once it is stopped, and, unless the clock or the renderer faults, it has then
  rendered the frames it took, each once and in the order in which they were pushed, whatever the decoders,
  the audio thread and the owner of the clock did in between.
\<close>

lemma video_thread_plays:
  assumes "sync_reach ops s" "pe_exit (env k)"
    and "\<And>i. others_do ops (\<lambda>a. \<forall>now. a \<noteq> Take_Video now) (env i)"
  shows "\<exists>res. av_out_svc (sync_video_frame ops) release_frame on_start on_frame on_end env s r = Some res
    \<and> (\<forall>s' r'. res = Inr (s', r') \<longrightarrow> sync_reach ops s'
        \<and> (\<exists>fs r1. as_video_out s' = as_video_out s @ fs \<and> as_video_in s' = as_video_out s @ fs @ as_video s'
             \<and> play on_frame fs (on_start r) = Inr r1 \<and> r' = on_end r1))"
proof -
  define es where "es = map env [0..<LEAST k. pe_exit (env k)]"
  have p: "\<forall>e\<in>set es. video_source.polite ops e" using assms(3) by (auto simp: es_def intro: others_polite)
  have "sync_reach ops s' \<and> (\<exists>fs r1. as_video_out s' = as_video_out s @ fs \<and> as_video_in s' = as_video_out s @ fs @ as_video s'
      \<and> play on_frame fs (on_start r) = Inr r1 \<and> r' = on_end r1)"
    if "res_bind (svc_polls (sync_video_frame ops) release_frame on_frame es s (on_start r)) (\<lambda>(w, r). Inr (w, on_end r))
        = Inr (s', r')" for s' r'
  proof -
    note run = that
    obtain r1 where r1: "svc_polls (sync_video_frame ops) release_frame on_frame es s (on_start r) = Inr (s', r1)"
      "r' = on_end r1" using run by (auto simp: res_bind_Inr_iff)
    obtain fs where fs: "sync_reach ops s'" "as_video_out s' = as_video_out s @ fs" "play on_frame fs (on_start r) = Inr r1"
      using video_source.polls_play [OF r1(1) assms(1) p] by blast
    have "sync_order s'" using sync_reach_inv [OF fs(1)] by blast
    then show ?thesis using fs r1(2) by (auto simp: sync_order_def)
  qed
  then show ?thesis
    unfolding svc_returns [where env = env and k = k, OF assms(2)] es_def [symmetric] by blast
qed

lemma video_thread_plays_witness:
  "\<exists>s'. av_out_svc (sync_video_frame timer_ops) release_frame (\<lambda>r. r) (\<lambda>f r. Inr (r @ [fr_id f])) (\<lambda>r. r)
          (demo_turns 1 1050) demo_sync [] = Some (Inr (s', [2])) \<and> sync_reach timer_ops s'
        \<and> as_video_out s' = [demo_frame 1 0, demo_frame 2 90000]"
proof -
  let ?svc = "av_out_svc (sync_video_frame timer_ops) release_frame (\<lambda>r. r) (\<lambda>f r. Inr (r @ [fr_id f])) (\<lambda>r. r)
    (demo_turns 1 1050) demo_sync []"
  obtain res where res: "?svc = Some res" and r: "\<And>s' r'. res = Inr (s', r') \<Longrightarrow> sync_reach timer_ops s'
        \<and> (\<exists>fs r1. as_video_out s' = as_video_out demo_sync @ fs \<and> as_video_in s' = as_video_out demo_sync @ fs @ as_video s'
             \<and> play (\<lambda>f r. Inr (r @ [fr_id f])) fs [] = Inr r1 \<and> r' = r1)"
    using video_thread_plays [where env = "demo_turns 1 1050" and k = 1, OF demo_sync_reach demo_turns_ok(1) demo_turns_ok(2),
        of "\<lambda>r. r" "\<lambda>f r. Inr (r @ [fr_id f])" "\<lambda>r. r" "[]"] by blast
  have "sync_video_frame timer_ops 1050 demo_sync = Inr (0, Some (demo_frame 2 90000),
      demo_sync\<lparr> as_video := [], as_last_video_ts := 90000, as_video_duration := 1040,
        as_video_out := [demo_frame 1 0, demo_frame 2 90000], as_held := [demo_frame 2 90000, demo_frame 1 0],
        as_played := [0, 90000] \<rparr>)"
    by (simp add: sync_video_frame_def demo_sync_def av_sync_new_def sync_clock_ms_def timer_clock_ms_def gap_ms_def
        RTP_VIDEO_CLOCK_def demo_frame_def Let_def)
  then have "\<exists>s'. ?svc = Some (Inr (s', [2])) \<and> as_video_out s' = [demo_frame 1 0, demo_frame 2 90000]"
    unfolding svc_returns [where env = "demo_turns 1 1050" and k = 1, OF demo_turns_ok(1)] demo_turns_least
    by (simp add: svc_poll_def demo_turns_def release_frame_def frame_release_def) (simp add: demo_frame_def)
  then show ?thesis using res r by auto
qed

text \<open>
  From the queue to the loudspeaker: the audio thread over the renderer, for decoded frames of one supported
  format, returns without a fault once it is stopped; the buffers the device got, with the samples
  waiting in the half-filled one, are the samples of the frames taken, which are the frames pushed, in
  order, up to those still queued.
\<close>

lemma audio_thread_plays:
  assumes "sync_reach ops s" "as_audio_out s = []" "pe_exit (env k)"
    and "\<And>i. others_do ops (\<lambda>a. a \<noteq> Take_Audio) (env i)"
    and "\<And>f. out_format r c (content f)" "sl_sampling_rate r" "0 < c"
  shows "\<exists>s' a. av_out_svc (\<lambda>_ s. Inr (sync_audio_frame s)) release_frame (\<lambda>a. a)
      (\<lambda>f. audio_out_on_frame True True junk (content f)) (\<lambda>a. a) env s (audio_out_new n i b) = Some (Inr (s', a))
    \<and> as_audio_in s' = as_audio_out s' @ as_audio s'
    \<and> (as_audio_out s' \<noteq> [] \<longrightarrow> concat (ao_enqueued a) @ region (out_buffer a) 0 (nat (ao_index a))
         = concat (map (pf_pcm \<circ> content) (as_audio_out s')))"
proof -
  let ?f = "\<lambda>f. audio_out_on_frame True True junk (content f)" and ?get = "\<lambda>_ s. Inr (sync_audio_frame s)"
  define es where "es = map env [0..<LEAST k. pe_exit (env k)]"
  define ok where "ok a \<longleftrightarrow> out_ready r c a \<or> ao_channels a = 0 \<and> ao_enqueued a = []" for a
  have p: "\<forall>e\<in>set es. audio_source.polite ops e" using assms(4) by (auto simp: es_def intro: others_polite)
  have "\<exists>a'. ?f f a = Inr a' \<and> ok a'" if "ok a" for f a
    using out_frame_ready [OF assms(5-7), of a junk f] that unfolding ok_def by blast
  moreover have "ok (audio_out_new n i b)" by (simp add: ok_def audio_out_new_def)
  ultimately have "no_fault (svc_polls ?get release_frame ?f es s (audio_out_new n i b))"
    using audio_source.polls_no_fault [of ops "\<lambda>_. True" ok ?f s "audio_out_new n i b" es] assms(1) p by simp
  then obtain s' a where sa: "svc_polls ?get release_frame ?f es s (audio_out_new n i b) = Inr (s', a)"
    by (auto simp: no_fault_iff)
  then have fs: "sync_reach ops s'" "play ?f (as_audio_out s') (audio_out_new n i b) = Inr a"
    using audio_source.polls_play [OF sa assms(1) p] assms(2) by auto
  have "play ?f fs a0 = out_frames junk (map content fs) a0" for fs a0
    by (induction fs arbitrary: a0) (auto simp: res_bind_def split: sum.split)
  then have "out_frames junk (map content (as_audio_out s')) (audio_out_new n i b) = Inr a" using fs(2) by simp
  moreover have "\<forall>p\<in>set (map content (as_audio_out s')). out_format r c p" using assms(5) by simp
  ultimately have "as_audio_out s' \<noteq> [] \<Longrightarrow> concat (ao_enqueued a) @ region (out_buffer a) 0 (nat (ao_index a))
      = concat (map (pf_pcm \<circ> content) (as_audio_out s'))"
    using out_frames_new [of "map content (as_audio_out s')" r c junk n i b] assms(6,7) by auto
  moreover have "sync_order s'" using sync_reach_inv [OF fs(1)] by blast
  ultimately show ?thesis
    using sa unfolding svc_returns [where env = env and k = k, OF assms(3)] es_def [symmetric] by (auto simp: sync_order_def)
qed

lemma audio_thread_plays_witness:
  "\<exists>s' a. av_out_svc (\<lambda>_ s. Inr (sync_audio_frame s)) release_frame (\<lambda>a. a)
      (\<lambda>f. audio_out_on_frame True True (\<lambda>_. 0, \<lambda>_. 0) (demo_pcm 100 (fr_pts f))) (\<lambda>a. a) (demo_turns 3 0)
      (push_audio (demo_frame 2 160) (push_audio (demo_frame 1 0) (av_sync_new 0 :: av_timer av_sync))) (audio_out_new 0 0 False) = Some (Inr (s', a))
    \<and> as_audio_in s' = as_audio_out s' @ as_audio s'
    \<and> (as_audio_out s' = [] \<or> length (concat (ao_enqueued a)) + nat (ao_index a) = 100 * length (as_audio_out s'))"
proof -
  let ?s = "push_audio (demo_frame 2 160) (push_audio (demo_frame 1 0) (av_sync_new 0)) :: av_timer av_sync"
  have "sync_run timer_ops [Queue_Audio (demo_frame 1 0), Queue_Audio (demo_frame 2 160)] (av_sync_new 0) = Inr ?s"
    by simp
  then have s: "sync_reach timer_ops ?s" "as_audio_out ?s = []"
    by (rule sync_run_reach [OF sync_reach.new]) (simp add: push_audio_def av_sync_new_def frame_add_ref_def)
  have f: "\<And>f. out_format 8000 1 (demo_pcm 100 (fr_pts f))" "sl_sampling_rate 8000"
    by (simp_all add: out_format_def demo_pcm_def sl_sampling_rate_def)
  obtain s' a where sa: "av_out_svc (\<lambda>_ s. Inr (sync_audio_frame s)) release_frame (\<lambda>a. a)
      (\<lambda>f. audio_out_on_frame True True (\<lambda>_. 0, \<lambda>_. 0) (demo_pcm 100 (fr_pts f))) (\<lambda>a. a) (demo_turns 3 0)
      ?s (audio_out_new 0 0 False) = Some (Inr (s', a))" "as_audio_in s' = as_audio_out s' @ as_audio s'"
    "as_audio_out s' \<noteq> [] \<longrightarrow> concat (ao_enqueued a) @ region (out_buffer a) 0 (nat (ao_index a))
         = concat (map (pf_pcm \<circ> (\<lambda>f. demo_pcm 100 (fr_pts f))) (as_audio_out s'))"
    using audio_thread_plays [where env = "demo_turns 3 0" and k = 3 and content = "\<lambda>f. demo_pcm 100 (fr_pts f)",
        OF s demo_turns_ok(1) demo_turns_ok(2) f, of "(\<lambda>_. 0, \<lambda>_. 0)" 0 0 False] by auto
  have "length (concat (map (pf_pcm \<circ> (\<lambda>f. demo_pcm 100 (fr_pts f))) fs)) = 100 * length fs" for fs
    by (induction fs) (simp_all add: demo_pcm_def)
  then have "length (concat (ao_enqueued a) @ region (out_buffer a) 0 (nat (ao_index a))) = 100 * length (as_audio_out s')"
    if "as_audio_out s' \<noteq> []"
    unfolding mp [OF sa(3) that] .
  then have "as_audio_out s' = [] \<or> length (concat (ao_enqueued a)) + nat (ao_index a) = 100 * length (as_audio_out s')"
    by auto
  then show ?thesis using sa(1,2) by blast
qed

end
