(* ===== verification/Av_Frame.thy ===== *)
theory Av_Frame
  imports Prelude "HOL-Library.Multiset"
begin

text \<open>
  Decoded pictures: \<open>Common/AVFrame.h\<close>, \<open>Decoders/VideoDecoder\<close> and the part of \<open>BasePlayer\<close> between stream,
  decoder and frame. A frame and its decoder are reference counted, and a frame holds a reference to its
  decoder, because its destructor gives the surface back through the decoder's context. The lemmas show
  that this is enough: no order of releases uses a context that is gone, and the last ones free everything.
\<close>

section \<open>Objects\<close>

text \<open>
  Decoders and frames are numbers. A decoder has a count and, while it lives, a codec context; a frame has a
  count and its decoder; \<open>fh_surfaces\<close> are the frames whose surface the codec library has not got back.
\<close>

record frame_heap =
  fh_next :: nat
  fh_dec :: "nat \<Rightarrow> int option"
  fh_ctx :: "nat \<Rightarrow> bool"
  fh_frame :: "nat \<Rightarrow> (int \<times> nat) option"
  fh_surfaces :: "nat set"

definition no_frames :: frame_heap where
  "no_frames = \<lparr> fh_next = 0, fh_dec = (\<lambda>_. None), fh_ctx = (\<lambda>_. False), fh_frame = (\<lambda>_. None), fh_surfaces = {} \<rparr>"

text \<open>A decoder that was created and built.\<close>

definition video_decoder_new :: "frame_heap \<Rightarrow> nat \<times> frame_heap" where
  "video_decoder_new h =
     (let d = fh_next h in
      (d, h\<lparr> fh_next := d + 1, fh_dec := (fh_dec h)(d := Some 1), fh_ctx := (fh_ctx h)(d := True) \<rparr>))"

definition decoder_add_ref :: "nat \<Rightarrow> frame_heap \<Rightarrow> frame_heap res" where
  "decoder_add_ref d h =
     (case fh_dec h d of None \<Rightarrow> Inl Use_After_Free
      | Some n \<Rightarrow> Inr (h\<lparr> fh_dec := (fh_dec h)(d := Some (n + 1)) \<rparr>))"

text \<open>\<open>VideoDecoder::tear\<close>, which only the destructor may call while frames are about.\<close>

definition video_decoder_tear :: "nat \<Rightarrow> frame_heap \<Rightarrow> frame_heap" where
  "video_decoder_tear d h = h\<lparr> fh_ctx := (fh_ctx h)(d := False) \<rparr>"

definition decoder_release :: "nat \<Rightarrow> frame_heap \<Rightarrow> frame_heap res" where
  "decoder_release d h =
     (case fh_dec h d of None \<Rightarrow> Inl Use_After_Free
      | Some n \<Rightarrow>
          if n = 1 then let h = video_decoder_tear d h in Inr (h\<lparr> fh_dec := (fh_dec h)(d := None) \<rparr>)
          else Inr (h\<lparr> fh_dec := (fh_dec h)(d := Some (n - 1)) \<rparr>))"

text \<open>\<open>AVFrame::create_instance\<close> for a picture; \<open>None\<close> when the frame cannot be allocated.\<close>

definition av_frame_create :: "bool \<Rightarrow> nat \<Rightarrow> frame_heap \<Rightarrow> (nat option \<times> frame_heap) res" where
  "av_frame_create alloc d h =
     (if \<not> alloc then Inr (None, h)
      else res_bind (decoder_add_ref d h) (\<lambda>h.
        let f = fh_next h in Inr (Some f, h\<lparr> fh_next := f + 1, fh_frame := (fh_frame h)(f := Some (1, d)) \<rparr>)))"

definition av_frame_add_ref :: "nat \<Rightarrow> frame_heap \<Rightarrow> frame_heap res" where
  "av_frame_add_ref f h =
     (case fh_frame h f of None \<Rightarrow> Inl Use_After_Free
      | Some (n, d) \<Rightarrow> Inr (h\<lparr> fh_frame := (fh_frame h)(f := Some (n + 1, d)) \<rparr>))"

text \<open>The destructor: the surface goes back through the context of the decoder, then the decoder is released.\<close>

definition av_frame_delete :: "nat \<Rightarrow> nat \<Rightarrow> frame_heap \<Rightarrow> frame_heap res" where
  "av_frame_delete f d h =
     (if \<not> fh_ctx h d then Inl Use_After_Free
      else decoder_release d (h\<lparr> fh_surfaces := fh_surfaces h - {f}, fh_frame := (fh_frame h)(f := None) \<rparr>))"

definition av_frame_release :: "nat \<Rightarrow> frame_heap \<Rightarrow> frame_heap res" where
  "av_frame_release f h =
     (case fh_frame h f of None \<Rightarrow> Inl Use_After_Free
      | Some (n, d) \<Rightarrow>
          if n = 1 then av_frame_delete f d h
          else Inr (h\<lparr> fh_frame := (fh_frame h)(f := Some (n - 1, d)) \<rparr>))"

text \<open>
  \<open>VideoDecoder::dec_image_output\<close> with an observer that keeps a reference to the frame or does not. A surface
  without a first plane is dropped; a frame that could not be allocated is passed on as null and released.
\<close>

definition dec_image_output :: "bool \<Rightarrow> bool \<Rightarrow> bool \<Rightarrow> nat \<Rightarrow> frame_heap \<Rightarrow> (nat option \<times> frame_heap) res" where
  "dec_image_output surface_ok alloc keep d h =
     (if \<not> surface_ok then Inr (None, h)
      else res_bind (av_frame_create alloc d h) (\<lambda>(fo, h).
        case fo of
          None \<Rightarrow> Inl Null_Deref
        | Some f \<Rightarrow>
            let h = h\<lparr> fh_surfaces := insert f (fh_surfaces h) \<rparr> in
            res_bind (if keep then av_frame_add_ref f h else Inr h) (\<lambda>h.
            res_bind (av_frame_release f h) (\<lambda>h. Inr (if keep then Some f else None, h)))))"

section \<open>Who holds what\<close>

datatype token = Tok_Dec nat | Tok_Frame nat

text \<open>
  What the player, the synchroniser and the renderers do with the references they hold. \<open>Deliver\<close> is a
  picture that comes out of a decoder somebody holds.
\<close>

datatype frame_action =
    New_Decoder
  | Add_Decoder nat
  | Release_Decoder nat
  | Deliver nat bool
  | Add_Frame nat
  | Drop_Frame nat

type_synonym frame_state = "frame_heap \<times> token multiset"

fun frame_step :: "frame_action \<Rightarrow> frame_state \<Rightarrow> frame_state res" where
  "frame_step New_Decoder (h, M) = (let (d, h) = video_decoder_new h in Inr (h, add_mset (Tok_Dec d) M))"
| "frame_step (Add_Decoder d) (h, M) = res_bind (decoder_add_ref d h) (\<lambda>h. Inr (h, add_mset (Tok_Dec d) M))"
| "frame_step (Release_Decoder d) (h, M) = res_bind (decoder_release d h) (\<lambda>h. Inr (h, M - {#Tok_Dec d#}))"
| "frame_step (Deliver d keep) (h, M) =
     res_bind (dec_image_output True True keep d h) (\<lambda>(fo, h).
       Inr (h, case fo of None \<Rightarrow> M | Some f \<Rightarrow> add_mset (Tok_Frame f) M))"
| "frame_step (Add_Frame f) (h, M) = res_bind (av_frame_add_ref f h) (\<lambda>h. Inr (h, add_mset (Tok_Frame f) M))"
| "frame_step (Drop_Frame f) (h, M) = res_bind (av_frame_release f h) (\<lambda>h. Inr (h, M - {#Tok_Frame f#}))"

text \<open>Nobody uses an object without a reference to it.\<close>

fun frame_legal :: "frame_action \<Rightarrow> token multiset \<Rightarrow> bool" where
  "frame_legal New_Decoder M = True"
| "frame_legal (Add_Decoder d) M = (Tok_Dec d \<in># M)"
| "frame_legal (Release_Decoder d) M = (Tok_Dec d \<in># M)"
| "frame_legal (Deliver d keep) M = (Tok_Dec d \<in># M)"
| "frame_legal (Add_Frame f) M = (Tok_Frame f \<in># M)"
| "frame_legal (Drop_Frame f) M = (Tok_Frame f \<in># M)"

inductive frame_reach :: "frame_state \<Rightarrow> bool" where
  start: "frame_reach (no_frames, {#})"
| step: "frame_reach (h, M) \<Longrightarrow> frame_legal a M \<Longrightarrow> frame_step a (h, M) = Inr s \<Longrightarrow> frame_reach s"

text \<open>The frames that hold a reference to a decoder.\<close>

definition frames_of :: "frame_heap \<Rightarrow> nat \<Rightarrow> nat set" where
  "frames_of h d = {f. \<exists>n. fh_frame h f = Some (n, d)}"

definition dec_owners :: "frame_heap \<Rightarrow> token multiset \<Rightarrow> nat \<Rightarrow> nat" where
  "dec_owners h M d = count M (Tok_Dec d) + card (frames_of h d)"

definition frame_owners :: "token multiset \<Rightarrow> nat \<Rightarrow> nat" where
  "frame_owners M f = count M (Tok_Frame f)"

definition opt_count :: "nat \<Rightarrow> int option" where
  "opt_count n = (if n = 0 then None else Some (int n))"

definition frames_inv :: "frame_heap \<Rightarrow> token multiset \<Rightarrow> bool" where
  "frames_inv h M \<longleftrightarrow>
     (\<forall>d. finite (frames_of h d) \<and> fh_dec h d = opt_count (dec_owners h M d) \<and> fh_ctx h d = (fh_dec h d \<noteq> None))
     \<and> (\<forall>f. map_option fst (fh_frame h f) = opt_count (frame_owners M f))
     \<and> fh_surfaces h = dom (fh_frame h)
     \<and> (\<forall>i\<ge>fh_next h. fh_dec h i = None \<and> fh_frame h i = None)"

lemma opt_count_iff [simp]:
  "opt_count n = None \<longleftrightarrow> n = 0" "None = opt_count n \<longleftrightarrow> n = 0"
  "opt_count n = Some k \<longleftrightarrow> 0 < n \<and> k = int n" "Some k = opt_count n \<longleftrightarrow> 0 < n \<and> k = int n"
  by (auto simp: opt_count_def)

lemma frames_of_simps [simp]:
  "frames_of (h\<lparr> fh_dec := x \<rparr>) d = frames_of h d" "frames_of (h\<lparr> fh_ctx := y \<rparr>) d = frames_of h d"
  "frames_of (h\<lparr> fh_next := n \<rparr>) d = frames_of h d" "frames_of (h\<lparr> fh_surfaces := fs \<rparr>) d = frames_of h d"
  by (simp_all add: frames_of_def)

lemma dec_owners_simps [simp]:
  "dec_owners (h\<lparr> fh_dec := x \<rparr>) M d = dec_owners h M d" "dec_owners (h\<lparr> fh_ctx := y \<rparr>) M d = dec_owners h M d"
  "dec_owners (h\<lparr> fh_next := n \<rparr>) M d = dec_owners h M d" "dec_owners (h\<lparr> fh_surfaces := fs \<rparr>) M d = dec_owners h M d"
  "dec_owners h (add_mset (Tok_Dec e) M) d = dec_owners h M d + (if d = e then 1 else 0)"
  "dec_owners h (add_mset (Tok_Frame f) M) d = dec_owners h M d"
  by (simp_all add: dec_owners_def)

lemma frame_owners_simps [simp]:
  "frame_owners (add_mset (Tok_Dec d) M) f = frame_owners M f"
  "frame_owners (add_mset (Tok_Frame g) M) f = frame_owners M f + (if f = g then 1 else 0)"
  by (simp_all add: frame_owners_def)

lemma frames_inv_frame_iff:
  "frames_inv h M \<Longrightarrow> fh_frame h f = None \<longleftrightarrow> frame_owners M f = 0"
  "frames_inv h M \<Longrightarrow> fh_frame h f = Some (n, d) \<Longrightarrow> n = int (frame_owners M f) \<and> 0 < frame_owners M f"
proof -
  assume inv: "frames_inv h M"
  have eq: "map_option fst (fh_frame h f) = opt_count (frame_owners M f)" using inv unfolding frames_inv_def by blast
  show "fh_frame h f = None \<longleftrightarrow> frame_owners M f = 0" using eq by (metis map_option_is_None opt_count_iff(1))
  show "n = int (frame_owners M f) \<and> 0 < frame_owners M f" if "fh_frame h f = Some (n, d)" using eq that by simp
qed

lemma frames_inv_next: "frames_inv h M \<Longrightarrow> fh_dec h (fh_next h) = None" "frames_inv h M \<Longrightarrow> fh_frame h (fh_next h) = None"
  unfolding frames_inv_def by blast+

lemma frames_inv_dec:
  assumes "frames_inv h M"
  shows "fh_dec h d = opt_count (dec_owners h M d)" "fh_ctx h d \<longleftrightarrow> 0 < dec_owners h M d" "finite (frames_of h d)"
  using assms by (auto simp: frames_inv_def)

lemma frames_inv_frame:
  assumes "frames_inv h M" "0 < frame_owners M f"
  obtains d where "fh_frame h f = Some (int (frame_owners M f), d)" "0 < dec_owners h M d" "f \<in> frames_of h d"
proof -
  obtain n d where f: "fh_frame h f = Some (n, d)" using frames_inv_frame_iff(1) [OF assms(1), of f] assms(2) by auto
  have n: "n = int (frame_owners M f)" using frames_inv_frame_iff(2) [OF assms(1) f] by simp
  have m: "f \<in> frames_of h d" using f by (simp add: frames_of_def)
  then have "0 < card (frames_of h d)" using frames_inv_dec(3) [OF assms(1)] card_gt_0_iff by blast
  then show ?thesis using that f n m by (simp add: dec_owners_def)
qed

lemma new_decoder_inv:
  assumes "frames_inv h M"
  shows "frames_inv (snd (video_decoder_new h)) (add_mset (Tok_Dec (fst (video_decoder_new h))) M)"
proof -
  have own: "dec_owners h M (fh_next h) = 0"
    using frames_inv_next(1) [OF assms] frames_inv_dec(1) [OF assms, of "fh_next h"] by simp
  show ?thesis
    using assms own unfolding video_decoder_new_def Let_def frames_inv_def
    by auto
qed

lemma decoder_add_ref_inv:
  assumes "frames_inv h M" "0 < dec_owners h M d"
  shows "\<exists>h'. decoder_add_ref d h = Inr h' \<and> frames_inv h' (add_mset (Tok_Dec d) M) \<and> fh_next h' = fh_next h
    \<and> fh_frame h' = fh_frame h"
  using assms frames_inv_dec(1) [OF assms(1), of d] by (auto simp: frames_inv_def decoder_add_ref_def opt_count_def)

lemma decoder_release_inv:
  assumes "frames_inv h (add_mset (Tok_Dec d) M)"
  shows "\<exists>h'. decoder_release d h = Inr h' \<and> frames_inv h' M"
proof -
  have "fh_dec h d = Some (int (dec_owners h M d) + 1)" using frames_inv_dec(1) [OF assms, of d] by simp
  then show ?thesis
    using assms by (auto simp: frames_inv_def decoder_release_def video_decoder_tear_def opt_count_def Let_def)
qed

text \<open>A reference to a decoder changes hands: from somebody to a frame, and back.\<close>

lemma frame_takes_decoder:
  assumes "frames_inv h (add_mset (Tok_Dec d) M)" "f = fh_next h"
  shows "frames_inv (h\<lparr> fh_next := f + 1, fh_frame := (fh_frame h)(f := Some (1, d)), fh_surfaces := insert f (fh_surfaces h) \<rparr>)
    (add_mset (Tok_Frame f) M)"
proof -
  have new: "fh_frame h f = None" "fh_dec h f = None" using frames_inv_next [OF assms(1)] assms(2) by simp_all
  have none: "frame_owners M f = 0" using frames_inv_frame_iff(1) [OF assms(1), of f] new(1) by simp
  have "fh_dec h d \<noteq> None" using frames_inv_dec(1) [OF assms(1), of d] by simp
  then have d: "d < f" using assms unfolding frames_inv_def by (meson not_le)
  have fr: "frames_of (h\<lparr> fh_next := f + 1, fh_frame := (fh_frame h)(f := Some (1, d)), fh_surfaces := insert f (fh_surfaces h) \<rparr>) e
      = (if e = d then insert f (frames_of h d) else frames_of h e)" "f \<notin> frames_of h e" for e
    using new(1) by (auto simp: frames_of_def)
  have fin: "finite (frames_of h e)" for e using frames_inv_dec(3) [OF assms(1)] .
  have own: "dec_owners (h\<lparr> fh_next := f + 1, fh_frame := (fh_frame h)(f := Some (1, d)), fh_surfaces := insert f (fh_surfaces h) \<rparr>)
      (add_mset (Tok_Frame f) M) e = dec_owners h (add_mset (Tok_Dec d) M) e" for e
    unfolding dec_owners_def fr(1) using fr(2) fin by auto
  show ?thesis
    unfolding frames_inv_def own fr(1) using assms fin none d
    by (auto simp: frames_inv_def)
qed

lemma frame_gives_decoder:
  assumes "frames_inv h (add_mset (Tok_Frame f) M)" "fh_frame h f = Some (1, d)"
  shows "frames_inv (h\<lparr> fh_surfaces := fh_surfaces h - {f}, fh_frame := (fh_frame h)(f := None) \<rparr>) (add_mset (Tok_Dec d) M)"
proof -
  have fin: "finite (frames_of h e)" for e using frames_inv_dec(3) [OF assms(1)] .
  have one: "frame_owners M f = 0" using frames_inv_frame_iff(2) [OF assms] by simp
  have fr: "frames_of (h\<lparr> fh_surfaces := fh_surfaces h - {f}, fh_frame := (fh_frame h)(f := None) \<rparr>) e = frames_of h e - {f}"
    "f \<in> frames_of h e \<longleftrightarrow> e = d" for e
    using assms(2) by (auto simp: frames_of_def)
  have own: "dec_owners (h\<lparr> fh_surfaces := fh_surfaces h - {f}, fh_frame := (fh_frame h)(f := None) \<rparr>) (add_mset (Tok_Dec d) M) e
      = dec_owners h (add_mset (Tok_Frame f) M) e" for e
    unfolding dec_owners_def fr(1) using fr(2) [of e] fin [of e] card_Diff_singleton [of f "frames_of h e"]
      card_gt_0_iff [of "frames_of h e"] by auto
  show ?thesis
    unfolding frames_inv_def own fr(1) using assms fin one
    by (auto simp: frames_inv_def)
qed

lemma av_frame_add_ref_inv:
  assumes "frames_inv h M" "0 < frame_owners M f"
  shows "\<exists>h'. av_frame_add_ref f h = Inr h' \<and> frames_inv h' (add_mset (Tok_Frame f) M)"
proof -
  obtain d where f: "fh_frame h f = Some (int (frame_owners M f), d)"
    by (rule frames_inv_frame [OF assms]) blast
  let ?h = "h\<lparr> fh_frame := (fh_frame h)(f := Some (int (frame_owners M f) + 1, d)) \<rparr>"
  have "frames_of ?h e = frames_of h e" for e using f by (auto simp: frames_of_def)
  then have own: "dec_owners ?h M e = dec_owners h M e" "finite (frames_of ?h e) = finite (frames_of h e)" for e
    by (simp_all add: dec_owners_def)
  have "frames_inv ?h (add_mset (Tok_Frame f) M)"
    unfolding frames_inv_def using assms f by (auto simp: own frames_inv_def)
  then show ?thesis using f by (simp add: av_frame_add_ref_def)
qed

lemma av_frame_release_inv:
  assumes "frames_inv h (add_mset (Tok_Frame f) M)"
  shows "\<exists>h'. av_frame_release f h = Inr h' \<and> frames_inv h' M"
proof -
  have own: "frame_owners (add_mset (Tok_Frame f) M) f = frame_owners M f + 1" by simp
  then have pos: "0 < frame_owners (add_mset (Tok_Frame f) M) f" by linarith
  obtain d where d: "fh_frame h f = Some (int (frame_owners (add_mset (Tok_Frame f) M) f), d)"
    "0 < dec_owners h (add_mset (Tok_Frame f) M) d"
    by (rule frames_inv_frame [OF assms pos]) blast
  then have f: "fh_frame h f = Some (int (frame_owners M f) + 1, d)" using own by simp
  show ?thesis
  proof (cases "frame_owners M f = 0")
    case True
    then have one: "fh_frame h f = Some (1, d)" using f(1) by simp
    have ctx: "fh_ctx h d" using frames_inv_dec(2) [OF assms] d(2) by blast
    show ?thesis
      using decoder_release_inv [OF frame_gives_decoder [OF assms one]] one ctx
      by (simp add: av_frame_release_def av_frame_delete_def)
  next
    case False
    let ?h = "h\<lparr> fh_frame := (fh_frame h)(f := Some (int (frame_owners M f), d)) \<rparr>"
    have "frames_of ?h e = frames_of h e" for e using f by (auto simp: frames_of_def)
    then have own: "dec_owners ?h M e = dec_owners h M e" "finite (frames_of ?h e) = finite (frames_of h e)" for e
      by (simp_all add: dec_owners_def)
    have "frames_inv ?h M"
      unfolding frames_inv_def using assms f False by (auto simp: own frames_inv_def)
    then show ?thesis using f False by (simp add: av_frame_release_def)
  qed
qed

lemma dec_image_output_inv:
  assumes "frames_inv h M" "Tok_Dec d \<in># M"
  shows "\<exists>h'. dec_image_output True True keep d h = Inr (if keep then Some (fh_next h) else None, h')
    \<and> frames_inv h' (if keep then add_mset (Tok_Frame (fh_next h)) M else M)"
proof -
  have "0 < dec_owners h M d" using assms(2) by (simp add: dec_owners_def)
  then obtain h1 where h1: "decoder_add_ref d h = Inr h1" "frames_inv h1 (add_mset (Tok_Dec d) M)"
    "fh_next h1 = fh_next h" "fh_frame h1 = fh_frame h"
    using decoder_add_ref_inv [OF assms(1)] by blast
  define f where "f = fh_next h"
  define h2 where "h2 = h1\<lparr> fh_next := f + 1, fh_frame := (fh_frame h1)(f := Some (1, d)), fh_surfaces := insert f (fh_surfaces h1) \<rparr>"
  have h2: "frames_inv h2 (add_mset (Tok_Frame f) M)"
    unfolding h2_def by (rule frame_takes_decoder [OF h1(2)]) (simp add: h1(3) f_def)
  have create: "dec_image_output True True keep d h = res_bind (if keep then av_frame_add_ref f h2 else Inr h2) (\<lambda>h.
      res_bind (av_frame_release f h) (\<lambda>h. Inr (if keep then Some f else None, h)))"
    using h1 by (simp add: dec_image_output_def av_frame_create_def f_def h2_def Let_def)
  show ?thesis
  proof (cases keep)
    case True
    obtain h3 where h3: "av_frame_add_ref f h2 = Inr h3" "frames_inv h3 (add_mset (Tok_Frame f) (add_mset (Tok_Frame f) M))"
      using av_frame_add_ref_inv [OF h2, of f] by auto
    obtain h4 where "av_frame_release f h3 = Inr h4" "frames_inv h4 (add_mset (Tok_Frame f) M)"
      using av_frame_release_inv [OF h3(2)] by blast
    then show ?thesis using create True h3(1) by (simp add: f_def)
  next
    case False
    then show ?thesis using create av_frame_release_inv [OF h2] by (auto simp: f_def)
  qed
qed

lemma frame_step_inv:
  assumes "frames_inv h M" "frame_legal a M"
  shows "\<exists>h' M'. frame_step a (h, M) = Inr (h', M') \<and> frames_inv h' M'"
proof (cases a)
  case New_Decoder
  then show ?thesis using new_decoder_inv [OF assms(1)] by (simp add: split_def Let_def)
next
  case (Add_Decoder d)
  then have "0 < dec_owners h M d" using assms(2) by (simp add: dec_owners_def)
  then obtain h' where "decoder_add_ref d h = Inr h'" "frames_inv h' (add_mset (Tok_Dec d) M)"
    using decoder_add_ref_inv [OF assms(1)] by blast
  then show ?thesis by (simp add: Add_Decoder)
next
  case (Release_Decoder d)
  then have M: "M = add_mset (Tok_Dec d) (M - {#Tok_Dec d#})" using assms(2) by simp
  obtain h' where "decoder_release d h = Inr h'" "frames_inv h' (M - {#Tok_Dec d#})"
    using decoder_release_inv [of h d "M - {#Tok_Dec d#}"] assms(1) M by metis
  then show ?thesis by (simp add: Release_Decoder)
next
  case (Deliver d keep)
  then obtain h' where "dec_image_output True True keep d h = Inr (if keep then Some (fh_next h) else None, h')"
    "frames_inv h' (if keep then add_mset (Tok_Frame (fh_next h)) M else M)"
    using dec_image_output_inv [OF assms(1), of d keep] assms(2) by auto
  then show ?thesis by (cases keep) (simp_all add: Deliver)
next
  case (Add_Frame f)
  then have "0 < frame_owners M f" using assms(2) by (simp add: frame_owners_def)
  then obtain h' where "av_frame_add_ref f h = Inr h'" "frames_inv h' (add_mset (Tok_Frame f) M)"
    using av_frame_add_ref_inv [OF assms(1)] by blast
  then show ?thesis by (simp add: Add_Frame)
next
  case (Drop_Frame f)
  then have M: "M = add_mset (Tok_Frame f) (M - {#Tok_Frame f#})" using assms(2) by simp
  obtain h' where "av_frame_release f h = Inr h'" "frames_inv h' (M - {#Tok_Frame f#})"
    using av_frame_release_inv [of h f "M - {#Tok_Frame f#}"] assms(1) M by metis
  then show ?thesis by (simp add: Drop_Frame)
qed

lemma frame_reach_inv: "frame_reach s \<Longrightarrow> frames_inv (fst s) (snd s)"
proof (induction rule: frame_reach.induct)
  case start
  then show ?case by (simp add: frames_inv_def no_frames_def frames_of_def dec_owners_def frame_owners_def)
next
  case (step h M a s)
  then show ?case using frame_step_inv [of h M a] by auto
qed

text \<open>A living frame has a living decoder, and without references nothing is left.\<close>

lemma frames_inv_living:
  assumes inv: "frames_inv h M" and f: "fh_frame h f = Some (n, d)"
  shows "fh_ctx h d" "fh_dec h d \<noteq> None" "f \<in> fh_surfaces h"
proof -
  have "f \<in> frames_of h d" using f by (simp add: frames_of_def)
  then have "0 < card (frames_of h d)" using frames_inv_dec(3) [OF inv] card_gt_0_iff by blast
  then have own: "0 < dec_owners h M d" by (simp add: dec_owners_def)
  show "fh_ctx h d" using frames_inv_dec(2) [OF inv, of d] own by simp
  show "fh_dec h d \<noteq> None" using frames_inv_dec(1) [OF inv, of d] own by simp
  have "fh_surfaces h = dom (fh_frame h)" using inv unfolding frames_inv_def by blast
  then show "f \<in> fh_surfaces h" using f by (simp add: domIff)
qed

lemma frames_inv_empty:
  assumes inv: "frames_inv h {#}"
  shows "fh_frame h i = None" "fh_dec h i = None" "\<not> fh_ctx h i" "fh_surfaces h = {}"
proof -
  have none: "fh_frame h f = None" for f using frames_inv_frame_iff(1) [OF inv, of f] by (simp add: frame_owners_def)
  have own: "dec_owners h {#} i = 0" by (simp add: dec_owners_def frames_of_def none)
  show "fh_frame h i = None" by (rule none)
  show "fh_dec h i = None" using frames_inv_dec(1) [OF inv, of i] own by simp
  show "\<not> fh_ctx h i" using frames_inv_dec(2) [OF inv, of i] own by simp
  have "fh_surfaces h = dom (fh_frame h)" using inv unfolding frames_inv_def by blast
  then show "fh_surfaces h = {}" by (simp add: none dom_def)
qed


text \<open>The player drops the decoder while a frame is still held; the frame keeps it alive until it goes too.\<close>

lemma kept_frame_reach:
  "frame_reach (\<lparr> fh_next = 2, fh_dec = (\<lambda>_. None)(0 := Some 1), fh_ctx = (\<lambda>_. False)(0 := True),
     fh_frame = (\<lambda>_. None)(1 := Some (1, 0)), fh_surfaces = {1} \<rparr>, {#Tok_Frame 1#})" (is "frame_reach ?s")
proof -
  let ?h1 = "\<lparr> fh_next = 1, fh_dec = (\<lambda>_. None)(0 := Some 1), fh_ctx = (\<lambda>_. False)(0 := True),
     fh_frame = (\<lambda>_. None), fh_surfaces = {} \<rparr>"
  let ?h2 = "\<lparr> fh_next = 2, fh_dec = (\<lambda>_. None)(0 := Some 2), fh_ctx = (\<lambda>_. False)(0 := True),
     fh_frame = (\<lambda>_. None)(1 := Some (1, 0)), fh_surfaces = {1} \<rparr>"
  have "frame_reach (?h1, {#Tok_Dec 0#})"
    using frame_reach.start by (rule frame_reach.step [where a = New_Decoder])
      (simp_all add: video_decoder_new_def no_frames_def Let_def)
  then have "frame_reach (?h2, {#Tok_Dec 0, Tok_Frame 1#})"
    by (rule frame_reach.step [where a = "Deliver 0 True"])
      (simp_all add: dec_image_output_def av_frame_create_def decoder_add_ref_def av_frame_add_ref_def
        av_frame_release_def Let_def numeral_2_eq_2 fun_upd_def fun_eq_iff add_mset_commute)
  then show ?thesis
    by (rule frame_reach.step [where a = "Release_Decoder 0"])
      (simp_all add: decoder_release_def fun_upd_def fun_eq_iff)
qed


text \<open>A frame that cannot be allocated is released through a null pointer.\<close>

lemma dec_image_output_no_memory: "dec_image_output True False keep d h = Inl Null_Deref"
  by (simp add: dec_image_output_def av_frame_create_def)

end
