(* ===== verification/Audio_Path.thy ===== *)
theory Audio_Path
  imports Rtp_Stream Player Opus_Dec Render_Loop
begin

text \<open>
  From a media frame to the loudspeaker: \<open>Decoders/AudioDecoder\<close>, the PCM part of \<open>Common/AVFrame.h\<close> and the
  handlers of \<open>BasePlayer\<close> that pass a media frame to the decoder and what comes out of it to the
  synchroniser. The lemmas show that what the audio thread renders is what \<open>libopus\<close> decodes from the
  packets, each block of samples once and in order, whatever the other threads do to the synchroniser, and
  that the samples are freed behind the last reference and not before.
\<close>

section \<open>AudioDecoder\<close>

record 'd audio_decoder =
  dc_ctx :: "'d audio_dec_context option"
  dc_observer :: bool

definition audio_decoder_new :: "'d audio_decoder" where
  "audio_decoder_new = \<lparr> dc_ctx = None, dc_observer = False \<rparr>"

definition audio_decoder_tear :: "'d audio_decoder \<Rightarrow> ledger \<Rightarrow> ('d audio_decoder \<times> ledger) res" where
  "audio_decoder_tear dec l =
     (case dc_ctx dec of None \<Rightarrow> Inr (dec, l)
      | Some c \<Rightarrow> res_bind (audio_dec_destroy (Some c) l) (\<lambda>l. Inr (dec\<lparr> dc_ctx := None \<rparr>, l)))"

definition audio_decoder_build ::
    "'d opus_dec_env \<Rightarrow> AUDIO_CODEC_TYPE \<Rightarrow> bool \<Rightarrow> 'd audio_decoder \<Rightarrow> ledger
     \<Rightarrow> (bool \<times> 'd audio_decoder \<times> ledger) res" where
  "audio_decoder_build env codec observer dec l =
     (let fail = (\<lambda>dec l. res_bind (audio_decoder_tear dec l) (\<lambda>(dec, l). Inr (False, dec, l))) in
      res_bind (create_audio_decoder env codec l) (\<lambda>(c, l).
        let dec = dec\<lparr> dc_ctx := c \<rparr> in
        if c = None then fail dec l
        else res_bind (audio_dec_init env c l) (\<lambda>(rc, c, l).
          let dec = dec\<lparr> dc_ctx := c \<rparr> in
          if rc \<noteq> 0 then fail dec l
          else Inr (True, dec\<lparr> dc_ctx := audio_dec_set_cb_output c True, dc_observer := observer \<rparr>, l))))"

text \<open>\<open>decode\<close>: a time stamp of the stream goes to the codec as \<open>long long\<close>.\<close>

definition audio_decoder_decode ::
    "'d opus_dec_env \<Rightarrow> media_frame \<Rightarrow> 'd audio_decoder \<Rightarrow> ('d audio_decoder \<times> audio_dec_pcm option) res" where
  "audio_decoder_decode env mf dec =
     res_bind (audio_dec_decode env (dc_ctx dec) (Some (mf_data mf)) (int (length (mf_data mf))) 0
                (uint (mf_pts mf)) (mf_payload_type mf))
       (\<lambda>(rc, c, out). Inr (dec\<lparr> dc_ctx := c \<rparr>, out))"

section \<open>Frames of samples\<close>

text \<open>An \<open>AVFrame\<close> with audio: its block, that of its \<open>audio_dec_pcm\<close> and that of the samples.\<close>

record pcm_object =
  po_frame :: nat
  po_struct :: nat
  po_data :: nat
  po_pcm :: audio_dec_pcm

text \<open>
  \<open>AVFrame::create_instance\<close> for samples. A nothrow \<open>new\<close> of a negative size returns null; the last \<open>new\<close> is
  not nothrow.
\<close>

definition av_frame_create_pcm ::
    "'d opus_dec_env \<Rightarrow> audio_dec_pcm \<Rightarrow> ledger \<Rightarrow> (pcm_object option \<times> ledger) res" where
  "av_frame_create_pcm env pcm l =
     (case ol_alloc env l of
        (None, l) \<Rightarrow> Inr (None, l)
      | (Some s, l) \<Rightarrow>
          (if ap_len pcm < 0 then Inr (None, l)
           else case ol_alloc env l of
             (None, l) \<Rightarrow> Inr (None, l)
           | (Some d, l) \<Rightarrow>
               (if length (ap_pcm pcm) < nat (ap_len pcm) then Inl Oob_Read
                else case ol_alloc env l of
                  (None, l) \<Rightarrow> Inl Uncaught_Exception
                | (Some f, l) \<Rightarrow>
                    Inr (Some \<lparr> po_frame = f, po_struct = s, po_data = d,
                                po_pcm = pcm\<lparr> ap_pcm := take (nat (ap_len pcm)) (ap_pcm pcm) \<rparr> \<rparr>, l))))"

text \<open>The destructor of such a frame, and \<open>delete\<close>.\<close>

definition pcm_frame_delete :: "pcm_object \<Rightarrow> ledger \<Rightarrow> ledger res" where
  "pcm_frame_delete p l =
     res_bind (ol_free (po_data p) l) (\<lambda>l. res_bind (ol_free (po_struct p) l) (ol_free (po_frame p)))"

definition pcm_av_frame :: "pcm_object \<Rightarrow> av_frame" where
  "pcm_av_frame p = \<lparr> fr_id = po_frame p, fr_pts = word_of_int (ap_pts (po_pcm p)), fr_sample_rate = ap_sample_rate (po_pcm p) \<rparr>"

section \<open>The audio player at work\<close>

text \<open>
  The player with the objects it holds, its decoder, the synchroniser, the frames by their block, and the
  allocator. The count of a frame is what the synchroniser counts plus one while \<open>dec_pcm_output\<close> holds it.
  \<open>pt_fault\<close> is the first fault of a release. \<open>pt_media\<close> and \<open>pt_taken\<close> are ghosts: the media frames that
  came in and the frames, with their samples, that went to the renderer.
\<close>

record ('d, 'c) audio_path =
  pt_player :: player
  pt_objects :: objects
  pt_decoder :: "'d audio_decoder"
  pt_sync :: "'c av_sync"
  pt_frames :: "nat \<Rightarrow> pcm_object option"
  pt_ledger :: ledger
  pt_fault :: "fault option"
  pt_media :: "media_frame list"
  pt_taken :: "(av_frame \<times> audio_dec_pcm) list"

text \<open>What \<open>RefCount::release\<close> does once the count went down.\<close>

definition pcm_frame_unref :: "nat \<Rightarrow> ('d, 'c) audio_path \<Rightarrow> ('d, 'c) audio_path res" where
  "pcm_frame_unref i st =
     (if as_refs (pt_sync st) i \<noteq> 0 then Inr st
      else case pt_frames st i of
          None \<Rightarrow> Inl Use_After_Free
        | Some p \<Rightarrow> res_bind (pcm_frame_delete p (pt_ledger st)) (\<lambda>l.
            Inr (st\<lparr> pt_frames := (pt_frames st)(i := None), pt_ledger := l \<rparr>)))"

text \<open>\<open>BasePlayer::on_decoder_output\<close> for audio; a null frame is ignored.\<close>

definition on_decoder_output ::
    "pcm_object option \<Rightarrow> player \<Rightarrow> 'c av_sync \<Rightarrow> (player \<times> 'c av_sync) res" where
  "on_decoder_output frame pl s =
     (case frame of None \<Rightarrow> Inr (pl, s)
      | Some p \<Rightarrow> on_decoded_pcm (ap_sample_rate (po_pcm p)) (ap_channels (po_pcm p)) (ap_bits_per_sample (po_pcm p))
                    (pcm_av_frame p) pl s)"

definition dec_pcm_output ::
    "'d opus_dec_env \<Rightarrow> audio_dec_pcm \<Rightarrow> ('d, 'c) audio_path \<Rightarrow> ('d, 'c) audio_path res" where
  "dec_pcm_output env pcm st =
     (if \<not> dc_observer (pt_decoder st) then Inr st
      else res_bind (av_frame_create_pcm env pcm (pt_ledger st)) (\<lambda>(frame, l).
        res_bind (on_decoder_output frame (pt_player st) (pt_sync st)) (\<lambda>(pl, s).
        let st = st\<lparr> pt_player := pl, pt_sync := s, pt_ledger := l \<rparr> in
        case frame of
          None \<Rightarrow> Inl Null_Deref
        | Some p \<Rightarrow> pcm_frame_unref (po_frame p) (st\<lparr> pt_frames := (pt_frames st)(po_frame p := Some p) \<rparr>))))"

text \<open>\<open>BasePlayer::on_media_frame\<close>; the reference keeps the decoder alive while it decodes.\<close>

definition on_media_frame ::
    "'d opus_dec_env \<Rightarrow> media_frame \<Rightarrow> ('d, 'c) audio_path \<Rightarrow> ('d, 'c) audio_path res" where
  "on_media_frame env mf st =
     (case pl_decoder (pt_player st) of None \<Rightarrow> Inr st
      | Some i \<Rightarrow>
          res_bind (obj_add_ref i (pt_objects st)) (\<lambda>h.
          res_bind (audio_decoder_decode env mf (pt_decoder st)) (\<lambda>(dec, out).
          let st = st\<lparr> pt_objects := h, pt_decoder := dec, pt_media := pt_media st @ [mf] \<rparr> in
          res_bind (case out of None \<Rightarrow> Inr st | Some pcm \<Rightarrow> dec_pcm_output env pcm st) (\<lambda>st.
          res_bind (obj_release i (pt_objects st)) (\<lambda>h.
          if ob_refs h i \<noteq> None then Inr (st\<lparr> pt_objects := h \<rparr>)
          else res_bind (audio_decoder_tear (pt_decoder st) (pt_ledger st)) (\<lambda>(dec, l).
            Inr (st\<lparr> pt_objects := h, pt_decoder := dec, pt_ledger := l \<rparr>)))))))"

text \<open>\<open>AVSync::audio_frame\<close> with the samples the renderer is going to read, and \<open>AVSync::release_frame\<close>.\<close>

definition path_audio_frame ::
    "('d, 'c) audio_path \<Rightarrow> (int \<times> (av_frame \<times> audio_dec_pcm) option \<times> ('d, 'c) audio_path) res" where
  "path_audio_frame st =
     (case sync_audio_frame (pt_sync st) of
        (idle, None, s) \<Rightarrow> Inr (idle, None, st\<lparr> pt_sync := s \<rparr>)
      | (idle, Some f, s) \<Rightarrow>
          (case pt_frames st (fr_id f) of
             None \<Rightarrow> Inl Use_After_Free
           | Some p \<Rightarrow> Inr (idle, Some (f, po_pcm p), st\<lparr> pt_sync := s, pt_taken := pt_taken st @ [(f, po_pcm p)] \<rparr>)))"

definition path_release :: "(av_frame \<times> audio_dec_pcm) option \<Rightarrow> ('d, 'c) audio_path \<Rightarrow> ('d, 'c) audio_path" where
  "path_release fo st =
     (case fo of None \<Rightarrow> st
      | Some (f, _) \<Rightarrow>
          let st = st\<lparr> pt_sync := release_frame (Some f) (pt_sync st) \<rparr> in
          (case pcm_frame_unref (fr_id f) st of Inr st \<Rightarrow> st
           | Inl e \<Rightarrow> st\<lparr> pt_fault := (if pt_fault st = None then Some e else pt_fault st) \<rparr>))"

text \<open>The samples as the renderer reads them: 16 bits each, in the byte order of the machine.\<close>

fun samples_of :: "byte list \<Rightarrow> 16 word list" where
  "samples_of (b0 # b1 # bs) = le16 b0 b1 # samples_of bs"
| "samples_of _ = []"

definition pcm_view :: "audio_dec_pcm \<Rightarrow> pcm_frame" where
  "pcm_view p = \<lparr> pf_pcm = samples_of (ap_pcm p), pf_pcm_len = ap_len p, pf_sample_rate = ap_sample_rate p,
     pf_channels = ap_channels p, pf_bits_per_sample = ap_bits_per_sample p, pf_duration_ms = ap_duration_ms p,
     pf_pts = word_of_int (ap_pts p) \<rparr>"

section \<open>What goes on around the queue\<close>

text \<open>
  A media frame arrives, or one of the other threads does something to the synchroniser: anything but
  queueing or taking audio frames, and releasing a frame of samples, which none of them holds.
\<close>

datatype 'c path_action = Media media_frame | Sync "'c sync_action"

fun path_do ::
    "'d opus_dec_env \<Rightarrow> 'c clock_ops \<Rightarrow> 'c path_action \<Rightarrow> ('d, 'c) audio_path \<Rightarrow> ('d, 'c) audio_path res" where
  "path_do env ops (Media mf) st = on_media_frame env mf st"
| "path_do env ops (Sync a) st =
     (if (case a of Queue_Audio f \<Rightarrow> True | Take_Audio \<Rightarrow> True | Release_Frame f \<Rightarrow> pt_frames st (fr_id f) \<noteq> None
                  | _ \<Rightarrow> False)
      then Inr st else res_bind (sync_do ops a (pt_sync st)) (\<lambda>s. Inr (st\<lparr> pt_sync := s \<rparr>)))"

fun path_run ::
    "'d opus_dec_env \<Rightarrow> 'c clock_ops \<Rightarrow> 'c path_action list \<Rightarrow> ('d, 'c) audio_path \<Rightarrow> ('d, 'c) audio_path res" where
  "path_run env ops [] st = Inr st"
| "path_run env ops (a # as) st = res_bind (path_do env ops a st) (path_run env ops as)"

section \<open>What libopus makes of the packets\<close>

fun opus_after :: "'d opus_dec_env \<Rightarrow> byte list list \<Rightarrow> 'd \<Rightarrow> 'd" where
  "opus_after env [] d = d"
| "opus_after env (p # ps) d = opus_after env ps (fst (ud_decode env d (Some p) (int (length p)) 96000))"

definition stamp :: "media_frame \<Rightarrow> int \<times> int" where
  "stamp mf = (uint (mf_pts mf), mf_payload_type mf)"

definition decoded :: "'d opus_dec_env \<Rightarrow> 'd \<Rightarrow> media_frame list \<Rightarrow> audio_dec_pcm list" where
  "decoded env d mfs =
     List.map_filter (\<lambda>(mf, out). pcm_of (stamp mf) out) (zip mfs (opus_run env (map mf_data mfs) d))"

lemma opus_run_append: "opus_run env (ps @ qs) d = opus_run env ps d @ opus_run env qs (opus_after env ps d)"
  by (induction ps arbitrary: d) (auto split: prod.split)

lemma opus_after_append [simp]: "opus_after env (ps @ qs) d = opus_after env qs (opus_after env ps d)"
  by (induction ps arbitrary: d) auto

lemma length_opus_run [simp]: "length (opus_run env ps d) = length ps"
  by (induction ps arbitrary: d) (auto split: prod.split)

lemma decoded_snoc:
  "decoded env d (mfs @ [mf]) = decoded env d mfs
    @ (case pcm_of (stamp mf) (hd (opus_run env [mf_data mf] (opus_after env (map mf_data mfs) d))) of
         None \<Rightarrow> [] | Some p \<Rightarrow> [p])"
  by (auto simp: decoded_def opus_run_append map_filter_def split: option.split prod.split)

lemma decoded_format: "p \<in> set (decoded env d mfs) \<Longrightarrow> ap_sample_rate p = 48000 \<and> ap_channels p = 2
    \<and> ap_bits_per_sample p = 16 \<and> ap_len p = int (length (ap_pcm p))"
  by (auto simp: decoded_def map_filter_def pcm_of_def)

section \<open>The invariant\<close>

definition pcm_blocks :: "pcm_object \<Rightarrow> nat set" where
  "pcm_blocks p = {po_frame p, po_struct p, po_data p}"

definition frames_ok :: "(nat \<Rightarrow> pcm_object option) \<Rightarrow> ledger \<Rightarrow> bool" where
  "frames_ok fs l \<longleftrightarrow>
     (\<forall>i p. fs i = Some p \<longrightarrow> po_frame p = i \<and> pcm_blocks p \<subseteq> ol_live l \<and> (\<forall>b\<in>pcm_blocks p. b < ol_next l)
        \<and> distinct [po_frame p, po_struct p, po_data p])
     \<and> (\<forall>i j p q. fs i = Some p \<longrightarrow> fs j = Some q \<longrightarrow> i \<noteq> j \<longrightarrow> pcm_blocks p \<inter> pcm_blocks q = {})"

definition decoder_ok :: "'d audio_decoder \<Rightarrow> 'd \<Rightarrow> bool" where
  "decoder_ok dec d \<longleftrightarrow> dc_observer dec
     \<and> (\<exists>c opus. dc_ctx dec = Some c \<and> ad_cb_out c \<and> ad_priv c = Some opus \<and> opus_ready opus d)"

definition player_ok :: "player \<Rightarrow> objects \<Rightarrow> bool" where
  "player_ok pl h \<longleftrightarrow> pl_sync pl \<noteq> None \<and> (\<exists>i n. pl_decoder pl = Some i \<and> ob_refs h i = Some n \<and> 0 < n)"

definition queue_ok :: "(nat \<Rightarrow> pcm_object option) \<Rightarrow> 'c av_sync \<Rightarrow> bool" where
  "queue_ok fs s \<longleftrightarrow> (\<forall>f\<in>set (as_audio s). fs (fr_id f) \<noteq> None) \<and> (\<forall>i. fs i \<noteq> None \<longrightarrow> as_refs s i \<noteq> 0)"

definition queued :: "(nat \<Rightarrow> pcm_object option) \<Rightarrow> 'c av_sync \<Rightarrow> audio_dec_pcm list" where
  "queued fs s = map (\<lambda>f. po_pcm (the (fs (fr_id f)))) (as_audio s)"

definition path_inv :: "'d opus_dec_env \<Rightarrow> 'c clock_ops \<Rightarrow> 'd \<Rightarrow> ('d, 'c) audio_path \<Rightarrow> bool" where
  "path_inv env ops d st \<longleftrightarrow>
     sync_reach ops (pt_sync st) \<and> pt_fault st = None
     \<and> player_ok (pt_player st) (pt_objects st)
     \<and> decoder_ok (pt_decoder st) (opus_after env (map mf_data (pt_media st)) d)
     \<and> frames_ok (pt_frames st) (pt_ledger st) \<and> queue_ok (pt_frames st) (pt_sync st)
     \<and> map snd (pt_taken st) @ queued (pt_frames st) (pt_sync st) = decoded env d (pt_media st)"

lemma audio_decoder_decode_ok:
  assumes "decoder_ok dec d" "opus_decode_documented env"
  shows "\<exists>dec'. audio_decoder_decode env mf dec = Inr (dec', pcm_of (stamp mf) (hd (opus_run env [mf_data mf] d)))
    \<and> decoder_ok dec' (opus_after env [mf_data mf] d)"
proof -
  obtain c opus where c: "dc_ctx dec = Some c" "ad_cb_out c" "ad_priv c = Some opus" "opus_ready opus d" "dc_observer dec"
    using assms(1) by (auto simp: decoder_ok_def)
  obtain d' samples written where u: "ud_decode env d (Some (mf_data mf)) (int (length (mf_data mf))) 96000 = (d', samples, written)"
    by (cases "ud_decode env d (Some (mf_data mf)) (int (length (mf_data mf))) 96000")
  show ?thesis
    using opus_dec_decode_ready [OF c(4) assms(2) u, of "uint (mf_pts mf)" "mf_payload_type mf"] c u
    by (auto simp: audio_decoder_decode_def audio_dec_decode_def decoder_ok_def stamp_def)
qed

lemma av_frame_create_pcm_ok:
  assumes "\<forall>n. ud_alloc env n" "frames_ok fs l" "ap_len pcm = int (length (ap_pcm pcm))"
  shows "\<exists>p l'. av_frame_create_pcm env pcm l = Inr (Some p, l') \<and> po_pcm p = pcm \<and> fs (po_frame p) = None
    \<and> frames_ok (fs(po_frame p := Some p)) l'"
proof -
  let ?n = "ol_next l"
  let ?p = "\<lparr> po_frame = ?n + 2, po_struct = ?n, po_data = ?n + 1, po_pcm = pcm \<rparr>"
  let ?l = "l\<lparr> ol_next := ?n + 3, ol_live := insert (?n + 2) (insert (?n + 1) (insert ?n (ol_live l))) \<rparr>"
  have "av_frame_create_pcm env pcm l = Inr (Some ?p, ?l)"
    using assms(1,3) by (simp add: av_frame_create_pcm_def ol_alloc_def numeral_3_eq_3)
  moreover have new: "fs i = Some q \<Longrightarrow> b \<in> pcm_blocks q \<Longrightarrow> b < ?n" for i q b using assms(2) by (auto simp: frames_ok_def)
  moreover have "fs (?n + 2) = None"
  proof (rule ccontr)
    assume "fs (?n + 2) \<noteq> None"
    then obtain q where q: "fs (?n + 2) = Some q" by auto
    then have "po_frame q = ?n + 2" using assms(2) by (auto simp: frames_ok_def)
    then show False using new [OF q, of "?n + 2"] by (simp add: pcm_blocks_def)
  qed
  moreover have "frames_ok (fs(?n + 2 := Some ?p)) ?l"
  proof -
    have old: "po_frame q = i \<and> pcm_blocks q \<subseteq> ol_live l \<and> distinct [po_frame q, po_struct q, po_data q]" if "fs i = Some q" for i q
      using assms(2) that by (auto simp: frames_ok_def)
    have apart: "pcm_blocks q \<inter> pcm_blocks q' = {}" if "fs i = Some q" "fs j = Some q'" "i \<noteq> j" for i j q q'
      using assms(2) that by (auto simp: frames_ok_def)
    have blocks: "pcm_blocks ?p = {?n + 2, ?n, ?n + 1}" by (simp add: pcm_blocks_def)
    have fresh: "pcm_blocks q \<inter> pcm_blocks ?p = {}" if "fs i = Some q" for i q
    proof -
      have "\<forall>b\<in>pcm_blocks q. b < ?n" using new [OF that] by blast
      then show ?thesis unfolding blocks by auto
    qed
    show ?thesis
      unfolding frames_ok_def
    proof (intro conjI allI impI)
      fix i q assume q: "(fs(?n + 2 := Some ?p)) i = Some q"
      show "po_frame q = i" using q old by (auto split: if_splits)
      have q_cases: "q = ?p \<or> fs i = Some q" using q by (cases "i = ?n + 2") simp_all
      have sub: "pcm_blocks q \<subseteq> insert (?n + 2) (insert (?n + 1) (insert ?n (ol_live l)))"
        using q_cases
      proof
        assume "q = ?p"
        then show ?thesis using blocks by blast
      next
        assume "fs i = Some q"
        then show ?thesis using old by blast
      qed
      then show "pcm_blocks q \<subseteq> ol_live ?l" by simp
      show "\<forall>b\<in>pcm_blocks q. b < ol_next ?l"
        using q_cases
      proof
        assume "q = ?p"
        then show ?thesis using blocks by simp
      next
        assume "fs i = Some q"
        then show ?thesis using new by force
      qed
      show "distinct [po_frame q, po_struct q, po_data q]" using q old by (auto split: if_splits)
    next
      fix i j q q'
      assume q: "(fs(?n + 2 := Some ?p)) i = Some q" "(fs(?n + 2 := Some ?p)) j = Some q'" "i \<noteq> j"
      show "pcm_blocks q \<inter> pcm_blocks q' = {}"
      proof (cases "i = ?n + 2 \<or> j = ?n + 2")
        case True
        then consider "q = ?p" "fs j = Some q'" | "q' = ?p" "fs i = Some q" using q by auto
        then show ?thesis using fresh by cases (metis Int_commute)+
      next
        case False
        then show ?thesis using q apart by simp
      qed
    qed
  qed
  ultimately show ?thesis by fastforce
qed

lemma pcm_frame_delete_ok:
  assumes "frames_ok fs l" "fs i = Some p"
  shows "\<exists>l'. pcm_frame_delete p l = Inr l' \<and> frames_ok (fs(i := None)) l'"
proof -
  let ?l = "l\<lparr> ol_live := ol_live l - pcm_blocks p \<rparr>"
  have p: "pcm_blocks p \<subseteq> ol_live l" "distinct [po_frame p, po_struct p, po_data p]"
    using assms by (auto simp: frames_ok_def)
  then have del: "pcm_frame_delete p l = Inr ?l"
    by (auto simp: pcm_frame_delete_def ol_free_def pcm_blocks_def intro!: arg_cong [of _ _ "\<lambda>s. l\<lparr> ol_live := s \<rparr>"])
  have apart: "pcm_blocks q \<inter> pcm_blocks p = {}" if "fs j = Some q" "j \<noteq> i" for j q
    using assms that unfolding frames_ok_def by blast
  have "frames_ok (fs(i := None)) ?l"
    unfolding frames_ok_def
  proof (intro conjI allI impI)
    fix j q assume "(fs(i := None)) j = Some q"
    then have q: "fs j = Some q" "j \<noteq> i" by (auto split: if_splits)
    show "po_frame q = j" "distinct [po_frame q, po_struct q, po_data q]" using q assms(1) by (auto simp: frames_ok_def)
    show "pcm_blocks q \<subseteq> ol_live ?l" using q apart [OF q] assms(1) by (fastforce simp: frames_ok_def)
    show "\<forall>b\<in>pcm_blocks q. b < ol_next ?l" using q assms(1) by (simp add: frames_ok_def)
  next
    fix j k q q' assume "(fs(i := None)) j = Some q" "(fs(i := None)) k = Some q'" "j \<noteq> k"
    then show "pcm_blocks q \<inter> pcm_blocks q' = {}" using assms(1) unfolding frames_ok_def by (auto split: if_splits)
  qed
  then show ?thesis using del by blast
qed

lemma on_decoded_pcm_ok:
  assumes "player_ok pl h"
  shows "\<exists>pl'. on_decoded_pcm 48000 2 16 f pl s = Inr (pl', push_audio f s) \<and> player_ok pl' h"
  using assms by (auto simp: on_decoded_pcm_def player_ok_def set_params_def)

text \<open>No pictures, and no frame that a renderer holds.\<close>

definition audio_only :: "'c av_sync \<Rightarrow> bool" where
  "audio_only s \<longleftrightarrow> as_video s = [] \<and> as_held s = [] \<and> \<not> as_buffering s"

text \<open>A block of samples joins the queue.\<close>

lemma dec_pcm_output_ok:
  assumes "\<forall>n. ud_alloc env n" "dc_observer (pt_decoder st)" "frames_ok (pt_frames st) (pt_ledger st)"
    and "player_ok (pt_player st) h" "queue_ok (pt_frames st) (pt_sync st)" "sync_reach ops (pt_sync st)"
    and "pcm_of t (Some written) = Some pcm"
  shows "\<exists>f pl s fs l. dec_pcm_output env pcm st
      = Inr (st\<lparr> pt_player := pl, pt_sync := s, pt_ledger := l, pt_frames := fs \<rparr>)
    \<and> player_ok pl h \<and> frames_ok fs l \<and> queue_ok fs s \<and> sync_reach ops s
    \<and> queued fs s = queued (pt_frames st) (pt_sync st) @ [pcm] \<and> (audio_only (pt_sync st) \<longrightarrow> audio_only s)"
proof -
  have pcm: "ap_sample_rate pcm = 48000" "ap_channels pcm = 2" "ap_bits_per_sample pcm = 16"
    "ap_len pcm = int (length (ap_pcm pcm))" using assms(7) by (auto simp: pcm_of_def)
  obtain p l where p: "av_frame_create_pcm env pcm (pt_ledger st) = Inr (Some p, l)" "po_pcm p = pcm"
    "pt_frames st (po_frame p) = None" "frames_ok ((pt_frames st)(po_frame p := Some p)) l"
    using av_frame_create_pcm_ok [OF assms(1,3) pcm(4)] by blast
  let ?s = "push_audio (pcm_av_frame p) (pt_sync st)" and ?fs = "(pt_frames st)(po_frame p := Some p)"
  obtain pl where pl: "on_decoded_pcm 48000 2 16 (pcm_av_frame p) (pt_player st) (pt_sync st) = Inr (pl, ?s)" "player_ok pl h"
    using on_decoded_pcm_ok [OF assms(4)] by blast
  have s: "sync_reach ops ?s" using assms(6) sync_reach.step [of ops _ "Queue_Audio (pcm_av_frame p)"] by simp
  have refs: "as_refs ?s i = as_refs (pt_sync st) i + (if i = po_frame p then 1 else 0)" for i
    by (simp add: push_audio_def frame_add_ref_def pcm_av_frame_def)
  have "as_refs (pt_sync st) (po_frame p) \<ge> 0"
    using sync_reach_inv [OF assms(6)] by (simp add: sync_refs_def)
  then have one: "as_refs ?s (po_frame p) \<noteq> 0" using refs by simp
  have q: "queue_ok ?fs ?s" "queued ?fs ?s = queued (pt_frames st) (pt_sync st) @ [pcm]"
  proof -
    have ids: "fr_id f \<noteq> po_frame p" if "f \<in> set (as_audio (pt_sync st))" for f
      using assms(5) p(3) that by (auto simp: queue_ok_def)
    show "queue_ok ?fs ?s"
      using assms(5) one refs unfolding queue_ok_def by (auto simp: push_audio_def frame_add_ref_def pcm_av_frame_def)
    show "queued ?fs ?s = queued (pt_frames st) (pt_sync st) @ [pcm]"
      using ids p(2) by (simp add: queued_def push_audio_def frame_add_ref_def pcm_av_frame_def)
  qed
  have "dec_pcm_output env pcm st
      = Inr (st\<lparr> pt_player := pl, pt_sync := ?s, pt_ledger := l, pt_frames := ?fs \<rparr>)"
    using assms(2) p(1,2) pl(1) pcm one
    by (simp add: dec_pcm_output_def on_decoder_output_def pcm_frame_unref_def)
  moreover have "audio_only (pt_sync st) \<longrightarrow> audio_only ?s" by (simp add: audio_only_def push_audio_def frame_add_ref_def)
  ultimately show ?thesis using pl(2) p(4) q s by blast
qed

lemma on_media_frame_ok:
  assumes "path_inv env ops d st" "\<forall>n. ud_alloc env n" "opus_decode_documented env"
  shows "\<exists>st'. on_media_frame env mf st = Inr st' \<and> path_inv env ops d st' \<and> pt_media st' = pt_media st @ [mf]
    \<and> pt_taken st' = pt_taken st \<and> (audio_only (pt_sync st) \<longrightarrow> audio_only (pt_sync st'))"
proof -
  let ?d = "opus_after env (map mf_data (pt_media st)) d"
  have inv: "sync_reach ops (pt_sync st)" "pt_fault st = None" "player_ok (pt_player st) (pt_objects st)"
    "decoder_ok (pt_decoder st) ?d" "frames_ok (pt_frames st) (pt_ledger st)" "queue_ok (pt_frames st) (pt_sync st)"
    "map snd (pt_taken st) @ queued (pt_frames st) (pt_sync st) = decoded env d (pt_media st)"
    using assms(1) by (simp_all add: path_inv_def)
  obtain i n where i: "pl_decoder (pt_player st) = Some i" "ob_refs (pt_objects st) i = Some n" "0 < n"
    using inv(3) by (auto simp: player_ok_def)
  let ?h = "(pt_objects st)\<lparr> ob_refs := (ob_refs (pt_objects st))(i := Some (n + 1)) \<rparr>"
  define out where "out = pcm_of (stamp mf) (hd (opus_run env [mf_data mf] ?d))"
  obtain dec where dec: "audio_decoder_decode env mf (pt_decoder st) = Inr (dec, out)"
    "decoder_ok dec (opus_after env [mf_data mf] ?d)" using audio_decoder_decode_ok [OF inv(4) assms(3)] unfolding out_def by blast
  let ?st = "st\<lparr> pt_objects := ?h, pt_decoder := dec, pt_media := pt_media st @ [mf] \<rparr>"
  have pl: "player_ok (pt_player st) ?h" using inv(3) i by (auto simp: player_ok_def)
  have handler: "on_media_frame env mf st = res_bind (case out of None \<Rightarrow> Inr ?st | Some pcm \<Rightarrow> dec_pcm_output env pcm ?st)
      (\<lambda>st. res_bind (obj_release i (pt_objects st)) (\<lambda>h.
          if ob_refs h i \<noteq> None then Inr (st\<lparr> pt_objects := h \<rparr>)
          else res_bind (audio_decoder_tear (pt_decoder st) (pt_ledger st)) (\<lambda>(dec, l).
            Inr (st\<lparr> pt_objects := h, pt_decoder := dec, pt_ledger := l \<rparr>))))"
    using i dec(1) by (simp add: on_media_frame_def obj_add_ref_def Let_def)
  have release: "obj_release i ?h = Inr (pt_objects st)"
    using i by (simp add: obj_release_def fun_upd_idem)
  show ?thesis
  proof (cases out)
    case None
    then have "decoded env d (pt_media st @ [mf]) = decoded env d (pt_media st)" by (simp only: decoded_snoc out_def [symmetric] None option.case append_Nil2)
    then show ?thesis
      using handler None release i inv dec(2) by (simp add: path_inv_def)
  next
    case (Some pcm)
    then obtain written where w: "pcm_of (stamp mf) (Some written) = Some pcm"
      by (cases "hd (opus_run env [mf_data mf] ?d)") (auto simp: out_def pcm_of_def simp del: opus_run.simps)
    have "dc_observer dec" using dec(2) by (simp add: decoder_ok_def)
    then obtain pl2 s fs l where o: "dec_pcm_output env pcm ?st
        = Inr (?st\<lparr> pt_player := pl2, pt_sync := s, pt_ledger := l, pt_frames := fs \<rparr>)"
      "player_ok pl2 ?h" "frames_ok fs l" "queue_ok fs s" "sync_reach ops s"
      "queued fs s = queued (pt_frames st) (pt_sync st) @ [pcm]" "audio_only (pt_sync st) \<longrightarrow> audio_only s"
      using dec_pcm_output_ok [OF assms(2), of ?st ?h ops "stamp mf" written pcm] inv pl w by auto
    have "player_ok pl2 (pt_objects st)" using o(2) i by (auto simp: player_ok_def split: if_splits)
    moreover have "decoded env d (pt_media st @ [mf]) = decoded env d (pt_media st) @ [pcm]"
      by (simp only: decoded_snoc out_def [symmetric] Some option.case)
    ultimately show ?thesis
      using handler Some release i inv dec(2) o by (simp add: path_inv_def)
  qed
qed

text \<open>The other threads keep the invariant.\<close>

lemma sync_do_audio:
  assumes "sync_do ops a s = Inr s'" "\<forall>f. a \<noteq> Queue_Audio f" "a \<noteq> Take_Audio"
  shows "as_audio s' = as_audio s" "as_audio_out s' = as_audio_out s"
  using assms by (cases a; auto simp: res_bind_Inr_iff push_video_queue_def push_video_settle_def release_frame_def
      frame_release_def frame_add_ref_def set_clock_def Let_def elim!: video_frame_cases split: if_splits)+

lemma sync_do_refs_kept:
  assumes "sync_do ops a s = Inr s'" "\<forall>f. a \<noteq> Queue_Audio f" "a \<noteq> Take_Audio" "\<forall>f. a = Release_Frame f \<longrightarrow> fr_id f \<noteq> i"
  shows "as_refs s i \<le> as_refs s' i"
  using assms by (cases a; auto simp: res_bind_Inr_iff push_video_queue_def push_video_settle_def release_frame_def
      frame_release_def frame_add_ref_def set_clock_def Let_def elim!: video_frame_cases split: if_splits)

lemma path_do_inv:
  assumes "path_inv env ops d st" "\<forall>n. ud_alloc env n" "opus_decode_documented env" "path_do env ops a st = Inr st'"
  shows "path_inv env ops d st'" "pt_taken st' = pt_taken st"
    "pt_media st' = pt_media st @ (case a of Media mf \<Rightarrow> [mf] | Sync _ \<Rightarrow> [])"
proof -
  have "path_inv env ops d st' \<and> pt_taken st' = pt_taken st
    \<and> pt_media st' = pt_media st @ (case a of Media mf \<Rightarrow> [mf] | Sync _ \<Rightarrow> [])"
  proof (cases a)
    case (Media mf)
    then show ?thesis using on_media_frame_ok [OF assms(1-3), of mf] assms(4) by auto
  next
    case (Sync b)
    show ?thesis
    proof (cases "(\<exists>f. b = Queue_Audio f) \<or> b = Take_Audio \<or> (\<exists>f. b = Release_Frame f \<and> pt_frames st (fr_id f) \<noteq> None)")
      case True
      then show ?thesis using Sync assms(1,4) by auto
    next
      case False
      then obtain s where s: "sync_do ops b (pt_sync st) = Inr s" "st' = st\<lparr> pt_sync := s \<rparr>"
        using Sync assms(4) by (cases b) (auto simp: res_bind_Inr_iff split: if_splits)
      have audio: "as_audio s = as_audio (pt_sync st)" using sync_do_audio(1) [OF s(1)] False by blast
      have r: "sync_reach ops (pt_sync st)" using assms(1) by (simp add: path_inv_def)
      have refs: "as_refs s i \<noteq> 0" if "pt_frames st i \<noteq> None" for i
      proof -
        have "0 \<le> as_refs (pt_sync st) i" using sync_reach_inv [OF r] by (simp add: sync_refs_def)
        moreover have "as_refs (pt_sync st) i \<noteq> 0" using assms(1) that by (simp add: path_inv_def queue_ok_def)
        moreover have "as_refs (pt_sync st) i \<le> as_refs s i"
          using sync_do_refs_kept [OF s(1), of i] False that by blast
        ultimately show ?thesis by linarith
      qed
      have "sync_reach ops s" using r s(1) by (rule sync_reach.step)
      then show ?thesis
        using assms(1) s(2) Sync audio refs by (auto simp: path_inv_def queue_ok_def queued_def)
    qed
  qed
  then show "path_inv env ops d st'" "pt_taken st' = pt_taken st"
    "pt_media st' = pt_media st @ (case a of Media mf \<Rightarrow> [mf] | Sync _ \<Rightarrow> [])" by auto
qed

definition media_of_actions :: "'c path_action list \<Rightarrow> media_frame list" where
  "media_of_actions as = concat (map (\<lambda>a. case a of Media mf \<Rightarrow> [mf] | Sync _ \<Rightarrow> []) as)"

lemma path_run_inv:
  assumes "path_inv env ops d st" "\<forall>n. ud_alloc env n" "opus_decode_documented env" "path_run env ops as st = Inr st'"
  shows "path_inv env ops d st' \<and> pt_taken st' = pt_taken st \<and> pt_media st' = pt_media st @ media_of_actions as"
  using assms(1,4)
proof (induction as arbitrary: st)
  case (Cons a as)
  obtain st1 where st1: "path_do env ops a st = Inr st1" "path_run env ops as st1 = Inr st'"
    using Cons.prems(2) by (auto simp: res_bind_Inr_iff)
  show ?case
    using path_do_inv [OF Cons.prems(1) assms(2,3) st1(1)] Cons.IH [OF _ st1(2)]
    by (simp add: media_of_actions_def)
qed (simp add: media_of_actions_def)

text \<open>A run of media frames alone does not fault.\<close>

lemma path_media_ok:
  assumes "path_inv env ops d st" "\<forall>n. ud_alloc env n" "opus_decode_documented env"
  shows "\<exists>st'. path_run env ops (map Media mfs) st = Inr st' \<and> path_inv env ops d st'
    \<and> pt_media st' = pt_media st @ mfs \<and> pt_taken st' = pt_taken st
    \<and> (audio_only (pt_sync st) \<longrightarrow> audio_only (pt_sync st'))"
  using assms(1)
proof (induction mfs arbitrary: st)
  case (Cons mf mfs)
  obtain st1 where "on_media_frame env mf st = Inr st1" "path_inv env ops d st1" "pt_media st1 = pt_media st @ [mf]"
    "pt_taken st1 = pt_taken st" "audio_only (pt_sync st) \<longrightarrow> audio_only (pt_sync st1)" using on_media_frame_ok [OF Cons.prems assms(2,3), of mf] by blast
  then show ?case using Cons.IH [of st1] by auto
qed simp

section \<open>The audio thread\<close>

lemma path_audio_frame_cases:
  assumes "path_inv env ops d st"
  obtains "path_audio_frame st = Inr (1, None, st)"
  | f p fs where "as_audio (pt_sync st) = f # fs" "pt_frames st (fr_id f) = Some p"
    "sync_audio_frame (pt_sync st) = (0, Some f, snd (snd (sync_audio_frame (pt_sync st))))"
    "path_audio_frame st = Inr (0, Some (f, po_pcm p), st\<lparr> pt_sync := snd (snd (sync_audio_frame (pt_sync st))),
       pt_taken := pt_taken st @ [(f, po_pcm p)] \<rparr>)"
proof (cases "as_audio (pt_sync st) = [] \<or> as_buffering (pt_sync st)")
  case True
  then have "path_audio_frame st = Inr (1, None, st)"
    by (auto simp: path_audio_frame_def sync_audio_frame_def)
  then show ?thesis by (rule that(1))
next
  case False
  then obtain f fs where f: "as_audio (pt_sync st) = f # fs" by (cases "as_audio (pt_sync st)") auto
  then obtain p where "pt_frames st (fr_id f) = Some p" using assms by (auto simp: path_inv_def queue_ok_def)
  then show ?thesis using that(2) f False by (simp add: path_audio_frame_def sync_audio_frame_def Let_def)
qed

lemma sync_audio_turn:
  assumes "as_audio s = f # fs" "sync_audio_frame s = (idle, Some g, s')"
  shows "as_audio (release_frame (Some g) s') = fs" "g = f"
    "as_refs (release_frame (Some g) s') i = as_refs s i - (if i = fr_id f then 1 else 0)"
  using assms by (auto simp: sync_audio_frame_def release_frame_def frame_release_def Let_def split: if_splits)

lemma path_turn_inv:
  assumes "path_inv env ops d st" "path_audio_frame st = Inr (idle, fo, st')"
  shows "path_inv env ops d (path_release fo st')"
  using assms(1)
proof (cases rule: path_audio_frame_cases)
  case 1
  then show ?thesis using assms by (simp add: path_release_def)
next
  case (2 f p fs)
  let ?s1 = "snd (snd (sync_audio_frame (pt_sync st)))"
  let ?s = "release_frame (Some f) ?s1" and ?id = "fr_id f"
  note turn = sync_audio_turn [OF 2(1,3)]
  have inv: "sync_reach ops (pt_sync st)" "frames_ok (pt_frames st) (pt_ledger st)" "queue_ok (pt_frames st) (pt_sync st)"
    using assms(1) by (simp_all add: path_inv_def)
  have reach: "sync_reach ops ?s" by (rule audio_turn_reach [OF inv(1) 2(3)])
  let ?st = "st\<lparr> pt_taken := pt_taken st @ [(f, po_pcm p)], pt_sync := ?s \<rparr>"
  have rel: "path_release fo st' = (case pcm_frame_unref ?id ?st of Inr st \<Rightarrow> st
      | Inl e \<Rightarrow> ?st\<lparr> pt_fault := (if pt_fault ?st = None then Some e else pt_fault ?st) \<rparr>)"
    using assms(2) 2(4) by (simp add: path_release_def Let_def) (auto simp: path_release_def Let_def split: sum.split)
  have taken: "map snd (pt_taken ?st) @ queued (pt_frames st) ?s = decoded env d (pt_media st)"
    using assms(1) 2(1,2) turn(1) by (simp add: path_inv_def queued_def)
  show ?thesis
  proof (cases "as_refs ?s ?id = 0")
    case False
    then have "queue_ok (pt_frames st) ?s"
      using inv(3) 2(1) turn(1,3) by (auto simp: queue_ok_def)
    then show ?thesis
      using rel False assms(1) reach taken by (simp add: path_inv_def pcm_frame_unref_def)
  next
    case True
    obtain l where l: "pcm_frame_delete p (pt_ledger st) = Inr l" "frames_ok ((pt_frames st)(?id := None)) l"
      using pcm_frame_delete_ok [OF inv(2) 2(2)] by blast
    have "?id \<notin> set (map fr_id (as_audio ?s))"
    proof
      assume "?id \<in> set (map fr_id (as_audio ?s))"
      then have "0 < count_list (map fr_id (as_video ?s @ as_audio ?s @ as_held ?s)) ?id"
        by (simp add: count_list_0_iff flip: neq0_conv)
      then show False using sync_reach_inv [OF reach] True by (simp add: sync_refs_def)
    qed
    then have ids: "fr_id g \<noteq> ?id" if "g \<in> set fs" for g using that turn(1) by (metis image_eqI list.set_map)
    have "queued ((pt_frames st)(?id := None)) ?s = queued (pt_frames st) ?s"
      using ids turn(1) by (simp add: queued_def)
    moreover have "queue_ok ((pt_frames st)(?id := None)) ?s"
      using inv(3) 2(1) turn(1,3) ids by (auto simp: queue_ok_def)
    ultimately show ?thesis
      using rel True assms(1) reach taken l 2(2) by (simp add: path_inv_def pcm_frame_unref_def)
  qed
qed

lemma path_audio_frame_ok:
  assumes "path_inv env ops d st"
  shows "no_fault (path_audio_frame st)"
    and "path_audio_frame st = Inr (idle, Some fp, st') \<Longrightarrow> snd fp \<in> set (decoded env d (pt_media st))"
proof -
  show "no_fault (path_audio_frame st)" using assms by (cases rule: path_audio_frame_cases) simp_all
  assume got: "path_audio_frame st = Inr (idle, Some fp, st')"
  show "snd fp \<in> set (decoded env d (pt_media st))"
    using assms
  proof (cases rule: path_audio_frame_cases)
    case 1
    then show ?thesis using got by simp
  next
    case (2 f p fs)
    then have "snd fp \<in> set (queued (pt_frames st) (pt_sync st))" using got by (auto simp: queued_def)
    moreover have "map snd (pt_taken st) @ queued (pt_frames st) (pt_sync st) = decoded env d (pt_media st)"
      using assms by (simp add: path_inv_def)
    ultimately show ?thesis by (metis UnCI set_append)
  qed
qed

lemma path_taken:
  "path_audio_frame st = Inr (idle, fo, st') \<Longrightarrow> pt_taken st' = pt_taken st @ (case fo of None \<Rightarrow> [] | Some f \<Rightarrow> [f])"
  "pt_taken (path_release fo st) = pt_taken st" "path_release None st = st"
proof -
  show "path_audio_frame st = Inr (idle, fo, st') \<Longrightarrow> pt_taken st' = pt_taken st @ (case fo of None \<Rightarrow> [] | Some f \<Rightarrow> [f])"
    by (auto simp: path_audio_frame_def split: option.splits prod.splits)
  have "pcm_frame_unref i w = Inr w' \<Longrightarrow> pt_taken w' = pt_taken w" for i and w w' :: "('a, 'b) audio_path"
    by (auto simp: pcm_frame_unref_def res_bind_Inr_iff split: if_splits option.splits)
  then show "pt_taken (path_release fo st) = pt_taken st"
    by (fastforce simp: path_release_def Let_def split: option.splits prod.splits sum.splits)
  show "path_release None st = st" by (simp add: path_release_def)
qed

interpretation path_source: av_source "\<lambda>_. path_audio_frame" path_release pt_taken "path_inv env ops d" for env ops d
  by unfold_locales (simp_all add: path_taken path_turn_inv)

definition audio_path_new ::
    "player \<Rightarrow> objects \<Rightarrow> 'd audio_decoder \<Rightarrow> ledger \<Rightarrow> int \<Rightarrow> ('d, 'c) audio_path" where
  "audio_path_new pl h dec l now =
     \<lparr> pt_player = pl, pt_objects = h, pt_decoder = dec, pt_sync = av_sync_new now, pt_frames = (\<lambda>_. None),
       pt_ledger = l, pt_fault = None, pt_media = [], pt_taken = [] \<rparr>"

lemma audio_decoder_build_ok:
  assumes "\<forall>n. ud_alloc env n" "ud_create env 48000 2 = (Some d, 0)"
  shows "\<exists>dec l. audio_decoder_build env CODEC_TYPE_OPUS True audio_decoder_new l0 = Inr (True, dec, l) \<and> decoder_ok dec d"
  using assms
  by (simp add: audio_decoder_build_def create_audio_decoder_def opus_dec_create_def ol_alloc_def audio_dec_init_def
      opus_dec_init_def audio_decoder_new_def audio_dec_set_cb_output_def decoder_ok_def opus_ready_def
      OPUS_FULLBAND_def OPUS_SAMPLE_LENGTH_def Let_def)

lemma path_inv_new:
  assumes "decoder_ok dec d" "player_ok pl h"
  shows "path_inv env ops d (audio_path_new pl h dec l now)"
  using assms sync_reach.new [of ops now]
  by (simp add: path_inv_def audio_path_new_def frames_ok_def queue_ok_def queued_def decoded_def av_sync_new_def map_filter_def)

text \<open>The other threads during a turn: any run of their actions.\<close>

definition path_others :: "'d opus_dec_env \<Rightarrow> 'c clock_ops \<Rightarrow> 'd \<Rightarrow> ('d, 'c) audio_path poll_env \<Rightarrow> bool" where
  "path_others env ops d e \<longleftrightarrow>
     (\<forall>st. path_inv env ops d st \<longrightarrow> (\<exists>as. path_run env ops as st = Inr (pe_others e st)))"

definition pcm_view_of :: "av_frame \<times> audio_dec_pcm \<Rightarrow> pcm_frame" where
  "pcm_view_of fp = pcm_view (snd fp)"

lemma length_samples_of [simp]: "length (samples_of bs) = length bs div 2"
  by (induction bs rule: samples_of.induct) auto

lemma opus_run_even:
  assumes "opus_decode_documented env" "Some w \<in> set (opus_run env ps d)"
  shows "even (length w)"
  using assms(2)
proof (induction ps arbitrary: d)
  case (Cons p ps)
  obtain d' samples written where u: "ud_decode env d (Some p) (int (length p)) 96000 = (d', samples, written)"
    by (cases "ud_decode env d (Some p) (int (length p)) 96000")
  have "int (length written) = (if 0 < samples then samples * 2 * 2 else 0)"
    using assms(1) u unfolding opus_decode_documented_def OPUS_SAMPLE_LENGTH_def
    by (metis (mono_tags, lifting) case_prod_conv zero_le_numeral)
  then have "even (int (length written))" by simp
  then have "even (length written)" by simp
  then show ?case using Cons u by (auto split: if_splits)
qed simp

lemma decoded_out_format:
  assumes "opus_decode_documented env" "p \<in> set (decoded env d mfs)"
  shows "out_format 48000 2 (pcm_view p)"
proof -
  obtain mf w where "Some w \<in> set (opus_run env (map mf_data mfs) d)" "pcm_of (stamp mf) (Some w) = Some p"
    using assms(2) by (fastforce simp: decoded_def map_filter_def pcm_of_def dest: set_zip_rightD)
  then have "even (length (ap_pcm p))" using opus_run_even [OF assms(1)] by (auto simp: pcm_of_def)
  then show ?thesis using decoded_format [OF assms(2)] by (auto simp: out_format_def pcm_view_def)
qed

text \<open>Any number of turns of the audio thread: nothing faults, and the device gets what was taken.\<close>

lemma path_polls:
  assumes "path_inv env ops d st" "pt_taken st = []" "\<forall>n. ud_alloc env n" "opus_decode_documented env"
    and "\<forall>e\<in>set es. path_others env ops d e"
  shows "\<exists>st' a. svc_polls (\<lambda>_. path_audio_frame) path_release
      (\<lambda>fp. audio_out_on_frame True True junk (pcm_view_of fp)) es st (audio_out_new n i b) = Inr (st', a)
    \<and> path_inv env ops d st'
    \<and> (pt_taken st' \<noteq> [] \<longrightarrow> concat (ao_enqueued a) @ region (out_buffer a) 0 (nat (ao_index a))
         = concat (map (samples_of \<circ> ap_pcm \<circ> snd) (pt_taken st')))"
proof -
  let ?f = "\<lambda>fp. audio_out_on_frame True True junk (pcm_view_of fp)"
  define ok where "ok a \<longleftrightarrow> out_ready 48000 2 a \<or> ao_channels a = 0 \<and> ao_enqueued a = []" for a
  have sl: "sl_sampling_rate 48000" by (simp add: sl_sampling_rate_def)
  have p: "\<forall>e\<in>set es. path_source.polite env ops d e"
    using assms(3-5) path_run_inv unfolding path_others_def path_source.polite_def by metis
  have good: "out_format 48000 2 (pcm_view_of fp)"
    if "path_inv env ops d w" "path_audio_frame w = Inr (idle, Some fp, w')" for w idle fp w'
    unfolding pcm_view_of_def by (rule decoded_out_format [OF assms(4) path_audio_frame_ok(2) [OF that]])
  have play: "\<exists>a'. ?f fp a = Inr a' \<and> ok a'" if "out_format 48000 2 (pcm_view_of fp)" "ok a" for fp a
    using out_frame_ready [OF that(1) sl, of a junk] that(2) unfolding ok_def by auto
  have start: "ok (audio_out_new n i b)" by (simp add: ok_def audio_out_new_def)
  have "no_fault (svc_polls (\<lambda>_. path_audio_frame) path_release ?f es st (audio_out_new n i b))"
    by (rule path_source.polls_no_fault [OF path_audio_frame_ok(1) good play assms(1) start p])
  then obtain st' a where sa: "svc_polls (\<lambda>_. path_audio_frame) path_release ?f es st (audio_out_new n i b) = Inr (st', a)"
    by (auto simp: no_fault_iff)
  then have fs: "path_inv env ops d st'" "play ?f (pt_taken st') (audio_out_new n i b) = Inr a"
    using path_source.polls_play [OF sa assms(1) p] assms(2) by auto
  have "play ?f fs a0 = out_frames junk (map pcm_view_of fs) a0" for fs a0
    by (induction fs arbitrary: a0) (auto simp: res_bind_def split: sum.split)
  then have o: "out_frames junk (map pcm_view_of (pt_taken st')) (audio_out_new n i b) = Inr a" using fs(2) by simp
  have "out_format 48000 2 (pcm_view_of fp)" if "fp \<in> set (pt_taken st')" for fp
  proof -
    have "map snd (pt_taken st') @ queued (pt_frames st') (pt_sync st') = decoded env d (pt_media st')"
      using fs(1) by (simp add: path_inv_def)
    then have "snd fp \<in> set (decoded env d (pt_media st'))"
      using that by (metis UnCI image_eqI list.set_map set_append)
    then show ?thesis unfolding pcm_view_of_def by (rule decoded_out_format [OF assms(4)])
  qed
  then have "\<forall>v\<in>set (map pcm_view_of (pt_taken st')). out_format 48000 2 v" by simp
  then have "pt_taken st' \<noteq> [] \<Longrightarrow> concat (ao_enqueued a) @ region (out_buffer a) 0 (nat (ao_index a))
      = concat (map (pf_pcm \<circ> pcm_view_of) (pt_taken st'))"
    using out_frames_new [of "map pcm_view_of (pt_taken st')" 48000 2 junk n i b] o sl by auto
  moreover have "pf_pcm \<circ> pcm_view_of = samples_of \<circ> ap_pcm \<circ> snd"
    by (simp add: fun_eq_iff pcm_view_of_def pcm_view_def)
  ultimately show ?thesis using sa fs(1) by auto
qed

text \<open>Left alone, the thread takes one frame a turn.\<close>

lemma quiet_turn:
  assumes "path_inv env ops d st" "audio_only (pt_sync st)" "path_audio_frame st = Inr (idle, fo, st')"
  shows "audio_only (pt_sync (path_release fo st'))" "as_audio (pt_sync (path_release fo st')) = tl (as_audio (pt_sync st))"
    "pt_media (path_release fo st') = pt_media st"
proof -
  have media: "pcm_frame_unref i w = Inr w' \<Longrightarrow> pt_media w' = pt_media w" for i and w w' :: "('a, 'b) audio_path"
    by (auto simp: pcm_frame_unref_def res_bind_Inr_iff split: if_splits option.splits)
  then have "pt_media (path_release fo w) = pt_media w" for w :: "('a, 'b) audio_path"
    by (fastforce simp: path_release_def Let_def split: option.splits prod.splits sum.splits)
  moreover have "pt_media st' = pt_media st"
    using assms(3) by (auto simp: path_audio_frame_def split: option.splits prod.splits)
  ultimately show "pt_media (path_release fo st') = pt_media st" by simp
  have unref: "pcm_frame_unref i w = Inr w' \<Longrightarrow> pt_sync w' = pt_sync w" for i and w w' :: "('a, 'b) audio_path"
    by (auto simp: pcm_frame_unref_def res_bind_Inr_iff split: if_splits option.splits)
  have sync: "pt_sync (path_release (Some fp) w) = release_frame (Some (fst fp)) (pt_sync w)" for fp and w :: "('a, 'b) audio_path"
    by (auto simp: path_release_def Let_def split: prod.splits sum.splits dest: unref)
  have "audio_only (pt_sync (path_release fo st')) \<and> as_audio (pt_sync (path_release fo st')) = tl (as_audio (pt_sync st))"
    using assms(1)
  proof (cases rule: path_audio_frame_cases)
    case 1
    then have "as_audio (pt_sync st) = []"
      using assms(2) by (auto simp: path_audio_frame_def sync_audio_frame_def audio_only_def Let_def split: if_splits option.splits)
    then show ?thesis using 1 assms(2,3) by (simp add: path_release_def)
  next
    case (2 f p fs)
    then have "pt_sync (path_release fo st') = release_frame (Some f) (snd (snd (sync_audio_frame (pt_sync st))))"
      using assms(3) sync [of "(f, po_pcm p)"] by simp
    moreover have "audio_only (release_frame (Some f) (snd (snd (sync_audio_frame (pt_sync st)))))"
      using assms(2) 2(1) by (simp add: audio_only_def release_frame_def frame_release_def sync_audio_frame_def Let_def)
    ultimately show ?thesis using sync_audio_turn(1) [OF 2(1,3)] 2(1) by simp
  qed
  then show "audio_only (pt_sync (path_release fo st'))"
    "as_audio (pt_sync (path_release fo st')) = tl (as_audio (pt_sync st))" by simp_all
qed

lemma quiet_polls:
  assumes "svc_polls (\<lambda>_. path_audio_frame) path_release on_frame es st r = Inr (st', r')"
    and "path_inv env ops d st" "audio_only (pt_sync st)" "\<forall>e\<in>set es. pe_others e = (\<lambda>w. w)"
  shows "path_inv env ops d st' \<and> audio_only (pt_sync st') \<and> as_audio (pt_sync st') = drop (length es) (as_audio (pt_sync st))
    \<and> pt_media st' = pt_media st"
  using assms
proof (induction es arbitrary: st r)
  case (Cons e es)
  obtain st1 r1 where p: "svc_poll (\<lambda>_. path_audio_frame) path_release on_frame e st r = Inr (st1, r1)"
    "svc_polls (\<lambda>_. path_audio_frame) path_release on_frame es st1 r1 = Inr (st', r')"
    using Cons.prems(1) by (auto simp: res_bind_Inr_iff)
  obtain idle fo w where a: "path_audio_frame st = Inr (idle, fo, w)"
    "(case fo of None \<Rightarrow> Inr (w, r) | Some f \<Rightarrow> res_bind (on_frame f r) (\<lambda>r. Inr (path_release (Some f) w, r))) = Inr (st1, r1)"
    using p(1) Cons.prems(4) by (auto simp: svc_poll_def res_bind_Inr_iff)
  then have g: "path_audio_frame st = Inr (idle, fo, w)" "st1 = path_release fo w"
    by (cases fo; auto simp: path_taken(3) res_bind_Inr_iff)+
  show ?case
    using Cons.IH [OF p(2)] path_turn_inv [OF Cons.prems(2) g(1)] quiet_turn [OF Cons.prems(2,3) g(1)] g(2) Cons.prems(4)
    by (simp add: drop_Suc)
qed simp

lemma audio_only_freed:
  assumes "path_inv env ops d st" "audio_only (pt_sync st)" "as_audio (pt_sync st) = []"
  shows "pt_frames st = (\<lambda>_. None)" "map snd (pt_taken st) = decoded env d (pt_media st)"
proof -
  have "as_refs (pt_sync st) i = 0" for i
    using sync_reach_inv [of ops "pt_sync st"] assms by (simp add: path_inv_def sync_refs_def audio_only_def)
  then show "pt_frames st = (\<lambda>_. None)" using assms(1) by (auto simp: path_inv_def queue_ok_def)
  show "map snd (pt_taken st) = decoded env d (pt_media st)" using assms(1,3) by (simp add: path_inv_def queued_def)
qed

text \<open>
  C22: from the decoder to the loudspeaker: the audio player is built and its audio thread runs while, in every turn, media
  frames arrive and the other threads do anything to the synchroniser except handling audio frames. Once
  stopped the thread returns without a fault; the frames it took, with those still queued, are what
  \<open>libopus\<close> decodes from the media frames that arrived, in order; the device got the samples of the
  frames taken; no block is freed twice or used after; and every frame left has a reference.
\<close>

theorem opus_packets_played:
  assumes "\<forall>n. ud_alloc env n" "opus_decode_documented env" "ud_create env 48000 2 = (Some d, 0)"
    and "player_ok pl h" "pe_exit (turn k)" "\<And>i. path_others env ops d (turn i)"
  shows "\<exists>dec l st a. audio_decoder_build env CODEC_TYPE_OPUS True audio_decoder_new l0 = Inr (True, dec, l)
    \<and> av_out_svc (\<lambda>_. path_audio_frame) path_release (\<lambda>a. a)
        (\<lambda>fp. audio_out_on_frame True True junk (pcm_view_of fp)) (\<lambda>a. a) turn
        (audio_path_new pl h dec l now) (audio_out_new n i b) = Some (Inr (st, a))
    \<and> pt_fault st = None
    \<and> map snd (pt_taken st) @ queued (pt_frames st) (pt_sync st) = decoded env d (pt_media st)
    \<and> (pt_taken st \<noteq> [] \<longrightarrow> concat (ao_enqueued a) @ region (out_buffer a) 0 (nat (ao_index a))
         = concat (map (samples_of \<circ> ap_pcm \<circ> snd) (pt_taken st)))
    \<and> (\<forall>j. pt_frames st j \<noteq> None \<longrightarrow> as_refs (pt_sync st) j \<noteq> 0)"
proof -
  let ?es = "map turn [0..<LEAST k. pe_exit (turn k)]"
  obtain dec l where dec: "audio_decoder_build env CODEC_TYPE_OPUS True audio_decoder_new l0 = Inr (True, dec, l)" "decoder_ok dec d"
    using audio_decoder_build_ok [OF assms(1,3)] by blast
  let ?st = "audio_path_new pl h dec l now"
  have inv: "path_inv env ops d ?st" by (rule path_inv_new [OF dec(2) assms(4)])
  have es: "\<forall>e\<in>set ?es. path_others env ops d e" using assms(6) by simp
  have none: "pt_taken ?st = []" by (simp add: audio_path_new_def)
  show ?thesis
    using path_polls [OF inv none assms(1,2) es, of junk n i b] dec(1)
    unfolding svc_returns [where env = turn and k = k, OF assms(5)]
    by (fastforce simp: path_inv_def queue_ok_def)
qed

section \<open>From the wire to the loudspeaker\<close>

definition audio_media :: "'x rtp_stream \<Rightarrow> dgram \<Rightarrow> media_frame" where
  "audio_media s g = \<lparr> mf_type = rs_media s, mf_data = dg_body g, mf_pts = pa_pts (dg_args g),
     mf_payload_type = rs_payload_type s, mf_flags = 0, mf_packets = 1 \<rparr>"

lemma length_decoded: "length (decoded env d mfs) \<le> length mfs"
  unfolding decoded_def map_filter_def by (simp add: order_trans [OF length_filter_le])

lemma path_queue_length:
  assumes "path_inv env ops d st"
  shows "length (as_audio (pt_sync st)) \<le> length (pt_media st)"
proof -
  have "length (map snd (pt_taken st) @ queued (pt_frames st) (pt_sync st)) = length (decoded env d (pt_media st))"
    using assms by (simp add: path_inv_def)
  then show ?thesis using length_decoded [of env d "pt_media st"] by (simp add: queued_def)
qed


text \<open>A decoder that makes two samples per channel of every packet with a first byte.\<close>

lemma ot_env_ok: "\<forall>n. ud_alloc ot_env n" "opus_decode_documented ot_env" "ud_create ot_env 48000 2 = (Some 7, 0)"
  by (auto simp: opus_decode_documented_def ot_env_def OPUS_SAMPLE_LENGTH_def split: option.split list.split)

definition demo_audio_player :: player where
  "demo_audio_player = (player_new [0, 0, 0])\<lparr> pl_decoder := Some 0, pl_sync := Some 1 \<rparr>"

definition demo_objects :: objects where
  "demo_objects = \<lparr> ob_next = 2, ob_refs = (\<lambda>_. None)(0 := Some 1, 1 := Some 2) \<rparr>"

lemma demo_player_ok: "player_ok demo_audio_player demo_objects"
  by (simp add: player_ok_def demo_audio_player_def demo_objects_def player_new_def)


theorem opus_packets_played_witness:
  "\<exists>dec l st a. audio_decoder_build ot_env CODEC_TYPE_OPUS True audio_decoder_new \<lparr> ol_next = 0, ol_live = {} \<rparr> = Inr (True, dec, l)
    \<and> av_out_svc (\<lambda>_. path_audio_frame) path_release (\<lambda>a. a)
        (\<lambda>fp. audio_out_on_frame True True (\<lambda>_. 0, \<lambda>_. 0) (pcm_view_of fp)) (\<lambda>a. a)
        (\<lambda>i. \<lparr> pe_exit = (2 \<le> i), pe_now = 0,
           pe_others = (\<lambda>st. case on_media_frame ot_env (audio_media (demo_stream Audio_Stream) demo_dgram) st of
              Inr st' \<Rightarrow> st' | Inl e \<Rightarrow> st) \<rparr>)
        (audio_path_new demo_audio_player demo_objects dec l 0 :: (nat, av_timer) audio_path) (audio_out_new 0 0 False) = Some (Inr (st, a))
    \<and> map snd (pt_taken st) @ queued (pt_frames st) (pt_sync st) = decoded ot_env 7 (pt_media st)"
proof -
  let ?mf = "audio_media (demo_stream Audio_Stream) demo_dgram"
  let ?turn = "\<lambda>i :: nat. \<lparr> pe_exit = (2 \<le> i), pe_now = 0,
    pe_others = (\<lambda>st. case on_media_frame ot_env ?mf st of Inr st' \<Rightarrow> st' | Inl e \<Rightarrow> st) \<rparr> :: (nat, av_timer) audio_path poll_env"
  have exit: "pe_exit (?turn 2)" by simp
  have others: "path_others ot_env timer_ops 7 (?turn i)" for i
    unfolding path_others_def
  proof (intro allI impI)
    fix st :: "(nat, av_timer) audio_path" assume "path_inv ot_env timer_ops 7 st"
    then obtain st' where "on_media_frame ot_env ?mf st = Inr st'"
      using on_media_frame_ok [OF _ ot_env_ok(1,2)] by blast
    then show "\<exists>as. path_run ot_env timer_ops as st = Inr (pe_others (?turn i) st)"
      by (intro exI [of _ "[Media ?mf]"]) simp
  qed
  show ?thesis
    using opus_packets_played [where turn = ?turn and k = 2 and ?l0.0 = "\<lparr> ol_next = 0, ol_live = {} \<rparr>"
        and junk = "(\<lambda>_. 0, \<lambda>_. 0)" and now = 0 and n = 0 and i = 0 and b = False,
        OF ot_env_ok demo_player_ok exit others] by blast
qed

end
