(* ===== verification/Video_Path.thy ===== *)
theory Video_Path
  imports Audio_Path Video_Out
begin

text \<open>
  From a media frame to the screen: \<open>Decoders/VideoDecoder\<close>, the picture part of \<open>Common/AVFrame.h\<close> and the
  handlers of \<open>BasePlayer\<close> and \<open>VideoPlayer\<close> that pass a media frame to the decoder and the picture that
  comes out of it to the synchroniser, with the video thread and the renderer at the other end. A picture
  refers to its decoder, and its surface goes back through the decoder's context. The lemmas show that
  what is drawn are the pictures the codec library makes of the media frames, each once and in order,
  and, when the thread is given the time, all of them.
\<close>

section \<open>VideoDecoder\<close>

record ('d, 'c, 'f) video_decoder_obj =
  vc_decoder :: "('d, 'c, 'f) video_decoder option"
  vc_observer :: bool

definition video_decoder_obj_new :: "('d, 'c, 'f) video_decoder_obj" where
  "video_decoder_obj_new = \<lparr> vc_decoder = None, vc_observer = False \<rparr>"

definition video_decoder_obj_tear ::
    "('d, 'c, 'f) video_decoder_obj \<Rightarrow> heap \<Rightarrow> (('d, 'c, 'f) video_decoder_obj \<times> heap) res" where
  "video_decoder_obj_tear dec hp =
     (case vc_decoder dec of None \<Rightarrow> Inr (dec, hp)
      | Some c \<Rightarrow> res_bind (video_dec_destroy (Some c) hp) (\<lambda>hp. Inr (dec\<lparr> vc_decoder := None \<rparr>, hp)))"

definition video_decoder_build ::
    "malloc_fn \<Rightarrow> bool \<Rightarrow> bool \<Rightarrow> ('d, 'c, 'f) dec_env \<Rightarrow> VIDEO_CODEC_TYPE \<Rightarrow> bool \<Rightarrow> ('d, 'c, 'f) video_decoder_obj
     \<Rightarrow> heap \<Rightarrow> (bool \<times> ('d, 'c, 'f) video_decoder_obj \<times> heap) res" where
  "video_decoder_build malloc ctx_ok av_ok env codec observer dec hp =
     (let fail = (\<lambda>dec hp. res_bind (video_decoder_obj_tear dec hp) (\<lambda>(dec, hp). Inr (False, dec, hp))) in
      res_bind (create_video_decoder malloc ctx_ok av_ok codec hp) (\<lambda>(c, hp).
        let dec = dec\<lparr> vc_decoder := c \<rparr> in
        if c = None then fail dec hp
        else res_bind (video_dec_init env c 2) (\<lambda>(rc, c).
          let dec = dec\<lparr> vc_decoder := c \<rparr> in
          if rc \<noteq> 0 then fail dec hp
          else Inr (True, dec\<lparr> vc_decoder := video_dec_set_cb_output c True, vc_observer := observer \<rparr>, hp))))"

definition video_decoder_decode ::
    "('d, 'c, 'f) dec_env \<Rightarrow> media_frame \<Rightarrow> ('d, 'c, 'f) video_decoder_obj
     \<Rightarrow> (('d, 'c, 'f) video_decoder_obj \<times> video_surface option) res" where
  "video_decoder_decode env mf dec =
     res_bind (video_dec_decode env (vc_decoder dec) (Some (mf_data mf)) (int (length (mf_data mf))) 0
                (uint (mf_pts mf)) (mf_payload_type mf))
       (\<lambda>(rc, c, out). Inr (dec\<lparr> vc_decoder := c \<rparr>, out))"

section \<open>The video player at work\<close>

text \<open>
  An \<open>AVFrame\<close> with a picture: its surface and its decoder. The player with the objects it holds, its
  decoder (\<open>pl_decoder\<close> names it), the synchroniser and the living frames; \<open>vt_next\<close> is the next frame. The
  count of a frame is what the synchroniser counts plus one while \<open>dec_image_output\<close> holds it.
  \<open>vt_fault\<close> is the first fault of a release; \<open>vt_media\<close> and \<open>vt_taken\<close> are ghosts: the media frames that came
  in and the frames, with their surfaces, that went to the renderer.
\<close>

record image_object =
  io_surface :: video_surface
  io_decoder :: nat

record ('d, 'c, 'f, 'k) video_path =
  vt_player :: player
  vt_objects :: objects
  vt_decoder :: "('d, 'c, 'f) video_decoder_obj"
  vt_sync :: "'k av_sync"
  vt_next :: nat
  vt_frames :: "nat \<Rightarrow> image_object option"
  vt_heap :: heap
  vt_fault :: "fault option"
  vt_media :: "media_frame list"
  vt_taken :: "(av_frame \<times> video_surface) list"

text \<open>\<open>AVFrame::create_instance\<close> for a picture: the frame takes a reference to the decoder.\<close>

definition av_frame_create_image ::
    "bool \<Rightarrow> nat \<Rightarrow> video_surface \<Rightarrow> ('d, 'c, 'f, 'k) video_path \<Rightarrow> (nat option \<times> ('d, 'c, 'f, 'k) video_path) res" where
  "av_frame_create_image alloc d pic st =
     (if \<not> alloc then Inr (None, st)
      else res_bind (obj_add_ref d (vt_objects st)) (\<lambda>h.
        let i = vt_next st in
        Inr (Some i, st\<lparr> vt_objects := h, vt_next := i + 1,
               vt_frames := (vt_frames st)(i := Some \<lparr> io_surface = pic, io_decoder = d \<rparr>) \<rparr>)))"

definition image_av_frame :: "nat \<Rightarrow> video_surface \<Rightarrow> av_frame" where
  "image_av_frame i pic = \<lparr> fr_id = i, fr_pts = word_of_int (vs_pts pic), fr_sample_rate = 0 \<rparr>"

text \<open>\<open>RefCount::release\<close> of the decoder; the last reference tears it down.\<close>

definition decoder_unref :: "nat \<Rightarrow> ('d, 'c, 'f, 'k) video_path \<Rightarrow> ('d, 'c, 'f, 'k) video_path res" where
  "decoder_unref d st =
     res_bind (obj_release d (vt_objects st)) (\<lambda>h.
     if ob_refs h d \<noteq> None then Inr (st\<lparr> vt_objects := h \<rparr>)
     else res_bind (video_decoder_obj_tear (vt_decoder st) (vt_heap st)) (\<lambda>(dec, hp).
       Inr (st\<lparr> vt_objects := h, vt_decoder := dec, vt_heap := hp \<rparr>)))"

text \<open>
  The destructor of a picture: \<open>video_dec_release_image\<close> reads the context the frame was made with, then the
  decoder is released. What \<open>RefCount::release\<close> does once the count went down is \<open>image_frame_unref\<close>.
\<close>

definition image_frame_delete :: "nat \<Rightarrow> image_object \<Rightarrow> ('d, 'c, 'f, 'k) video_path \<Rightarrow> ('d, 'c, 'f, 'k) video_path res" where
  "image_frame_delete i p st =
     (if vc_decoder (vt_decoder st) = None then Inl Use_After_Free
      else decoder_unref (io_decoder p) (st\<lparr> vt_frames := (vt_frames st)(i := None) \<rparr>))"

definition image_frame_unref :: "nat \<Rightarrow> ('d, 'c, 'f, 'k) video_path \<Rightarrow> ('d, 'c, 'f, 'k) video_path res" where
  "image_frame_unref i st =
     (if as_refs (vt_sync st) i \<noteq> 0 then Inr st
      else case vt_frames st i of
          None \<Rightarrow> Inl Use_After_Free
        | Some p \<Rightarrow> image_frame_delete i p st)"

text \<open>
  \<open>BasePlayer::on_decoder_output\<close> for a picture; a null frame is ignored. \<open>push_video\<close> runs at once here:
  what happens between its three sections is in the interleavings of the synchroniser.
\<close>

definition video_on_decoder_output ::
    "nat option \<Rightarrow> video_surface \<Rightarrow> ('d, 'c, 'f, 'k) video_path \<Rightarrow> ('d, 'c, 'f, 'k) video_path res" where
  "video_on_decoder_output frame pic st =
     (case frame of None \<Rightarrow> Inr st
      | Some i \<Rightarrow>
          res_bind (on_decoded_image (sint (vs_width pic 0)) (sint (vs_height pic 0)) (image_av_frame i pic)
                     (vt_player st) (vt_sync st))
            (\<lambda>(pl, s). Inr (st\<lparr> vt_player := pl, vt_sync := s \<rparr>)))"

text \<open>\<open>VideoDecoder::dec_image_output\<close>.\<close>

definition dec_image_deliver ::
    "(nat \<Rightarrow> bool) \<Rightarrow> nat \<Rightarrow> video_surface \<Rightarrow> ('d, 'c, 'f, 'k) video_path \<Rightarrow> ('d, 'c, 'f, 'k) video_path res" where
  "dec_image_deliver alloc d pic st =
     (if vs_planes pic 0 = None then Inr st
      else if \<not> vc_observer (vt_decoder st) then Inr st
      else res_bind (av_frame_create_image (alloc (vt_next st)) d pic st) (\<lambda>(frame, st).
        res_bind (video_on_decoder_output frame pic st) (\<lambda>st.
        case frame of None \<Rightarrow> Inl Null_Deref | Some i \<Rightarrow> image_frame_unref i st)))"

text \<open>\<open>BasePlayer::on_media_frame\<close>; the reference keeps the decoder alive while it decodes.\<close>

definition video_on_media_frame ::
    "('d, 'c, 'f) dec_env \<Rightarrow> (nat \<Rightarrow> bool) \<Rightarrow> media_frame \<Rightarrow> ('d, 'c, 'f, 'k) video_path \<Rightarrow> ('d, 'c, 'f, 'k) video_path res" where
  "video_on_media_frame env alloc mf st =
     (case pl_decoder (vt_player st) of None \<Rightarrow> Inr st
      | Some d \<Rightarrow>
          res_bind (obj_add_ref d (vt_objects st)) (\<lambda>h.
          res_bind (video_decoder_decode env mf (vt_decoder st)) (\<lambda>(dec, out).
          let st = st\<lparr> vt_objects := h, vt_decoder := dec, vt_media := vt_media st @ [mf] \<rparr> in
          res_bind (case out of None \<Rightarrow> Inr st | Some pic \<Rightarrow> dec_image_deliver alloc d pic st) (decoder_unref d))))"

text \<open>\<open>AVSync::video_frame\<close> with the surface the renderer is going to read, and \<open>AVSync::release_frame\<close>.\<close>

definition path_video_frame ::
    "'k clock_ops \<Rightarrow> int \<Rightarrow> ('d, 'c, 'f, 'k) video_path
     \<Rightarrow> (int \<times> (av_frame \<times> video_surface) option \<times> ('d, 'c, 'f, 'k) video_path) res" where
  "path_video_frame ops now st =
     res_bind (sync_video_frame ops now (vt_sync st)) (\<lambda>(idle, fo, s).
     case fo of
       None \<Rightarrow> Inr (idle, None, st\<lparr> vt_sync := s \<rparr>)
     | Some f \<Rightarrow>
         (case vt_frames st (fr_id f) of
            None \<Rightarrow> Inl Use_After_Free
          | Some p \<Rightarrow> Inr (idle, Some (f, io_surface p),
              st\<lparr> vt_sync := s, vt_taken := vt_taken st @ [(f, io_surface p)] \<rparr>)))"

definition path_video_release ::
    "(av_frame \<times> video_surface) option \<Rightarrow> ('d, 'c, 'f, 'k) video_path \<Rightarrow> ('d, 'c, 'f, 'k) video_path" where
  "path_video_release fo st =
     (case fo of None \<Rightarrow> st
      | Some (f, _) \<Rightarrow>
          let st = st\<lparr> vt_sync := release_frame (Some f) (vt_sync st) \<rparr> in
          (case image_frame_unref (fr_id f) st of Inr st \<Rightarrow> st
           | Inl e \<Rightarrow> st\<lparr> vt_fault := (if vt_fault st = None then Some e else vt_fault st) \<rparr>))"

section \<open>What goes on around the queue\<close>

text \<open>
  What the other threads may do to the synchroniser: anything but queueing or taking pictures and releasing
  a picture, which none of them holds; the samples they queue have a rate, and the clock they set exists.
\<close>

fun sync_allowed :: "(nat \<Rightarrow> image_object option) \<Rightarrow> 'k sync_action \<Rightarrow> bool" where
  "sync_allowed fs (Queue_Video f) = False"
| "sync_allowed fs (Settle latency) = True"
| "sync_allowed fs (Queue_Audio f) = (0 < fr_sample_rate f \<and> fr_sample_rate f < 2 ^ 31)"
| "sync_allowed fs (Take_Video now) = False"
| "sync_allowed fs Take_Audio = True"
| "sync_allowed fs (Release_Frame f) = (fs (fr_id f) = None)"
| "sync_allowed fs (Set_Clock p) = (p \<noteq> Null \<and> p \<noteq> Freed)"

fun video_path_do ::
    "('d, 'c, 'f) dec_env \<Rightarrow> (nat \<Rightarrow> bool) \<Rightarrow> 'k clock_ops \<Rightarrow> 'k path_action \<Rightarrow> ('d, 'c, 'f, 'k) video_path
     \<Rightarrow> ('d, 'c, 'f, 'k) video_path res" where
  "video_path_do env alloc ops (Media mf) st = video_on_media_frame env alloc mf st"
| "video_path_do env alloc ops (Sync a) st =
     (if \<not> sync_allowed (vt_frames st) a then Inr st
      else res_bind (sync_do ops a (vt_sync st)) (\<lambda>s. Inr (st\<lparr> vt_sync := s \<rparr>)))"

fun video_path_run ::
    "('d, 'c, 'f) dec_env \<Rightarrow> (nat \<Rightarrow> bool) \<Rightarrow> 'k clock_ops \<Rightarrow> 'k path_action list \<Rightarrow> ('d, 'c, 'f, 'k) video_path
     \<Rightarrow> ('d, 'c, 'f, 'k) video_path res" where
  "video_path_run env alloc ops [] st = Inr st"
| "video_path_run env alloc ops (a # as) st = res_bind (video_path_do env alloc ops a st) (video_path_run env alloc ops as)"

section \<open>What the codec library makes of the media frames\<close>

text \<open>
  The state of the library behind a built decoder, and the next picture it delivers, with its time stamp
  and the user data: libvpx is asked after a successful decode, libavcodec after every packet.
\<close>

datatype ('d, 'c, 'f) codec_state = Vp8_State 'd | Avc_State 'c 'f

type_synonym picture = "dec_image \<times> int \<times> int"

fun codec_next ::
    "('d, 'c, 'f) dec_env \<Rightarrow> media_frame \<Rightarrow> ('d, 'c, 'f) codec_state \<Rightarrow> ('d, 'c, 'f) codec_state \<times> picture option" where
  "codec_next env mf (Vp8_State d) =
     (let (d, err) = e8_decode (fst env) d (Some (mf_data mf)) (int (length (mf_data mf))) in
      if err then (Vp8_State d, None)
      else let (d, got) = e8_get_frame (fst env) d in
        (Vp8_State d, case got of Some (True, img) \<Rightarrow> Some (img, uint (mf_pts mf), mf_payload_type mf) | _ \<Rightarrow> None))"
| "codec_next env mf (Avc_State c f) =
     (let (c, rc) = ea_send_packet (snd env) c (Some (mf_data mf)) (int (length (mf_data mf))) (uint (mf_pts mf));
          (c, f, got) = ea_receive_frame (snd env) c f in
      (Avc_State c f, case got of Some (img, pts) \<Rightarrow> Some (img, pts, mf_payload_type mf) | None \<Rightarrow> None))"

fun codec_after :: "('d, 'c, 'f) dec_env \<Rightarrow> media_frame list \<Rightarrow> ('d, 'c, 'f) codec_state \<Rightarrow> ('d, 'c, 'f) codec_state" where
  "codec_after env [] cs = cs"
| "codec_after env (mf # mfs) cs = codec_after env mfs (fst (codec_next env mf cs))"

fun codec_pictures :: "('d, 'c, 'f) dec_env \<Rightarrow> media_frame list \<Rightarrow> ('d, 'c, 'f) codec_state \<Rightarrow> picture list" where
  "codec_pictures env [] cs = []"
| "codec_pictures env (mf # mfs) cs =
     (case snd (codec_next env mf cs) of None \<Rightarrow> [] | Some x \<Rightarrow> [x]) @ codec_pictures env mfs (fst (codec_next env mf cs))"

text \<open>
  What the code relies on: memory for the surfaces, and planes that hold the lines of their picture. The
  renderer needs even sizes.
\<close>

definition codec_documented :: "('d, 'c, 'f) dec_env \<Rightarrow> bool" where
  "codec_documented env \<longleftrightarrow> (\<forall>k. e8_alloc (fst env) k) \<and> (\<forall>k. ea_alloc (snd env) k)
     \<and> (\<forall>d d' img. e8_get_frame (fst env) d = (d', Some (True, img)) \<longrightarrow> image_ok img \<and> even_size img)
     \<and> (\<forall>c f c' f' img pts. ea_receive_frame (snd env) c f = (c', f', Some (img, pts)) \<longrightarrow> image_ok img \<and> even_size img)"

definition surface_for :: "picture \<Rightarrow> video_surface" where
  "surface_for x = (case x of (img, pts, opaque) \<Rightarrow> the (projr (video_dec_send_image True (\<lambda>_. True) img pts opaque)))"

lemma codec_after_append [simp]: "codec_after env (mfs @ [mf]) cs = fst (codec_next env mf (codec_after env mfs cs))"
  by (induction mfs arbitrary: cs) auto

lemma codec_pictures_snoc:
  "codec_pictures env (mfs @ [mf]) cs = codec_pictures env mfs cs
     @ (case snd (codec_next env mf (codec_after env mfs cs)) of None \<Rightarrow> [] | Some x \<Rightarrow> [x])"
  by (induction mfs arbitrary: cs) auto

definition picture_ok :: "picture \<Rightarrow> bool" where
  "picture_ok x \<longleftrightarrow> image_ok (fst x) \<and> even_size (fst x)"

lemma codec_documentedD:
  assumes "codec_documented env"
  shows "e8_get_frame (fst env) d = (d', Some (True, img)) \<Longrightarrow> image_ok img \<and> even_size img"
    and "ea_receive_frame (snd env) c f = (c', f', Some (img, pts)) \<Longrightarrow> image_ok img \<and> even_size img"
  using assms unfolding codec_documented_def by blast+

lemma codec_next_ok: "codec_documented env \<Longrightarrow> snd (codec_next env mf cs) = Some x \<Longrightarrow> picture_ok x"
  by (cases cs) (auto simp: picture_ok_def Let_def split: prod.splits option.splits if_splits bool.splits
      dest: codec_documentedD)

lemma codec_pictures_ok: "codec_documented env \<Longrightarrow> x \<in> set (codec_pictures env mfs cs) \<Longrightarrow> picture_ok x"
  by (induction mfs arbitrary: cs) (auto split: option.splits dest: codec_next_ok codec_next_ok [OF _ sym])

lemma surface_for_ok:
  assumes "picture_ok (img, pts, opaque)"
  shows "video_dec_send_image True (\<lambda>_. True) img pts opaque = Inr (Some (surface_for (img, pts, opaque)))"
    and "vs_pts (surface_for (img, pts, opaque)) = pts" "surface_of (surface_for (img, pts, opaque)) img"
    and "vs_planes (surface_for (img, pts, opaque)) 0 \<noteq> None"
    and "0 < sint (vs_width (surface_for (img, pts, opaque)) 0)" "0 < sint (vs_height (surface_for (img, pts, opaque)) 0)"
proof -
  have img: "image_ok img" "even_size img" using assms by (simp_all add: picture_ok_def)
  obtain s where s: "video_dec_send_image True (\<lambda>_. True) img pts opaque = Inr (Some s)" "vs_pts s = pts"
    using send_image_planes [OF img(1), of "\<lambda>_. True" pts opaque] by auto
  then have eq: "surface_for (img, pts, opaque) = s" by (simp add: surface_for_def)
  have so: "surface_of s img" using send_image_surface [OF img(1), of "\<lambda>_. True" pts opaque] s(1) by simp
  then show "video_dec_send_image True (\<lambda>_. True) img pts opaque = Inr (Some (surface_for (img, pts, opaque)))"
    "vs_pts (surface_for (img, pts, opaque)) = pts" "surface_of (surface_for (img, pts, opaque)) img" using s eq by simp_all
  have "\<exists>bs. tight_plane s img 0 bs" using so by (simp add: surface_of_def)
  then show "vs_planes (surface_for (img, pts, opaque)) 0 \<noteq> None" by (auto simp: eq tight_plane_def)
  show "0 < sint (vs_width (surface_for (img, pts, opaque)) 0)" "0 < sint (vs_height (surface_for (img, pts, opaque)) 0)"
    using so img(2) by (simp_all add: eq surface_of_def even_size_def sint_small)
qed

section \<open>The decoder\<close>

text \<open>A built decoder with the state of the library behind it.\<close>

fun decoder_holds :: "('d, 'c, 'f) video_decoder_obj \<Rightarrow> ('d, 'c, 'f) codec_state \<Rightarrow> bool" where
  "decoder_holds dec (Vp8_State d) = (\<exists>c vp8. vc_decoder dec = Some (Dec_VP8 c) \<and> vd_cb_out c \<and> vd_priv_ctx c = To vp8
     \<and> d8_decoder vp8 = Some d)"
| "decoder_holds dec (Avc_State c f) = (\<exists>x avc. vc_decoder dec = Some (Dec_AVC x) \<and> vd_cb_out x \<and> vd_priv_ctx x = To avc
     \<and> da_avcodec_ctx avc = Some c \<and> da_avframe avc = Some f)"

lemma decoder_holds_alive: "decoder_holds dec cs \<Longrightarrow> vc_decoder dec \<noteq> None"
  by (cases cs) auto

lemma video_decoder_decode_ok:
  assumes "decoder_holds dec cs" "codec_documented env"
  shows "\<exists>dec'. video_decoder_decode env mf dec = Inr (dec', map_option surface_for (snd (codec_next env mf cs)))
    \<and> decoder_holds dec' (fst (codec_next env mf cs)) \<and> vc_observer dec' = vc_observer dec"
proof -
  have alloc: "e8_alloc (fst env) = (\<lambda>_. True)" "ea_alloc (snd env) = (\<lambda>_. True)"
    using assms(2) by (auto simp: codec_documented_def)
  have send: "video_dec_send_image True (\<lambda>_. True) img pts opaque = Inr (Some (surface_for (img, pts, opaque)))"
    if "snd (codec_next env mf cs) = Some (img, pts, opaque)" for img pts opaque
    using surface_for_ok(1) codec_next_ok [OF assms(2) that] by blast
  show ?thesis
  proof (cases cs)
    case (Vp8_State d)
    obtain d1 err where d1: "e8_decode (fst env) d (Some (mf_data mf)) (int (length (mf_data mf))) = (d1, err)" by force
    obtain d2 got where d2: "e8_get_frame (fst env) d1 = (d2, got)" by force
    show ?thesis
      using assms(1) send Vp8_State d1 d2 alloc
      by (cases err; cases got)
        (auto simp: video_decoder_decode_def video_dec_decode_def vp8_dec_decode_def split: bool.splits)
  next
    case (Avc_State c f)
    obtain c1 rc where c1: "ea_send_packet (snd env) c (Some (mf_data mf)) (int (length (mf_data mf))) (uint (mf_pts mf)) = (c1, rc)"
      by force
    obtain c2 f2 got where c2: "ea_receive_frame (snd env) c1 f = (c2, f2, got)" using prod_cases3 by blast
    show ?thesis
      using assms(1) send Avc_State c1 c2 alloc
      by (cases got) (auto simp: video_decoder_decode_def video_dec_decode_def avc_dec_decode_def)
  qed
qed

section \<open>The references to the decoder\<close>

text \<open>\<open>n\<close> references besides those of the living pictures.\<close>

definition path_refs :: "nat \<Rightarrow> int \<Rightarrow> (nat \<Rightarrow> image_object option) \<Rightarrow> nat \<Rightarrow> objects \<Rightarrow> bool" where
  "path_refs d n fs nx h \<longleftrightarrow> finite (dom fs) \<and> 0 < n \<and> ob_refs h d = Some (n + int (card (dom fs)))
     \<and> (\<forall>i p. fs i = Some p \<longrightarrow> io_decoder p = d \<and> i < nx)"

lemma path_refs_add: "path_refs d n fs nx h \<Longrightarrow> \<exists>h'. obj_add_ref d h = Inr h' \<and> path_refs d (n + 1) fs nx h'"
  by (auto simp: path_refs_def obj_add_ref_def)

lemma path_refs_release:
  "path_refs d (n + 1) fs nx h \<Longrightarrow> 0 < n \<Longrightarrow> \<exists>h'. obj_release d h = Inr h' \<and> ob_refs h' d \<noteq> None \<and> path_refs d n fs nx h'"
  by (auto simp: path_refs_def obj_release_def)

lemma path_refs_next: "path_refs d n fs nx h \<Longrightarrow> fs nx = None"
  by (cases "fs nx") (auto simp: path_refs_def)

text \<open>A new picture takes over a reference, and a picture that goes leaves one.\<close>

lemma path_refs_frame:
  assumes "path_refs d (n + 1) fs nx h" "0 < n"
  shows "path_refs d n (fs(nx := Some \<lparr> io_surface = pic, io_decoder = d \<rparr>)) (nx + 1) h"
  using assms path_refs_next [OF assms(1)] by (auto simp: path_refs_def card_insert_if domIff less_Suc_eq split: if_splits)

lemma path_refs_unframe:
  assumes "path_refs d n fs nx h" "fs i = Some p"
  shows "path_refs d (n + 1) (fs(i := None)) nx h" "io_decoder p = d"
proof -
  have "int (card (dom fs)) = int (card (dom fs - {i})) + 1"
    using assms card_Suc_Diff1 [of "dom fs" i] by (simp add: path_refs_def domI flip: of_nat_Suc)
  then show "path_refs d (n + 1) (fs(i := None)) nx h" "io_decoder p = d"
    using assms by (auto simp: path_refs_def)
qed

lemma decoder_unref_ok:
  assumes "path_refs d (n + 1) (vt_frames st) (vt_next st) (vt_objects st)" "0 < n"
  shows "\<exists>h. decoder_unref d st = Inr (st\<lparr> vt_objects := h \<rparr>) \<and> path_refs d n (vt_frames st) (vt_next st) h"
  using path_refs_release [OF assms] by (auto simp: decoder_unref_def)

lemma image_frame_unref_ok:
  assumes "path_refs d n (vt_frames st) (vt_next st) (vt_objects st)" "decoder_holds (vt_decoder st) cs"
    and "vt_frames st i \<noteq> None"
  shows "\<exists>h. image_frame_unref i st = Inr (if as_refs (vt_sync st) i \<noteq> 0 then st
      else st\<lparr> vt_objects := h, vt_frames := (vt_frames st)(i := None) \<rparr>)
    \<and> (as_refs (vt_sync st) i = 0 \<longrightarrow> path_refs d n ((vt_frames st)(i := None)) (vt_next st) h)"
proof (cases "as_refs (vt_sync st) i = 0")
  case True
  obtain p where p: "vt_frames st i = Some p" using assms(3) by auto
  note q = path_refs_unframe [OF assms(1) p]
  have "0 < n" using assms(1) by (simp add: path_refs_def)
  then obtain h where "decoder_unref d (st\<lparr> vt_frames := (vt_frames st)(i := None) \<rparr>)
      = Inr (st\<lparr> vt_frames := (vt_frames st)(i := None), vt_objects := h \<rparr>)"
    "path_refs d n ((vt_frames st)(i := None)) (vt_next st) h"
    using decoder_unref_ok [of d n "st\<lparr> vt_frames := (vt_frames st)(i := None) \<rparr>"] q(1) by auto
  then show ?thesis
    using True p q(2) decoder_holds_alive [OF assms(2)]
    by (intro exI [of _ h]) (auto simp: image_frame_unref_def image_frame_delete_def)
qed (simp add: image_frame_unref_def)

section \<open>The synchroniser between the players\<close>

definition picture_queue_ok :: "(nat \<Rightarrow> image_object option) \<Rightarrow> 'k av_sync \<Rightarrow> bool" where
  "picture_queue_ok fs s \<longleftrightarrow> (\<forall>f\<in>set (as_video s). fs (fr_id f) \<noteq> None) \<and> (\<forall>i. fs i \<noteq> None \<longrightarrow> as_refs s i \<noteq> 0)"

definition queued_surfaces :: "(nat \<Rightarrow> image_object option) \<Rightarrow> 'k av_sync \<Rightarrow> video_surface list" where
  "queued_surfaces fs s = map (\<lambda>f. io_surface (the (fs (fr_id f)))) (as_video s)"

definition sync_calm :: "'k av_sync \<Rightarrow> bool" where
  "sync_calm s \<longleftrightarrow> (\<forall>f\<in>set (as_audio s). 0 < fr_sample_rate f \<and> fr_sample_rate f < 2 ^ 31)
     \<and> (case as_clock s of Internal t \<Rightarrow> True | External p \<Rightarrow> p \<noteq> Null \<and> p \<noteq> Freed)"

lemma rate_nonzero: "0 < v \<Longrightarrow> v < 2 ^ 31 \<Longrightarrow> (word_of_int v :: 32 word) \<noteq> 0"
  by (metis sint_small sint_0 less_le less_imp_le)

lemma audio_latency_calm: "sync_calm s \<Longrightarrow> no_fault (audio_latency_ms s)"
  using rate_nonzero by (cases "as_audio s") (auto simp: sync_calm_def audio_latency_ms_def Let_def)

lemma calm_clock:
  assumes "sync_calm s"
  shows "\<exists>k. sync_clock_restart ops now (as_clock s) = Inr k \<and> (\<exists>ms. sync_clock_ms ops now k = Inr ms)"
    and "\<exists>ms. sync_clock_ms ops now (as_clock s) = Inr ms"
  using assms by (auto simp: sync_calm_def sync_clock_restart_def sync_clock_ms_def deref_def split: sync_clock.splits ptr.splits)

lemma sync_video_frame_calm: "sync_calm s \<Longrightarrow> no_fault (sync_video_frame ops now s)"
  using calm_clock [of s ops now] by (auto simp: sync_video_frame_def Let_def no_fault_iff)

lemma sync_video_frame_keeps_calm:
  assumes "sync_calm s" "sync_video_frame ops now s = Inr (idle, fo, s')"
  shows "sync_calm s'"
proof -
  have "as_audio s' = as_audio s" using assms(2) by (cases rule: video_frame_cases) simp_all
  moreover have "\<exists>c. sync_clock_restart ops now (as_clock s) = Inr c \<and> (as_clock s' = c \<or> as_clock s' = as_clock s)
      \<or> as_clock s' = as_clock s"
    using assms(2) by (auto simp: sync_video_frame_def Let_def res_bind_Inr_iff split: if_splits)
  ultimately show ?thesis
    using assms(1) by (auto simp: sync_calm_def sync_clock_restart_def res_bind_Inr_iff split: sync_clock.splits)
qed

lemma sync_do_calm:
  assumes "sync_calm s" "sync_allowed fs a" "sync_do ops a s = Inr s'"
  shows "sync_calm s'" "as_video s' = as_video s" "fs i \<noteq> None \<Longrightarrow> as_refs s i \<le> as_refs s' i"
  using assms
  by (cases a; auto simp: sync_calm_def push_video_settle_def push_audio_def frame_add_ref_def sync_audio_frame_def
      release_frame_def frame_release_def set_clock_def Let_def split: if_splits dest: list.set_sel(2))+

lemma push_video_simps [simp]:
  "as_video (push_video f s) = as_video s @ [f]"
  "as_refs (push_video f s) = (as_refs s)(fr_id f := as_refs s (fr_id f) + 1)"
  "as_audio (push_video f s) = as_audio s" "as_clock (push_video f s) = as_clock s" "as_held (push_video f s) = as_held s"
  "as_video_duration (push_video f s) = as_video_duration s"
  by (simp_all add: push_video_def push_video_queue_def push_video_settle_def frame_add_ref_def Let_def)

lemma push_video_calm [simp]: "sync_calm (push_video f s) = sync_calm s"
  by (simp add: sync_calm_def)

lemma push_video_reach: "sync_reach ops s \<Longrightarrow> sync_reach ops (push_video f s)"
  by (simp add: push_video_def Let_def)
    (metis sync_do.simps(1,2) sync_reach.step)

lemma on_decoded_image_ok:
  assumes "sync_calm s" "pl_sync pl \<noteq> None" "0 < w" "0 < h"
  shows "\<exists>pl'. on_decoded_image w h f pl s = Inr (pl', push_video f s) \<and> pl_sync pl' = pl_sync pl
    \<and> pl_decoder pl' = pl_decoder pl"
  using assms audio_latency_calm [OF assms(1)]
  by (auto simp: on_decoded_image_def set_params_def no_fault_iff)

section \<open>The invariant\<close>

definition video_inv ::
    "('d, 'c, 'f) dec_env \<Rightarrow> 'k clock_ops \<Rightarrow> ('d, 'c, 'f) codec_state \<Rightarrow> ('d, 'c, 'f, 'k) video_path \<Rightarrow> bool" where
  "video_inv env ops cs st \<longleftrightarrow>
     sync_reach ops (vt_sync st) \<and> sync_calm (vt_sync st) \<and> vt_fault st = None
     \<and> vc_observer (vt_decoder st) \<and> decoder_holds (vt_decoder st) (codec_after env (vt_media st) cs)
     \<and> pl_sync (vt_player st) \<noteq> None
     \<and> (\<exists>d n. pl_decoder (vt_player st) = Some d \<and> path_refs d n (vt_frames st) (vt_next st) (vt_objects st))
     \<and> picture_queue_ok (vt_frames st) (vt_sync st)
     \<and> map snd (vt_taken st) @ queued_surfaces (vt_frames st) (vt_sync st) = map surface_for (codec_pictures env (vt_media st) cs)"

lemma sync_refs_nonneg: "sync_reach ops s \<Longrightarrow> 0 \<le> as_refs s i"
  using sync_reach_inv [of ops s] by (simp add: sync_refs_def)

text \<open>A picture joins the queue.\<close>

lemma picture_queue_push:
  assumes "picture_queue_ok fs s" "fs i = None" "0 \<le> as_refs s i" "f = image_av_frame i pic"
    and "fs' = fs(i := Some \<lparr> io_surface = pic, io_decoder = d \<rparr>)"
  shows "picture_queue_ok fs' (push_video f s)" "queued_surfaces fs' (push_video f s) = queued_surfaces fs s @ [pic]"
    "as_refs (push_video f s) i \<noteq> 0"
proof -
  have ids: "fr_id g \<noteq> i" if "g \<in> set (as_video s)" for g
    using assms(1,2) that by (auto simp: picture_queue_ok_def)
  have one: "as_refs s i + 1 \<noteq> 0" using assms(3) by linarith
  then show "as_refs (push_video f s) i \<noteq> 0" using assms(4) by (simp add: image_av_frame_def)
  show "picture_queue_ok fs' (push_video f s)"
    using assms(1,4,5) one by (auto simp: picture_queue_ok_def image_av_frame_def)
  show "queued_surfaces fs' (push_video f s) = queued_surfaces fs s @ [pic]"
    using ids assms(4,5) by (auto simp: queued_surfaces_def image_av_frame_def)
qed

lemma dec_image_deliver_ok:
  assumes "\<forall>k. alloc k" "picture_ok x" "path_refs d n (vt_frames st) (vt_next st) (vt_objects st)"
    and "sync_reach ops (vt_sync st)" "sync_calm (vt_sync st)" "vc_observer (vt_decoder st)" "pl_sync (vt_player st) \<noteq> None"
    and "picture_queue_ok (vt_frames st) (vt_sync st)"
  defines "i \<equiv> vt_next st"
  defines "s \<equiv> push_video (image_av_frame i (surface_for x)) (vt_sync st)"
    and "fs \<equiv> (vt_frames st)(i := Some \<lparr> io_surface = surface_for x, io_decoder = d \<rparr>)"
  shows "\<exists>pl h. dec_image_deliver alloc d (surface_for x) st
      = Inr (st\<lparr> vt_objects := h, vt_next := i + 1, vt_frames := fs, vt_player := pl, vt_sync := s \<rparr>)
    \<and> path_refs d n fs (i + 1) h \<and> pl_sync pl = pl_sync (vt_player st) \<and> pl_decoder pl = pl_decoder (vt_player st)
    \<and> picture_queue_ok fs s \<and> queued_surfaces fs s = queued_surfaces (vt_frames st) (vt_sync st) @ [surface_for x]"
proof -
  let ?pic = "surface_for x" and ?f = "image_av_frame i (surface_for x)"
  obtain img pts opaque where x: "x = (img, pts, opaque)" by (cases x)
  have pic: "vs_planes ?pic 0 \<noteq> None" "0 < sint (vs_width ?pic 0)" "0 < sint (vs_height ?pic 0)"
    using surface_for_ok(4-6) assms(2) by (auto simp: x)
  obtain h where h: "obj_add_ref d (vt_objects st) = Inr h" "path_refs d (n + 1) (vt_frames st) i h"
    using path_refs_add [OF assms(3)] by (auto simp: i_def)
  have n: "0 < n" using assms(3) by (simp add: path_refs_def)
  obtain pl where pl: "on_decoded_image (sint (vs_width ?pic 0)) (sint (vs_height ?pic 0)) ?f (vt_player st) (vt_sync st) = Inr (pl, s)"
    "pl_sync pl = pl_sync (vt_player st)" "pl_decoder pl = pl_decoder (vt_player st)"
    using on_decoded_image_ok [OF assms(5,7) pic(2,3)] unfolding s_def by blast
  have q: "picture_queue_ok fs s" "queued_surfaces fs s = queued_surfaces (vt_frames st) (vt_sync st) @ [?pic]" "as_refs s i \<noteq> 0"
    using picture_queue_push [where i = i and pic = ?pic and d = d, OF assms(8) _ sync_refs_nonneg [OF assms(4)] refl refl] path_refs_next [OF assms(3)]
    by (simp_all add: s_def fs_def i_def)
  have "dec_image_deliver alloc d ?pic st
      = Inr (st\<lparr> vt_objects := h, vt_next := i + 1, vt_frames := fs, vt_player := pl, vt_sync := s \<rparr>)"
    using assms(1,6) pic(1) h(1) pl(1) q(3)
    by (auto simp: dec_image_deliver_def av_frame_create_image_def video_on_decoder_output_def image_frame_unref_def
        i_def [symmetric] fs_def Let_def)
  then show ?thesis using path_refs_frame [OF h(2) n] pl(2,3) q(1,2) unfolding fs_def by blast
qed

lemma video_on_media_frame_ok:
  assumes "video_inv env ops cs st" "codec_documented env" "\<forall>k. alloc k"
  shows "\<exists>st'. video_on_media_frame env alloc mf st = Inr st' \<and> video_inv env ops cs st' \<and> vt_media st' = vt_media st @ [mf]
    \<and> vt_taken st' = vt_taken st \<and> (\<exists>fs. vt_sync st' = fold push_video fs (vt_sync st)
         \<and> map fr_pts fs = map (\<lambda>x. word_of_int (fst (snd x))) (case snd (codec_next env mf (codec_after env (vt_media st) cs)) of
              None \<Rightarrow> [] | Some x \<Rightarrow> [x]))"
proof -
  let ?cs = "codec_after env (vt_media st) cs"
  have inv: "sync_reach ops (vt_sync st)" "sync_calm (vt_sync st)" "vt_fault st = None" "vc_observer (vt_decoder st)"
    "decoder_holds (vt_decoder st) ?cs" "pl_sync (vt_player st) \<noteq> None" "picture_queue_ok (vt_frames st) (vt_sync st)"
    "map snd (vt_taken st) @ queued_surfaces (vt_frames st) (vt_sync st) = map surface_for (codec_pictures env (vt_media st) cs)"
    using assms(1) by (simp_all add: video_inv_def)
  obtain d n where d: "pl_decoder (vt_player st) = Some d" "path_refs d n (vt_frames st) (vt_next st) (vt_objects st)"
    using assms(1) by (auto simp: video_inv_def)
  have n: "0 < n" using d(2) by (simp add: path_refs_def)
  obtain h where h: "obj_add_ref d (vt_objects st) = Inr h" "path_refs d (n + 1) (vt_frames st) (vt_next st) h"
    using path_refs_add [OF d(2)] by blast
  define out where "out = snd (codec_next env mf ?cs)"
  obtain dec where dec: "video_decoder_decode env mf (vt_decoder st) = Inr (dec, map_option surface_for out)"
    "decoder_holds dec (fst (codec_next env mf ?cs))" "vc_observer dec"
    using video_decoder_decode_ok [OF inv(5) assms(2), of mf] inv(4) by (auto simp: out_def)
  let ?st = "st\<lparr> vt_objects := h, vt_decoder := dec, vt_media := vt_media st @ [mf] \<rparr>"
  have handler: "video_on_media_frame env alloc mf st
      = res_bind (case out of None \<Rightarrow> Inr ?st | Some x \<Rightarrow> dec_image_deliver alloc d (surface_for x) ?st) (decoder_unref d)"
    using d(1) h(1) dec(1) by (cases out) (simp_all add: video_on_media_frame_def Let_def)
  have pics: "codec_pictures env (vt_media st @ [mf]) cs = codec_pictures env (vt_media st) cs @ (case out of None \<Rightarrow> [] | Some x \<Rightarrow> [x])"
    by (simp add: codec_pictures_snoc out_def)
  show ?thesis
  proof (cases out)
    case None
    obtain h' where h': "decoder_unref d ?st = Inr (?st\<lparr> vt_objects := h' \<rparr>)" "path_refs d n (vt_frames st) (vt_next st) h'"
      using decoder_unref_ok [of d n ?st] h(2) n by auto
    have "video_on_media_frame env alloc mf st = Inr (?st\<lparr> vt_objects := h' \<rparr>)" using handler None h'(1) by simp
    moreover have "video_inv env ops cs (?st\<lparr> vt_objects := h' \<rparr>)"
      using inv dec(2,3) h'(2) d(1) pics None by (auto simp: video_inv_def)
    ultimately show ?thesis using None by (simp add: out_def)
  next
    case (Some x)
    have ok: "picture_ok x" using codec_next_ok [OF assms(2)] Some by (simp add: out_def)
    let ?i = "vt_next st"
    let ?f = "image_av_frame ?i (surface_for x)"
    let ?s = "push_video ?f (vt_sync st)" and ?fs = "(vt_frames st)(?i := Some \<lparr> io_surface = surface_for x, io_decoder = d \<rparr>)"
    obtain pl h1 where o: "dec_image_deliver alloc d (surface_for x) ?st
        = Inr (?st\<lparr> vt_objects := h1, vt_next := ?i + 1, vt_frames := ?fs, vt_player := pl, vt_sync := ?s \<rparr>)"
      "path_refs d (n + 1) ?fs (?i + 1) h1" "pl_sync pl = pl_sync (vt_player st)" "pl_decoder pl = pl_decoder (vt_player st)"
      "picture_queue_ok ?fs ?s" "queued_surfaces ?fs ?s = queued_surfaces (vt_frames st) (vt_sync st) @ [surface_for x]"
      using dec_image_deliver_ok [OF assms(3) ok, of d "n + 1" ?st ops] h(2) inv dec(3) by auto
    let ?st1 = "?st\<lparr> vt_objects := h1, vt_next := ?i + 1, vt_frames := ?fs, vt_player := pl, vt_sync := ?s \<rparr>"
    obtain h' where h': "decoder_unref d ?st1 = Inr (?st1\<lparr> vt_objects := h' \<rparr>)" "path_refs d n ?fs (?i + 1) h'"
      using decoder_unref_ok [of d n ?st1] o(2) n by auto
    have "video_on_media_frame env alloc mf st = Inr (?st1\<lparr> vt_objects := h' \<rparr>)" using handler Some h'(1) o(1) by simp
    moreover have "video_inv env ops cs (?st1\<lparr> vt_objects := h' \<rparr>)"
      using inv dec(2,3) h'(2) d(1) pics Some o push_video_reach [OF inv(1), of ?f] by (auto simp: video_inv_def)
    moreover have "fr_pts ?f = word_of_int (fst (snd x))"
      using surface_for_ok(2) ok by (cases x) (simp add: image_av_frame_def)
    ultimately show ?thesis
      using Some unfolding out_def [symmetric]
      by (intro exI [of _ "?st1\<lparr> vt_objects := h' \<rparr>"]) (auto intro: exI [of _ "[?f]"])
  qed
qed

text \<open>The other threads keep the invariant.\<close>

lemma video_path_do_inv:
  assumes "video_inv env ops cs st" "codec_documented env" "\<forall>k. alloc k" "video_path_do env alloc ops a st = Inr st'"
  shows "video_inv env ops cs st' \<and> vt_taken st' = vt_taken st \<and> vt_media st' = vt_media st @ media_of_actions [a]"
proof (cases a)
  case (Media mf)
  then show ?thesis using video_on_media_frame_ok [OF assms(1-3), of mf] assms(4) by (auto simp: media_of_actions_def)
next
  case (Sync b)
  show ?thesis
  proof (cases "sync_allowed (vt_frames st) b")
    case False
    then show ?thesis using Sync assms(1,4) by (simp add: media_of_actions_def)
  next
    case True
    then obtain s where s: "sync_do ops b (vt_sync st) = Inr s" "st' = st\<lparr> vt_sync := s \<rparr>"
      using Sync assms(4) by (auto simp: res_bind_Inr_iff)
    have r: "sync_reach ops (vt_sync st)" "sync_calm (vt_sync st)" using assms(1) by (simp_all add: video_inv_def)
    note calm = sync_do_calm [OF r(2) True s(1)]
    have refs: "as_refs s i \<noteq> 0" if "vt_frames st i \<noteq> None" for i
      using calm(3) [OF that] sync_refs_nonneg [OF r(1), of i] assms(1) that by (force simp: video_inv_def picture_queue_ok_def)
    have "sync_reach ops s" using r(1) s(1) by (rule sync_reach.step)
    moreover have "picture_queue_ok (vt_frames st) s" using assms(1) calm(2) refs by (simp add: video_inv_def picture_queue_ok_def)
    moreover have "queued_surfaces (vt_frames st) s = queued_surfaces (vt_frames st) (vt_sync st)"
      by (simp add: queued_surfaces_def calm(2))
    ultimately show ?thesis using assms(1) s(2) Sync calm(1) by (simp add: video_inv_def media_of_actions_def)
  qed
qed

lemma video_path_run_inv:
  assumes "video_inv env ops cs st" "codec_documented env" "\<forall>k. alloc k" "video_path_run env alloc ops as st = Inr st'"
  shows "video_inv env ops cs st' \<and> vt_taken st' = vt_taken st \<and> vt_media st' = vt_media st @ media_of_actions as"
  using assms(1,4)
proof (induction as arbitrary: st)
  case (Cons a as)
  obtain st1 where st1: "video_path_do env alloc ops a st = Inr st1" "video_path_run env alloc ops as st1 = Inr st'"
    using Cons.prems(2) by (auto simp: res_bind_Inr_iff)
  show ?case
    using video_path_do_inv [OF Cons.prems(1) assms(2,3) st1(1)] Cons.IH [OF _ st1(2)]
    by (simp add: media_of_actions_def)
qed (simp add: media_of_actions_def)

section \<open>The video thread\<close>

lemma path_video_frame_cases:
  assumes "video_inv env ops cs st"
  obtains (none) s where "path_video_frame ops now st = Inr (1, None, st\<lparr> vt_sync := s \<rparr>)"
      "sync_video_frame ops now (vt_sync st) = Inr (1, None, s)" "as_video s = as_video (vt_sync st)"
      "as_refs s = as_refs (vt_sync st)"
    | (some) f p s where "path_video_frame ops now st = Inr (0, Some (f, io_surface p), st\<lparr> vt_sync := s,
        vt_taken := vt_taken st @ [(f, io_surface p)] \<rparr>)"
      "sync_video_frame ops now (vt_sync st) = Inr (0, Some f, s)" "as_video (vt_sync st) = f # as_video s"
      "as_refs s = as_refs (vt_sync st)" "vt_frames st (fr_id f) = Some p"
proof -
  have calm: "sync_calm (vt_sync st)" "picture_queue_ok (vt_frames st) (vt_sync st)" using assms by (simp_all add: video_inv_def)
  obtain r fo s where s: "sync_video_frame ops now (vt_sync st) = Inr (r, fo, s)"
    using sync_video_frame_calm [OF calm(1), of ops now] by (auto simp: no_fault_iff)
  have "(r = 1 \<and> fo = None \<and> as_video s = as_video (vt_sync st) \<or> r = 0 \<and> (\<exists>f. fo = Some f \<and> as_video (vt_sync st) = f # as_video s))
      \<and> as_refs s = as_refs (vt_sync st)"
    using s by (cases rule: video_frame_cases) auto
  then consider "r = 1" "fo = None" "as_video s = as_video (vt_sync st)" "as_refs s = as_refs (vt_sync st)"
    | f where "r = 0" "fo = Some f" "as_video (vt_sync st) = f # as_video s" "as_refs s = as_refs (vt_sync st)" by blast
  then show thesis
  proof cases
    case 1
    then show thesis using none s by (simp add: path_video_frame_def)
  next
    case (2 f)
    then obtain p where p: "vt_frames st (fr_id f) = Some p" using calm(2) by (fastforce simp: picture_queue_ok_def)
    then show thesis using 2 some s by (simp add: path_video_frame_def)
  qed
qed

lemma release_frame_simps:
  "as_video (release_frame (Some f) s) = as_video s" "as_audio (release_frame (Some f) s) = as_audio s"
  "as_clock (release_frame (Some f) s) = as_clock s" "as_buffering (release_frame (Some f) s) = as_buffering s"
  "as_video_duration (release_frame (Some f) s) = as_video_duration s" "as_played (release_frame (Some f) s) = as_played s"
  "as_refs (release_frame (Some f) s) = (as_refs s)(fr_id f := as_refs s (fr_id f) - 1)"
  by (simp_all add: release_frame_def frame_release_def)

text \<open>A frame that nobody refers to is not in the queue.\<close>

lemma unreferenced_not_queued:
  assumes "sync_reach ops s" "as_refs s i = 0" "f \<in> set (as_video s)"
  shows "fr_id f \<noteq> i"
proof
  assume "fr_id f = i"
  then have "0 < count_list (map fr_id (as_video s @ as_audio s @ as_held s)) i"
    using assms(3) by (auto simp: count_list_0_iff simp flip: neq0_conv)
  then show False using sync_reach_inv [OF assms(1)] assms(2) by (simp add: sync_refs_def)
qed

lemma path_video_release_some:
  assumes "video_inv env ops cs st" "as_video (vt_sync st) = f # fs" "vt_frames st (fr_id f) = Some p"
    and "sync_reach ops s" "sync_calm s" "as_video s = fs"
    and "as_refs s = (as_refs (vt_sync st))(fr_id f := as_refs (vt_sync st) (fr_id f) - 1)"
    and "st1 = st\<lparr> vt_taken := vt_taken st @ [(f, io_surface p)], vt_sync := s \<rparr>"
  shows "\<exists>st'. image_frame_unref (fr_id f) st1 = Inr st' \<and> video_inv env ops cs st' \<and> vt_media st' = vt_media st \<and> vt_sync st' = s"
proof -
  let ?id = "fr_id f"
  obtain d n where d: "pl_decoder (vt_player st) = Some d" "path_refs d n (vt_frames st) (vt_next st) (vt_objects st)"
    using assms(1) by (auto simp: video_inv_def)
  have inv: "decoder_holds (vt_decoder st) (codec_after env (vt_media st) cs)" "picture_queue_ok (vt_frames st) (vt_sync st)"
    "map snd (vt_taken st) @ queued_surfaces (vt_frames st) (vt_sync st) = map surface_for (codec_pictures env (vt_media st) cs)"
    using assms(1) by (simp_all add: video_inv_def)
  have "path_refs d n (vt_frames st1) (vt_next st1) (vt_objects st1)" "decoder_holds (vt_decoder st1) (codec_after env (vt_media st) cs)"
    "vt_frames st1 ?id \<noteq> None" using d(2) inv(1) assms(3,8) by simp_all
  from image_frame_unref_ok [OF this]
  obtain h where "image_frame_unref ?id st1 = Inr (if as_refs (vt_sync st1) ?id \<noteq> 0 then st1
      else st1\<lparr> vt_objects := h, vt_frames := (vt_frames st1)(?id := None) \<rparr>)"
    "as_refs (vt_sync st1) ?id = 0 \<longrightarrow> path_refs d n ((vt_frames st1)(?id := None)) (vt_next st1) h" by blast
  moreover have "vt_sync st1 = s" "vt_frames st1 = vt_frames st" "vt_next st1 = vt_next st" by (simp_all add: assms(8))
  ultimately have h: "image_frame_unref ?id st1 = Inr (if as_refs s ?id \<noteq> 0 then st1
      else st1\<lparr> vt_objects := h, vt_frames := (vt_frames st)(?id := None) \<rparr>)"
    "as_refs s ?id = 0 \<longrightarrow> path_refs d n ((vt_frames st)(?id := None)) (vt_next st) h" by simp_all
  have taken: "map snd (vt_taken st1) @ queued_surfaces (vt_frames st) s = map surface_for (codec_pictures env (vt_media st) cs)"
    using inv(3) assms(2,3,6,8) by (simp add: queued_surfaces_def)
  show ?thesis
  proof (cases "as_refs s ?id = 0")
    case False
    then have "picture_queue_ok (vt_frames st) s"
      using inv(2) assms(2,6,7) by (auto simp: picture_queue_ok_def)
    then have "video_inv env ops cs st1" using assms(1,4,5,8) taken by (simp add: video_inv_def)
    then show ?thesis using h(1) False assms(8) by simp
  next
    case True
    have ids: "fr_id g \<noteq> ?id" if "g \<in> set fs" for g using unreferenced_not_queued [OF assms(4) True] that assms(6) by simp
    have "picture_queue_ok ((vt_frames st)(?id := None)) s"
      using inv(2) assms(2,6,7) ids by (auto simp: picture_queue_ok_def)
    moreover have "queued_surfaces ((vt_frames st)(?id := None)) s = queued_surfaces (vt_frames st) s"
      using ids assms(6) by (simp add: queued_surfaces_def)
    ultimately have "video_inv env ops cs (st1\<lparr> vt_objects := h, vt_frames := (vt_frames st)(?id := None) \<rparr>)"
      using assms(1,4,5,8) taken h(2) True d(1) by (auto simp: video_inv_def)
    then show ?thesis using h(1) True assms(8) by simp
  qed
qed

lemma path_video_release_eq:
  "image_frame_unref (fr_id f) (st\<lparr> vt_sync := release_frame (Some f) (vt_sync st) \<rparr>) = Inr st2
   \<Longrightarrow> path_video_release (Some (f, x)) st = st2"
  by (simp add: path_video_release_def)

lemma video_turn:
  assumes "video_inv env ops cs st" "path_video_frame ops now st = Inr (idle, fo, st')"
  shows "video_inv env ops cs (path_video_release fo st') \<and> vt_media (path_video_release fo st') = vt_media st
    \<and> (\<exists>s. sync_video_frame ops now (vt_sync st) = Inr (idle, map_option fst fo, s)
         \<and> vt_sync (path_video_release fo st') = release_frame (map_option fst fo) s)"
  using assms(1)
proof (cases rule: path_video_frame_cases [where now = now])
  case (none s)
  have inv: "sync_reach ops (vt_sync st)" "sync_calm (vt_sync st)" using assms(1) by (simp_all add: video_inv_def)
  have "sync_reach ops s" using video_turn_reach [OF inv(1) none(2)] by (simp add: release_frame_def)
  moreover have "sync_calm s" by (rule sync_video_frame_keeps_calm [OF inv(2) none(2)])
  ultimately have "video_inv env ops cs (st\<lparr> vt_sync := s \<rparr>)"
    using assms(1) none(3,4) by (simp add: video_inv_def picture_queue_ok_def queued_surfaces_def)
  moreover have "fo = None" "idle = 1" "st' = st\<lparr> vt_sync := s \<rparr>" using assms(2) none(1) by simp_all
  ultimately show ?thesis using none(2) by (simp add: path_video_release_def release_frame_def)
next
  case (some f p s)
  have inv: "sync_reach ops (vt_sync st)" "sync_calm (vt_sync st)" using assms(1) by (simp_all add: video_inv_def)
  let ?s = "release_frame (Some f) s"
  let ?st1 = "st\<lparr> vt_taken := vt_taken st @ [(f, io_surface p)], vt_sync := ?s \<rparr>"
  have reach: "sync_reach ops ?s" by (rule video_turn_reach [OF inv(1) some(2)])
  have calm: "sync_calm ?s"
    using sync_video_frame_keeps_calm [OF inv(2) some(2)] by (simp add: sync_calm_def release_frame_simps)
  obtain st2 where st2: "image_frame_unref (fr_id f) ?st1 = Inr st2" "video_inv env ops cs st2" "vt_media st2 = vt_media st"
    "vt_sync st2 = ?s"
    using path_video_release_some [OF assms(1) some(3,5) reach calm _ _ refl] some(4) by (auto simp: release_frame_simps)
  have st': "fo = Some (f, io_surface p)" "st' = st\<lparr> vt_sync := s, vt_taken := vt_taken st @ [(f, io_surface p)] \<rparr>" "idle = 0"
    using assms(2) some(1) by simp_all
  have "st'\<lparr> vt_sync := release_frame (Some f) (vt_sync st') \<rparr> = ?st1" by (simp add: st'(2))
  then have "path_video_release fo st' = st2"
    unfolding st'(1) by (intro path_video_release_eq) (simp add: st2(1))
  then show ?thesis using st2 some(2) st'(1,3) by simp
qed

lemma image_frame_unref_taken: "image_frame_unref i st = Inr st' \<Longrightarrow> vt_taken st' = vt_taken st"
  by (auto simp: image_frame_unref_def image_frame_delete_def decoder_unref_def res_bind_Inr_iff split: if_splits option.splits)

lemma video_path_taken:
  "path_video_frame ops now st = Inr (idle, fo, st') \<Longrightarrow> vt_taken st' = vt_taken st @ (case fo of None \<Rightarrow> [] | Some f \<Rightarrow> [f])"
  "vt_taken (path_video_release fo st) = vt_taken st" "path_video_release None st = st"
proof -
  show "vt_taken st' = vt_taken st @ (case fo of None \<Rightarrow> [] | Some f \<Rightarrow> [f])" if "path_video_frame ops now st = Inr (idle, fo, st')"
  proof -
    note got = that
    obtain r g s where "sync_video_frame ops now (vt_sync st) = Inr (r, g, s)"
      using got by (cases "sync_video_frame ops now (vt_sync st)") (auto simp: path_video_frame_def)
    then show ?thesis
      using got by (cases g; cases "vt_frames st (fr_id (the g))") (auto simp: path_video_frame_def)
  qed
  show "vt_taken (path_video_release fo st) = vt_taken st"
    by (fastforce simp: path_video_release_def Let_def dest: image_frame_unref_taken split: option.splits prod.splits sum.splits)
  show "path_video_release None st = st" by (simp add: path_video_release_def)
qed

interpretation picture_source: av_source "path_video_frame ops" path_video_release vt_taken "video_inv env ops cs" for env ops cs
  by unfold_locales (simp_all add: video_path_taken video_turn)

text \<open>The other threads during a turn: any run of their actions.\<close>

definition video_others ::
    "('d, 'c, 'f) dec_env \<Rightarrow> (nat \<Rightarrow> bool) \<Rightarrow> 'k clock_ops \<Rightarrow> ('d, 'c, 'f) codec_state \<Rightarrow> ('d, 'c, 'f, 'k) video_path poll_env \<Rightarrow> bool" where
  "video_others env alloc ops cs e \<longleftrightarrow>
     (\<forall>st. video_inv env ops cs st \<longrightarrow> (\<exists>as. video_path_run env alloc ops as st = Inr (pe_others e st)))"

text \<open>A draw shows a picture.\<close>

definition draws :: "bool \<times> (nat \<Rightarrow> byte list list) \<Rightarrow> picture \<Rightarrow> bool" where
  "draws d x \<longleftrightarrow> fst d \<and> shows_image (snd d) (fst x)"

lemma draw_picture:
  assumes "gl_documented up" "gl_works genv" "picture_ok x" "vo_ready r"
  shows "\<exists>r' d. video_out_on_frame up genv (surface_for x) r = Inr r' \<and> vo_ready r' \<and> vo_drawn r' = vo_drawn r @ [d] \<and> draws d x"
proof -
  obtain img pts opaque where x: "x = (img, pts, opaque)" by (cases x)
  have "image_ok img" "even_size img" using assms(3) by (simp_all add: x picture_ok_def)
  from video_out_image [OF assms(1,2) this assms(4) surface_for_ok(1) [OF assms(3) [unfolded x]]]
  show ?thesis by (fastforce simp: x draws_def)
qed

lemma play_draws:
  assumes "gl_documented up" "gl_works genv" "map snd fs = map surface_for xs" "\<forall>x\<in>set xs. picture_ok x" "vo_ready r"
    and "play (\<lambda>fp. video_out_on_frame up genv (snd fp)) fs r = Inr r'"
  shows "\<exists>ds. vo_drawn r' = vo_drawn r @ ds \<and> list_all2 draws ds xs"
  using assms(3-)
proof (induction xs arbitrary: fs r)
  case (Cons x xs)
  obtain f gs where f: "fs = f # gs" "snd f = surface_for x" "map snd gs = map surface_for xs"
    using Cons.prems(1) by (cases fs) auto
  obtain r1 d where r1: "video_out_on_frame up genv (surface_for x) r = Inr r1" "vo_ready r1" "vo_drawn r1 = vo_drawn r @ [d]" "draws d x"
    using draw_picture [OF assms(1,2) _ Cons.prems(3)] Cons.prems(2) by fastforce
  have "play (\<lambda>fp. video_out_on_frame up genv (snd fp)) gs r1 = Inr r'" using Cons.prems(4) f(1,2) r1(1) by simp
  then obtain ds where "vo_drawn r' = vo_drawn r1 @ ds" "list_all2 draws ds xs"
    using Cons.IH [OF f(3) _ r1(2)] Cons.prems(2) by auto
  then show ?case using r1(3,4) by (intro exI [of _ "d # ds"]) simp
qed simp

text \<open>Any number of turns of the video thread: nothing faults, and what was taken is drawn.\<close>

lemma taken_pictures:
  assumes "video_inv env ops cs st"
  obtains xs ys where "codec_pictures env (vt_media st) cs = xs @ ys" "map snd (vt_taken st) = map surface_for xs"
    "queued_surfaces (vt_frames st) (vt_sync st) = map surface_for ys"
  using assms that by (auto simp: video_inv_def append_eq_map_conv eq_commute [of "map snd _ @ _"])

lemma path_video_frame_good:
  assumes "codec_documented env" "video_inv env ops cs st" "path_video_frame ops now st = Inr (idle, Some fp, st')"
  shows "\<exists>x. snd fp = surface_for x \<and> picture_ok x"
  using assms(2)
proof (cases rule: path_video_frame_cases [where now = now])
  case (none s)
  then show ?thesis using assms(3) by simp
next
  case (some f p s)
  obtain xs ys where x: "codec_pictures env (vt_media st) cs = xs @ ys" "queued_surfaces (vt_frames st) (vt_sync st) = map surface_for ys"
    using taken_pictures [OF assms(2)] by metis
  have "io_surface p \<in> set (queued_surfaces (vt_frames st) (vt_sync st))"
    using some(3,5) by (simp add: queued_surfaces_def)
  then obtain y where y: "y \<in> set (codec_pictures env (vt_media st) cs)" "io_surface p = surface_for y" using x by auto
  have "snd fp = io_surface p" using assms(3) some(1) by auto
  then show ?thesis using codec_pictures_ok [OF assms(1) y(1)] y(2) by metis
qed

lemma video_path_polls:
  assumes "video_inv env ops cs st" "vt_taken st = []" "codec_documented env" "\<forall>k. alloc k" "gl_documented up" "gl_works genv"
    and "\<forall>e\<in>set es. video_others env alloc ops cs e"
  shows "\<exists>st' r. svc_polls (path_video_frame ops) path_video_release (\<lambda>fp. video_out_on_frame up genv (snd fp)) es st
      (video_out_new True jd js jc) = Inr (st', r)
    \<and> video_inv env ops cs st'
    \<and> (\<exists>xs ys. codec_pictures env (vt_media st') cs = xs @ ys \<and> list_all2 draws (vo_drawn r) xs
         \<and> map snd (vt_taken st') = map surface_for xs \<and> queued_surfaces (vt_frames st') (vt_sync st') = map surface_for ys)"
proof -
  let ?f = "\<lambda>fp. video_out_on_frame up genv (snd fp)" and ?r = "video_out_new True jd js jc"
  have p: "\<forall>e\<in>set es. picture_source.polite env ops cs e"
    using assms(3,4,7) video_path_run_inv unfolding video_others_def picture_source.polite_def by metis
  have start: "vo_ready ?r" "vo_drawn ?r = []" by (simp_all add: video_out_new_def vo_ready_def)
  have "no_fault (path_video_frame ops now w)" if "video_inv env ops cs w" for now w
    using that by (cases rule: path_video_frame_cases [where now = now]) simp_all
  moreover have "\<exists>r'. ?f fp r = Inr r' \<and> vo_ready r'" if "\<exists>x. snd fp = surface_for x \<and> picture_ok x" "vo_ready r" for fp r
    using draw_picture [OF assms(5,6) _ that(2)] that(1) by metis
  ultimately have "no_fault (svc_polls (path_video_frame ops) path_video_release ?f es st ?r)"
    using picture_source.polls_no_fault [of env ops cs "\<lambda>fp. \<exists>x. snd fp = surface_for x \<and> picture_ok x" vo_ready ?f st ?r es]
      path_video_frame_good [OF assms(3)] assms(1) start(1) p by blast
  then obtain st' r where sr: "svc_polls (path_video_frame ops) path_video_release ?f es st ?r = Inr (st', r)"
    by (auto simp: no_fault_iff)
  then have fs: "video_inv env ops cs st'" "play ?f (vt_taken st') ?r = Inr r"
    using picture_source.polls_play [OF sr assms(1) p] assms(2) by auto
  obtain xs ys where xs: "codec_pictures env (vt_media st') cs = xs @ ys" "map snd (vt_taken st') = map surface_for xs"
    "queued_surfaces (vt_frames st') (vt_sync st') = map surface_for ys" using taken_pictures [OF fs(1)] by metis
  have "\<forall>x\<in>set xs. picture_ok x" using codec_pictures_ok [OF assms(3)] xs(1) by (metis UnCI set_append)
  then have "list_all2 draws (vo_drawn r) xs" using play_draws [OF assms(5,6) xs(2) _ start(1) fs(2)] start(2) by auto
  then show ?thesis using sr fs(1) xs by blast
qed

section \<open>From a built decoder\<close>

definition video_path_new ::
    "player \<Rightarrow> objects \<Rightarrow> ('d, 'c, 'f) video_decoder_obj \<Rightarrow> heap \<Rightarrow> int \<Rightarrow> ('d, 'c, 'f, 'k) video_path" where
  "video_path_new pl h dec hp now =
     \<lparr> vt_player = pl, vt_objects = h, vt_decoder = dec, vt_sync = av_sync_new now, vt_next = 0, vt_frames = (\<lambda>_. None),
       vt_heap = hp, vt_fault = None, vt_media = [], vt_taken = [] \<rparr>"

text \<open>When a decoder opens, and the state of the library it starts from.\<close>

fun codec_opens ::
    "malloc_fn \<Rightarrow> heap \<Rightarrow> ('d, 'c, 'f) dec_env \<Rightarrow> VIDEO_CODEC_TYPE \<Rightarrow> ('d, 'c, 'f) codec_state \<Rightarrow> bool" where
  "codec_opens malloc hp env codec (Vp8_State d) \<longleftrightarrow> codec = CODEC_TYPE_VP8 \<and> e8_init (fst env) 2 = Some d
     \<and> fst (vpx_malloc malloc sizeof_vp8_dec_context hp) \<noteq> None"
| "codec_opens malloc hp env codec (Avc_State c f) \<longleftrightarrow> codec = CODEC_TYPE_AVC \<and> ea_find (snd env) \<and> ea_frame_alloc (snd env) = Some f
     \<and> (\<exists>c0 rc. ea_alloc_context (snd env) = Some c0 \<and> ea_open (snd env) c0 = (c, rc) \<and> 0 \<le> rc)"

lemma video_decoder_build_ok:
  assumes "codec_opens malloc hp0 env codec cs"
  shows "\<exists>dec hp. video_decoder_build malloc True True env codec True video_decoder_obj_new hp0 = Inr (True, dec, hp)
    \<and> decoder_holds dec cs \<and> vc_observer dec"
proof (cases cs)
  case (Vp8_State d)
  then obtain x hp where "vpx_malloc malloc sizeof_vp8_dec_context hp0 = (Some x, hp)" "codec = CODEC_TYPE_VP8" "e8_init (fst env) 2 = Some d"
    using assms by (cases "vpx_malloc malloc sizeof_vp8_dec_context hp0") auto
  then show ?thesis
    using Vp8_State by (simp add: video_decoder_build_def create_video_decoder_def vp8_dec_create_def video_dec_init_def
        vp8_dec_init_def video_dec_set_cb_output_def video_decoder_obj_new_def Let_def)
next
  case (Avc_State c f)
  then show ?thesis
    using assms by (auto simp: video_decoder_build_def create_video_decoder_def avc_dec_create_def video_dec_init_def
        avc_dec_init_def video_dec_set_cb_output_def video_decoder_obj_new_def Let_def)
qed

lemma video_inv_new:
  assumes "decoder_holds dec cs" "vc_observer dec" "player_ok pl h"
  shows "video_inv env ops cs (video_path_new pl h dec hp now)"
  using assms sync_reach.new [of ops now]
  by (auto simp: video_inv_def video_path_new_def player_ok_def path_refs_def picture_queue_ok_def queued_surfaces_def
      sync_calm_def av_sync_new_def)


section \<open>Drawn in time\<close>

definition picture_ts :: "picture \<Rightarrow> 32 word" where
  "picture_ts x = word_of_int (fst (snd x))"

lemma push_video_stays [simp]:
  "as_played (push_video f s) = as_played s" "as_video s \<noteq> [] \<Longrightarrow> \<not> as_buffering s \<Longrightarrow> \<not> as_buffering (push_video f s)"
  by (simp_all add: push_video_def push_video_queue_def push_video_settle_def frame_add_ref_def Let_def)

text \<open>A player that only receives is buffering until its pictures span a second.\<close>

lemma pushed_only:
  fixes now :: int
  defines "s fs \<equiv> fold push_video fs (av_sync_new now :: 'k av_sync)"
  shows "as_video (s fs) = fs" "as_audio (s fs) = []" "as_held (s fs) = []" "as_video_duration (s fs) = 0"
    "as_clock (s fs) = Internal (timer_start_clock now 0 av_timer_new)"
    "as_buffering (s fs) \<longleftrightarrow> fs \<noteq> [] \<and> (\<forall>f\<in>set fs. fr_pts f - fr_pts (hd fs) < of_nat RTP_VIDEO_CLOCK)"
proof -
  show v: "as_video (s fs) = fs" for fs by (induction fs rule: rev_induct) (simp_all add: s_def av_sync_new_def)
  show "as_audio (s fs) = []" "as_held (s fs) = []" "as_video_duration (s fs) = 0"
    "as_clock (s fs) = Internal (timer_start_clock now 0 av_timer_new)"
    by (induction fs rule: rev_induct) (simp_all add: s_def av_sync_new_def)
  show "as_buffering (s fs) \<longleftrightarrow> fs \<noteq> [] \<and> (\<forall>f\<in>set fs. fr_pts f - fr_pts (hd fs) < of_nat RTP_VIDEO_CLOCK)"
  proof (induction fs rule: rev_induct)
    case Nil
    then show ?case by (simp add: s_def av_sync_new_def)
  next
    case (snoc f fs)
    have step: "s (fs @ [f]) = push_video f (s fs)" by (simp add: s_def)
    show ?case
    proof (cases "fs = [] \<or> as_buffering (s fs)")
      case True
      then have "as_buffering (s (fs @ [f])) \<longleftrightarrow> fs = [] \<or> fr_pts f - fr_pts (hd fs) < of_nat RTP_VIDEO_CLOCK"
        using push_video_buffering [of "s fs" f] v [of fs] unfolding step by simp
      then show ?thesis using True snoc by (cases fs) (auto simp: RTP_VIDEO_CLOCK_def)
    next
      case False
      then show ?thesis using snoc v [of fs] unfolding step by (cases fs) auto
    qed
  qed
qed

lemma video_media_run_ok:
  assumes "video_inv env ops cs st" "codec_documented env" "\<forall>k. alloc k"
  shows "\<exists>st' fs. video_path_run env alloc ops (map Media mfs) st = Inr st' \<and> video_inv env ops cs st'
    \<and> vt_media st' = vt_media st @ mfs \<and> vt_taken st' = vt_taken st \<and> vt_sync st' = fold push_video fs (vt_sync st)
    \<and> map fr_pts fs = map picture_ts (codec_pictures env mfs (codec_after env (vt_media st) cs))"
  using assms(1)
proof (induction mfs arbitrary: st)
  case Nil
  then show ?case by simp
next
  case (Cons mf mfs)
  obtain st1 fs1 where st1: "video_on_media_frame env alloc mf st = Inr st1" "video_inv env ops cs st1"
    "vt_media st1 = vt_media st @ [mf]" "vt_taken st1 = vt_taken st" "vt_sync st1 = fold push_video fs1 (vt_sync st)"
    "map fr_pts fs1 = map (\<lambda>x. word_of_int (fst (snd x)))
      (case snd (codec_next env mf (codec_after env (vt_media st) cs)) of None \<Rightarrow> [] | Some x \<Rightarrow> [x])"
    using video_on_media_frame_ok [OF Cons.prems assms(2,3), of mf] by blast
  obtain st' fs where "video_path_run env alloc ops (map Media mfs) st1 = Inr st'" "video_inv env ops cs st'"
    "vt_media st' = vt_media st1 @ mfs" "vt_taken st' = vt_taken st1" "vt_sync st' = fold push_video fs (vt_sync st1)"
    "map fr_pts fs = map picture_ts (codec_pictures env mfs (codec_after env (vt_media st1) cs))"
    using Cons.IH [OF st1(2)] by blast
  then show ?case
    using st1 by (intro exI [of _ st'] exI [of _ "fs1 @ fs"]) (auto simp: picture_ts_def)
qed

text \<open>The schedule after the first \<open>i\<close> pictures, anchored at \<open>t0\<close>.\<close>

definition on_schedule :: "32 word list \<Rightarrow> int \<Rightarrow> nat \<Rightarrow> 'k av_sync \<Rightarrow> bool" where
  "on_schedule ts t0 i s \<longleftrightarrow> map fr_pts (as_video s) = drop i ts \<and> as_played s = take i ts \<and> \<not> as_buffering s
     \<and> as_audio s = [] \<and> as_held s = [] \<and> as_video_duration s \<noteq> 0
     \<and> (\<exists>t. as_clock s = Internal t \<and> \<not> at_stopped t \<and> at_start_time t = t0)"

lemma schedule_first:
  assumes "as_video s \<noteq> []" "\<not> as_buffering s" "as_video_duration s = 0" "as_audio s = []" "as_held s = []" "as_clock s = Internal t"
  shows "\<exists>s'. sync_video_frame ops now s = Inr (1, None, s') \<and> on_schedule (map fr_pts (as_video s)) now 0 s'"
  using assms
  by (simp add: sync_video_frame_def sync_clock_restart_def sync_clock_ms_def timer_clock_ms_def timer_start_clock_def
      timer_stop_clock_def gap_ms_def on_schedule_def Let_def)

lemma schedule_turn:
  assumes "sync_reach ops s" "on_schedule ts t0 i s" "i < length ts" "0 \<le> now - t0" "now - t0 < 2 ^ 31"
    and "sync_due (take (Suc i) ts) \<noteq> 0" "sync_due (take (Suc i) ts) \<le> word_of_int (now - t0)"
  shows "\<exists>f s'. sync_video_frame ops now s = Inr (0, Some f, s') \<and> on_schedule ts t0 (Suc i) (release_frame (Some f) s')"
proof -
  obtain t where s: "map fr_pts (as_video s) = drop i ts" "as_played s = take i ts" "\<not> as_buffering s" "as_audio s = []" "as_held s = []"
    "as_video_duration s \<noteq> 0" "as_clock s = Internal t" "\<not> at_stopped t" "at_start_time t = t0"
    using assms(2) by (auto simp: on_schedule_def)
  obtain f fs where f: "as_video s = f # fs" using s(1) assms(3) by (cases "as_video s") auto
  then have pts: "fr_pts f = ts ! i" "map fr_pts fs = drop (Suc i) ts"
    using s(1) assms(3) by (simp_all add: Cons_nth_drop_Suc [symmetric])
  have due: "as_played s @ [fr_pts f] = take (Suc i) ts" by (simp add: s(2) pts(1) assms(3) take_Suc_conv_app_nth)
  have "sync_sched s" using sync_reach_inv [OF assms(1)] by simp
  then have dur: "as_video_duration s + gap_ms (as_last_video_ts s) (fr_pts f) = sync_due (take (Suc i) ts)"
    unfolding due [symmetric] using f s(6) by (auto simp: sync_sched_def sync_due_append gap_ms_def split: if_splits)
  have ms: "sync_clock_ms ops now (as_clock s) = Inr (now - t0)"
    using s(7-9) assms(4,5) by (simp add: sync_clock_ms_def timer_clock_ms_def)
  show ?thesis
    using s f pts dur ms assms(6,7) due
    by (simp add: sync_video_frame_def Let_def on_schedule_def release_frame_simps) (simp add: release_frame_def frame_release_def)
qed

lemma schedule_over: "on_schedule ts t0 i s \<Longrightarrow> length ts \<le> i \<Longrightarrow> sync_video_frame ops now s = Inr (1, None, s)"
  by (simp add: on_schedule_def sync_video_frame_def)

lemma schedule_skip: "length ts \<le> i \<Longrightarrow> on_schedule ts t0 (Suc i) s \<longleftrightarrow> on_schedule ts t0 i s"
  by (simp add: on_schedule_def)

text \<open>The turns come in time: the \<open>i\<close>-th picture is due when the turn after the anchor's \<open>i\<close>-th looks.\<close>

definition polls_in_time :: "32 word list \<Rightarrow> (nat \<Rightarrow> int) \<Rightarrow> bool" where
  "polls_in_time ts now \<longleftrightarrow> (\<forall>i<length ts. 0 \<le> now (Suc i) - now 0 \<and> now (Suc i) - now 0 < 2 ^ 31
     \<and> sync_due (take (Suc i) ts) \<noteq> 0 \<and> sync_due (take (Suc i) ts) \<le> word_of_int (now (Suc i) - now 0))"

lemma quiet_poll:
  assumes "svc_poll (path_video_frame ops) path_video_release on_frame e st r = Inr (st', r')" "pe_others e = (\<lambda>w. w)"
    and "video_inv env ops cs st"
  shows "video_inv env ops cs st' \<and> vt_media st' = vt_media st
    \<and> (\<exists>idle fo s. sync_video_frame ops (pe_now e) (vt_sync st) = Inr (idle, fo, s) \<and> vt_sync st' = release_frame fo s)"
proof -
  obtain idle fo w where g: "path_video_frame ops (pe_now e) st = Inr (idle, fo, w)"
    "(case fo of None \<Rightarrow> Inr (w, r) | Some f \<Rightarrow> res_bind (on_frame f r) (\<lambda>r. Inr (path_video_release (Some f) w, r))) = Inr (st', r')"
    using assms(1,2) by (auto simp: svc_poll_def res_bind_Inr_iff)
  have "st' = path_video_release fo w" using g(2) by (cases fo) (auto simp: video_path_taken(3) res_bind_Inr_iff)
  then show ?thesis using video_turn [OF assms(3) g(1)] by blast
qed

lemma quiet_video_polls:
  assumes "svc_polls (path_video_frame ops) path_video_release on_frame (map turn [Suc i..<Suc i + m]) st r = Inr (st', r')"
    and "video_inv env ops cs st" "on_schedule ts (pe_now (turn 0)) i (vt_sync st)"
    and "\<forall>i. pe_others (turn i) = (\<lambda>w. w)" "polls_in_time ts (\<lambda>i. pe_now (turn i))"
  shows "video_inv env ops cs st' \<and> vt_media st' = vt_media st \<and> on_schedule ts (pe_now (turn 0)) (i + m) (vt_sync st')"
  using assms(1-3)
proof (induction m arbitrary: i st r)
  case 0
  then show ?case by simp
next
  case (Suc m)
  have es: "map turn [Suc i..<Suc i + Suc m] = turn (Suc i) # map turn [Suc (Suc i)..<Suc (Suc i) + m]"
    by (simp add: upt_conv_Cons del: upt_Suc)
  obtain st1 r1 where p: "svc_poll (path_video_frame ops) path_video_release on_frame (turn (Suc i)) st r = Inr (st1, r1)"
    "svc_polls (path_video_frame ops) path_video_release on_frame (map turn [Suc (Suc i)..<Suc (Suc i) + m]) st1 r1 = Inr (st', r')"
    using Suc.prems(1) unfolding es by (auto simp: res_bind_Inr_iff)
  have reach: "sync_reach ops (vt_sync st)" using Suc.prems(2) by (simp add: video_inv_def)
  obtain idle fo s where q: "video_inv env ops cs st1" "vt_media st1 = vt_media st"
    "sync_video_frame ops (pe_now (turn (Suc i))) (vt_sync st) = Inr (idle, fo, s)" "vt_sync st1 = release_frame fo s"
    using quiet_poll [OF p(1) _ Suc.prems(2)] assms(4) by blast
  have "on_schedule ts (pe_now (turn 0)) (Suc i) (vt_sync st1)"
  proof (cases "i < length ts")
    case True
    then show ?thesis
      using schedule_turn [OF reach Suc.prems(3) True, of "pe_now (turn (Suc i))"] assms(5) q(3,4) by (auto simp: polls_in_time_def)
  next
    case False
    then show ?thesis
      using schedule_over [OF Suc.prems(3), of ops "pe_now (turn (Suc i))"] Suc.prems(3) q(3,4)
      by (simp add: release_frame_def schedule_skip)
  qed
  from Suc.IH [OF p(2) q(1) this] show ?case using q(2) by simp
qed

text \<open>When all pictures are shown, none is left.\<close>

lemma pictures_freed:
  assumes "video_inv env ops cs st" "as_video (vt_sync st) = []" "as_audio (vt_sync st) = []" "as_held (vt_sync st) = []"
  shows "vt_frames st = (\<lambda>_. None)" "map snd (vt_taken st) = map surface_for (codec_pictures env (vt_media st) cs)"
proof -
  have "as_refs (vt_sync st) i = 0" for i
    using sync_reach_inv [of ops "vt_sync st"] assms by (simp add: video_inv_def sync_refs_def)
  then show "vt_frames st = (\<lambda>_. None)" using assms(1) by (auto simp: video_inv_def picture_queue_ok_def)
  show "map snd (vt_taken st) = map surface_for (codec_pictures env (vt_media st) cs)"
    using assms(1,2) by (simp add: video_inv_def queued_surfaces_def)
qed

lemma thread_draws_all:
  assumes "video_inv env ops cs st1" "vt_taken st1 = []" "vt_sync st1 = fold push_video fs (av_sync_new now0)"
    and "xs = codec_pictures env (vt_media st1) cs" "map fr_pts fs = map picture_ts xs"
    and "\<exists>x\<in>set xs. of_nat RTP_VIDEO_CLOCK \<le> picture_ts x - picture_ts (hd xs)"
    and "codec_documented env" "gl_documented up" "gl_works genv"
    and "length xs < k" "\<forall>i. pe_exit (turn i) \<longleftrightarrow> k \<le> i" "\<forall>i. pe_others (turn i) = (\<lambda>w. w)"
    and "polls_in_time (map picture_ts xs) (\<lambda>i. pe_now (turn i))"
  shows "\<exists>st r. av_out_svc (path_video_frame ops) path_video_release (\<lambda>r. r) (\<lambda>fp. video_out_on_frame up genv (snd fp))
        video_out_clear turn st1 (video_out_new True jd js jc) = Some (Inr (st, r))
    \<and> list_all2 draws (vo_drawn r) xs \<and> vt_fault st = None \<and> vt_frames st = (\<lambda>_. None)"
proof -
  let ?f = "\<lambda>fp. video_out_on_frame up genv (snd fp)" and ?r = "video_out_new True jd js jc" and ?ts = "map picture_ts xs"
  obtain m where k: "k = Suc m" "length xs \<le> m" using assms(10) by (cases k) auto
  have es: "map turn [0..<k] = turn 0 # map turn [Suc 0..<Suc 0 + m]" by (simp add: k(1) upt_conv_Cons del: upt_Suc)
  have exit: "pe_exit (turn k)" and least: "(LEAST j. pe_exit (turn j)) = k" using assms(11) by (auto intro: Least_equality)
  have polite: "\<forall>e\<in>set (map turn [0..<k]). video_others env (\<lambda>_. True) ops cs e"
    using assms(12) by (auto simp: video_others_def intro: exI [of _ "[]"])
  obtain st r where sr: "svc_polls (path_video_frame ops) path_video_release ?f (map turn [0..<k]) st1 ?r = Inr (st, r)"
    "video_inv env ops cs st" "\<exists>xs ys. codec_pictures env (vt_media st) cs = xs @ ys \<and> list_all2 draws (vo_drawn r) xs
         \<and> map snd (vt_taken st) = map surface_for xs \<and> queued_surfaces (vt_frames st) (vt_sync st) = map surface_for ys"
    using video_path_polls [OF assms(1,2,7) _ assms(8,9) polite, of jd js jc] by blast
  obtain st2 r2 where p: "svc_poll (path_video_frame ops) path_video_release ?f (turn 0) st1 ?r = Inr (st2, r2)"
    "svc_polls (path_video_frame ops) path_video_release ?f (map turn [Suc 0..<Suc 0 + m]) st2 r2 = Inr (st, r)"
    using sr(1) unfolding es by (auto simp: res_bind_Inr_iff)
  have xs: "xs \<noteq> []" using assms(6) by auto
  then have fs: "fs \<noteq> []" using assms(5) by (metis list.map_disc_iff)
  have heads: "picture_ts (hd xs) = fr_pts (hd fs)" using assms(5) xs fs by (metis hd_map)
  have "\<not> as_buffering (vt_sync st1)"
  proof -
    obtain x where "x \<in> set xs" "of_nat RTP_VIDEO_CLOCK \<le> picture_ts x - picture_ts (hd xs)" using assms(6) by blast
    moreover have "picture_ts x \<in> set (map fr_pts fs)" using calculation(1) by (simp add: assms(5))
    ultimately show ?thesis unfolding assms(3) pushed_only(6) heads by (auto simp: not_less)
  qed
  moreover have p0: "as_video (vt_sync st1) = fs" "as_video_duration (vt_sync st1) = 0" "as_audio (vt_sync st1) = []"
    "as_held (vt_sync st1) = []" "as_clock (vt_sync st1) = Internal (timer_start_clock now0 0 av_timer_new)"
    unfolding assms(3) by (rule pushed_only)+
  ultimately obtain s' where first: "sync_video_frame ops (pe_now (turn 0)) (vt_sync st1) = Inr (1, None, s')" "on_schedule ?ts (pe_now (turn 0)) 0 s'"
    using schedule_first [OF _ _ p0(2-5), of ops "pe_now (turn 0)"] fs p0(1) assms(5) by auto
  have st2: "video_inv env ops cs st2" "vt_media st2 = vt_media st1" "on_schedule ?ts (pe_now (turn 0)) 0 (vt_sync st2)"
    using quiet_poll [OF p(1) _ assms(1)] assms(12) first by (auto simp: release_frame_def)
  have last: "vt_media st = vt_media st1" "on_schedule ?ts (pe_now (turn 0)) m (vt_sync st)"
    using quiet_video_polls [OF p(2) st2(1,3) assms(12,13)] st2(2) by simp_all
  then have q: "as_video (vt_sync st) = []" "as_audio (vt_sync st) = []" "as_held (vt_sync st) = []"
    using k(2) by (simp_all add: on_schedule_def)
  have "list_all2 draws (vo_drawn r) xs" using sr(3) q(1) assms(4) by (auto simp: queued_surfaces_def last(1))
  moreover have "vo_drawn (video_out_clear r) = vo_drawn r" by (simp add: video_out_clear_def egl_destroy_display_def Let_def)
  moreover have "vt_fault st = None" using sr(2) by (simp add: video_inv_def)
  ultimately show ?thesis
    using sr(1) pictures_freed(1) [OF sr(2) q] unfolding svc_returns [where env = turn and k = k, OF exit] least
    by (intro exI [of _ st] exI [of _ "video_out_clear r"]) simp
qed

section \<open>From the wire to the screen\<close>


text \<open>A codec that makes a picture of every packet, a second after the last, and a thread that looks every 1100 ms.\<close>

definition demo_codec :: "(unit, int, unit) dec_env" where
  "demo_codec = (\<lparr> e8_init = (\<lambda>_. None), e8_decode = (\<lambda>d f n. (d, True)), e8_get_frame = (\<lambda>d. (d, None)), e8_alloc = (\<lambda>_. True) \<rparr>,
     \<lparr> ea_find = True, ea_alloc_context = Some 0, ea_open = (\<lambda>c. (c, 0)), ea_frame_alloc = Some (),
       ea_send_packet = (\<lambda>c f n p. (c + 90000, 0)), ea_receive_frame = (\<lambda>c f. (c, f, Some (demo_picture, c))),
       ea_alloc = (\<lambda>_. True) \<rparr>)"

lemma demo_codec_ok: "codec_documented demo_codec" "codec_opens malloc hp demo_codec CODEC_TYPE_AVC (Avc_State 0 ())"
  using demo_picture_ok by (auto simp: codec_documented_def demo_codec_def)

definition demo_looks :: "nat \<Rightarrow> 'w poll_env" where
  "demo_looks i = \<lparr> pe_exit = (3 \<le> i), pe_now = int i * 1100, pe_others = (\<lambda>w. w) \<rparr>"

text \<open>Two datagrams with a picture each.\<close>

lemma demo_two_frames:
  "\<exists>f g h. feed depack_parse (map (\<lambda>g. (dg_body g, dg_args g)) [demo_dgram, demo_dgram]) (Depack_H264 demo_h264)
     = Inr ([(DEPACKETIZER_FRAME, Some f), (DEPACKETIZER_FRAME, Some g)], Depack_H264 h)"
proof -
  let ?a = "dg_args demo_dgram"
  have one: "\<exists>f h'. h264_feed [([9, 16], ?a)] h = Inr ([(DEPACKETIZER_FRAME, Some f)], h') \<and> h264_ready h' \<and> h264_view h' = h264_view h"
    if "h264_ready h" "gates_open (h264_view h)" "v_data (h264_view h) = []" for h
  proof -
    note ready = that
    obtain outs f s' where "h264_feed (with_marker ?a (concat (map pack_packets [Single_Nal [9, 16]]))) h
        = Inr (outs @ [(DEPACKETIZER_FRAME, Some f)], s')" "h264_ready s'" "h264_view s' = h264_view h"
      using h264_picture_feed [OF ready demo_args(2,1), of "[Single_Nal [9, 16]]"]
      by (auto simp: nal_type_def MAX_ES_FRAME_SIZE_def annexb_def)
    then show ?thesis by (auto simp: res_bind_Inr_iff)
  qed
  obtain f h1 where f: "h264_feed [([9, 16], ?a)] demo_h264 = Inr ([(DEPACKETIZER_FRAME, Some f)], h1)" "h264_ready h1"
    "h264_view h1 = h264_view demo_h264" using one [OF demo_h264_ready] by blast
  obtain g h2 where g: "h264_feed [([9, 16], ?a)] h1 = Inr ([(DEPACKETIZER_FRAME, Some g)], h2)"
    using one [of h1] f(2,3) demo_h264_ready(2,3) by auto
  have "h264_feed ([([9, 16], ?a)] @ [([9, 16], ?a)]) demo_h264
      = Inr ([(DEPACKETIZER_FRAME, Some f), (DEPACKETIZER_FRAME, Some g)], h2)"
    unfolding feed_append by (simp only: f(1) g res_bind_simps prod.case append.simps)
  then show ?thesis using feed_depack demo_dgram_ok by (auto simp: res_bind_Inr_iff)
qed



end
