(* ===== verification/Bool_Coder.thy ===== *)
theory Bool_Coder
  imports Prelude "HOL-Library.Sublist"
begin

text \<open>
  The entropy coder of VP8 in libvpx: \<open>vp8/encoder/boolhuff.h\<close> and \<open>boolhuff.c\<close>, \<open>vp8/decoder/dboolhuff.h\<close> and
  \<open>dboolhuff.c\<close>, with the table of \<open>vp8/common/entropy.c\<close>. The encoder keeps 24 to 31 bits of its number in a
  word and the rest in the buffer, with carries that run back through the bytes; the decoder looks at as
  many bits as fit in a machine word. The lemmas relate both to an arithmetic coder over unbounded numbers.
\<close>

section \<open>The encoder\<close>

definition vp8_norm :: "nat list" where
  "vp8_norm = [0, 7] @ replicate 2 6 @ replicate 4 5 @ replicate 8 4 @ replicate 16 3 @ replicate 32 2
     @ replicate 64 1 @ replicate 128 0"

record bool_coder =
  bc_lowvalue :: "32 word"
  bc_range :: "32 word"
  bc_count :: int
  bc_pos :: nat
  bc_buffer :: "byte list"

text \<open>Encoding ends early with the error of \<open>vpx_internal_error\<close>, which jumps out, or would leave the buffer.\<close>

datatype coder_abort = VPX_CODEC_CORRUPT_FRAME | Coder_Fault fault

definition vp8_start_encode :: "byte list \<Rightarrow> bool_coder" where
  "vp8_start_encode source = \<lparr> bc_lowvalue = 0, bc_range = 255, bc_count = - 24, bc_pos = 0, bc_buffer = source \<rparr>"

text \<open>The \<open>while\<close> loop of the carry with \<open>x\<close> one above the index of the code.\<close>

fun propagate_carry :: "nat \<Rightarrow> byte list \<Rightarrow> byte list option" where
  "propagate_carry 0 buffer = None"
| "propagate_carry (Suc x) buffer =
     (if buffer ! x = 0xff then propagate_carry x (buffer[x := 0]) else Some (buffer[x := buffer ! x + 1]))"

definition validate_buffer :: "nat \<Rightarrow> nat \<Rightarrow> nat \<Rightarrow> bool" where
  "validate_buffer start len limit \<longleftrightarrow> start + len > start \<and> start + len < limit"

text \<open>\<open>vp8_encode_bool\<close> in two parts: the second normalises the rng chosen, and moves bits out of \<open>lowvalue\<close>.\<close>

definition encode_shift :: "bool_coder \<Rightarrow> 32 word \<Rightarrow> 32 word \<Rightarrow> coder_abort + bool_coder" where
  "encode_shift br lowvalue rng =
     (let shift = vp8_norm ! unat rng;
          rng = push_bit shift rng;
          count = bc_count br + int shift
      in if count < 0 then
           Inr (br\<lparr> bc_lowvalue := push_bit shift lowvalue, bc_range := rng, bc_count := count \<rparr>)
         else
           let offset = nat (int shift - count) in
           (case (if push_bit (offset - 1) lowvalue AND 0x80000000 \<noteq> 0 then propagate_carry (bc_pos br) (bc_buffer br)
                  else Some (bc_buffer br)) of
              None \<Rightarrow> Inl (Coder_Fault Oob_Write)
            | Some buffer \<Rightarrow>
                if \<not> validate_buffer (bc_pos br) 1 (length buffer) then Inl VPX_CODEC_CORRUPT_FRAME
                else Inr \<lparr> bc_lowvalue = push_bit (nat count) (push_bit offset lowvalue AND 0xffffff), bc_range = rng,
                           bc_count = count - 8, bc_pos = bc_pos br + 1,
                           bc_buffer = buffer[bc_pos br := ucast (drop_bit (24 - offset) lowvalue)] \<rparr>))"

definition vp8_encode_bool :: "bool_coder \<Rightarrow> bool \<Rightarrow> nat \<Rightarrow> coder_abort + bool_coder" where
  "vp8_encode_bool br b probability =
     (let split = 1 + drop_bit 8 ((bc_range br - 1) * of_nat probability);
          rng = (if b then bc_range br - split else split);
          lowvalue = (if b then bc_lowvalue br + split else bc_lowvalue br)
      in encode_shift br lowvalue rng)"

fun encode_bools :: "(bool \<times> nat) list \<Rightarrow> bool_coder \<Rightarrow> coder_abort + bool_coder" where
  "encode_bools [] br = Inr br"
| "encode_bools ((b, p) # bs) br =
     (case vp8_encode_bool br b p of Inl e \<Rightarrow> Inl e | Inr br \<Rightarrow> encode_bools bs br)"

definition vp8_stop_encode :: "bool_coder \<Rightarrow> coder_abort + bool_coder" where
  "vp8_stop_encode br = encode_bools (replicate 32 (False, 128)) br"

definition value_bits :: "int \<Rightarrow> nat \<Rightarrow> bool list" where
  "value_bits data bits = map (bit data) (rev [0..<bits])"

definition vp8_encode_value :: "bool_coder \<Rightarrow> int \<Rightarrow> nat \<Rightarrow> coder_abort + bool_coder" where
  "vp8_encode_value br data bits = encode_bools (map (\<lambda>b. (b, 0x80)) (value_bits data bits)) br"

section \<open>The decoder\<close>

text \<open>
  \<open>bd_rest\<close> is what lies between \<open>user_buffer\<close> and \<open>user_buffer_end\<close>; the width of \<open>VP8_BD_VALUE\<close> is that of
  \<open>size_t\<close>. A decryption callback turns a run of bytes into one of the same length.
\<close>

definition VP8_LOTS_OF_BITS :: int where "VP8_LOTS_OF_BITS = 0x40000000"

record 'v bool_decoder =
  bd_rest :: "byte list"
  bd_value :: "'v"
  bd_count :: int
  bd_range :: "32 word"
  bd_decrypt :: "(byte list \<Rightarrow> byte list) option"

text \<open>The loop of \<open>vp8dx_bool_decoder_fill\<close> over the bytes at \<open>bufptr\<close>; the last result counts them.\<close>

fun fill_loop :: "int \<Rightarrow> int \<Rightarrow> int \<Rightarrow> 'a::len word \<Rightarrow> byte list \<Rightarrow> (int \<times> 'a word \<times> nat) res" where
  "fill_loop loop_end shift count v [] = (if loop_end \<le> shift then Inl Oob_Read else Inr (count, v, 0))"
| "fill_loop loop_end shift count v (b # bs) =
     (if loop_end \<le> shift then
        res_bind (fill_loop loop_end (shift - 8) (count + 8) (v OR push_bit (nat shift) (ucast b)) bs)
          (\<lambda>(count, v, n). Inr (count, v, n + 1))
      else Inr (count, v, 0))"

definition vp8dx_bool_decoder_fill :: "'a::len word bool_decoder \<Rightarrow> 'a word bool_decoder res" where
  "vp8dx_bool_decoder_fill br =
     (let size = int LENGTH('a);
          count = bd_count br;
          shift = size - 8 - (count + 8);
          bits_left = 8 * int (length (bd_rest br));
          x = shift + 8 - bits_left;
          bufptr = (case bd_decrypt br of None \<Rightarrow> bd_rest br
                    | Some decrypt \<Rightarrow> decrypt (take (LENGTH('a) div 8 + 1) (bd_rest br)));
          (count, loop_end) = (if 0 \<le> x then (count + VP8_LOTS_OF_BITS, x) else (count, 0))
      in if x < 0 \<or> bits_left \<noteq> 0 then
           res_bind (fill_loop loop_end shift count (bd_value br) bufptr) (\<lambda>(count, v, n).
             Inr (br\<lparr> bd_rest := drop n (bd_rest br), bd_value := v, bd_count := count \<rparr>))
         else Inr (br\<lparr> bd_count := count \<rparr>))"

definition vp8dx_start_decode ::
    "byte list option \<Rightarrow> nat \<Rightarrow> (byte list \<Rightarrow> byte list) option \<Rightarrow> 'a::len itself \<Rightarrow> (int \<times> 'a word bool_decoder) res" where
  "vp8dx_start_decode source source_sz decrypt _ =
     (let br = \<lparr> bd_rest = (case source of None \<Rightarrow> [] | Some s \<Rightarrow> take source_sz s), bd_value = 0, bd_count = - 8,
                 bd_range = 255, bd_decrypt = decrypt \<rparr>
      in if source_sz \<noteq> 0 \<and> source = None then Inr (1, br)
         else res_bind (vp8dx_bool_decoder_fill br) (\<lambda>br. Inr (0, br)))"

definition vp8dx_decode_bool :: "nat \<Rightarrow> 'a::len word bool_decoder \<Rightarrow> (bool \<times> 'a word bool_decoder) res" where
  "vp8dx_decode_bool probability br =
     (let split = 1 + drop_bit 8 ((bd_range br - 1) * of_nat probability) in
      res_bind (if bd_count br < 0 then vp8dx_bool_decoder_fill br else Inr br) (\<lambda>br.
        let bigsplit = push_bit (LENGTH('a) - 8) (ucast split :: 'a word);
            b = (bigsplit \<le> bd_value br);
            range = (if b then bd_range br - split else split);
            v = (if b then bd_value br - bigsplit else bd_value br);
            shift = vp8_norm ! unat range
        in Inr (b, br\<lparr> bd_value := push_bit shift v, bd_count := bd_count br - int shift,
                       bd_range := push_bit shift range \<rparr>)))"

fun decode_bools :: "nat list \<Rightarrow> 'a::len word bool_decoder \<Rightarrow> (bool list \<times> 'a word bool_decoder) res" where
  "decode_bools [] br = Inr ([], br)"
| "decode_bools (p # ps) br =
     res_bind (vp8dx_decode_bool p br) (\<lambda>(b, br).
     res_bind (decode_bools ps br) (\<lambda>(bs, br). Inr (b # bs, br)))"

definition vp8_decode_value :: "'a::len word bool_decoder \<Rightarrow> nat \<Rightarrow> (nat \<times> 'a word bool_decoder) res" where
  "vp8_decode_value br bits =
     res_bind (decode_bools (replicate bits 0x80) br) (\<lambda>(bs, br).
       Inr (fold (\<lambda>(b, i) z. z OR (if b then 2 ^ i else 0)) (zip bs (rev [0..<bits])) 0, br))"

section \<open>An arithmetic coder over numbers\<close>

definition bool_split :: "nat \<Rightarrow> nat \<Rightarrow> nat" where
  "bool_split r p = 1 + (r - 1) * p div 256"

text \<open>The low end of the interval, its size, and how often both were doubled.\<close>

fun ac_step :: "bool \<times> nat \<Rightarrow> nat \<times> nat \<times> nat \<Rightarrow> nat \<times> nat \<times> nat" where
  "ac_step (b, p) (low, r, k) =
     (let s = bool_split r p; r' = (if b then r - s else s); n = vp8_norm ! r'
      in ((if b then low + s else low) * 2 ^ n, r' * 2 ^ n, k + n))"

definition ac_encode :: "(bool \<times> nat) list \<Rightarrow> nat \<times> nat \<times> nat \<Rightarrow> nat \<times> nat \<times> nat" where
  "ac_encode bs a = fold ac_step bs a"

text \<open>The decoder holds the number relative to the interval, in units of \<open>2 ^ e\<close>.\<close>

fun ac_decode :: "nat \<Rightarrow> nat list \<Rightarrow> nat \<Rightarrow> nat \<Rightarrow> bool list" where
  "ac_decode e [] n r = []"
| "ac_decode e (p # ps) n r =
     (let s = bool_split r p; b = (s * 2 ^ e \<le> n); r' = (if b then r - s else s); m = vp8_norm ! r'
      in b # ac_decode e ps ((if b then n - s * 2 ^ e else n) * 2 ^ m) (r' * 2 ^ m))"

lemma norm_range:
  assumes "0 < r" "r < 256"
  shows "128 \<le> r * 2 ^ (vp8_norm ! r)" "r * 2 ^ (vp8_norm ! r) < 256" "vp8_norm ! r \<le> 7"
proof -
  have "\<forall>r\<in>set [1..<256]. 128 \<le> r * 2 ^ (vp8_norm ! r) \<and> r * 2 ^ (vp8_norm ! r) < 256 \<and> vp8_norm ! r \<le> 7"
    by code_simp
  then show "128 \<le> r * 2 ^ (vp8_norm ! r)" "r * 2 ^ (vp8_norm ! r) < 256" "vp8_norm ! r \<le> 7"
    using assms by simp_all
qed

lemma split_range:
  assumes "128 \<le> r" "r < 256" "p < 256"
  shows "0 < bool_split r p" "bool_split r p < r"
proof -
  show "0 < bool_split r p" by (simp add: bool_split_def)
  have "(r - 1) * p \<le> (r - 1) * 255" using assms(3) by simp
  also have "\<dots> < (r - 1) * 256" using assms(1) by simp
  finally have "(r - 1) * p div 256 < r - 1" by (simp add: div_less_iff_less_mult)
  then show "bool_split r p < r" by (simp add: bool_split_def)
qed

definition byte_range :: "nat \<Rightarrow> bool" where
  "byte_range r \<longleftrightarrow> 128 \<le> r \<and> r < 256"

text \<open>The interval of a bit is inside, and normalising brings its size back into the range of a byte.\<close>

lemma ac_step_inside:
  assumes "byte_range r" "p < 256" "ac_step (b, p) (low, r, k) = (low', r', k')"
  obtains n where "k' = k + n" "n \<le> 7" "byte_range r'" "low * 2 ^ n \<le> low'" "low' + r' \<le> (low + r) * 2 ^ n"
    "r' = (if b then r - bool_split r p else bool_split r p) * 2 ^ n"
    "low' = (if b then low + bool_split r p else low) * 2 ^ n"
    "n = vp8_norm ! (if b then r - bool_split r p else bool_split r p)"
proof -
  let ?s = "bool_split r p" and ?r = "if b then r - bool_split r p else bool_split r p"
  have s: "0 < ?s" "?s < r" using split_range [of r p] assms(1,2) by (simp_all add: byte_range_def)
  then have r: "0 < ?r" "?r < 256" using assms(1) by (auto simp: byte_range_def)
  let ?n = "vp8_norm ! ?r"
  have out: "k' = k + ?n" "r' = ?r * 2 ^ ?n" "low' = (if b then low + ?s else low) * 2 ^ ?n"
    using assms(3) by (auto simp: Let_def)
  have inside: "(if b then low + ?s else low) + ?r \<le> low + r" using s by auto
  show ?thesis
  proof (rule that)
    show "k' = k + ?n" "r' = ?r * 2 ^ ?n" "low' = (if b then low + ?s else low) * 2 ^ ?n" by (fact out)+
    show "?n \<le> 7" by (rule norm_range(3) [OF r])
    show "byte_range r'" using norm_range(1,2) [OF r] out(2) by (simp add: byte_range_def)
    show "low * 2 ^ ?n \<le> low'" using out(3) by simp
    show "low' + r' \<le> (low + r) * 2 ^ ?n"
      using mult_le_mono1 [OF inside, of "2 ^ ?n"] unfolding out by (simp add: distrib_right)
  qed simp
qed

lemma ac_encode_simps [simp]:
  "ac_encode [] a = a" "ac_encode (b # bs) a = ac_encode bs (ac_step b a)"
  "ac_encode (bs @ cs) a = ac_encode cs (ac_encode bs a)"
  by (simp_all add: ac_encode_def)

lemma ac_encode_inside:
  assumes "byte_range r" "\<forall>(b, p)\<in>set bs. p < 256" "ac_encode bs (low, r, k) = (low', r', k')"
  shows "k \<le> k' \<and> byte_range r' \<and> low * 2 ^ (k' - k) \<le> low' \<and> low' + r' \<le> (low + r) * 2 ^ (k' - k)"
  using assms
proof (induction bs arbitrary: low r k)
  case (Cons x bs)
  obtain b p where x: "x = (b, p)" by (cases x)
  obtain low1 r1 k1 where one: "ac_step (b, p) (low, r, k) = (low1, r1, k1)" by (cases "ac_step (b, p) (low, r, k)")
  have p: "p < 256" using Cons.prems(2) x by simp
  obtain n where n: "k1 = k + n" "byte_range r1" "low * 2 ^ n \<le> low1" "low1 + r1 \<le> (low + r) * 2 ^ n"
    using ac_step_inside [OF Cons.prems(1) p one] by blast
  have rest: "ac_encode bs (low1, r1, k1) = (low', r', k')" using Cons.prems(3) one x by simp
  have ih: "k1 \<le> k'" "byte_range r'" "low1 * 2 ^ (k' - k1) \<le> low'" "low' + r' \<le> (low1 + r1) * 2 ^ (k' - k1)"
    using Cons.IH [OF n(2) _ rest] Cons.prems(2) by auto
  have e: "k' - k = n + (k' - k1)" using n(1) ih(1) by simp
  have "low * 2 ^ (k' - k) \<le> low1 * 2 ^ (k' - k1)"
    using mult_le_mono1 [OF n(3), of "2 ^ (k' - k1)"] unfolding e power_add by (simp only: mult.assoc)
  moreover have "(low1 + r1) * 2 ^ (k' - k1) \<le> (low + r) * 2 ^ (k' - k)"
    using mult_le_mono1 [OF n(4), of "2 ^ (k' - k1)"] unfolding e power_add by (simp only: mult.assoc)
  ultimately show ?case using ih n(1) by auto
qed (use assms in auto)

text \<open>The number at the low end of the final interval leads the decoder through the same bits.\<close>

lemma ac_roundtrip:
  assumes "byte_range r" "\<forall>(b, p)\<in>set bs. p < 256" "ac_encode bs (low, r, k) = (low', r', k')" "k' - k \<le> e"
  shows "ac_decode e (map snd bs) ((low' - low * 2 ^ (k' - k)) * 2 ^ (e - (k' - k))) r = map fst bs"
  using assms
proof (induction bs arbitrary: low r k)
  case (Cons x bs)
  obtain b p where x: "x = (b, p)" by (cases x)
  obtain low1 r1 k1 where one: "ac_step (b, p) (low, r, k) = (low1, r1, k1)" by (cases "ac_step (b, p) (low, r, k)")
  have p: "p < 256" using Cons.prems(2) x by simp
  let ?s = "bool_split r p"
  obtain n where n: "k1 = k + n" "byte_range r1" "r1 = (if b then r - ?s else ?s) * 2 ^ n"
    "low1 = (if b then low + ?s else low) * 2 ^ n" "n = vp8_norm ! (if b then r - ?s else ?s)"
    using ac_step_inside [OF Cons.prems(1) p one] by metis
  have rest: "ac_encode bs (low1, r1, k1) = (low', r', k')" using Cons.prems(3) one x by simp
  have ps: "\<forall>(b, p)\<in>set bs. p < 256" using Cons.prems(2) by auto
  have in1: "k1 \<le> k'" "byte_range r'" "low1 * 2 ^ (k' - k1) \<le> low'" "low' + r' \<le> (low1 + r1) * 2 ^ (k' - k1)"
    using ac_encode_inside [OF n(2) ps rest] by auto
  let ?d = "k' - k" and ?d1 = "k' - k1"
  have d: "?d = n + ?d1" using n(1) in1(1) by simp
  let ?m = "(low' - low * 2 ^ ?d) * 2 ^ (e - ?d)"
  have e: "e - ?d1 = e - ?d + n" using Cons.prems(4) d by simp
  have low1: "low1 * 2 ^ ?d1 = (if b then low + ?s else low) * 2 ^ ?d" using n(4) d by (simp add: power_add)
  have top1: "r1 * 2 ^ ?d1 = (if b then r - ?s else ?s) * 2 ^ ?d" using n(3) d by (simp add: power_add)
  have scale: "(2::nat) ^ e = 2 ^ ?d * 2 ^ (e - ?d)" using Cons.prems(4) by (simp flip: power_add)
  have test: "?s * 2 ^ e \<le> ?m \<longleftrightarrow> b"
  proof (cases b)
    case True
    then have "(low + ?s) * 2 ^ ?d \<le> low'" using in1(3) low1 by simp
    then have "?s * 2 ^ ?d \<le> low' - low * 2 ^ ?d" by (simp add: distrib_right le_diff_conv2)
    then show ?thesis using True scale by (simp add: mult_le_mono1 flip: mult.assoc)
  next
    case False
    have "low' < low' + r'" using in1(2) by (simp add: byte_range_def)
    then have "low' < (low + ?s) * 2 ^ ?d" using in1(4) False low1 top1 by (simp add: distrib_right)
    then have "low' - low * 2 ^ ?d < ?s * 2 ^ ?d"
      using in1(3) low1 False by (simp add: distrib_right less_diff_conv2)
    then show ?thesis using False scale by (simp flip: mult.assoc)
  qed
  have next_m: "(if b then ?m - ?s * 2 ^ e else ?m) * 2 ^ n = (low' - low1 * 2 ^ ?d1) * 2 ^ (e - ?d1)"
    unfolding low1 e scale power_add by (auto simp: distrib_right diff_mult_distrib mult.assoc)
  have "?d1 \<le> e" using Cons.prems(4) d by simp
  from Cons.IH [OF n(2) ps rest this]
  have ih: "ac_decode e (map snd bs) ((low' - low1 * 2 ^ ?d1) * 2 ^ (e - ?d1)) r1 = map fst bs" .
  have "ac_decode e (map snd (x # bs)) ?m r
      = b # ac_decode e (map snd bs) ((if b then ?m - ?s * 2 ^ e else ?m) * 2 ^ n) r1"
    using n(3,5) test by (simp add: x Let_def)
  then show ?case unfolding next_m ih by (simp add: x)
qed simp

section \<open>The bytes of the encoder\<close>

fun be_nat :: "byte list \<Rightarrow> nat" where
  "be_nat [] = 0"
| "be_nat (b # bs) = unat b * 256 ^ length bs + be_nat bs"

lemma be_nat_append [simp]: "be_nat (xs @ ys) = be_nat xs * 256 ^ length ys + be_nat ys"
  by (induction xs) (simp_all add: power_add distrib_right)

lemma be_nat_less: "be_nat bs < 256 ^ length bs"
proof (induction bs)
  case (Cons b bs)
  have "unat b \<le> 255" using unat_byte_less [of b] by linarith
  then have "unat b * 256 ^ length bs \<le> 255 * 256 ^ length bs" by (rule mult_le_mono1)
  then show ?case using Cons.IH unfolding be_nat.simps length_Cons power_Suc by linarith
qed simp

lemma be_nat_snoc: "n < length bs \<Longrightarrow> be_nat (take (Suc n) (bs[n := b])) = be_nat (take n bs) * 256 + unat b"
  by (simp add: take_Suc_conv_app_nth)

lemma propagate_carry_above: "propagate_carry m cs = Some cs' \<Longrightarrow> m \<le> j \<Longrightarrow> cs' ! j = cs ! j"
  by (induction m arbitrary: cs) (auto split: if_splits)

text \<open>The carry adds one to the bytes written, and stays inside when there is room for it.\<close>

lemma propagate_carry_adds:
  assumes "be_nat (take n bs) + 1 < 256 ^ n" "n \<le> length bs"
  shows "\<exists>bs'. propagate_carry n bs = Some bs' \<and> length bs' = length bs \<and> be_nat (take n bs') = be_nat (take n bs) + 1"
  using assms
proof (induction n arbitrary: bs)
  case (Suc n)
  have n: "n < length bs" using Suc.prems(2) by simp
  then have split: "be_nat (take (Suc n) bs) = be_nat (take n bs) * 256 + unat (bs ! n)"
    by (simp add: take_Suc_conv_app_nth)
  show ?case
  proof (cases "bs ! n = 0xff")
    case True
    then have "(be_nat (take n bs) + 1) * 256 < 256 ^ n * 256" using Suc.prems(1) split by simp
    then have "be_nat (take n (bs[n := 0])) + 1 < 256 ^ n" by simp
    from Suc.IH [OF this] obtain bs' where bs': "propagate_carry n (bs[n := 0]) = Some bs'"
      "length bs' = length bs" "be_nat (take n bs') = be_nat (take n bs) + 1" using n by auto
    have "bs' ! n = 0" using propagate_carry_above [OF bs'(1), of n] n by simp
    then show ?thesis using True bs' n split by (simp add: take_Suc_conv_app_nth)
  next
    case False
    have "unat (bs ! n) \<noteq> 255" using False by (simp add: word_unat_eq_iff)
    then have "unat (bs ! n + 1) = unat (bs ! n) + 1"
      using unat_byte_less [of "bs ! n"] by (simp add: unat_word_ariths del: unat_byte_less)
    then show ?thesis using False n split by (simp add: be_nat_snoc)
  qed
qed simp

lemma split_word:
  fixes range :: "32 word"
  assumes "unat range = r" "byte_range r" "p < 256"
  shows "unat (1 + drop_bit 8 ((range - 1) * of_nat p)) = bool_split r p"
proof -
  have "unat (range - 1) = r - 1" using assms(1,2) by (simp add: byte_range_def unat_sub word_le_nat_alt)
  moreover have "(r - 1) * p < 2 ^ 16"
  proof -
    have "(r - 1) * p \<le> 255 * 255" using assms(2,3) by (intro mult_le_mono) (auto simp: byte_range_def)
    then show ?thesis by simp
  qed
  ultimately have prod: "unat ((range - 1) * of_nat p) = (r - 1) * p"
    using assms(3) by (simp add: unat_word_ariths unat_of_nat)
  have "(r - 1) * p div 256 < 256" using \<open>(r - 1) * p < 2 ^ 16\<close> by (simp add: div_less_iff_less_mult)
  moreover have "unat (drop_bit 8 ((range - 1) * of_nat p)) = (r - 1) * p div 256"
    unfolding unat_drop_bit_eq prod by (simp add: drop_bit_eq_div)
  ultimately show ?thesis unfolding bool_split_def by (simp add: unat_word_ariths(1) del: of_nat_mult)
qed

lemma unat_push_bit_small:
  fixes w :: "'a::len word"
  assumes "unat w * 2 ^ n < 2 ^ LENGTH('a)"
  shows "unat (push_bit n w) = unat w * 2 ^ n"
  unfolding unsigned_push_bit_eq using assms by (simp add: push_bit_eq_mult take_bit_nat_eq_self)

lemma top_bit_word: "(w :: 32 word) AND 0x80000000 \<noteq> 0 \<longleftrightarrow> 2 ^ 31 \<le> unat w"
proof -
  have "w AND 2 ^ 31 = 0 \<longleftrightarrow> \<not> bit w 31" by (rule and_exp_eq_0_iff_not_bit)
  moreover have "bit w 31 \<longleftrightarrow> 2 ^ 31 \<le> unat w"
  proof -
    have small: "unat w div 2 ^ 31 < 2" using unsigned_less [of w, where ?'a = nat] by (simp add: div_less_iff_less_mult)
    have "q < 2 \<Longrightarrow> odd q \<longleftrightarrow> 0 < q" for q :: nat by presburger
    from this [OF small] have "odd (unat w div 2 ^ 31) \<longleftrightarrow> 2 ^ 31 \<le> unat w" by (simp add: div_greater_zero_iff)
    moreover have "bit w 31 \<longleftrightarrow> bit (unat w) 31" by (simp add: bit_unsigned_iff)
    ultimately show ?thesis by (simp add: bit_iff_odd)
  qed
  ultimately show ?thesis by simp
qed

text \<open>
  The number of the abstract coder is that of the bytes written, followed by the bits of \<open>lowvalue\<close>, of which
  there are \<open>32 + bc_count\<close>, and a carry that waits above them. \<open>enc_mid\<close> is for the values in the middle of
  \<open>vp8_encode_bool\<close>, with a rng that is not normalised.
\<close>

definition enc_mid :: "bool_coder \<Rightarrow> 32 word \<Rightarrow> 32 word \<Rightarrow> nat \<Rightarrow> nat \<times> nat \<times> nat \<Rightarrow> bool" where
  "enc_mid br lowvalue rng e a \<longleftrightarrow>
     (case a of (low, r, k) \<Rightarrow> bc_count br = int e - 32 \<and> 8 \<le> e \<and> e < 32 \<and> k + 8 = 8 * bc_pos br + e
        \<and> unat rng = r \<and> 0 < r \<and> r < 256 \<and> bc_pos br \<le> length (bc_buffer br)
        \<and> low = be_nat (take (bc_pos br) (bc_buffer br)) * 2 ^ e + unat lowvalue
        \<and> unat lowvalue + r \<le> 2 * 2 ^ e \<and> low + r \<le> 256 ^ bc_pos br * 2 ^ e)"

definition enc_rel :: "bool_coder \<Rightarrow> nat \<times> nat \<times> nat \<Rightarrow> bool" where
  "enc_rel br a \<longleftrightarrow> byte_range (fst (snd a)) \<and> (\<exists>e. enc_mid br (bc_lowvalue br) (bc_range br) e a)"

lemma enc_rel_start: "enc_rel (vp8_start_encode buf) (0, 255, 0)"
  by (auto simp: enc_rel_def enc_mid_def vp8_start_encode_def byte_range_def intro: exI [of _ 8])

text \<open>The byte that leaves \<open>lowvalue\<close>, in numbers: \<open>z\<close> has a carry, the byte, and 24 bits that stay.\<close>

lemma emit_byte:
  fixes z n :: nat
  assumes "z < 2 ^ 33"
  shows "n * 2 ^ 32 + z = ((n + (if 2 ^ 32 \<le> z then 1 else 0)) * 256 + z div 2 ^ 24 mod 256) * 2 ^ 24 + z mod 2 ^ 24"
proof -
  define q m c where "q = z div 2 ^ 24" and "m = z mod 2 ^ 24" and "c = (if 2 ^ 32 \<le> z then 1 else 0 :: nat)"
  have "q < 512" using assms by (simp add: q_def div_less_iff_less_mult)
  moreover have "2 ^ 32 \<le> z \<longleftrightarrow> 256 \<le> q" by (simp add: q_def less_eq_div_iff_mult_less_eq)
  ultimately have "q = c * 256 + q mod 256" by (auto simp: c_def mod_if)
  moreover have "z = q * 2 ^ 24 + m" by (simp add: q_def m_def)
  ultimately have "z = (c * 256 + q mod 256) * 2 ^ 24 + m" by simp
  then have "n * 2 ^ 32 + z = n * 2 ^ 32 + (c * 256 + q mod 256) * 2 ^ 24 + m" by linarith
  also have "\<dots> = ((n + c) * 256 + q mod 256) * 2 ^ 24 + m" by simp
  finally show ?thesis unfolding q_def m_def c_def .
qed

text \<open>No carry waits; an output clears it, and a zero does not bring it back.\<close>

definition no_carry :: "bool_coder \<Rightarrow> bool" where
  "no_carry br \<longleftrightarrow> unat (bc_lowvalue br) < 2 ^ nat (32 + bc_count br)"

lemma encode_shift_unfold:
  assumes "bc_count br = int e - 32" "e < 32" "vp8_norm ! unat rng = n"
  shows "encode_shift br lowvalue rng =
     (if e + n < 32 then
        Inr (br\<lparr> bc_lowvalue := push_bit n lowvalue, bc_range := push_bit n rng, bc_count := int (e + n) - 32 \<rparr>)
      else
        (case (if push_bit (32 - e - 1) lowvalue AND 0x80000000 \<noteq> 0 then propagate_carry (bc_pos br) (bc_buffer br)
               else Some (bc_buffer br)) of
           None \<Rightarrow> Inl (Coder_Fault Oob_Write)
         | Some buffer \<Rightarrow>
             if \<not> validate_buffer (bc_pos br) 1 (length buffer) then Inl VPX_CODEC_CORRUPT_FRAME
             else Inr \<lparr> bc_lowvalue = push_bit (e + n - 32) (push_bit (32 - e) lowvalue AND 0xffffff), bc_range = push_bit n rng,
                        bc_count = int (e + n) - 40, bc_pos = bc_pos br + 1,
                        bc_buffer = buffer[bc_pos br := ucast (drop_bit (24 - (32 - e)) lowvalue)] \<rparr>))"
proof -
  have nats: "int e - 32 + int n = int (e + n) - 32" "nat (int n - (int (e + n) - 32)) = 32 - e"
    "nat (int (e + n) - 32) = e + n - 32" "int (e + n) - 32 < 0 \<longleftrightarrow> e + n < 32" "int (e + n) - 32 - 8 = int (e + n) - 40"
    using assms(2) by auto
  show ?thesis
    unfolding encode_shift_def Let_def assms(1,3) nats by (rule refl)
qed

text \<open>Without an output, everything is shifted.\<close>

lemma encode_shift_quiet:
  assumes "enc_mid br lowvalue rng e (low, r, k)" "n = vp8_norm ! r" "e + n < 32"
  shows "\<exists>br'. encode_shift br lowvalue rng = Inr br' \<and> enc_rel br' (low * 2 ^ n, r * 2 ^ n, k + n)
    \<and> bc_pos br' = bc_pos br \<and> bc_buffer br' = bc_buffer br \<and> (unat lowvalue < 2 ^ e \<longrightarrow> no_carry br')"
proof -
  define l where "l = unat lowvalue"
  define N where "N = be_nat (take (bc_pos br) (bc_buffer br))"
  have mid: "bc_count br = int e - 32" "8 \<le> e" "e < 32" "k + 8 = 8 * bc_pos br + e" "unat rng = r" "0 < r" "r < 256"
    "bc_pos br \<le> length (bc_buffer br)" "low = N * 2 ^ e + l" "l + r \<le> 2 * 2 ^ e" "low + r \<le> 256 ^ bc_pos br * 2 ^ e"
    using assms(1) by (simp_all add: enc_mid_def l_def N_def)
  note n = norm_range [OF mid(6,7), folded assms(2)]
  have "(2::nat) * 2 ^ (e + n) \<le> 2 ^ 32" using power_increasing [of "Suc (e + n)" 32 "2::nat"] assms(3) by simp
  moreover have "(l + r) * 2 ^ n \<le> 2 * 2 ^ (e + n)" using mult_le_mono1 [OF mid(10), of "2 ^ n"] by (simp add: power_add)
  ultimately have top: "l * 2 ^ n + r * 2 ^ n \<le> 2 * 2 ^ (e + n)" "l * 2 ^ n < 2 ^ 32"
    using mid(6) n(1) by (simp_all add: distrib_right)
  have ul: "unat (push_bit n lowvalue) = l * 2 ^ n" using unat_push_bit_small [of lowvalue n] top(2) by (simp add: l_def)
  have ur: "unat (push_bit n rng) = r * 2 ^ n" using unat_push_bit_small [of rng n] mid(5) n(2) by simp
  have all: "low * 2 ^ n + r * 2 ^ n \<le> 256 ^ bc_pos br * 2 ^ (e + n)"
    using mult_le_mono1 [OF mid(11), of "2 ^ n"] by (simp add: power_add distrib_right mult.assoc)
  let ?br = "br\<lparr> bc_lowvalue := push_bit n lowvalue, bc_range := push_bit n rng, bc_count := int (e + n) - 32 \<rparr>"
  have run: "encode_shift br lowvalue rng = Inr ?br"
    using encode_shift_unfold [OF mid(1,3), of rng n lowvalue] mid(5) assms(2,3) by simp
  have "enc_mid ?br (push_bit n lowvalue) (push_bit n rng) (e + n) (low * 2 ^ n, r * 2 ^ n, k + n)"
    using mid(2,4,6,8,9) assms(3) n top(1) ul ur all
    by (auto simp: enc_mid_def N_def power_add distrib_right mult.assoc)
  then have rel: "enc_rel ?br (low * 2 ^ n, r * 2 ^ n, k + n)"
    unfolding enc_rel_def using n(1,2) by (intro conjI exI [of _ "e + n"]) (simp_all add: byte_range_def)
  have "l < 2 ^ e \<Longrightarrow> l * 2 ^ n < 2 ^ (e + n)" by (simp add: power_add)
  moreover have "nat (32 + (int (e + n) - 32)) = e + n" by simp
  ultimately have "l < 2 ^ e \<longrightarrow> no_carry ?br" by (simp add: no_carry_def ul)
  then show ?thesis using run rel by (auto simp: l_def)
qed

text \<open>With an output: \<open>z\<close> is \<open>lowvalue\<close> with its carry at bit 32.\<close>

lemma carry_word:
  fixes lowvalue :: "32 word"
  assumes "e < 32" "unat lowvalue * 2 ^ (32 - e) = z" "z < 2 ^ 33"
  shows "push_bit (32 - e - 1) lowvalue AND 0x80000000 \<noteq> 0 \<longleftrightarrow> 2 ^ 32 \<le> z"
proof -
  have half: "unat lowvalue * 2 ^ (32 - e - 1) * 2 = z"
  proof -
    have "32 - e = Suc (32 - e - 1)" using assms(1) by simp
    then show ?thesis using assms(2) by (metis mult.assoc mult.commute power_Suc)
  qed
  have "unat (push_bit (32 - e - 1) lowvalue) = unat lowvalue * 2 ^ (32 - e - 1)"
    using unat_push_bit_small [of lowvalue "32 - e - 1"] half assms(3) by simp
  moreover have "2 ^ 31 \<le> x \<longleftrightarrow> 2 ^ 32 \<le> x * 2" for x :: nat by auto
  ultimately show ?thesis unfolding top_bit_word half [symmetric] by (simp only:)
qed

lemma byte_word:
  fixes lowvalue :: "32 word"
  assumes "8 \<le> e" "unat lowvalue * 2 ^ (32 - e) = z"
  shows "unat (ucast (drop_bit (24 - (32 - e)) lowvalue) :: byte) = z div 2 ^ 24 mod 256"
proof -
  have "(2::nat) ^ 24 = 2 ^ (24 - (32 - e)) * 2 ^ (32 - e)"
  proof (cases "e \<le> 32")
    case True
    then have "24 = 24 - (32 - e) + (32 - e)" using assms(1) by simp
    then show ?thesis by (metis power_add)
  qed simp
  then have "z div 2 ^ 24 = unat lowvalue div 2 ^ (24 - (32 - e))"
    unfolding assms(2) [symmetric] by (simp only: div_mult_mult2 [OF power_not_zero] zero_neq_numeral [symmetric] not_False_eq_True)
  moreover have "unat (drop_bit (24 - (32 - e)) lowvalue) = unat lowvalue div 2 ^ (24 - (32 - e))"
    unfolding unat_drop_bit_eq by (rule drop_bit_eq_div)
  ultimately show ?thesis by (simp add: unsigned_ucast_eq take_bit_eq_mod)
qed

lemma rest_word:
  fixes lowvalue :: "32 word"
  assumes "unat lowvalue * 2 ^ (32 - e) = z" "c \<le> 6"
  shows "unat (push_bit c (push_bit (32 - e) lowvalue AND 0xffffff)) = z mod 2 ^ 24 * 2 ^ c"
proof -
  have "push_bit (32 - e) lowvalue AND 0xffffff = take_bit 24 (push_bit (32 - e) lowvalue)"
    by (simp add: take_bit_eq_mask mask_eq_exp_minus_1)
  moreover have "unat (push_bit (32 - e) lowvalue) = z mod 2 ^ 32"
    unfolding unsigned_push_bit_eq by (simp add: take_bit_eq_mod push_bit_eq_mult flip: assms(1))
  ultimately have "unat (push_bit (32 - e) lowvalue AND 0xffffff) = take_bit 24 (z mod 2 ^ 32)"
    by (simp only: unsigned_take_bit_eq)
  then have stay: "unat (push_bit (32 - e) lowvalue AND 0xffffff) = z mod 2 ^ 24"
    by (simp add: take_bit_eq_mod mod_mod_cancel)
  have "z mod 2 ^ 24 * 2 ^ c < 2 ^ 24 * 2 ^ c" by (rule mult_strict_right_mono) simp_all
  also have "\<dots> \<le> 2 ^ 24 * 2 ^ 6" by (rule mult_le_mono2 [OF power_increasing [OF assms(2)]]) simp
  finally show ?thesis using unat_push_bit_small [of "push_bit (32 - e) lowvalue AND 0xffffff" c] stay by simp
qed

text \<open>The numbers of an output.\<close>

lemma emit_numbers:
  fixes N l r n e P :: nat
  assumes "l + r \<le> 2 * 2 ^ e" "N * 2 ^ e + l + r \<le> P * 2 ^ e" "0 < r" "r * 2 ^ n < 256" "e < 32" "e + n = 32 + c"
  defines "z \<equiv> l * 2 ^ (32 - e)"
  shows "z < 2 ^ 33" "2 ^ 32 \<le> z \<Longrightarrow> N + 1 < P"
    "(N * 2 ^ e + l) * 2 ^ n
       = ((N + (if 2 ^ 32 \<le> z then 1 else 0)) * 256 + z div 2 ^ 24 mod 256) * 2 ^ (24 + c) + z mod 2 ^ 24 * 2 ^ c"
    "z mod 2 ^ 24 * 2 ^ c + r * 2 ^ n \<le> 2 * 2 ^ (24 + c)" "z mod 2 ^ 24 * 2 ^ c < 2 ^ (24 + c)"
    "(N * 2 ^ e + l) * 2 ^ n + r * 2 ^ n \<le> 256 * P * 2 ^ (24 + c)"
proof -
  have n: "n = (32 - e) + c" using assms(5,6) by simp
  have ez: "(2::nat) ^ e * 2 ^ (32 - e) = 2 ^ 32" using assms(5) by (simp flip: power_add)
  have "z + r * 2 ^ (32 - e) \<le> 2 ^ 33"
    using mult_le_mono1 [OF assms(1), of "2 ^ (32 - e)"] ez by (simp add: z_def distrib_right)
  moreover have r: "0 < r * 2 ^ (32 - e)" using assms(3) by simp
  ultimately show z33: "z < 2 ^ 33" by linarith
  have total: "N * 2 ^ 32 + z + r * 2 ^ (32 - e) \<le> P * 2 ^ 32"
    using mult_le_mono1 [OF assms(2), of "2 ^ (32 - e)"] unfolding z_def by (simp only: distrib_right mult.assoc ez)
  show "N + 1 < P" if "2 ^ 32 \<le> z"
  proof -
    have "N * 2 ^ 32 + z < P * 2 ^ 32" using total r by linarith
    then have "(N + 1) * 2 ^ 32 < P * 2 ^ 32" using that by simp
    then show ?thesis by (simp only: mult_less_cancel2)
  qed
  have "(N * 2 ^ e + l) * 2 ^ n = (N * (2 ^ e * 2 ^ (32 - e)) + z) * 2 ^ c"
    unfolding z_def n power_add by (simp add: distrib_right mult.assoc)
  then show "(N * 2 ^ e + l) * 2 ^ n
       = ((N + (if 2 ^ 32 \<le> z then 1 else 0)) * 256 + z div 2 ^ 24 mod 256) * 2 ^ (24 + c) + z mod 2 ^ 24 * 2 ^ c"
    unfolding ez emit_byte [OF z33] by (simp add: power_add distrib_right)
  have "z mod 2 ^ 24 * 2 ^ c < 2 ^ 24 * 2 ^ c" by (rule mult_strict_right_mono) simp_all
  then show rest: "z mod 2 ^ 24 * 2 ^ c < 2 ^ (24 + c)" by (simp only: power_add)
  have "r * 2 ^ n \<le> 2 ^ 24" using assms(4) by simp
  also have "\<dots> \<le> 2 ^ (24 + c)" by (rule power_increasing) simp_all
  finally show "z mod 2 ^ 24 * 2 ^ c + r * 2 ^ n \<le> 2 * 2 ^ (24 + c)" using rest by linarith
  have "(N * 2 ^ e + l) * 2 ^ n + r * 2 ^ n = (N * (2 ^ e * 2 ^ (32 - e)) + z + r * 2 ^ (32 - e)) * 2 ^ c"
    unfolding z_def n power_add by (simp add: distrib_right mult.assoc)
  also have "\<dots> \<le> P * 2 ^ 32 * 2 ^ c" unfolding ez by (rule mult_le_mono1 [OF total])
  also have "\<dots> = 256 * P * 2 ^ (24 + c)" by (simp add: power_add)
  finally show "(N * 2 ^ e + l) * 2 ^ n + r * 2 ^ n \<le> 256 * P * 2 ^ (24 + c)" .
qed

lemma encode_shift_output:
  assumes "enc_mid br lowvalue rng e (low, r, k)" "n = vp8_norm ! r" "\<not> e + n < 32" "bc_pos br + 1 < length (bc_buffer br)"
  shows "\<exists>br'. encode_shift br lowvalue rng = Inr br' \<and> enc_rel br' (low * 2 ^ n, r * 2 ^ n, k + n)
    \<and> bc_pos br' = bc_pos br + 1 \<and> length (bc_buffer br') = length (bc_buffer br) \<and> no_carry br'"
proof -
  define N where "N = be_nat (take (bc_pos br) (bc_buffer br))"
  have mid: "bc_count br = int e - 32" "8 \<le> e" "e < 32" "k + 8 = 8 * bc_pos br + e" "unat rng = r" "0 < r" "r < 256"
    "bc_pos br \<le> length (bc_buffer br)" "low = N * 2 ^ e + unat lowvalue" "unat lowvalue + r \<le> 2 * 2 ^ e"
    "N * 2 ^ e + unat lowvalue + r \<le> 256 ^ bc_pos br * 2 ^ e"
    using assms(1) by (auto simp: enc_mid_def N_def)
  note n = norm_range [OF mid(6,7), folded assms(2)]
  define c where "c = e + n - 32"
  have c: "e + n = 32 + c" "c \<le> 6" using assms(3) mid(3) n(3) by (simp_all add: c_def)
  define z where "z = unat lowvalue * 2 ^ (32 - e)"
  note num = emit_numbers [OF mid(10,11,6) n(2) mid(3) c(1), folded z_def]
  let ?c = "if 2 ^ 32 \<le> z then 1 else 0 :: nat" and ?byte = "ucast (drop_bit (24 - (32 - e)) lowvalue) :: byte"
  let ?carry = "push_bit (32 - e - 1) lowvalue AND 0x80000000 \<noteq> 0"
  have carry: "?carry \<longleftrightarrow> 2 ^ 32 \<le> z" by (rule carry_word [OF mid(3) z_def [symmetric] num(1)])
  obtain buf where buf: "(if ?carry then propagate_carry (bc_pos br) (bc_buffer br) else Some (bc_buffer br)) = Some buf"
    "length buf = length (bc_buffer br)" "be_nat (take (bc_pos br) buf) = N + ?c"
    using propagate_carry_adds [OF _ mid(8)] num(2) carry unfolding N_def by (cases "2 ^ 32 \<le> z") auto
  have ul: "unat (push_bit c (push_bit (32 - e) lowvalue AND 0xffffff)) = z mod 2 ^ 24 * 2 ^ c"
    by (rule rest_word [OF z_def [symmetric] c(2)])
  have ur: "unat (push_bit n rng) = r * 2 ^ n" using unat_push_bit_small [of rng n] mid(5) n(2) by simp
  let ?br = "\<lparr> bc_lowvalue = push_bit c (push_bit (32 - e) lowvalue AND 0xffffff), bc_range = push_bit n rng,
    bc_count = int (e + n) - 40, bc_pos = bc_pos br + 1, bc_buffer = buf[bc_pos br := ?byte] \<rparr>"
  have "validate_buffer (bc_pos br) 1 (length buf)" using assms(4) buf(2) by (simp add: validate_buffer_def)
  then have run: "encode_shift br lowvalue rng = Inr ?br"
    using encode_shift_unfold [OF mid(1,3), of rng n lowvalue] mid(5) assms(2,3) buf(1) by (simp add: c_def)
  have low: "low * 2 ^ n = be_nat (take (Suc (bc_pos br)) (buf[bc_pos br := ?byte])) * 2 ^ (24 + c) + z mod 2 ^ 24 * 2 ^ c"
    using num(3) be_nat_snoc [of "bc_pos br" buf ?byte] assms(4) buf(2,3) byte_word [OF mid(2) z_def [symmetric]] mid(9) by simp
  have "enc_mid ?br (bc_lowvalue ?br) (bc_range ?br) (24 + c) (low * 2 ^ n, r * 2 ^ n, k + n)"
    unfolding enc_mid_def prod.case
  proof (intro conjI)
    show "bc_count ?br = int (24 + c) - 32" "8 \<le> 24 + c" "24 + c < 32" using c by simp_all
    show "k + n + 8 = 8 * bc_pos ?br + (24 + c)" using mid(4) c(1) by simp
    show "unat (bc_range ?br) = r * 2 ^ n" "0 < r * 2 ^ n" "r * 2 ^ n < 256" using ur mid(6) n(2) by simp_all
    show "bc_pos ?br \<le> length (bc_buffer ?br)" using assms(4) buf(2) by simp
    show "low * 2 ^ n = be_nat (take (bc_pos ?br) (bc_buffer ?br)) * 2 ^ (24 + c) + unat (bc_lowvalue ?br)" using low ul by simp
    show "unat (bc_lowvalue ?br) + r * 2 ^ n \<le> 2 * 2 ^ (24 + c)" using num(4) ul by simp
    show "low * 2 ^ n + r * 2 ^ n \<le> 256 ^ bc_pos ?br * 2 ^ (24 + c)" using num(6) mid(9) by simp
  qed
  then have rel: "enc_rel ?br (low * 2 ^ n, r * 2 ^ n, k + n)" unfolding enc_rel_def using n(1,2) by (auto simp: byte_range_def)
  have "nat (32 + (int (e + n) - 40)) = 24 + c" using c(1) by linarith
  then have "no_carry ?br" using num(5) ul by (simp add: no_carry_def)
  then show ?thesis using run rel buf(2) by auto
qed

text \<open>Choosing the half of the interval.\<close>

lemma encode_choice:
  assumes "enc_mid br (bc_lowvalue br) (bc_range br) e (low, r, k)" "byte_range r" "p < 256"
  defines "s \<equiv> bool_split r p"
  defines "split \<equiv> (1 :: 32 word) + drop_bit 8 ((bc_range br - 1) * of_nat p)"
  shows "enc_mid br (if b then bc_lowvalue br + split else bc_lowvalue br) (if b then bc_range br - split else split) e
    (if b then low + s else low, if b then r - s else s, k)"
proof -
  have mid: "e < 32" "unat (bc_range br) = r" "unat (bc_lowvalue br) + r \<le> 2 * 2 ^ e" using assms(1) by (simp_all add: enc_mid_def)
  have s: "0 < s" "s < r" "r < 256" using split_range [of r p] assms(2,3) by (simp_all add: s_def byte_range_def)
  have usplit: "unat split = s" unfolding split_def s_def by (rule split_word [OF mid(2) assms(2,3)])
  then have "unat (bc_range br - split) = r - s" using s mid(2) by (simp add: unat_sub word_le_nat_alt)
  moreover have "unat (bc_lowvalue br + split) = unat (bc_lowvalue br) + s"
  proof -
    have "(2::nat) * 2 ^ e \<le> 2 ^ 32" using power_increasing [of "Suc e" 32 "2::nat"] mid(1) by simp
    then have "unat (bc_lowvalue br) + s < 2 ^ 32" using mid(3) s by linarith
    then show ?thesis using usplit by (simp add: unat_word_ariths)
  qed
  ultimately show ?thesis using assms(1) usplit s by (auto simp: enc_mid_def)
qed

lemma vp8_encode_bool_refines:
  assumes "enc_rel br a" "p < 256" "bc_pos br + 1 < length (bc_buffer br)"
  shows "\<exists>br'. vp8_encode_bool br b p = Inr br' \<and> enc_rel br' (ac_step (b, p) a)
    \<and> bc_pos br \<le> bc_pos br' \<and> bc_pos br' \<le> bc_pos br + 1 \<and> length (bc_buffer br') = length (bc_buffer br)
    \<and> (bc_pos br < bc_pos br' \<or> \<not> b \<and> no_carry br \<longrightarrow> no_carry br')"
proof -
  obtain low r k where a: "a = (low, r, k)" by (cases a)
  obtain e where e: "enc_mid br (bc_lowvalue br) (bc_range br) e (low, r, k)" "byte_range r"
    using assms(1) by (auto simp: enc_rel_def a)
  let ?s = "bool_split r p" and ?split = "(1 :: 32 word) + drop_bit 8 ((bc_range br - 1) * of_nat p)"
  let ?low = "if b then low + ?s else low" and ?r = "if b then r - ?s else ?s"
  let ?l = "if b then bc_lowvalue br + ?split else bc_lowvalue br" and ?n = "vp8_norm ! ?r"
  note mid = encode_choice [OF e assms(2), of b]
  have run: "vp8_encode_bool br b p = encode_shift br ?l (if b then bc_range br - ?split else ?split)"
    by (simp add: vp8_encode_bool_def Let_def)
  have step: "ac_step (b, p) a = (?low * 2 ^ ?n, ?r * 2 ^ ?n, k + ?n)" by (simp only: a ac_step.simps Let_def)
  show ?thesis
  proof (cases "e + ?n < 32")
    case True
    have "no_carry br \<Longrightarrow> unat (bc_lowvalue br) < 2 ^ e" using e(1) by (simp add: no_carry_def enc_mid_def)
    then show ?thesis using encode_shift_quiet [OF mid refl True] unfolding run step by auto
  next
    case False
    then show ?thesis using encode_shift_output [OF mid refl False assms(3)] unfolding run step by fastforce
  qed
qed

lemma encode_bools_refines:
  assumes "enc_rel br a" "\<forall>(b, p)\<in>set bs. p < 256" "bc_pos br + length bs < length (bc_buffer br)"
  shows "\<exists>br'. encode_bools bs br = Inr br' \<and> enc_rel br' (ac_encode bs a)
    \<and> bc_pos br \<le> bc_pos br' \<and> bc_pos br' \<le> bc_pos br + length bs \<and> length (bc_buffer br') = length (bc_buffer br)
    \<and> ((\<forall>(b, p)\<in>set bs. \<not> b) \<and> (bc_pos br < bc_pos br' \<or> no_carry br) \<longrightarrow> no_carry br')"
  using assms
proof (induction bs arbitrary: br a)
  case (Cons x bs)
  obtain b p where x: "x = (b, p)" by (cases x)
  obtain br1 where one: "vp8_encode_bool br b p = Inr br1" "enc_rel br1 (ac_step (b, p) a)" "bc_pos br \<le> bc_pos br1"
    "bc_pos br1 \<le> bc_pos br + 1" "length (bc_buffer br1) = length (bc_buffer br)"
    "bc_pos br < bc_pos br1 \<or> \<not> b \<and> no_carry br \<longrightarrow> no_carry br1"
    using vp8_encode_bool_refines [OF Cons.prems(1), of p b] Cons.prems(2,3) x by auto
  obtain br2 where two: "encode_bools bs br1 = Inr br2" "enc_rel br2 (ac_encode bs (ac_step (b, p) a))" "bc_pos br1 \<le> bc_pos br2"
    "bc_pos br2 \<le> bc_pos br1 + length bs" "length (bc_buffer br2) = length (bc_buffer br1)"
    "(\<forall>(b, p)\<in>set bs. \<not> b) \<and> (bc_pos br1 < bc_pos br2 \<or> no_carry br1) \<longrightarrow> no_carry br2"
    using Cons.IH [OF one(2)] Cons.prems(2,3) one(4,5) by auto
  show ?case
  proof (intro exI conjI)
    show "encode_bools (x # bs) br = Inr br2" using one(1) two(1) x by simp
    show "enc_rel br2 (ac_encode (x # bs) a)" using two(2) x by simp
    show "bc_pos br \<le> bc_pos br2" "bc_pos br2 \<le> bc_pos br + length (x # bs)" "length (bc_buffer br2) = length (bc_buffer br)"
      using one(3-5) two(3-5) by simp_all
    show "(\<forall>(b, p)\<in>set (x # bs). \<not> b) \<and> (bc_pos br < bc_pos br2 \<or> no_carry br) \<longrightarrow> no_carry br2"
      using one(3,6) two(3,6) x by (auto simp: less_le)
  qed
qed auto

lemma encode_bools_append:
  "encode_bools (bs @ cs) br = (case encode_bools bs br of Inl e \<Rightarrow> Inl e | Inr br \<Rightarrow> encode_bools cs br)"
  by (induction bs br rule: encode_bools.induct) (auto split: sum.split)

text \<open>The flush: zeros of even probability leave the low end where it is; each doubles it, but for the first perhaps.\<close>

lemma stop_step:
  assumes "byte_range r"
  obtains n r' where "ac_step (False, 128) (low, r, k) = (low * 2 ^ n, r', k + n)" "byte_range r'" "r' < 255" "r < 255 \<longrightarrow> n = 1"
proof -
  have n: "vp8_norm ! bool_split r 128 = (if r < 255 then 1 else 0)"
  proof -
    let ?s = "bool_split r 128" and ?n = "vp8_norm ! bool_split r 128"
    have s: "64 \<le> ?s" "?s \<le> 128" "?s < 128 \<longleftrightarrow> r < 255" using assms by (auto simp: bool_split_def byte_range_def)
    then have norm: "128 \<le> ?s * 2 ^ ?n" "?s * 2 ^ ?n < 256" using norm_range [of ?s] by simp_all
    have "?s * 2 ^ 2 \<le> ?s * 2 ^ ?n" if "2 \<le> ?n" using that by (intro mult_le_mono2 power_increasing) simp_all
    moreover have "256 \<le> ?s * 2 ^ 2" using s(1) by simp
    ultimately have "?n < 2" using norm(2) by (meson leD leI le_trans)
    then consider "?n = 0" | "?n = 1" by linarith
    then show ?thesis using norm s by cases auto
  qed
  have less: "(r - Suc 0) div 2 * 2 < 253" if "r < 255" using that by presburger
  show ?thesis
  proof (rule that)
    show "ac_step (False, 128) (low, r, k)
        = (low * 2 ^ (if r < 255 then 1 else 0), bool_split r 128 * 2 ^ (if r < 255 then 1 else 0), k + (if r < 255 then 1 else 0))"
      using n by (simp add: Let_def)
    show "byte_range (bool_split r 128 * 2 ^ (if r < 255 then 1 else 0))" "bool_split r 128 * 2 ^ (if r < 255 then 1 else 0) < 255"
      using assms less by (auto simp: bool_split_def byte_range_def)
  qed simp
qed

lemma stop_steps:
  assumes "byte_range r" "r < 255"
  shows "\<exists>r'. ac_encode (replicate m (False, 128)) (low, r, k) = (low * 2 ^ m, r', k + m)"
  using assms
proof (induction m arbitrary: low r k)
  case (Suc m)
  obtain n r' where s: "ac_step (False, 128) (low, r, k) = (low * 2 ^ n, r', k + n)" "byte_range r'" "r' < 255" "r < 255 \<longrightarrow> n = 1"
    using stop_step [OF Suc.prems(1)] by blast
  then have n: "n = 1" using Suc.prems(2) by simp
  show ?case using Suc.IH [OF s(2,3), of "low * 2" "k + 1"] s(1) unfolding n by (auto simp: mult.assoc)
qed simp

lemma stop_bits:
  assumes "byte_range r"
  shows "\<exists>j r'. ac_encode (replicate 32 (False, 128)) (low, r, k) = (low * 2 ^ j, r', k + j) \<and> 31 \<le> j"
proof -
  obtain n r' where s: "ac_step (False, 128) (low, r, k) = (low * 2 ^ n, r', k + n)" "byte_range r'" "r' < 255"
    using stop_step [OF assms] by blast
  obtain r2 where "ac_encode (replicate 31 (False, 128)) (low * 2 ^ n, r', k + n) = (low * 2 ^ n * 2 ^ 31, r2, k + n + 31)"
    using stop_steps [OF s(2,3)] by blast
  moreover have "replicate 32 (False, 128 :: nat) = (False, 128) # replicate 31 (False, 128)"
    by (simp flip: replicate_Suc)
  ultimately show ?thesis using s(1) by (intro exI [of _ "n + 31"] exI [of _ r2]) (simp add: power_add mult.assoc)
qed

text \<open>What the whole encoder leaves in the buffer is the number of the arithmetic coder, to the last bit.\<close>

lemma vp8_encode_number:
  assumes "\<forall>(b, p)\<in>set bs. p < 256" "length bs + 33 < length buf"
  shows "\<exists>br br' low r k e. encode_bools bs (vp8_start_encode buf) = Inr br \<and> vp8_stop_encode br = Inr br'
    \<and> ac_encode (bs @ replicate 32 (False, 128)) (0, 255, 0) = (low, r, k) \<and> 8 \<le> e \<and> k + 8 = 8 * bc_pos br' + e
    \<and> bc_pos br' \<le> length (bc_buffer br') \<and> low = be_nat (take (bc_pos br') (bc_buffer br')) * 2 ^ e"
proof -
  let ?stop = "replicate 32 (False, 128 :: nat)"
  obtain br where br: "encode_bools bs (vp8_start_encode buf) = Inr br" "enc_rel br (ac_encode bs (0, 255, 0))"
    "bc_pos br \<le> length bs" "length (bc_buffer br) = length buf"
    using encode_bools_refines [OF enc_rel_start assms(1), of buf] assms(2) by (auto simp: vp8_start_encode_def)
  obtain low0 r0 k0 where a0: "ac_encode bs (0, 255, 0) = (low0, r0, k0)" by (cases "ac_encode bs (0, 255, 0)")
  then have r0: "byte_range r0" and k0: "\<exists>e. e < 32 \<and> 8 \<le> e \<and> k0 + 8 = 8 * bc_pos br + e"
    using br(2) by (auto simp: enc_rel_def enc_mid_def)
  obtain j r where stop: "ac_encode ?stop (low0, r0, k0) = (low0 * 2 ^ j, r, k0 + j)" "31 \<le> j"
    using stop_bits [OF r0] by blast
  have p: "\<forall>(b, p)\<in>set ?stop. p < 256" "\<forall>(b, p)\<in>set ?stop. \<not> b" by auto
  obtain br' where br': "encode_bools ?stop br = Inr br'" "enc_rel br' (low0 * 2 ^ j, r, k0 + j)"
    "bc_pos br < bc_pos br' \<or> no_carry br \<longrightarrow> no_carry br'"
    using encode_bools_refines [OF br(2) p(1)] br(3,4) assms(2) p(2) unfolding a0 stop(1) by auto
  obtain e where e: "bc_count br' = int e - 32" "8 \<le> e" "e < 32" "k0 + j + 8 = 8 * bc_pos br' + e"
    "bc_pos br' \<le> length (bc_buffer br')"
    "low0 * 2 ^ j = be_nat (take (bc_pos br') (bc_buffer br')) * 2 ^ e + unat (bc_lowvalue br')"
    using br'(2) by (auto simp: enc_rel_def enc_mid_def)
  have "bc_pos br < bc_pos br'" using k0 e(3,4) stop(2) by auto
  then have small: "unat (bc_lowvalue br') < 2 ^ e" using br'(3) e(1) by (simp add: no_carry_def)
  have "(2::nat) ^ e dvd low0 * 2 ^ j" using e(3) stop(2) by (simp add: le_imp_power_dvd)
  then have "2 ^ e dvd unat (bc_lowvalue br')" unfolding e(6) by (simp add: dvd_add_right_iff)
  then have "unat (bc_lowvalue br') = 0" using small by (meson nat_dvd_not_less not_gr_zero)
  then show ?thesis using br(1) br'(1) a0 stop(1) e by (auto simp: vp8_stop_encode_def)
qed

section \<open>The window of the decoder\<close>

lemma or_byte:
  fixes v :: "'a::len word"
  assumes "2 ^ (s + 8) dvd unat v" "s + 8 \<le> LENGTH('a)"
  shows "unat (v OR push_bit s (ucast (b :: byte))) = unat v + unat b * 2 ^ s"
proof -
  have small: "unat b * 2 ^ s < 2 ^ (s + 8)" using unat_byte_less [of b] by (simp add: power_add)
  also have "(2::nat) ^ (s + 8) \<le> 2 ^ LENGTH('a)" by (rule power_increasing [OF assms(2)]) simp
  finally have fits: "unat b * 2 ^ s < 2 ^ LENGTH('a)" .
  have "unat (ucast b :: 'a word) = unat b"
    using assms(2) unat_byte_less [of b] by (simp add: unsigned_ucast_eq take_bit_nat_eq_self_iff order_less_le_trans [OF _ power_increasing [of 8]])
  then have w: "unat (push_bit s (ucast b :: 'a word)) = unat b * 2 ^ s" using unat_push_bit_small [of "ucast b :: 'a word" s] fits by simp
  obtain q where q: "unat v = 2 ^ (s + 8) * q" using assms(1) by (elim dvdE)
  have "unat v OR unat b * 2 ^ s = unat v + unat b * 2 ^ s"
  proof (rule disjunctive_add_eq_or [symmetric])
    have "take_bit 8 (unat b) = unat b" using unat_byte_less [of b] by (simp add: take_bit_nat_eq_self_iff)
    then have byte: "unat b * 2 ^ s = push_bit s (take_bit 8 (unat b))" by (simp add: push_bit_eq_mult)
    have "unat v = push_bit (s + 8) q" using q by (simp add: push_bit_eq_mult mult.commute)
    then show "unat v AND unat b * 2 ^ s = 0" unfolding byte by (auto simp: bit_eq_iff bit_simps)
  qed
  then show ?thesis by (simp add: unsigned_or_eq w)
qed

lemma fill_loop_ok:
  fixes v :: "'a::len word"
  assumes "loop_end = 0 \<and> sh + 8 < 8 * int (length bs) \<or> loop_end = sh + 8 - 8 * int (length bs) \<and> 0 \<le> loop_end"
    and "0 \<le> sh + 8" "sh + 8 \<le> int LENGTH('a)" "2 ^ nat (sh + 8) dvd unat v"
  shows "\<exists>v' m. fill_loop loop_end sh count v bs = Inr (count + 8 * int m, v', m) \<and> m \<le> length bs
    \<and> (unat v' * 256 ^ (length bs - m) + be_nat (drop m bs) * 2 ^ nat (sh + 8 - 8 * int m)) * 256 ^ m
        = unat v * 256 ^ length bs + be_nat bs * 2 ^ nat (sh + 8)
    \<and> 2 ^ nat (sh + 8 - 8 * int m) dvd unat v' \<and> sh - 8 * int m < loop_end \<and> 0 \<le> sh + 8 - 8 * int m"
  using assms
proof (induction bs arbitrary: sh count v)
  case Nil
  then show ?case by auto
next
  case (Cons b bs)
  show ?case
  proof (cases "loop_end \<le> sh")
    case False
    then show ?thesis using Cons.prems by auto
  next
    case True
    have "0 \<le> loop_end" using Cons.prems(1) by auto
    then obtain s where s: "sh = int s" using True by (metis nonneg_int_cases order_trans)
    let ?v = "v OR push_bit (nat sh) (ucast b)"
    have div: "2 ^ (s + 8) dvd unat v" "s + 8 \<le> LENGTH('a)" using Cons.prems(3,4) s by (simp_all add: nat_add_distrib)
    have v: "unat ?v = unat v + unat b * 2 ^ s" using or_byte [OF div, of b] s by simp
    have "(2::nat) ^ s dvd unat v" by (rule dvd_trans [OF le_imp_power_dvd div(1)]) simp
    then have d: "2 ^ nat (sh - 8 + 8) dvd unat ?v" unfolding v using s by simp
    have side: "loop_end = 0 \<and> sh - 8 + 8 < 8 * int (length bs) \<or> loop_end = sh - 8 + 8 - 8 * int (length bs) \<and> 0 \<le> loop_end"
      "0 \<le> sh - 8 + 8" "sh - 8 + 8 \<le> int LENGTH('a)" using Cons.prems(1,3) s by auto
    obtain v' m where ih: "fill_loop loop_end (sh - 8) (count + 8) ?v bs = Inr (count + 8 + 8 * int m, v', m)" "m \<le> length bs"
      "(unat v' * 256 ^ (length bs - m) + be_nat (drop m bs) * 2 ^ nat (sh - 8 + 8 - 8 * int m)) * 256 ^ m
        = unat ?v * 256 ^ length bs + be_nat bs * 2 ^ nat (sh - 8 + 8)"
      "2 ^ nat (sh - 8 + 8 - 8 * int m) dvd unat v'" "sh - 8 - 8 * int m < loop_end" "0 \<le> sh - 8 + 8 - 8 * int m"
      using Cons.IH [OF side d, of "count + 8"] by blast
    have e: "nat (sh + 8) = s + 8" "nat (sh - 8 + 8) = s" "sh + 8 - 8 * int (Suc m) = sh - 8 + 8 - 8 * int m" using s by simp_all
    have "(unat v' * 256 ^ (length (b # bs) - Suc m) + be_nat (drop (Suc m) (b # bs)) * 2 ^ nat (sh + 8 - 8 * int (Suc m))) * 256 ^ Suc m
      = (unat ?v * 256 ^ length bs + be_nat bs * 2 ^ s) * 256"
      using ih(3) unfolding e by simp
    also have "\<dots> = unat v * 256 ^ length (b # bs) + be_nat (b # bs) * 2 ^ nat (sh + 8)"
      unfolding v e by (simp add: power_add distrib_right)
    finally show ?thesis
      using True ih by (intro exI [of _ v'] exI [of _ "Suc m"]) simp
  qed
qed

definition dec_rel :: "nat \<Rightarrow> 'a::len word bool_decoder \<Rightarrow> nat \<Rightarrow> nat \<Rightarrow> bool" where
  "dec_rel e br n r \<longleftrightarrow>
     bd_decrypt br = None \<and> unat (bd_range br) = r \<and> byte_range r \<and> n < r * 2 ^ e \<and> - 8 \<le> bd_count br
     \<and> n * 2 ^ (LENGTH('a) - 8) * 256 ^ length (bd_rest br)
        = (unat (bd_value br) * 256 ^ length (bd_rest br) + be_nat (bd_rest br) * 2 ^ nat (int LENGTH('a) - 8 - bd_count br)) * 2 ^ e
     \<and> (bd_rest br = [] \<or> bd_count br \<le> int LENGTH('a) - 8 \<and> 2 ^ nat (int LENGTH('a) - 8 - bd_count br) dvd unat (bd_value br))"

text \<open>Filling does not change the number, and leaves no more to be filled.\<close>

lemma fill_refines:
  fixes br :: "'a::len word bool_decoder"
  assumes "dec_rel e br n r" "bd_count br < 0" "16 \<le> LENGTH('a)"
  shows "\<exists>br'. vp8dx_bool_decoder_fill br = Inr br' \<and> dec_rel e br' n r \<and> 0 \<le> bd_count br'"
proof -
  let ?W = "int LENGTH('a)" and ?rest = "bd_rest br" and ?c = "bd_count br"
  let ?sh = "?W - 16 - ?c" and ?x = "?W - 8 - ?c - 8 * int (length (bd_rest br))"
  have rel: "bd_decrypt br = None" "unat (bd_range br) = r" "byte_range r" "n < r * 2 ^ e" "- 8 \<le> ?c"
    "n * 2 ^ (LENGTH('a) - 8) * 256 ^ length ?rest
       = (unat (bd_value br) * 256 ^ length ?rest + be_nat ?rest * 2 ^ nat (?W - 8 - ?c)) * 2 ^ e"
    "?rest = [] \<or> ?c \<le> ?W - 8 \<and> 2 ^ nat (?W - 8 - ?c) dvd unat (bd_value br)"
    using assms(1) by (simp_all add: dec_rel_def)
  show ?thesis
  proof (cases "?rest = []")
    case True
    have "vp8dx_bool_decoder_fill br = Inr (br\<lparr> bd_count := ?c + VP8_LOTS_OF_BITS \<rparr>)"
      using True assms(2,3) by (simp add: vp8dx_bool_decoder_fill_def Let_def)
    then show ?thesis using rel True by (simp add: dec_rel_def VP8_LOTS_OF_BITS_def)
  next
    case False
    define loop_end where "loop_end = (if 0 \<le> ?x then ?x else 0)"
    define count where "count = (if 0 \<le> ?x then ?c + VP8_LOTS_OF_BITS else ?c)"
    have fill: "vp8dx_bool_decoder_fill br = res_bind (fill_loop loop_end ?sh count (bd_value br) ?rest) (\<lambda>(count, v, m).
             Inr (br\<lparr> bd_rest := drop m ?rest, bd_value := v, bd_count := count \<rparr>))"
      using False rel(1) by (simp add: vp8dx_bool_decoder_fill_def Let_def loop_end_def count_def algebra_simps)
    have side: "loop_end = 0 \<and> ?sh + 8 < 8 * int (length ?rest) \<or> loop_end = ?sh + 8 - 8 * int (length ?rest) \<and> 0 \<le> loop_end"
      "0 \<le> ?sh + 8" "?sh + 8 \<le> ?W" "2 ^ nat (?sh + 8) dvd unat (bd_value br)"
      using False rel(5,7) assms(2,3) by (auto simp: loop_end_def algebra_simps)
    obtain v m where m: "fill_loop loop_end ?sh count (bd_value br) ?rest = Inr (count + 8 * int m, v, m)" "m \<le> length ?rest"
      "(unat v * 256 ^ (length ?rest - m) + be_nat (drop m ?rest) * 2 ^ nat (?sh + 8 - 8 * int m)) * 256 ^ m
        = unat (bd_value br) * 256 ^ length ?rest + be_nat ?rest * 2 ^ nat (?sh + 8)"
      "2 ^ nat (?sh + 8 - 8 * int m) dvd unat v" "?sh - 8 * int m < loop_end" "0 \<le> ?sh + 8 - 8 * int m"
      using fill_loop_ok [OF side, of count] by blast
    let ?br = "br\<lparr> bd_rest := drop m ?rest, bd_value := v, bd_count := count + 8 * int m \<rparr>"
    have run: "vp8dx_bool_decoder_fill br = Inr ?br" using fill m(1) by simp
    have pos: "0 \<le> count + 8 * int m"
      using m(5) assms(2,3) rel(5) by (auto simp: count_def loop_end_def VP8_LOTS_OF_BITS_def)
    have all: "drop m ?rest = []" if "0 \<le> ?x" using that m(2,5) by (simp add: loop_end_def)
    have exp: "drop m ?rest = [] \<or> nat (?W - 8 - (count + 8 * int m)) = nat (?sh + 8 - 8 * int m)"
      using all by (auto simp: count_def algebra_simps)
    have len: "length ?rest = (length ?rest - m) + m" using m(2) by simp
    have "n * 2 ^ (LENGTH('a) - 8) * 256 ^ (length ?rest - m) * 256 ^ m
        = (unat v * 256 ^ (length ?rest - m) + be_nat (drop m ?rest) * 2 ^ nat (?sh + 8 - 8 * int m)) * 2 ^ e * 256 ^ m"
    proof -
      have eqs: "?sh + 8 = ?W - 8 - ?c" by simp
      have "unat (bd_value br) * 256 ^ length ?rest + be_nat ?rest * 2 ^ nat (?W - 8 - ?c)
          = (unat v * 256 ^ (length ?rest - m) + be_nat (drop m ?rest) * 2 ^ nat (?sh + 8 - 8 * int m)) * 256 ^ m"
        using m(3) [symmetric] unfolding eqs .
      moreover have "(256::nat) ^ (length ?rest - m) * 256 ^ m = 256 ^ length ?rest"
        using m(2) by (simp flip: power_add)
      ultimately show ?thesis using rel(6) by (simp only: mult.assoc) (simp only: mult.commute mult.left_commute)
    qed
    then have "n * 2 ^ (LENGTH('a) - 8) * 256 ^ (length ?rest - m)
        = (unat v * 256 ^ (length ?rest - m) + be_nat (drop m ?rest) * 2 ^ nat (?sh + 8 - 8 * int m)) * 2 ^ e" by simp
    then have "dec_rel e ?br n r"
      using rel(1-4) pos m(4,6) exp all
      by (cases "drop m ?rest = []") (auto simp: dec_rel_def count_def split: if_splits)
    then show ?thesis using run pos by auto
  qed
qed

text \<open>Comparing the window decides like comparing the number.\<close>

lemma window_test:
  fixes v w n s e j z :: nat
  assumes "n * 2 ^ w * 256 ^ z = (v * 256 ^ z + y * 2 ^ j) * 2 ^ e" "y < 256 ^ z" "2 ^ j dvd v" "j \<le> w"
  shows "s * 2 ^ w \<le> v \<longleftrightarrow> s * 2 ^ e \<le> n"
proof
  assume "s * 2 ^ w \<le> v"
  then have "s * 2 ^ w * 256 ^ z \<le> v * 256 ^ z + y * 2 ^ j" by (simp add: trans_le_add1)
  then have "s * 2 ^ w * 256 ^ z * 2 ^ e \<le> n * 2 ^ w * 256 ^ z" unfolding assms(1) by (rule mult_le_mono1)
  then have "s * 2 ^ e * (2 ^ w * 256 ^ z) \<le> n * (2 ^ w * 256 ^ z)" by (simp only: mult.assoc mult.commute mult.left_commute)
  then show "s * 2 ^ e \<le> n" by simp
next
  assume s: "s * 2 ^ e \<le> n"
  show "s * 2 ^ w \<le> v"
  proof (rule ccontr)
    assume "\<not> s * 2 ^ w \<le> v"
    moreover have "2 ^ j dvd s * 2 ^ w" using assms(4) by (simp add: le_imp_power_dvd)
    ultimately have "v + 2 ^ j \<le> s * 2 ^ w"
      using assms(3) by (metis dvd_diff_nat dvd_imp_le le_add_diff_inverse linorder_not_le nat_add_left_cancel_le order_less_imp_le zero_less_diff)
    then have "(v + 2 ^ j) * 256 ^ z \<le> s * 2 ^ w * 256 ^ z" by (rule mult_le_mono1)
    moreover have "y * 2 ^ j < 2 ^ j * 256 ^ z" using assms(2) by (simp add: mult.commute)
    ultimately have "v * 256 ^ z + y * 2 ^ j < s * 2 ^ w * 256 ^ z" unfolding distrib_right by linarith
    then have "n * 2 ^ w * 256 ^ z < s * 2 ^ w * 256 ^ z * 2 ^ e" unfolding assms(1) by simp
    also have "\<dots> = s * 2 ^ e * (2 ^ w * 256 ^ z)" by (simp only: mult.assoc mult.commute mult.left_commute)
    also have "\<dots> \<le> n * (2 ^ w * 256 ^ z)" by (rule mult_le_mono1 [OF s])
    finally show False by (simp only: mult.assoc)
  qed
qed

lemma dec_rel_window:
  fixes br :: "'a::len word bool_decoder"
  assumes "dec_rel e br n r" "0 \<le> bd_count br" "16 \<le> LENGTH('a)"
  shows "s * 2 ^ (LENGTH('a) - 8) \<le> unat (bd_value br) \<longleftrightarrow> s * 2 ^ e \<le> n"
    "unat (bd_value br) < r * 2 ^ (LENGTH('a) - 8)"
proof -
  let ?w = "LENGTH('a) - 8" and ?z = "length (bd_rest br)" and ?v = "unat (bd_value br)"
  let ?j = "if bd_rest br = [] then 0 else nat (int LENGTH('a) - 8 - bd_count br)"
  have eq: "n * 2 ^ ?w * 256 ^ ?z = (?v * 256 ^ ?z + be_nat (bd_rest br) * 2 ^ ?j) * 2 ^ e"
    using assms(1) by (simp add: dec_rel_def)
  have j: "2 ^ ?j dvd ?v" "?j \<le> ?w" using assms by (auto simp: dec_rel_def)
  have test: "s * 2 ^ ?w \<le> ?v \<longleftrightarrow> s * 2 ^ e \<le> n" for s
    by (rule window_test [OF eq be_nat_less j])
  then show "s * 2 ^ ?w \<le> ?v \<longleftrightarrow> s * 2 ^ e \<le> n" .
  show "?v < r * 2 ^ ?w" using test [of r] assms(1) by (simp add: dec_rel_def flip: not_le)
qed

lemma window_shift:
  fixes v w n s e j z m :: nat
  assumes "n * 2 ^ w * 256 ^ z = (v * 256 ^ z + y * 2 ^ j) * 2 ^ e" "s * 2 ^ w \<le> v" "s * 2 ^ e \<le> n"
  shows "(n - s * 2 ^ e) * 2 ^ m * 2 ^ w * 256 ^ z = ((v - s * 2 ^ w) * 2 ^ m * 256 ^ z + y * 2 ^ (j + m)) * 2 ^ e"
proof -
  obtain v0 n0 where v: "v = s * 2 ^ w + v0" and n: "n = s * 2 ^ e + n0" using assms(2,3) by (metis le_Suc_ex)
  have "n0 * 2 ^ w * 256 ^ z = (v0 * 256 ^ z + y * 2 ^ j) * 2 ^ e"
    using assms(1) unfolding v n by (simp add: algebra_simps)
  then have "n0 * 2 ^ w * 256 ^ z * 2 ^ m = (v0 * 256 ^ z + y * 2 ^ j) * 2 ^ e * 2 ^ m" by simp
  then show ?thesis unfolding v n by (simp add: algebra_simps power_add)
qed

lemma vp8dx_decode_bool_refines:
  fixes br :: "'a::len word bool_decoder"
  assumes "dec_rel e br n r" "p < 256" "16 \<le> LENGTH('a)"
  defines "s \<equiv> bool_split r p"
  defines "b \<equiv> s * 2 ^ e \<le> n"
  defines "r1 \<equiv> (if b then r - s else s)"
  shows "\<exists>br'. vp8dx_decode_bool p br = Inr (b, br')
    \<and> dec_rel e br' ((if b then n - s * 2 ^ e else n) * 2 ^ (vp8_norm ! r1)) (r1 * 2 ^ (vp8_norm ! r1))"
proof -
  let ?W = "int LENGTH('a)"
  obtain br1 where br1: "(if bd_count br < 0 then vp8dx_bool_decoder_fill br else Inr br) = Inr br1"
    "dec_rel e br1 n r" "0 \<le> bd_count br1" using fill_refines [OF assms(1) _ assms(3)] assms(1) by (cases "bd_count br < 0") auto
  have range: "unat (bd_range br) = r" "unat (bd_range br1) = r" "byte_range r" using assms(1) br1(2) by (simp_all add: dec_rel_def)
  define split where "split = (1 :: 32 word) + drop_bit 8 ((bd_range br - 1) * of_nat p)"
  have s: "0 < s" "s < r" "r < 256" using split_range [of r p] range(3) assms(2) by (simp_all add: s_def byte_range_def)
  have usplit: "unat split = s" unfolding split_def s_def by (rule split_word [OF range(1,3) assms(2)])
  have r1: "0 < r1" "r1 < 256" using s by (auto simp: r1_def)
  define m where "m = vp8_norm ! r1"
  note m = norm_range [OF r1, folded m_def]
  have w: "(2::nat) ^ LENGTH('a) = 2 ^ (LENGTH('a) - 8) * 256" using power_add [of "2::nat" "LENGTH('a) - 8" 8] assms(3) by simp
  define bigsplit where "bigsplit = (push_bit (LENGTH('a) - 8) (ucast split) :: 'a word)"
  have "s < 2 ^ LENGTH('a)" using s power_increasing [OF assms(3), of "2::nat"] by simp
  then have "unat (ucast split :: 'a word) = s" using usplit by (simp add: unsigned_ucast_eq take_bit_nat_eq_self_iff)
  then have ubig: "unat bigsplit = s * 2 ^ (LENGTH('a) - 8)"
    using unat_push_bit_small [of "ucast split :: 'a word" "LENGTH('a) - 8"] w s by (simp add: bigsplit_def)
  have b: "bigsplit \<le> bd_value br1 \<longleftrightarrow> b"
    using dec_rel_window(1) [OF br1(2,3) assms(3), of s] ubig by (simp add: b_def word_le_nat_alt)
  define v where "v = (if b then bd_value br1 - bigsplit else bd_value br1)"
  have urange: "unat (if b then bd_range br1 - split else split) = r1"
    using usplit s range(2) by (auto simp: r1_def unat_sub word_le_nat_alt)
  let ?br = "br1\<lparr> bd_value := push_bit m v, bd_count := bd_count br1 - int m,
    bd_range := push_bit m (if b then bd_range br1 - split else split) \<rparr>"
  have same: "bd_range br1 = bd_range br" using range(1,2) by (simp add: word_unat_eq_iff)
  have run: "vp8dx_decode_bool p br = Inr (b, ?br)"
    unfolding vp8dx_decode_bool_def Let_def split_def [symmetric] br1(1) res_bind_simps bigsplit_def [symmetric] b
      urange m_def [symmetric] v_def by (rule refl)
  define q where "q = (if b then s else 0)"
  let ?w = "LENGTH('a) - 8" and ?V = "unat (bd_value br1)" and ?rest = "bd_rest br1" and ?c = "bd_count br1"
  have rel: "bd_decrypt br1 = None" "n < r * 2 ^ e"
    "n * 2 ^ ?w * 256 ^ length ?rest = (?V * 256 ^ length ?rest + be_nat ?rest * 2 ^ nat (?W - 8 - ?c)) * 2 ^ e"
    "?rest = [] \<or> ?c \<le> ?W - 8 \<and> 2 ^ nat (?W - 8 - ?c) dvd ?V" using br1(2) by (simp_all add: dec_rel_def)
  have qn: "q * 2 ^ e \<le> n" by (simp add: q_def b_def)
  then have qv: "q * 2 ^ ?w \<le> ?V" using dec_rel_window(1) [OF br1(2,3) assms(3), of q] by simp
  have uv: "unat v = ?V - q * 2 ^ ?w" using b ubig by (auto simp: v_def q_def unat_sub)
  have "unat v < r1 * 2 ^ ?w"
    using dec_rel_window(1) [OF br1(2,3) assms(3), of s] dec_rel_window(2) [OF br1(2,3) assms(3)] s by (auto simp: uv q_def r1_def b_def diff_mult_distrib less_diff_conv2 not_le)
  then have "unat v * 2 ^ m < r1 * 2 ^ ?w * 2 ^ m" by simp
  also have "\<dots> = r1 * 2 ^ m * 2 ^ ?w" by simp
  also have "\<dots> \<le> 256 * 2 ^ ?w" using m(2) by (intro mult_le_mono1) simp
  finally have uv': "unat (push_bit m v) = (?V - q * 2 ^ ?w) * 2 ^ m" using unat_push_bit_small [of v m] w uv by simp
  have ur': "unat (push_bit m (if b then bd_range br1 - split else split)) = r1 * 2 ^ m"
    using unat_push_bit_small [of "if b then bd_range br1 - split else split" m] urange m(2) by simp
  have n': "(n - q * 2 ^ e) * 2 ^ m < r1 * 2 ^ m * 2 ^ e"
  proof -
    have "n - q * 2 ^ e < r1 * 2 ^ e"
      using rel(2) s qn by (auto simp: q_def r1_def b_def diff_mult_distrib less_diff_conv2 not_le)
    then show ?thesis by simp
  qed
  have more: "nat (?W - 8 - (?c - int m)) = nat (?W - 8 - ?c) + m" if "?rest \<noteq> []"
  proof -
    have "0 \<le> ?W - 8 - ?c" using rel(4) that by simp
    moreover have "?W - 8 - (?c - int m) = (?W - 8 - ?c) + int m" by simp
    ultimately show ?thesis by (simp only: nat_add_distrib of_nat_0_le_iff nat_int)
  qed
  have "dec_rel e ?br ((n - q * 2 ^ e) * 2 ^ m) (r1 * 2 ^ m)"
    unfolding dec_rel_def
  proof (intro conjI)
    show "bd_decrypt ?br = None" "unat (bd_range ?br) = r1 * 2 ^ m" using rel(1) ur' by simp_all
    show "byte_range (r1 * 2 ^ m)" using m(1,2) by (simp add: byte_range_def)
    show "(n - q * 2 ^ e) * 2 ^ m < r1 * 2 ^ m * 2 ^ e" by (rule n')
    show "- 8 \<le> bd_count ?br" using br1(3) m(3) by simp
    have eq: "be_nat ?rest * 2 ^ nat (?W - 8 - (?c - int m)) = be_nat ?rest * 2 ^ (nat (?W - 8 - ?c) + m)"
    proof (cases "?rest = []")
      case False
      then show ?thesis using more by simp
    qed simp
    show "(n - q * 2 ^ e) * 2 ^ m * 2 ^ ?w * 256 ^ length (bd_rest ?br)
        = (unat (bd_value ?br) * 256 ^ length (bd_rest ?br) + be_nat (bd_rest ?br) * 2 ^ nat (?W - 8 - bd_count ?br)) * 2 ^ e"
      using window_shift [OF rel(3) qv qn, of m] eq uv' by auto
    show "bd_rest ?br = [] \<or> bd_count ?br \<le> ?W - 8 \<and> 2 ^ nat (?W - 8 - bd_count ?br) dvd unat (bd_value ?br)"
    proof (cases "?rest = []")
      case False
      let ?j = "nat (?W - 8 - ?c)"
      have j: "nat (?W - 8 - (?c - int m)) = ?j + m" "?j \<le> ?w" "2 ^ ?j dvd ?V"
        using False rel(4) br1(3) assms(3) more [OF False] by auto
      have "2 ^ ?j dvd q * 2 ^ ?w" using j(2) by (simp add: le_imp_power_dvd)
      then have "2 ^ ?j dvd ?V - q * 2 ^ ?w" using j(3) by (rule dvd_diff_nat [rotated])
      then have "2 ^ (?j + m) dvd (?V - q * 2 ^ ?w) * 2 ^ m" by (simp add: power_add)
      then show ?thesis using False rel(4) j(1) uv' by simp
    qed simp
  qed
  then have "dec_rel e ?br ((if b then n - s * 2 ^ e else n) * 2 ^ m) (r1 * 2 ^ m)" by (simp add: q_def split: if_splits)
  then show ?thesis using run by (auto simp: m_def)
qed

lemma decode_bools_refines:
  fixes br :: "'a::len word bool_decoder"
  assumes "dec_rel e br n r" "\<forall>p\<in>set ps. p < 256" "16 \<le> LENGTH('a)"
  shows "\<exists>br' n' r'. decode_bools ps br = Inr (ac_decode e ps n r, br') \<and> dec_rel e br' n' r'"
  using assms(1,2)
proof (induction ps arbitrary: br n r)
  case (Cons p ps)
  have p: "p < 256" using Cons.prems(2) by simp
  let ?s = "bool_split r p" and ?b = "bool_split r p * 2 ^ e \<le> n"
  let ?r = "if ?b then r - ?s else ?s"
  obtain br1 where one: "vp8dx_decode_bool p br = Inr (?b, br1)"
    "dec_rel e br1 ((if ?b then n - ?s * 2 ^ e else n) * 2 ^ (vp8_norm ! ?r)) (?r * 2 ^ (vp8_norm ! ?r))"
    using vp8dx_decode_bool_refines [OF Cons.prems(1) p assms(3)] by blast
  show ?case using Cons.IH [OF one(2)] Cons.prems(2) one(1) by (fastforce simp: Let_def)
qed auto

lemma start_decode_refines:
  assumes "m \<le> length src" "n * 256 ^ m = be_nat (take m src) * 256 * 2 ^ e" "n < 255 * 2 ^ e" "16 \<le> LENGTH('a::len)"
  shows "\<exists>br. vp8dx_start_decode (Some src) m None TYPE('a) = Inr (0, br) \<and> dec_rel e br n 255"
proof -
  let ?br = "\<lparr> bd_rest = take m src, bd_value = 0 :: 'a word, bd_count = - 8, bd_range = 255, bd_decrypt = None \<rparr>"
  have w: "(2::nat) ^ LENGTH('a) = 2 ^ (LENGTH('a) - 8) * 256" using power_add [of "2::nat" "LENGTH('a) - 8" 8] assms(4) by simp
  have "n * 2 ^ (LENGTH('a) - 8) * 256 ^ m = n * 256 ^ m * 2 ^ (LENGTH('a) - 8)" by simp
  also have "\<dots> = be_nat (take m src) * 2 ^ LENGTH('a) * 2 ^ e" unfolding assms(2) w by simp
  finally have "dec_rel e ?br n 255" using assms(1,3) by (simp add: dec_rel_def byte_range_def)
  from fill_refines [OF this _ assms(4)] show ?thesis by (auto simp: vp8dx_start_decode_def Let_def)
qed

lemma vp8_bool_all_back:
  assumes "\<forall>(b, p)\<in>set bs. p < 256" "length bs + 33 < length buf" "16 \<le> LENGTH('a::len)"
  shows "\<exists>br br' dec dec'. encode_bools bs (vp8_start_encode buf) = Inr br \<and> vp8_stop_encode br = Inr br'
    \<and> bc_pos br' \<le> length (bc_buffer br')
    \<and> vp8dx_start_decode (Some (bc_buffer br')) (bc_pos br') None TYPE('a) = Inr (0, dec)
    \<and> decode_bools (map snd bs) dec = Inr (map fst bs, dec')"
proof -
  let ?stop = "replicate 32 (False, 128 :: nat)"
  obtain br br' low r k e where enc: "encode_bools bs (vp8_start_encode buf) = Inr br" "vp8_stop_encode br = Inr br'"
    "ac_encode (bs @ ?stop) (0, 255, 0) = (low, r, k)" "8 \<le> e" "k + 8 = 8 * bc_pos br' + e"
    "bc_pos br' \<le> length (bc_buffer br')" "low = be_nat (take (bc_pos br') (bc_buffer br')) * 2 ^ e"
    using vp8_encode_number [OF assms(1,2)] by blast
  let ?src = "take (bc_pos br') (bc_buffer br')"
  have p: "\<forall>(b, p)\<in>set (bs @ ?stop). p < 256" using assms(1) by auto
  have start: "byte_range 255" by (simp add: byte_range_def)
  have inside: "byte_range r" "low + r \<le> 255 * 2 ^ k" using ac_encode_inside [OF start p enc(3)] by simp_all
  have "low * 256 ^ bc_pos br' = be_nat ?src * (2 ^ e * 2 ^ (8 * bc_pos br'))"
    unfolding enc(7) by (simp add: power_mult)
  also have "(2::nat) ^ e * 2 ^ (8 * bc_pos br') = 2 ^ (k + 8)" unfolding enc(5) power_add by simp
  finally have n: "low * 256 ^ bc_pos br' = be_nat ?src * 256 * 2 ^ k" by (simp add: power_add)
  have "low < 255 * 2 ^ k" using inside by (simp add: byte_range_def)
  then obtain dec where dec: "vp8dx_start_decode (Some (bc_buffer br')) (bc_pos br') None TYPE('a) = Inr (0, dec)" "dec_rel k dec low 255"
    using start_decode_refines [OF enc(6) n _ assms(3)] by blast
  have "ac_decode k (map snd (bs @ ?stop)) low 255 = map fst (bs @ ?stop)"
    using ac_roundtrip [OF start p enc(3), of k] by simp
  moreover have "ac_decode e (ps @ qs) n r = ac_decode e ps n r @ drop (length ps) (ac_decode e (ps @ qs) n r)"
    and "length (ac_decode e ps n r) = length ps" for e ps qs n r
    by (induction ps arbitrary: n r) (auto simp: Let_def)
  ultimately have "ac_decode k (map snd bs) low 255 = map fst bs"
    by (metis append_eq_append_conv length_map map_append)
  moreover have "\<forall>p\<in>set (map snd bs). p < 256" using assms(1) by auto
  ultimately obtain dec' where "decode_bools (map snd bs) dec = Inr (map fst bs, dec')"
    using decode_bools_refines [OF dec(2) _ assms(3), of "map snd bs"] by auto
  then show ?thesis using enc(1,2,6) dec(1) by blast
qed

text \<open>
  C15: the bool coder of VP8: whatever bits are encoded with whatever probabilities of a byte, into a buffer
  with room for a byte each and the flush, encoding and flushing end without an error and without a carry
  past the start of the buffer, and the decoder, over a machine word of any width, reads the same bits
  back from the bytes written.
\<close>

theorem vp8_bool_roundtrip:
  assumes "\<forall>(b, p)\<in>set bs. p < 256" "length bs + 33 < length buf" "16 \<le> LENGTH('a::len)"
  shows "\<exists>br br' dec dec'. encode_bools bs (vp8_start_encode buf) = Inr br \<and> vp8_stop_encode br = Inr br'
    \<and> bc_pos br' \<le> length (bc_buffer br')
    \<and> vp8dx_start_decode (Some (bc_buffer br')) (bc_pos br') None TYPE('a) = Inr (0, dec)
    \<and> decode_bools (map snd bs) dec = Inr (map fst bs, dec')"
  using assms by (rule vp8_bool_all_back)

definition demo_bools :: "(bool \<times> nat) list" where
  "demo_bools = [(True, 1), (False, 255), (True, 128), (True, 0), (False, 3)]"

theorem vp8_bool_roundtrip_witness:
  "\<exists>br br' dec dec'. encode_bools demo_bools (vp8_start_encode (replicate 40 0)) = Inr br \<and> vp8_stop_encode br = Inr br'
    \<and> vp8dx_start_decode (Some (bc_buffer br')) (bc_pos br') None TYPE(64) = Inr (0, dec)
    \<and> decode_bools [1, 255, 128, 0, 3] dec = Inr ([True, False, True, True, False], dec')"
  using vp8_bool_roundtrip [of demo_bools "replicate 40 0", where 'a = 64] by (auto simp: demo_bools_def)

section \<open>Values of several bits\<close>

fun encode_values :: "(int \<times> nat) list \<Rightarrow> bool_coder \<Rightarrow> coder_abort + bool_coder" where
  "encode_values [] br = Inr br"
| "encode_values ((data, bits) # vs) br =
     (case vp8_encode_value br data bits of Inl e \<Rightarrow> Inl e | Inr br \<Rightarrow> encode_values vs br)"

fun decode_values :: "nat list \<Rightarrow> 'a::len word bool_decoder \<Rightarrow> (nat list \<times> 'a word bool_decoder) res" where
  "decode_values [] br = Inr ([], br)"
| "decode_values (bits # ns) br =
     res_bind (vp8_decode_value br bits) (\<lambda>(v, br). res_bind (decode_values ns br) (\<lambda>(vs, br). Inr (v # vs, br)))"

definition even_bits :: "(int \<times> nat) list \<Rightarrow> (bool \<times> nat) list" where
  "even_bits vs = concat (map (\<lambda>(data, bits). map (\<lambda>b. (b, 128)) (value_bits data bits)) vs)"

lemma encode_values_bools: "encode_values vs br = encode_bools (even_bits vs) br"
  by (induction vs br rule: encode_values.induct)
    (auto simp: even_bits_def vp8_encode_value_def encode_bools_append split: sum.split)

lemma decode_bools_append:
  "decode_bools (ps @ qs) br = res_bind (decode_bools ps br) (\<lambda>(bs, br). res_bind (decode_bools qs br) (\<lambda>(cs, br). Inr (bs @ cs, br)))"
  by (induction ps arbitrary: br) (auto simp: res_bind_def split: sum.splits prod.splits)

lemma value_of_bits:
  "fold (\<lambda>(b, i) z. z OR (if b then 2 ^ i else 0)) (zip (value_bits data n) (rev [0..<n])) z = z OR nat (take_bit n data)"
proof (induction n arbitrary: z)
  case (Suc n)
  have "(z OR (if bit data n then 2 ^ n else 0)) OR nat (take_bit n data) = z OR nat (take_bit (Suc n) data)"
    by (rule bit_eqI) (auto simp: bit_simps bit_nat_iff less_Suc_eq)
  then show ?case using Suc.IH by (simp add: value_bits_def)
qed (simp add: value_bits_def)

lemma length_decode_bools: "decode_bools ps br = Inr (bs, br') \<Longrightarrow> length bs = length ps"
  by (induction ps arbitrary: br bs) (auto simp: res_bind_Inr_iff)

lemma decode_values_bools:
  "decode_bools (map snd (even_bits vs)) br = Inr (map fst (even_bits vs), br')
    \<Longrightarrow> decode_values (map snd vs) br = Inr (map (\<lambda>(data, bits). nat (take_bit bits data)) vs, br')"
proof (induction vs arbitrary: br)
  case (Cons v vs)
  obtain data bits where v: "v = (data, bits)" by (cases v)
  have ps: "map snd (even_bits (v # vs)) = replicate bits 128 @ map snd (even_bits vs)"
    "map fst (even_bits (v # vs)) = value_bits data bits @ map fst (even_bits vs)"
    by (simp_all add: even_bits_def v comp_def value_bits_def map_replicate_const)
  obtain bs br1 cs where one: "decode_bools (replicate bits 128) br = Inr (bs, br1)"
    "decode_bools (map snd (even_bits vs)) br1 = Inr (cs, br')" "bs @ cs = value_bits data bits @ map fst (even_bits vs)"
    using Cons.prems unfolding ps decode_bools_append by (auto simp: res_bind_Inr_iff)
  have "length bs = length (value_bits data bits)" using length_decode_bools [OF one(1)] by (simp add: value_bits_def)
  then have two: "bs = value_bits data bits" "cs = map fst (even_bits vs)" using one(3) by simp_all
  show ?case
    using Cons.IH [of br1] one(1,2) unfolding two by (simp add: v vp8_decode_value_def value_of_bits)
qed (simp add: even_bits_def)

section \<open>Any input\<close>

text \<open>The loop stops before the bytes at \<open>bufptr\<close> end, whatever they are.\<close>

lemma fill_loop_safe:
  "sh < loop_end + 8 * int (length bs) \<Longrightarrow> \<exists>v' m. fill_loop loop_end sh count v bs = Inr (count + 8 * int m, v', m)
    \<and> m \<le> length bs \<and> sh - 8 * int m < loop_end"
proof (induction bs arbitrary: sh count v)
  case (Cons b bs)
  show ?case
  proof (cases "loop_end \<le> sh")
    case True
    obtain v' m where "fill_loop loop_end (sh - 8) (count + 8) (v OR push_bit (nat sh) (ucast b)) bs = Inr (count + 8 + 8 * int m, v', m)"
      "m \<le> length bs" "sh - 8 - 8 * int m < loop_end"
      using Cons.IH [of "sh - 8" "count + 8" "v OR push_bit (nat sh) (ucast b)"] Cons.prems by auto
    then show ?thesis using True by (intro exI [of _ v'] exI [of _ "Suc m"]) simp
  qed simp
qed simp

definition dec_safe :: "'a::len word bool_decoder \<Rightarrow> bool" where
  "dec_safe br \<longleftrightarrow> byte_range (unat (bd_range br)) \<and> - 8 \<le> bd_count br
     \<and> (\<forall>f. bd_decrypt br = Some f \<longrightarrow> (\<forall>xs. length (f xs) = length xs))"

lemma fill_safe:
  fixes br :: "'a::len word bool_decoder"
  assumes "dec_safe br" "bd_count br < 0" "16 \<le> LENGTH('a)"
  shows "\<exists>br'. vp8dx_bool_decoder_fill br = Inr br' \<and> dec_safe br' \<and> 0 \<le> bd_count br'
    \<and> suffix (bd_rest br') (bd_rest br) \<and> bd_range br' = bd_range br"
proof -
  let ?W = "int LENGTH('a)" and ?c = "bd_count br" and ?rest = "bd_rest br"
  let ?sh = "?W - 16 - ?c" and ?x = "?W - 8 - ?c - 8 * int (length (bd_rest br))"
  let ?buf = "case bd_decrypt br of None \<Rightarrow> ?rest | Some f \<Rightarrow> f (take (LENGTH('a) div 8 + 1) ?rest)"
  define loop_end where "loop_end = (if 0 \<le> ?x then ?x else 0)"
  define count where "count = (if 0 \<le> ?x then ?c + VP8_LOTS_OF_BITS else ?c)"
  have c: "- 8 \<le> ?c" using assms(1) by (simp add: dec_safe_def)
  have fill: "vp8dx_bool_decoder_fill br = (if ?x < 0 \<or> ?rest \<noteq> [] then
      res_bind (fill_loop loop_end ?sh count (bd_value br) ?buf) (\<lambda>(count, v, m).
        Inr (br\<lparr> bd_rest := drop m ?rest, bd_value := v, bd_count := count \<rparr>)) else Inr (br\<lparr> bd_count := count \<rparr>))"
    by (simp add: vp8dx_bool_decoder_fill_def Let_def loop_end_def count_def algebra_simps)
  have "int n < 8 * int (Suc (n div 8))" for n by presburger
  then have w: "?W < 8 * int (Suc (LENGTH('a) div 8))" .
  have len: "length ?buf \<le> length ?rest" "length ?buf = length ?rest \<or> ?W < 8 * int (length ?buf)"
    using assms(1) w by (auto simp: dec_safe_def min_def split: option.splits)
  have stop: "?sh < loop_end + 8 * int (length ?buf)"
    using len(2) c by (auto simp: loop_end_def)
  obtain v m where m: "fill_loop loop_end ?sh count (bd_value br) ?buf = Inr (count + 8 * int m, v, m)" "m \<le> length ?buf"
    "?sh - 8 * int m < loop_end" using fill_loop_safe [OF stop] by blast
  have pos: "0 \<le> count + 8 * int m" using m(3) c assms(3) by (auto simp: loop_end_def count_def VP8_LOTS_OF_BITS_def)
  have "?rest = [] \<Longrightarrow> \<not> ?x < 0" using assms(2,3) by simp
  then show ?thesis
    using fill m(1) pos assms(1) c by (cases "?rest = []") (auto simp: dec_safe_def suffix_drop count_def VP8_LOTS_OF_BITS_def)
qed

lemma decode_bool_safe:
  fixes br :: "'a::len word bool_decoder"
  assumes "dec_safe br" "p < 256" "16 \<le> LENGTH('a)"
  shows "\<exists>b br'. vp8dx_decode_bool p br = Inr (b, br') \<and> dec_safe br' \<and> suffix (bd_rest br') (bd_rest br)"
proof -
  obtain br1 where br1: "(if bd_count br < 0 then vp8dx_bool_decoder_fill br else Inr br) = Inr br1" "dec_safe br1"
    "0 \<le> bd_count br1" "suffix (bd_rest br1) (bd_rest br)" "bd_range br1 = bd_range br"
    using fill_safe [OF assms(1) _ assms(3)] assms(1) by (cases "bd_count br < 0") auto
  define r where "r = unat (bd_range br)"
  define s where "s = bool_split r p"
  define split where "split = (1 :: 32 word) + drop_bit 8 ((bd_range br - 1) * of_nat p)"
  define b where "b \<longleftrightarrow> push_bit (LENGTH('a) - 8) (ucast split :: 'a word) \<le> bd_value br1"
  define r1 where "r1 = (if b then r - s else s)"
  define v where "v = (if b then bd_value br1 - push_bit (LENGTH('a) - 8) (ucast split) else bd_value br1)"
  have r: "byte_range r" using assms(1) by (simp add: dec_safe_def r_def)
  have s: "0 < s" "s < r" "r < 256" using split_range [of r p] r assms(2) by (simp_all add: s_def byte_range_def)
  have "unat split = s" unfolding split_def s_def by (rule split_word [OF r_def [symmetric] r assms(2)])
  then have ur: "unat (if b then bd_range br1 - split else split) = r1"
    using s br1(5) by (auto simp: r1_def r_def unat_sub word_le_nat_alt)
  have r1: "0 < r1" "r1 < 256" using s by (auto simp: r1_def)
  define m where "m = vp8_norm ! r1"
  note m = norm_range [OF r1, folded m_def]
  let ?br = "br1\<lparr> bd_value := push_bit m v, bd_count := bd_count br1 - int m,
    bd_range := push_bit m (if b then bd_range br1 - split else split) \<rparr>"
  have "vp8dx_decode_bool p br = Inr (b, ?br)"
    unfolding vp8dx_decode_bool_def Let_def split_def [symmetric] br1(1) res_bind_simps b_def [symmetric] ur m_def [symmetric]
      v_def by (rule refl)
  moreover have "unat (push_bit m (if b then bd_range br1 - split else split)) = r1 * 2 ^ m"
    using unat_push_bit_small [of "if b then bd_range br1 - split else split" m] ur m(2) by simp
  then have "dec_safe ?br" using br1(2,3) m by (simp add: dec_safe_def byte_range_def)
  ultimately show ?thesis using br1(4) by auto
qed

text \<open>
  C25: decoding is safe on any input: over any bytes, with or without a decryption of the same length, and with
  any probabilities, starting and decoding any number of bits return, and no byte outside the buffer is
  read; what remains is always an end of the buffer.
\<close>

theorem vp8_bool_decode_safe:
  assumes "\<forall>p\<in>set ps. p < 256" "\<forall>f. decrypt = Some f \<longrightarrow> (\<forall>xs. length (f xs) = length xs)" "16 \<le> LENGTH('a::len)"
  shows "\<exists>dec bs dec'. vp8dx_start_decode (Some src) (length src) decrypt TYPE('a) = Inr (0, dec) \<and> decode_bools ps dec = Inr (bs, dec')
    \<and> length bs = length ps \<and> suffix (bd_rest dec') src"
proof -
  let ?br = "\<lparr> bd_rest = src, bd_value = 0 :: 'a word, bd_count = - 8, bd_range = 255, bd_decrypt = decrypt \<rparr>"
  have "dec_safe ?br" using assms(2) by (simp add: dec_safe_def byte_range_def)
  then obtain dec where dec: "vp8dx_bool_decoder_fill ?br = Inr dec" "dec_safe dec" "suffix (bd_rest dec) src"
    using fill_safe [of ?br] assms(3) by auto
  have "\<exists>bs dec'. decode_bools ps dec = Inr (bs, dec') \<and> length bs = length ps \<and> suffix (bd_rest dec') (bd_rest dec)"
    if "\<forall>p\<in>set ps. p < 256" "dec_safe dec" for ps and dec :: "'a word bool_decoder"
    using that
  proof (induction ps arbitrary: dec)
    case (Cons p ps)
    obtain b d where one: "vp8dx_decode_bool p dec = Inr (b, d)" "dec_safe d" "suffix (bd_rest d) (bd_rest dec)"
      using decode_bool_safe [OF Cons.prems(2) _ assms(3), of p] Cons.prems(1) by auto
    show ?case using Cons.IH [OF _ one(2)] Cons.prems(1) one(1,3) by (fastforce intro: suffix_order.trans)
  qed simp
  from this [OF assms(1) dec(2)] show ?thesis
    using dec(1,3) by (auto simp: vp8dx_start_decode_def Let_def intro: suffix_order.trans)
qed

theorem vp8_bool_decode_safe_witness:
  "\<exists>dec bs dec'. vp8dx_start_decode (Some [255, 255, 7]) 3 (Some (map (\<lambda>b. b XOR 0x55))) TYPE(32) = Inr (0, dec)
    \<and> decode_bools (replicate 100 200) dec = Inr (bs, dec') \<and> length bs = 100 \<and> suffix (bd_rest dec') [255, 255, 7]"
  using vp8_bool_decode_safe [of "replicate 100 200" "Some (map (\<lambda>b. b XOR 0x55))" "[255, 255, 7]", where 'a = 32] by (simp add: numeral_3_eq_3)

text \<open>
  Values of several bits, as the frame headers of VP8 have them: a sequence of integers, each encoded with
  its number of bits, comes back from the decoder, each reduced to its bits.
\<close>

lemma vp8_value_roundtrip:
  assumes "sum_list (map snd vs) + 33 < length buf" "16 \<le> LENGTH('a::len)"
  shows "\<exists>br br' dec dec'. encode_values vs (vp8_start_encode buf) = Inr br \<and> vp8_stop_encode br = Inr br'
    \<and> vp8dx_start_decode (Some (bc_buffer br')) (bc_pos br') None TYPE('a) = Inr (0, dec)
    \<and> decode_values (map snd vs) dec = Inr (map (\<lambda>(data, bits). nat (data mod 2 ^ bits)) vs, dec')"
proof -
  have "length (even_bits vs) = sum_list (map snd vs)"
    by (induction vs) (auto simp: even_bits_def value_bits_def)
  moreover have "\<forall>(b, p)\<in>set (even_bits vs). p < 256" by (auto simp: even_bits_def)
  ultimately show ?thesis
    using vp8_bool_all_back [of "even_bits vs" buf, where 'a = 'a] assms decode_values_bools [of vs]
    by (fastforce simp: encode_values_bools take_bit_eq_mod)
qed

lemma vp8_value_roundtrip_witness:
  "\<exists>br br' dec dec'. encode_values [(5, 3), (- 1, 7), (300, 8)] (vp8_start_encode (replicate 60 0)) = Inr br
    \<and> vp8_stop_encode br = Inr br'
    \<and> vp8dx_start_decode (Some (bc_buffer br')) (bc_pos br') None TYPE(32) = Inr (0, dec)
    \<and> decode_values [3, 7, 8] dec = Inr ([5, 127, 44], dec')"
  using vp8_value_roundtrip [of "[(5, 3), (- 1, 7), (300, 8)]" "replicate 60 0", where 'a = 32] by simp

end
