(* ===== verification/Stream_Buf.thy ===== *)
theory Stream_Buf
  imports Prelude
begin

text \<open>
  The stream buffer of asio, \<open>src/asio/basic_streambuf.hpp\<close>: a vector with a get area and a put area, from
  which the network sessions receive and send. The lemmas show that its operations are those of a queue of
  bytes, and when memory handed to a pending operation stays valid.
\<close>

section \<open>State\<close>

text \<open>
  Pointers are offsets into the vector: \<open>gptr\<close>, \<open>egptr\<close>, \<open>pptr\<close>, \<open>epptr\<close>. \<open>sb_gen\<close> counts how often the
  vector has moved to new memory; how far it grows beyond what is needed is up to the library, \<open>grow\<close>.
\<close>

record streambuf =
  sb_max :: nat
  sb_buf :: "byte list"
  sb_cap :: nat
  sb_gen :: nat
  sb_gnext :: nat
  sb_gend :: nat
  sb_pnext :: nat
  sb_pend :: nat

definition buffer_delta :: nat where "buffer_delta = 128"

definition sb_new :: "nat \<Rightarrow> streambuf" where
  "sb_new max_size =
     (let pend = min max_size buffer_delta
      in \<lparr> sb_max = max_size, sb_buf = replicate (max pend 1) 0, sb_cap = max pend 1, sb_gen = 0,
           sb_gnext = 0, sb_gend = 0, sb_pnext = 0, sb_pend = pend \<rparr>)"

definition sb_size :: "streambuf \<Rightarrow> nat" where
  "sb_size s = sb_pnext s - sb_gnext s"

definition sb_data :: "streambuf \<Rightarrow> byte list" where
  "sb_data s = slice_of (sb_buf s) (sb_gnext s) (sb_size s)"

section \<open>Operations\<close>

text \<open>\<open>vector::resize\<close>: new elements are zero; beyond the capacity everything moves.\<close>

definition vector_resize :: "(nat \<Rightarrow> nat \<Rightarrow> nat) \<Rightarrow> nat \<Rightarrow> streambuf \<Rightarrow> streambuf" where
  "vector_resize grow n s =
     (let s = s\<lparr> sb_buf := take n (sb_buf s) @ replicate (n - length (sb_buf s)) 0 \<rparr>
      in if n \<le> sb_cap s then s else s\<lparr> sb_cap := grow (sb_cap s) n, sb_gen := sb_gen s + 1 \<rparr>)"

definition memmove_down :: "byte list \<Rightarrow> nat \<Rightarrow> nat \<Rightarrow> byte list" where
  "memmove_down buf from n = slice_of buf from n @ drop n buf"

text \<open>A \<open>length_error\<close> is not caught by the sessions.\<close>

definition sb_reserve :: "(nat \<Rightarrow> nat \<Rightarrow> nat) \<Rightarrow> nat \<Rightarrow> streambuf \<Rightarrow> streambuf res" where
  "sb_reserve grow n s =
     (let gnext = sb_gnext s; pnext = sb_pnext s; pend = sb_pend s
      in if n \<le> pend - pnext then Inr s
         else
           let (s, pnext) = (if gnext > 0 then (s\<lparr> sb_buf := memmove_down (sb_buf s) gnext (pnext - gnext) \<rparr>, pnext - gnext)
                             else (s, pnext))
           in res_bind
                (if n > pend - pnext then
                   if n \<le> sb_max s \<and> pnext \<le> sb_max s - n then
                     let pend = pnext + n in Inr (vector_resize grow (max pend 1) s, pend)
                   else Inl Uncaught_Exception
                 else Inr (s, pend)) (\<lambda>(s, pend).
              Inr (s\<lparr> sb_gnext := 0, sb_gend := pnext, sb_pnext := pnext, sb_pend := pend \<rparr>)))"

text \<open>\<open>pbump\<close> and \<open>gbump\<close> take an \<open>int\<close>.\<close>

definition bump :: "nat \<Rightarrow> nat \<Rightarrow> nat" where
  "bump p n = nat (int p + sint (word_of_nat n :: 32 word))"

definition sb_commit :: "nat \<Rightarrow> streambuf \<Rightarrow> streambuf" where
  "sb_commit n s =
     (let n = (if sb_pnext s + n > sb_pend s then sb_pend s - sb_pnext s else n); p = bump (sb_pnext s) n
      in s\<lparr> sb_pnext := p, sb_gend := p \<rparr>)"

definition sb_consume :: "nat \<Rightarrow> streambuf \<Rightarrow> streambuf" where
  "sb_consume n s =
     (let s = (if sb_gend s < sb_pnext s then s\<lparr> sb_gend := sb_pnext s \<rparr> else s);
          n = (if sb_gnext s + n > sb_pnext s then sb_pnext s - sb_gnext s else n)
      in s\<lparr> sb_gnext := bump (sb_gnext s) n \<rparr>)"

text \<open>A memory area that was given to an operation of the socket: generation, start and length.\<close>

record area =
  ar_gen :: nat
  ar_pos :: nat
  ar_len :: nat

definition sb_prepare :: "(nat \<Rightarrow> nat \<Rightarrow> nat) \<Rightarrow> nat \<Rightarrow> streambuf \<Rightarrow> (area \<times> streambuf) res" where
  "sb_prepare grow n s =
     res_bind (sb_reserve grow n s) (\<lambda>s. Inr (\<lparr> ar_gen = sb_gen s, ar_pos = sb_pnext s, ar_len = n \<rparr>, s))"

definition sb_data_area :: "streambuf \<Rightarrow> area" where
  "sb_data_area s = \<lparr> ar_gen = sb_gen s, ar_pos = sb_gnext s, ar_len = sb_size s \<rparr>"

text \<open>What the system does with an area later on: it fills its beginning, or reads it.\<close>

definition area_fill :: "area \<Rightarrow> byte list \<Rightarrow> streambuf \<Rightarrow> streambuf res" where
  "area_fill a bytes s =
     (if ar_gen a \<noteq> sb_gen s then Inl Use_After_Free
      else if length bytes > ar_len a \<or> ar_pos a + length bytes > length (sb_buf s) then Inl Oob_Write
      else Inr (s\<lparr> sb_buf := take (ar_pos a) (sb_buf s) @ bytes @ drop (ar_pos a + length bytes) (sb_buf s) \<rparr>))"

definition area_read :: "area \<Rightarrow> streambuf \<Rightarrow> byte list res" where
  "area_read a s = (if ar_gen a \<noteq> sb_gen s then Inl Use_After_Free else rd_slice (sb_buf s) (ar_pos a) (ar_len a))"

text \<open>The stream side: \<open>sputc\<close> and \<open>sbumpc\<close> of \<open>std::streambuf\<close> with the overrides of asio.\<close>

definition sb_put :: "byte \<Rightarrow> streambuf \<Rightarrow> streambuf" where
  "sb_put c s = s\<lparr> sb_buf := (sb_buf s)[sb_pnext s := c], sb_pnext := bump (sb_pnext s) 1 \<rparr>"

definition sb_overflow :: "(nat \<Rightarrow> nat \<Rightarrow> nat) \<Rightarrow> byte \<Rightarrow> streambuf \<Rightarrow> streambuf res" where
  "sb_overflow grow c s =
     res_bind
       (if sb_pnext s = sb_pend s then
          let buffer_size = sb_pnext s - sb_gnext s
          in if buffer_size < sb_max s \<and> sb_max s - buffer_size < buffer_delta then sb_reserve grow (sb_max s - buffer_size) s
             else sb_reserve grow buffer_delta s
        else Inr s) (\<lambda>s. Inr (sb_put c s))"

definition sb_sputc :: "(nat \<Rightarrow> nat \<Rightarrow> nat) \<Rightarrow> byte \<Rightarrow> streambuf \<Rightarrow> streambuf res" where
  "sb_sputc grow c s = (if sb_pnext s < sb_pend s then Inr (sb_put c s) else sb_overflow grow c s)"

fun sb_sputn :: "(nat \<Rightarrow> nat \<Rightarrow> nat) \<Rightarrow> byte list \<Rightarrow> streambuf \<Rightarrow> streambuf res" where
  "sb_sputn grow [] s = Inr s"
| "sb_sputn grow (c # cs) s = res_bind (sb_sputc grow c s) (sb_sputn grow cs)"

definition sb_underflow :: "streambuf \<Rightarrow> byte option \<times> streambuf" where
  "sb_underflow s =
     (if sb_gnext s < sb_pnext s then (Some (sb_buf s ! sb_gnext s), s\<lparr> sb_gend := sb_pnext s \<rparr>) else (None, s))"

definition sb_sbumpc :: "streambuf \<Rightarrow> byte option \<times> streambuf" where
  "sb_sbumpc s =
     (let (c, s) = (if sb_gnext s < sb_gend s then (Some (sb_buf s ! sb_gnext s), s) else sb_underflow s)
      in case c of None \<Rightarrow> (None, s) | Some c \<Rightarrow> (Some c, s\<lparr> sb_gnext := bump (sb_gnext s) 1 \<rparr>))"

fun sb_sgetn :: "nat \<Rightarrow> streambuf \<Rightarrow> byte list \<times> streambuf" where
  "sb_sgetn 0 s = ([], s)"
| "sb_sgetn (Suc n) s =
     (case sb_sbumpc s of (None, s) \<Rightarrow> ([], s)
      | (Some c, s) \<Rightarrow> let (cs, s) = sb_sgetn n s in (c # cs, s))"

text \<open>How much \<open>async_read\<close> asks for at a time.\<close>

definition read_size_helper :: "nat \<Rightarrow> streambuf \<Rightarrow> nat" where
  "read_size_helper max_size s = min (max 512 (sb_cap s - sb_size s)) (min max_size (sb_max s - sb_size s))"

section \<open>A queue of bytes\<close>

text \<open>Everything is below \<open>2 ^ 31\<close>, so that \<open>int\<close> holds the distances.\<close>

definition sb_ok :: "streambuf \<Rightarrow> bool" where
  "sb_ok s \<longleftrightarrow> sb_gnext s \<le> sb_gend s \<and> sb_gend s \<le> sb_pnext s \<and> sb_pnext s \<le> sb_pend s
     \<and> length (sb_buf s) = max (sb_pend s) 1 \<and> length (sb_buf s) \<le> sb_cap s \<and> sb_pend s \<le> sb_max s
     \<and> sb_pend s < 2 ^ 31"

definition grows :: "(nat \<Rightarrow> nat \<Rightarrow> nat) \<Rightarrow> bool" where
  "grows grow \<longleftrightarrow> (\<forall>c n. n \<le> grow c n)"

lemma bump_small [simp]: "n < 2 ^ 31 \<Longrightarrow> bump p n = p + n"
  by (simp add: bump_def signed_of_nat signed_take_bit_int_eq_self)

lemma sb_new_ok: "sb_ok (sb_new m)" "sb_data (sb_new m) = []" "sb_gen (sb_new m) = 0"
  by (auto simp: sb_ok_def sb_new_def Let_def buffer_delta_def sb_data_def sb_size_def slice_of_def)

lemma sb_data_between: "sb_data s = drop (sb_gnext s) (take (sb_pnext s) (sb_buf s))"
  by (simp add: sb_data_def sb_size_def slice_of_def drop_take)

lemma sb_ok_buf: "sb_ok s \<Longrightarrow> length b = length (sb_buf s) \<Longrightarrow> sb_ok (s\<lparr> sb_buf := b \<rparr>)"
  by (auto simp: sb_ok_def)

lemma take_resize: "c \<le> length b \<Longrightarrow> c \<le> k \<Longrightarrow> take c (take k b @ replicate m x) = take c b"
  by (simp add: min_def)

lemma length_sb_data [simp]: "sb_ok s \<Longrightarrow> length (sb_data s) = sb_size s"
  by (auto simp: sb_ok_def sb_data_def sb_size_def)

lemma memmove_down_data:
  assumes "from + n \<le> length buf"
  shows "length (memmove_down buf from n) = length buf" "slice_of (memmove_down buf from n) 0 n = slice_of buf from n"
  using assms by (simp_all add: memmove_down_def slice_of_def)

text \<open>Making room keeps the bytes that wait, and there is room.\<close>

lemma sb_reserve_ok:
  assumes "sb_ok s" "grows grow" "sb_size s + n \<le> sb_max s" "sb_size s + n < 2 ^ 31"
  shows "\<exists>s'. sb_reserve grow n s = Inr s' \<and> sb_ok s' \<and> sb_data s' = sb_data s \<and> n \<le> sb_pend s' - sb_pnext s'
    \<and> sb_max s' = sb_max s \<and> sb_size s' = sb_size s
    \<and> (sb_size s + n \<le> sb_cap s \<longrightarrow> sb_gen s' = sb_gen s \<and> sb_cap s' = sb_cap s)
    \<and> length (sb_buf s') \<le> max (length (sb_buf s)) (sb_size s + n)"
proof (cases "n \<le> sb_pend s - sb_pnext s")
  case True
  then show ?thesis using assms(1) by (simp add: sb_reserve_def Let_def)
next
  case False
  let ?g = "sb_gnext s" and ?c = "sb_pnext s - sb_gnext s"
  define t where "t = (if ?g > 0 then s\<lparr> sb_buf := memmove_down (sb_buf s) ?g ?c \<rparr> else s)"
  have in_buf: "?g + ?c \<le> length (sb_buf s)" using assms(1) by (auto simp: sb_ok_def)
  have t: "length (sb_buf t) = length (sb_buf s)" "slice_of (sb_buf t) 0 ?c = sb_data s" "sb_cap t = sb_cap s"
    "sb_gen t = sb_gen s" "sb_max t = sb_max s" "sb_pend t = sb_pend s"
    using memmove_down_data [OF in_buf] by (simp_all add: t_def sb_data_def sb_size_def)
  have c: "?c = sb_size s" "?c \<le> sb_pend s" using assms(1) by (auto simp: sb_ok_def sb_size_def)
  have res: "sb_reserve grow n s = (if n > sb_pend s - ?c
      then Inr ((vector_resize grow (max (?c + n) 1) t)\<lparr> sb_gnext := 0, sb_gend := ?c, sb_pnext := ?c, sb_pend := ?c + n \<rparr>)
      else Inr (t\<lparr> sb_gnext := 0, sb_gend := ?c, sb_pnext := ?c, sb_pend := sb_pend s \<rparr>))"
    using False assms(3) t(5) c by (auto simp: sb_reserve_def Let_def t_def)
  show ?thesis
  proof (cases "n > sb_pend s - ?c")
    case True
    let ?u = "vector_resize grow (max (?c + n) 1) t"
    let ?k = "max (?c + n) 1"
    have cap: "1 \<le> sb_cap s" using assms(1) by (auto simp: sb_ok_def)
    have "length (take ?k (sb_buf t) @ replicate (?k - length (sb_buf t)) 0) = ?k" by simp
    moreover have "?k \<le> grow (sb_cap s) ?k" using assms(2) by (simp only: grows_def)
    ultimately have u: "length (sb_buf ?u) = ?k" "sb_max ?u = sb_max s" "?k \<le> sb_cap ?u"
      using t by (simp_all add: vector_resize_def Let_def del: length_append)
    have gen: "?c + n \<le> sb_cap s \<longrightarrow> sb_gen ?u = sb_gen s \<and> sb_cap ?u = sb_cap s"
      using t cap by (simp add: vector_resize_def Let_def)
    have "sb_buf ?u = take (max (?c + n) 1) (sb_buf t) @ replicate (max (?c + n) 1 - length (sb_buf t)) 0"
      by (simp add: vector_resize_def Let_def)
    then have "take ?c (sb_buf ?u) = take ?c (sb_buf t)"
      using take_resize [of ?c "sb_buf t" ?k] t(1) in_buf by simp
    then have "slice_of (sb_buf ?u) 0 ?c = sb_data s" using t(2) by (simp add: slice_of_def)
    moreover define v where
      "v = ?u\<lparr> sb_gnext := 0, sb_gend := ?c, sb_pnext := ?c, sb_pend := ?c + n \<rparr>"
    ultimately have v: "sb_data v = sb_data s" "sb_size v = sb_size s"
      by (simp_all add: sb_data_def sb_size_def)
    have "sb_ok v"
      unfolding sb_ok_def using u c assms(3,4) by (simp add: v_def)
    moreover have "sb_reserve grow n s = Inr v" using res True by (simp only: v_def if_True)
    moreover have "n \<le> sb_pend v - sb_pnext v" "sb_max v = sb_max s" using u(2) by (simp_all add: v_def)
    moreover have "sb_size s + n \<le> sb_cap s \<longrightarrow> sb_gen v = sb_gen s \<and> sb_cap v = sb_cap s"
      using gen c(1) by (simp add: v_def)
    moreover have "length (sb_buf v) \<le> max (length (sb_buf s)) (sb_size s + n)"
    proof -
      have "1 \<le> length (sb_buf s)" using assms(1) by (simp add: sb_ok_def)
      then show ?thesis using u(1) unfolding c(1) v_def by simp
    qed
    ultimately show ?thesis using v by - (intro exI [of _ v] conjI, assumption+)
  next
    case False
    define v where "v = t\<lparr> sb_gnext := 0, sb_gend := ?c, sb_pnext := ?c, sb_pend := sb_pend s \<rparr>"
    have rv: "sb_reserve grow n s = Inr v" using res False by (simp only: v_def if_False)
    have v: "sb_data v = sb_data s" "sb_size v = sb_size s" "sb_max v = sb_max s" "sb_gen v = sb_gen s" "sb_cap v = sb_cap s"
      "length (sb_buf v) = length (sb_buf s)" "sb_pend v - sb_pnext v = sb_pend s - ?c"
      using t by (simp_all add: v_def sb_data_def sb_size_def)
    have "sb_ok v"
      using assms(1) c(2) t unfolding sb_ok_def v_def by (simp only: streambuf.simps) auto
    then show ?thesis using rv v False by simp
  qed
qed

lemma sb_prepare_ok:
  assumes "sb_ok s" "grows grow" "sb_size s + n \<le> sb_max s" "sb_size s + n < 2 ^ 31"
  shows "\<exists>a s'. sb_prepare grow n s = Inr (a, s') \<and> sb_ok s' \<and> sb_data s' = sb_data s \<and> sb_max s' = sb_max s
    \<and> sb_size s' = sb_size s \<and> a = \<lparr> ar_gen = sb_gen s', ar_pos = sb_pnext s', ar_len = n \<rparr>
    \<and> sb_pnext s' + n \<le> sb_pend s' \<and> (sb_size s + n \<le> sb_cap s \<longrightarrow> sb_gen s' = sb_gen s \<and> sb_cap s' = sb_cap s)
    \<and> length (sb_buf s') \<le> max (length (sb_buf s)) (sb_size s + n)"
proof -
  obtain s' where s': "sb_reserve grow n s = Inr s'" "sb_ok s'" "sb_data s' = sb_data s" "n \<le> sb_pend s' - sb_pnext s'"
    "sb_max s' = sb_max s" "sb_size s' = sb_size s"
    "sb_size s + n \<le> sb_cap s \<longrightarrow> sb_gen s' = sb_gen s \<and> sb_cap s' = sb_cap s"
    "length (sb_buf s') \<le> max (length (sb_buf s)) (sb_size s + n)"
    using sb_reserve_ok [OF assms] by blast
  have "sb_pnext s' + n \<le> sb_pend s'" using s'(2,4) by (auto simp: sb_ok_def)
  then show ?thesis using s' by (simp add: sb_prepare_def)
qed

text \<open>Filling an area at the put pointer changes nothing that waits; committing appends it.\<close>

lemma area_fill_ok:
  assumes "sb_ok s" "ar_gen a = sb_gen s" "ar_pos a = sb_pnext s" "length bytes \<le> ar_len a"
    "sb_pnext s + ar_len a \<le> sb_pend s"
  shows "\<exists>s'. area_fill a bytes s = Inr s' \<and> sb_ok s' \<and> sb_data s' = sb_data s
    \<and> slice_of (sb_buf s') (sb_pnext s) (length bytes) = bytes
    \<and> s' = s\<lparr> sb_buf := sb_buf s' \<rparr> \<and> length (sb_buf s') = length (sb_buf s)"
proof -
  have l: "sb_pnext s + length bytes \<le> length (sb_buf s)" using assms by (auto simp: sb_ok_def)
  let ?b = "take (sb_pnext s) (sb_buf s) @ bytes @ drop (sb_pnext s + length bytes) (sb_buf s)"
  have f: "area_fill a bytes s = Inr (s\<lparr> sb_buf := ?b \<rparr>)" using assms l by (simp add: area_fill_def)
  have len: "length ?b = length (sb_buf s)" using l by simp
  have slice: "slice_of ?b (sb_pnext s) (length bytes) = bytes" using l by (simp add: slice_of_def)
  have "slice_of ?b (sb_gnext s) (sb_size s) = sb_data s"
    using assms(1) l by (simp add: sb_data_between slice_of_def sb_size_def sb_ok_def drop_take min_def)
  then have data: "sb_data (s\<lparr> sb_buf := ?b \<rparr>) = sb_data s" by (simp add: sb_data_def sb_size_def)
  have "sb_ok (s\<lparr> sb_buf := ?b \<rparr>)" by (rule sb_ok_buf [OF assms(1) len])
  then show ?thesis using f len slice data by (intro exI [of _ "s\<lparr> sb_buf := ?b \<rparr>"]) simp
qed

lemma slice_of_add: "slice_of b off (m + n) = slice_of b off m @ slice_of b (off + m) n"
  by (simp add: slice_of_def take_add add.commute)

lemma sb_commit_eq:
  assumes "sb_ok s"
  shows "sb_commit n s = s\<lparr> sb_pnext := sb_pnext s + min n (sb_pend s - sb_pnext s),
     sb_gend := sb_pnext s + min n (sb_pend s - sb_pnext s) \<rparr>"
  using assms by (auto simp: sb_commit_def sb_ok_def Let_def min_def)

lemma sb_commit_ok:
  assumes "sb_ok s"
  shows "sb_ok (sb_commit n s)"
    "sb_data (sb_commit n s) = sb_data s @ slice_of (sb_buf s) (sb_pnext s) (min n (sb_pend s - sb_pnext s))"
    "sb_gend (sb_commit n s) = sb_pnext (sb_commit n s)"
proof -
  let ?n = "min n (sb_pend s - sb_pnext s)"
  show "sb_ok (sb_commit n s)" "sb_gend (sb_commit n s) = sb_pnext (sb_commit n s)"
    using assms by (auto simp: sb_commit_eq sb_ok_def)
  have "sb_gnext s \<le> length (take (sb_pnext s) (sb_buf s))" using assms by (auto simp: sb_ok_def)
  then show "sb_data (sb_commit n s) = sb_data s @ slice_of (sb_buf s) (sb_pnext s) ?n"
    using assms by (simp add: sb_commit_eq sb_data_between slice_of_def take_add del: length_take)
qed

lemma sb_consume_eq:
  assumes "sb_ok s"
  shows "sb_consume n s = s\<lparr> sb_gend := sb_pnext s, sb_gnext := sb_gnext s + min n (sb_size s) \<rparr>"
  using assms by (auto simp: sb_consume_def sb_ok_def Let_def min_def sb_size_def)

lemma sb_consume_ok:
  assumes "sb_ok s"
  shows "sb_ok (sb_consume n s)" "sb_data (sb_consume n s) = drop n (sb_data s)"
  using assms by (auto simp: sb_consume_eq sb_ok_def sb_data_def sb_size_def slice_of_def drop_take min_def add.commute
      split: if_splits)

text \<open>Putting and getting bytes one by one.\<close>

lemma sb_put_ok:
  assumes "sb_ok s" "sb_pnext s < sb_pend s"
  shows "sb_ok (sb_put c s)" "sb_data (sb_put c s) = sb_data s @ [c]" "sb_max (sb_put c s) = sb_max s"
    "sb_size (sb_put c s) = sb_size s + 1"
proof -
  show "sb_ok (sb_put c s)" "sb_max (sb_put c s) = sb_max s" using assms by (auto simp: sb_put_def sb_ok_def)
  show size: "sb_size (sb_put c s) = sb_size s + 1" using assms by (auto simp: sb_put_def sb_size_def sb_ok_def)
  have g: "sb_gnext s \<le> length (take (sb_pnext s) (sb_buf s))" "sb_pnext s < length (sb_buf s)"
    using assms by (auto simp: sb_ok_def)
  then have "take (sb_pnext s + 1) ((sb_buf s)[sb_pnext s := c]) = take (sb_pnext s) (sb_buf s) @ [c]"
    by (simp add: take_Suc_conv_app_nth)
  then show "sb_data (sb_put c s) = sb_data s @ [c]"
    using g(1) by (simp add: sb_data_between sb_put_def del: length_take)
qed


lemma sb_sputc_ok:
  assumes "sb_ok s" "grows grow" "sb_size s < sb_max s" "sb_size s + buffer_delta < 2 ^ 31"
  shows "\<exists>s'. sb_sputc grow c s = Inr s' \<and> sb_ok s' \<and> sb_data s' = sb_data s @ [c] \<and> sb_max s' = sb_max s
    \<and> sb_size s' = sb_size s + 1"
proof (cases "sb_pnext s < sb_pend s")
  case True
  then show ?thesis using sb_put_ok [OF assms(1)] by (simp add: sb_sputc_def)
next
  case False
  then have full: "sb_pnext s = sb_pend s" using assms(1) by (simp add: sb_ok_def)
  define n where "n = (if sb_max s - sb_size s < buffer_delta then sb_max s - sb_size s else buffer_delta)"
  have n: "0 < n" "sb_size s + n \<le> sb_max s" "sb_size s + n < 2 ^ 31"
    using assms(3,4) by (auto simp: n_def buffer_delta_def)
  have put: "sb_sputc grow c s = res_bind (sb_reserve grow n s) (\<lambda>s. Inr (sb_put c s))"
    using full assms(3) by (simp add: sb_sputc_def sb_overflow_def Let_def n_def sb_size_def)
  obtain s' where s': "sb_reserve grow n s = Inr s'" "sb_ok s'" "sb_data s' = sb_data s" "n \<le> sb_pend s' - sb_pnext s'"
    "sb_max s' = sb_max s" "sb_size s' = sb_size s"
    using sb_reserve_ok [OF assms(1,2) n(2,3)] by blast
  have "sb_pnext s' < sb_pend s'" using s'(4) n(1) by linarith
  then show ?thesis using sb_put_ok [OF s'(2)] s' put by simp
qed

lemma sb_sputn_ok:
  assumes "sb_ok s" "grows grow" "sb_size s + length bytes \<le> sb_max s" "sb_size s + length bytes + buffer_delta < 2 ^ 31"
  shows "\<exists>s'. sb_sputn grow bytes s = Inr s' \<and> sb_ok s' \<and> sb_data s' = sb_data s @ bytes \<and> sb_max s' = sb_max s"
  using assms
proof (induction bytes arbitrary: s)
  case (Cons c cs)
  have "sb_size s < sb_max s" "sb_size s + buffer_delta < 2 ^ 31" using Cons.prems(3,4) by auto
  then obtain s1 where s1: "sb_sputc grow c s = Inr s1" "sb_ok s1" "sb_data s1 = sb_data s @ [c]" "sb_max s1 = sb_max s"
    "sb_size s1 = sb_size s + 1" using sb_sputc_ok [OF Cons.prems(1,2), of c] by blast
  then show ?case using Cons.IH [OF s1(2) Cons.prems(2)] Cons.prems(3,4) by auto
qed simp

text \<open>When the put area has the room, the bytes go there and nothing moves.\<close>

lemma sb_sputn_room:
  assumes "sb_ok s" "sb_pnext s + length bytes \<le> sb_pend s"
  shows "\<exists>s'. sb_sputn grow bytes s = Inr s' \<and> sb_ok s' \<and> sb_data s' = sb_data s @ bytes \<and> sb_max s' = sb_max s
    \<and> sb_gen s' = sb_gen s \<and> sb_gnext s' = sb_gnext s \<and> sb_pnext s' = sb_pnext s + length bytes \<and> sb_pend s' = sb_pend s
    \<and> sb_cap s' = sb_cap s \<and> take (sb_pnext s) (sb_buf s') = take (sb_pnext s) (sb_buf s)"
  using assms
proof (induction bytes arbitrary: s)
  case (Cons c cs)
  have room: "sb_pnext s < sb_pend s" using Cons.prems(2) by simp
  let ?s = "sb_put c s"
  note put = sb_put_ok [OF Cons.prems(1) room, of c]
  have f: "sb_pnext ?s = sb_pnext s + 1" "sb_pend ?s = sb_pend s" "sb_gen ?s = sb_gen s" "sb_gnext ?s = sb_gnext s" "sb_cap ?s = sb_cap s"
    "take (sb_pnext s) (sb_buf ?s) = take (sb_pnext s) (sb_buf s)" by (simp_all add: sb_put_def)
  obtain s' where s': "sb_sputn grow cs ?s = Inr s'" "sb_ok s'" "sb_data s' = sb_data ?s @ cs" "sb_max s' = sb_max ?s"
    "sb_gen s' = sb_gen ?s" "sb_gnext s' = sb_gnext ?s" "sb_pnext s' = sb_pnext ?s + length cs" "sb_pend s' = sb_pend ?s"
    "sb_cap s' = sb_cap ?s" "take (sb_pnext ?s) (sb_buf s') = take (sb_pnext ?s) (sb_buf ?s)"
    using Cons.IH [OF put(1)] Cons.prems(2) f by auto
  have "take (sb_pnext s) (take (sb_pnext ?s) (sb_buf s')) = take (sb_pnext s) (take (sb_pnext ?s) (sb_buf ?s))"
    using s'(10) by simp
  then have "take (sb_pnext s) (sb_buf s') = take (sb_pnext s) (sb_buf s)" using f by (simp add: min_def)
  then show ?case using s' f put room by (simp add: sb_sputc_def)
qed simp

lemma sb_sbumpc_ok:
  assumes "sb_ok s"
  shows "sb_ok (snd (sb_sbumpc s))" "sb_data (snd (sb_sbumpc s)) = tl (sb_data s)"
    "fst (sb_sbumpc s) = (case sb_data s of [] \<Rightarrow> None | c # _ \<Rightarrow> Some c)"
    "sb_pnext (snd (sb_sbumpc s)) = sb_pnext s" "sb_pend (snd (sb_sbumpc s)) = sb_pend s" "sb_gen (snd (sb_sbumpc s)) = sb_gen s"
    "sb_cap (snd (sb_sbumpc s)) = sb_cap s" "sb_max (snd (sb_sbumpc s)) = sb_max s" "sb_buf (snd (sb_sbumpc s)) = sb_buf s"
proof -
  let ?t = "take (sb_pnext s) (sb_buf s)"
  show "sb_ok (snd (sb_sbumpc s))" using assms by (auto simp: sb_sbumpc_def sb_underflow_def sb_ok_def Let_def)
  show "sb_data (snd (sb_sbumpc s)) = tl (sb_data s)"
    using assms by (auto simp: sb_sbumpc_def sb_underflow_def sb_data_between Let_def drop_Suc tl_drop sb_ok_def)
  show "fst (sb_sbumpc s) = (case sb_data s of [] \<Rightarrow> None | c # _ \<Rightarrow> Some c)"
  proof (cases "sb_gnext s < sb_pnext s")
    case True
    then have "sb_gnext s < length ?t" "?t ! sb_gnext s = sb_buf s ! sb_gnext s" using assms by (auto simp: sb_ok_def)
    then have "sb_data s = sb_buf s ! sb_gnext s # drop (Suc (sb_gnext s)) ?t"
      unfolding sb_data_between by (metis Cons_nth_drop_Suc)
    then show ?thesis using True by (simp add: sb_sbumpc_def sb_underflow_def)
  next
    case False
    then have "sb_data s = []" "\<not> sb_gnext s < sb_gend s" using assms by (auto simp: sb_data_between sb_ok_def)
    then show ?thesis using False by (simp add: sb_sbumpc_def sb_underflow_def)
  qed
qed (auto simp: sb_sbumpc_def sb_underflow_def Let_def)

lemma sb_sgetn_ok:
  assumes "sb_ok s" "sb_sgetn n s = (bytes, s')"
  shows "bytes = take n (sb_data s) \<and> sb_ok s' \<and> sb_data s' = drop n (sb_data s) \<and> sb_pnext s' = sb_pnext s
    \<and> sb_pend s' = sb_pend s \<and> sb_gen s' = sb_gen s \<and> sb_cap s' = sb_cap s \<and> sb_max s' = sb_max s \<and> sb_buf s' = sb_buf s"
  using assms
proof (induction n arbitrary: s bytes s')
  case (Suc n)
  obtain c s1 where one: "sb_sbumpc s = (c, s1)" by force
  note get = sb_sbumpc_ok [OF Suc.prems(1), unfolded one fst_conv snd_conv]
  show ?case
  proof (cases "sb_data s")
    case Nil
    then show ?thesis using get Suc.prems(2) one by simp
  next
    case (Cons b bs)
    obtain cs s2 where rest: "sb_sgetn n s1 = (cs, s2)" by force
    have "s' = s2" "bytes = b # cs" using Suc.prems(2) one rest get(3) Cons by simp_all
    then show ?thesis using Suc.IH [OF get(1) rest] get Cons by simp
  qed
qed simp

end
