(* ===== verification/Net_Session.thy ===== *)
theory Net_Session
  imports Rtp_Stream Stream_Buf
begin

text \<open>
  The network sessions over their stream buffers: \<open>Networks/Dispatcher.h\<close>, \<open>Session\<close>, \<open>UdpSession\<close> and
  \<open>TcpSession\<close>, with the composed read and write of asio (\<open>src/asio/impl/read.hpp\<close>, \<open>write.hpp\<close>). An
  operation that was started holds an area of a stream buffer until it completes. The lemmas show that what
  arrives reaches the read handler whole and in order, in bounded memory, what is written goes out as it is
  when the session waits for it, and what happens when it does not wait.
\<close>

section \<open>State\<close>

text \<open>
  \<open>Recv_Some\<close> completes with one transfer, \<open>Recv_Stream\<close> is the loop of \<open>async_read\<close>, which has transferred
  so many bytes; the same for sending. \<open>ns_log\<close> notes the calls of the handlers the client connected.
\<close>

datatype receive_op = Recv_Some area | Recv_Stream area nat

datatype send_op = Send_Some area | Send_Stream area nat

datatype net_event =
    Ev_Error nat
  | Ev_Read "byte list"
  | Ev_Complete nat nat
  | Ev_Write nat
  | Ev_Close

record net_session =
  ns_open :: bool
  ns_buffer_size :: nat
  ns_request :: streambuf
  ns_response :: streambuf
  ns_receives :: "receive_op list"
  ns_sends :: "send_op list"
  ns_on_error :: bool
  ns_on_complete :: bool
  ns_on_write :: bool
  ns_on_close :: bool
  ns_log :: "net_event list"

definition net_session_new :: "nat \<Rightarrow> net_session" where
  "net_session_new size_max =
     \<lparr> ns_open = False, ns_buffer_size = 0, ns_request = sb_new size_max, ns_response = sb_new size_max,
       ns_receives = [], ns_sends = [], ns_on_error = False, ns_on_complete = False, ns_on_write = False,
       ns_on_close = False, ns_log = [] \<rparr>"

definition net_log :: "bool \<Rightarrow> net_event \<Rightarrow> net_session \<Rightarrow> net_session" where
  "net_log connected e s = (if connected then s\<lparr> ns_log := ns_log s @ [e] \<rparr> else s)"

section \<open>Handlers\<close>

definition check_error :: "asio_error \<Rightarrow> nat \<Rightarrow> bool \<Rightarrow> net_session \<Rightarrow> bool \<times> net_session" where
  "check_error err param evaluate_express s =
     (if err \<noteq> No_Error \<and> evaluate_express then (False, net_log (ns_on_error s) (Ev_Error param) s) else (True, s))"

text \<open>
  \<open>Session::on_read\<close>. The read handler is the client's, and may start the next operation. An array that the
  stream does not fill would be handed on uninitialised; the call of an empty \<open>std::function\<close> throws.
\<close>

definition net_on_read ::
    "(byte list \<Rightarrow> net_session \<Rightarrow> net_session res) option \<Rightarrow> asio_error \<Rightarrow> nat \<Rightarrow> net_session \<Rightarrow> net_session res" where
  "net_on_read handler err bytes_transferred s =
     res_bind
       (case handler of
          Some h \<Rightarrow>
            if bytes_transferred > 0 then
              let (data, r) = sb_sgetn bytes_transferred (sb_commit bytes_transferred (ns_response s));
                  s = s\<lparr> ns_response := r \<rparr>
              in if length data < bytes_transferred then Inl Uninit_Read
                 else h data (net_log True (Ev_Read data) s)
            else Inr s
        | None \<Rightarrow> Inr s) (\<lambda>s.
     let s = snd (check_error err bytes_transferred (err \<noteq> Eof) s) in
     res_bind
       (if err = Eof \<or> ns_on_complete s \<and> ns_buffer_size s > 0 \<and> bytes_transferred < ns_buffer_size s then
          if ns_on_complete s then Inr (net_log True (Ev_Complete (ns_buffer_size s) bytes_transferred) s)
          else Inl Uncaught_Exception
        else Inr s) (\<lambda>s.
     Inr (s\<lparr> ns_response := sb_consume (sb_size (ns_response s)) (ns_response s) \<rparr>)))"

definition net_on_write :: "asio_error \<Rightarrow> nat \<Rightarrow> net_session \<Rightarrow> net_session" where
  "net_on_write err bytes_transferred s =
     (let (ok, s) = check_error err bytes_transferred True s
      in if \<not> ok then s else net_log (ns_on_write s) (Ev_Write bytes_transferred) s)"

section \<open>Datagrams\<close>

definition udp_read_some :: "(nat \<Rightarrow> nat \<Rightarrow> nat) \<Rightarrow> nat \<Rightarrow> net_session \<Rightarrow> net_session res" where
  "udp_read_some grow n s =
     res_bind (sb_prepare grow n (ns_response s)) (\<lambda>(a, r).
       Inr (s\<lparr> ns_buffer_size := n, ns_response := r, ns_receives := ns_receives s @ [Recv_Some a] \<rparr>))"

definition udp_read_max :: "(nat \<Rightarrow> nat \<Rightarrow> nat) \<Rightarrow> net_session \<Rightarrow> net_session res" where
  "udp_read_max grow s = udp_read_some grow (64 * 1024) s"

text \<open>Setting an option of a socket that is not open throws.\<close>

definition udp_write :: "(nat \<Rightarrow> nat \<Rightarrow> nat) \<Rightarrow> byte list \<Rightarrow> net_session \<Rightarrow> net_session res" where
  "udp_write grow data s =
     res_bind (sb_sputn grow data (ns_request s)) (\<lambda>q.
       let s = s\<lparr> ns_request := q, ns_sends := ns_sends s @ [Send_Some (sb_data_area q)] \<rparr>
       in if \<not> ns_open s then Inl Uncaught_Exception
          else Inr (s\<lparr> ns_request := sb_consume (sb_size q) q \<rparr>))"

section \<open>Streams\<close>

definition default_max_transfer_size :: nat where "default_max_transfer_size = 65536"

definition transfer_at_least :: "nat \<Rightarrow> asio_error \<Rightarrow> nat \<Rightarrow> nat" where
  "transfer_at_least minimum err bytes_transferred =
     (if err \<noteq> No_Error \<or> bytes_transferred \<ge> minimum then 0 else default_max_transfer_size)"

definition tcp_read :: "(nat \<Rightarrow> nat \<Rightarrow> nat) \<Rightarrow> net_session \<Rightarrow> net_session res" where
  "tcp_read grow s =
     res_bind (sb_prepare grow (read_size_helper (transfer_at_least 1 No_Error 0) (ns_response s)) (ns_response s)) (\<lambda>(a, r).
       let s = s\<lparr> ns_response := r, ns_receives := ns_receives s @ [Recv_Stream a 0] \<rparr>
       in if \<not> ns_open s then Inl Uncaught_Exception else Inr s)"

definition tcp_read_some :: "(nat \<Rightarrow> nat \<Rightarrow> nat) \<Rightarrow> nat \<Rightarrow> net_session \<Rightarrow> net_session res" where
  "tcp_read_some grow n s =
     res_bind (sb_prepare grow n (ns_response s)) (\<lambda>(a, r).
       Inr (s\<lparr> ns_response := r, ns_receives := ns_receives s @ [Recv_Some a] \<rparr>))"

definition tcp_write :: "(nat \<Rightarrow> nat \<Rightarrow> nat) \<Rightarrow> byte list \<Rightarrow> net_session \<Rightarrow> net_session res" where
  "tcp_write grow data s =
     res_bind (sb_sputn grow data (ns_request s)) (\<lambda>q.
       Inr (s\<lparr> ns_request := sb_consume (sb_size q) q, ns_sends := ns_sends s @ [Send_Stream (sb_data_area q) 0] \<rparr>))"

definition tcp_on_close :: "asio_error \<Rightarrow> net_session \<Rightarrow> net_session" where
  "tcp_on_close err s =
     (let (ok, s) = check_error err 0 True s in if \<not> ok then s else net_log (ns_on_close s) Ev_Close s)"

text \<open>What the operations under way make of a closed socket is up to the socket: they complete with an error.\<close>

definition tcp_close :: "asio_error \<Rightarrow> net_session \<Rightarrow> net_session" where
  "tcp_close err s =
     (if ns_open s then
        let (ok, s) = check_error err 0 True (s\<lparr> ns_open := False \<rparr>)
        in if \<not> ok then s else net_log (ns_on_close s) Ev_Close s
      else s)"

section \<open>What the socket does\<close>

text \<open>
  The oldest receive gets \<open>bytes\<close> (never more than its area) or an error. The last lines are those of
  \<open>read_streambuf_op\<close> behind its \<open>async_read_some\<close>.
\<close>

definition net_received ::
    "(nat \<Rightarrow> nat \<Rightarrow> nat) \<Rightarrow> (byte list \<Rightarrow> net_session \<Rightarrow> net_session res) option \<Rightarrow> asio_error \<Rightarrow> byte list \<Rightarrow> net_session
      \<Rightarrow> net_session res" where
  "net_received grow handler err bytes s =
     (case ns_receives s of
        [] \<Rightarrow> Inr s
      | op # ops \<Rightarrow>
          let s = s\<lparr> ns_receives := ops \<rparr>; n = length bytes in
          (case op of
             Recv_Some a \<Rightarrow>
               res_bind (area_fill a bytes (ns_response s)) (\<lambda>r. net_on_read handler err n (s\<lparr> ns_response := r \<rparr>))
           | Recv_Stream a sofar \<Rightarrow>
               res_bind (area_fill a bytes (ns_response s)) (\<lambda>r.
                 let r = sb_commit n r; sofar = sofar + n;
                     avail = read_size_helper (transfer_at_least 1 err sofar) r
                 in if err = No_Error \<and> n = 0 \<or> avail = 0 then net_on_read handler err sofar (s\<lparr> ns_response := r \<rparr>)
                    else res_bind (sb_prepare grow avail r) (\<lambda>(a, r).
                           Inr (s\<lparr> ns_response := r, ns_receives := Recv_Stream a sofar # ops \<rparr>)))))"

text \<open>
  The oldest send puts up to \<open>k\<close> bytes of its area on the wire. That of \<open>async_write\<close> goes on until all are
  sent, and \<open>write_streambuf_handler\<close> consumes what was sent.
\<close>

definition net_sent :: "asio_error \<Rightarrow> nat \<Rightarrow> net_session \<Rightarrow> (byte list \<times> net_session) res" where
  "net_sent err k s =
     (case ns_sends s of
        [] \<Rightarrow> Inr ([], s)
      | op # ops \<Rightarrow>
          let s = s\<lparr> ns_sends := ops \<rparr> in
          (case op of
             Send_Some a \<Rightarrow>
               res_bind (area_read a (ns_request s)) (\<lambda>bytes.
                 if err = No_Error then Inr (bytes, net_on_write err (ar_len a) s) else Inr ([], net_on_write err 0 s))
           | Send_Stream a sofar \<Rightarrow>
               res_bind (area_read (a\<lparr> ar_pos := ar_pos a + sofar, ar_len := min k (ar_len a - sofar) \<rparr>) (ns_request s))
                 (\<lambda>bytes.
                   let bytes = (if err = No_Error then bytes else []); sofar = sofar + length bytes
                   in if err = No_Error \<and> bytes \<noteq> [] \<and> sofar < ar_len a
                      then Inr (bytes, s\<lparr> ns_sends := Send_Stream a sofar # ops \<rparr>)
                      else Inr (bytes, net_on_write err sofar
                                  (s\<lparr> ns_request := sb_consume sofar (ns_request s) \<rparr>)))))"

text \<open>Bytes arrive at the socket, and the oldest receive gets at least one of them and at most what it asked for.\<close>

datatype 'a arrival = Arrive 'a | Receive nat

fun receive_area :: "receive_op \<Rightarrow> area" where
  "receive_area (Recv_Some a) = a"
| "receive_area (Recv_Stream a n) = a"

fun tcp_run ::
    "(nat \<Rightarrow> nat \<Rightarrow> nat) \<Rightarrow> (byte list \<Rightarrow> net_session \<Rightarrow> net_session res) option \<Rightarrow> byte list arrival list
      \<Rightarrow> net_session \<times> byte list \<Rightarrow> (net_session \<times> byte list) res" where
  "tcp_run grow handler [] st = Inr st"
| "tcp_run grow handler (Arrive bytes # as) (s, inbox) = tcp_run grow handler as (s, inbox @ bytes)"
| "tcp_run grow handler (Receive k # as) (s, inbox) =
     (if ns_receives s = [] \<or> inbox = [] then tcp_run grow handler as (s, inbox)
      else
        let n = min (Suc k) (ar_len (receive_area (hd (ns_receives s))))
        in res_bind (net_received grow handler No_Error (take n inbox) s) (\<lambda>s.
             tcp_run grow handler as (s, drop n inbox)))"

text \<open>A datagram comes whole, or without the bytes that do not fit.\<close>

fun udp_run ::
    "(nat \<Rightarrow> nat \<Rightarrow> nat) \<Rightarrow> (byte list \<Rightarrow> net_session \<Rightarrow> net_session res) option \<Rightarrow> byte list arrival list
      \<Rightarrow> net_session \<times> byte list list \<Rightarrow> (net_session \<times> byte list list) res" where
  "udp_run grow handler [] st = Inr st"
| "udp_run grow handler (Arrive d # as) (s, inbox) = udp_run grow handler as (s, inbox @ [d])"
| "udp_run grow handler (Receive k # as) (s, inbox) =
     (case inbox of [] \<Rightarrow> udp_run grow handler as (s, inbox)
      | d # ds \<Rightarrow>
          if ns_receives s = [] then udp_run grow handler as (s, inbox)
          else res_bind (net_received grow handler No_Error (take (ar_len (receive_area (hd (ns_receives s)))) d) s) (\<lambda>s.
                 udp_run grow handler as (s, ds)))"

section \<open>Receiving\<close>

fun ev_reads :: "net_event list \<Rightarrow> byte list list" where
  "ev_reads [] = []"
| "ev_reads (Ev_Read d # es) = d # ev_reads es"
| "ev_reads (_ # es) = ev_reads es"

lemma ev_reads_append [simp]: "ev_reads (es @ fs) = ev_reads es @ ev_reads fs"
  by (induction es rule: ev_reads.induct) simp_all

text \<open>An area at the put pointer that is still there, and nothing waits in the buffer.\<close>

definition area_open :: "area \<Rightarrow> streambuf \<Rightarrow> bool" where
  "area_open a r \<longleftrightarrow> sb_ok r \<and> sb_size r = 0 \<and> 2 ^ 31 \<le> sb_max r \<and> ar_gen a = sb_gen r \<and> ar_pos a = sb_pnext r
     \<and> sb_pnext r + ar_len a \<le> sb_pend r"

definition tcp_waiting :: "net_session \<Rightarrow> bool" where
  "tcp_waiting s \<longleftrightarrow> ns_open s \<and> ns_buffer_size s = 0 \<and> length (sb_buf (ns_response s)) \<le> 2 * 65536
     \<and> (\<exists>a. ns_receives s = [Recv_Stream a 0] \<and> area_open a (ns_response s) \<and> 512 \<le> ar_len a \<and> ar_len a \<le> 65536)"

definition udp_waiting :: "net_session \<Rightarrow> bool" where
  "udp_waiting s \<longleftrightarrow> length (sb_buf (ns_response s)) \<le> 65536 \<and> 65536 \<le> sb_cap (ns_response s)
     \<and> (\<exists>a. ns_receives s = [Recv_Some a] \<and> area_open a (ns_response s) \<and> ar_len a = 65536)"

text \<open>
  A buffer goes through \<open>on_read\<close>: what was transferred is taken out, whether it was committed once or, as by
  \<open>async_read\<close>, twice; what the second commit let in is at most as long.
\<close>

lemma take_out:
  assumes "sb_ok r" "sb_data r = bytes @ rest" "sb_sgetn (length bytes) r = (data, r')"
  shows "data = bytes \<and> sb_ok r' \<and> sb_data r' = rest \<and> sb_max r' = sb_max r \<and> sb_buf r' = sb_buf r \<and> sb_cap r' = sb_cap r
    \<and> sb_gen r' = sb_gen r"
  using sb_sgetn_ok [OF assms(1,3)] assms(2) by simp

lemma commit_keeps [simp]:
  "sb_max (sb_commit n r) = sb_max r" "sb_buf (sb_commit n r) = sb_buf r" "sb_cap (sb_commit n r) = sb_cap r"
  "sb_gen (sb_commit n r) = sb_gen r" "sb_pend (sb_commit n r) = sb_pend r"
  by (simp_all add: sb_commit_def Let_def)

lemma data_nil_size: "sb_ok r \<Longrightarrow> sb_data r = [] \<longleftrightarrow> sb_size r = 0"
  using length_sb_data [of r] by (metis length_0_conv)

lemma area_fill_commit:
  assumes "area_open a r" "length bytes \<le> ar_len a"
  shows "\<exists>r'. area_fill a bytes r = Inr r' \<and> sb_ok (sb_commit (length bytes) r') \<and> sb_data (sb_commit (length bytes) r') = bytes
    \<and> sb_max r' = sb_max r \<and> length (sb_buf r') = length (sb_buf r) \<and> sb_cap r' = sb_cap r \<and> sb_gen r' = sb_gen r"
proof -
  have r: "sb_ok r" "sb_data r = []" "ar_gen a = sb_gen r" "ar_pos a = sb_pnext r" "sb_pnext r + ar_len a \<le> sb_pend r"
    using assms(1) data_nil_size by (auto simp: area_open_def)
  obtain r' where f: "area_fill a bytes r = Inr r'" "sb_ok r'" "sb_data r' = sb_data r"
    "slice_of (sb_buf r') (sb_pnext r) (length bytes) = bytes" "r' = r\<lparr> sb_buf := sb_buf r' \<rparr>"
    "length (sb_buf r') = length (sb_buf r)"
    using area_fill_ok [OF r(1,3,4) assms(2) r(5)] by blast
  have same: "sb_pnext r' = sb_pnext r" "sb_pend r' = sb_pend r" "sb_max r' = sb_max r" "sb_cap r' = sb_cap r" "sb_gen r' = sb_gen r"
    by (subst f(5), simp)+
  have "min (length bytes) (sb_pend r' - sb_pnext r') = length bytes" using r(5) assms(2) same by simp
  then have "sb_data (sb_commit (length bytes) r') = bytes"
    using sb_commit_ok(2) [OF f(2), of "length bytes"] f(3,4) r(2) same by simp
  then show ?thesis using f same sb_commit_ok(1) [OF f(2)] by blast
qed

lemma consume_all:
  assumes "sb_ok r"
  shows "sb_ok (sb_consume (sb_size r) r)" "sb_size (sb_consume (sb_size r) r) = 0" "sb_max (sb_consume n r) = sb_max r"
    "sb_buf (sb_consume n r) = sb_buf r" "sb_cap (sb_consume n r) = sb_cap r" "sb_gen (sb_consume n r) = sb_gen r"
    "sb_pnext (sb_consume n r) = sb_pnext r" "sb_pend (sb_consume n r) = sb_pend r"
proof -
  show ok: "sb_ok (sb_consume (sb_size r) r)" by (rule sb_consume_ok [OF assms])
  show "sb_size (sb_consume (sb_size r) r) = 0"
    using sb_consume_ok(2) [OF assms, of "sb_size r"] data_nil_size [OF ok] assms by simp
qed (simp_all add: sb_consume_def Let_def)

lemma prepare_open:
  assumes "sb_ok r" "grows grow" "sb_size r \<le> 65536" "n \<le> 65536" "2 ^ 31 \<le> sb_max r"
  shows "\<exists>a r'. sb_prepare grow n r = Inr (a, r') \<and> ar_len a = n \<and> sb_ok r' \<and> sb_max r' = sb_max r
    \<and> area_open a (sb_consume (sb_size r') r')
    \<and> length (sb_buf r') \<le> max (length (sb_buf r)) (sb_size r + n)
    \<and> (sb_size r + n \<le> sb_cap r \<longrightarrow> sb_gen r' = sb_gen r \<and> sb_cap r' = sb_cap r)"
proof -
  have b: "sb_size r + n \<le> sb_max r" "sb_size r + n < 2 ^ 31" using assms(3-5) by simp_all
  obtain a r' where p: "sb_prepare grow n r = Inr (a, r')" "sb_ok r'" "sb_max r' = sb_max r"
    "a = \<lparr> ar_gen = sb_gen r', ar_pos = sb_pnext r', ar_len = n \<rparr>" "sb_pnext r' + n \<le> sb_pend r'"
    "sb_size r + n \<le> sb_cap r \<longrightarrow> sb_gen r' = sb_gen r \<and> sb_cap r' = sb_cap r"
    "length (sb_buf r') \<le> max (length (sb_buf r)) (sb_size r + n)"
    using sb_prepare_ok [OF assms(1,2) b] by blast
  have "area_open a (sb_consume (sb_size r') r')"
    using p assms(5) consume_all [OF p(2)] by (simp add: area_open_def)
  then show ?thesis using p by simp
qed

text \<open>\<open>on_read\<close> without an error, for a handler that starts the next receive.\<close>

lemma on_read_next:
  assumes "bytes \<noteq> []" "sb_ok r" "sb_data (sb_commit (length bytes) r) = bytes @ rest"
    and next_read: "\<And>r1. sb_ok r1 \<Longrightarrow> sb_data r1 = rest \<Longrightarrow> sb_max r1 = sb_max r \<Longrightarrow> sb_buf r1 = sb_buf r \<Longrightarrow> sb_cap r1 = sb_cap r
        \<Longrightarrow> sb_gen r1 = sb_gen r \<Longrightarrow> h bytes (net_log True (Ev_Read bytes) (s\<lparr> ns_response := r1 \<rparr>)) = Inr (s' r1)"
  shows "\<exists>r1 es. sb_ok r1 \<and> sb_data r1 = rest \<and> sb_max r1 = sb_max r \<and> sb_buf r1 = sb_buf r \<and> sb_cap r1 = sb_cap r \<and> sb_gen r1 = sb_gen r
    \<and> ev_reads es = [] \<and> net_on_read (Some h) No_Error (length bytes) (s\<lparr> ns_response := r \<rparr>)
        = Inr ((s' r1)\<lparr> ns_log := ns_log (s' r1) @ es,
                         ns_response := sb_consume (sb_size (ns_response (s' r1))) (ns_response (s' r1)) \<rparr>)"
proof -
  obtain data r1 where get: "sb_sgetn (length bytes) (sb_commit (length bytes) r) = (data, r1)" by force
  note out = take_out [OF sb_commit_ok(1) [OF assms(2)] assms(3) get]
  have r1: "sb_ok r1" "sb_data r1 = rest" "sb_max r1 = sb_max r" "sb_buf r1 = sb_buf r" "sb_cap r1 = sb_cap r" "sb_gen r1 = sb_gen r"
    using out by simp_all
  let ?t = "s' r1"
  define es where "es = (if ns_on_complete ?t \<and> ns_buffer_size ?t > 0 \<and> length bytes < ns_buffer_size ?t
    then [Ev_Complete (ns_buffer_size ?t) (length bytes)] else [])"
  have "net_on_read (Some h) No_Error (length bytes) (s\<lparr> ns_response := r \<rparr>)
      = Inr (?t\<lparr> ns_log := ns_log ?t @ es, ns_response := sb_consume (sb_size (ns_response ?t)) (ns_response ?t) \<rparr>)"
    using assms(1) get out next_read [OF r1]
    by (simp add: net_on_read_def check_error_def net_log_def es_def)
  moreover have "ev_reads es = []" by (simp add: es_def)
  ultimately show ?thesis using r1 by blast
qed

lemma udp_waiting_receive:
  assumes "udp_waiting s" "grows grow" "bytes \<noteq> []" "length bytes \<le> 65536"
  shows "\<exists>s'. net_received grow (Some (\<lambda>_. udp_read_max grow)) No_Error bytes s = Inr s' \<and> udp_waiting s'
    \<and> ev_reads (ns_log s') = ev_reads (ns_log s) @ [bytes] \<and> sb_gen (ns_response s') = sb_gen (ns_response s)"
proof -
  obtain a where a: "ns_receives s = [Recv_Some a]" "area_open a (ns_response s)" "ar_len a = 65536"
    and len: "length (sb_buf (ns_response s)) \<le> 65536" "65536 \<le> sb_cap (ns_response s)"
    using assms(1) by (auto simp: udp_waiting_def)
  have big: "2 ^ 31 \<le> sb_max (ns_response s)" using a(2) by (simp add: area_open_def)
  obtain r where r: "area_fill a bytes (ns_response s) = Inr r" "sb_data (sb_commit (length bytes) r) = bytes @ []"
    "sb_max r = sb_max (ns_response s)" "length (sb_buf r) = length (sb_buf (ns_response s))"
    "sb_cap r = sb_cap (ns_response s)" "sb_gen r = sb_gen (ns_response s)"
    using area_fill_commit [OF a(2), of bytes] assms(4) a(3) by auto
  have "sb_ok r" using area_fill_ok [of "ns_response s" a bytes] a(2) assms(4) a(3) r(1) by (auto simp: area_open_def)
  define res where "res r1 = sb_prepare grow 65536 r1" for r1
  have prep: "\<exists>b r2. res r1 = Inr (b, r2) \<and> ar_len b = 65536 \<and> sb_max r2 = sb_max r1 \<and> sb_ok r2
      \<and> area_open b (sb_consume (sb_size r2) r2) \<and> length (sb_buf r2) \<le> 65536 \<and> sb_gen r2 = sb_gen r1 \<and> sb_cap r2 = sb_cap r1"
    if "sb_ok r1" "sb_data r1 = []" "sb_max r1 = sb_max r" "sb_buf r1 = sb_buf r" "sb_cap r1 = sb_cap r" for r1
    using prepare_open [OF that(1) assms(2), of 65536] that data_nil_size [OF that(1)] r len big by (auto simp: res_def)
  let ?s = "s\<lparr> ns_receives := [] \<rparr>"
  define nxt where "nxt r1 = (case res r1 of Inr (b, r2) \<Rightarrow>
     (net_log True (Ev_Read bytes) (?s\<lparr> ns_response := r1 \<rparr>))\<lparr> ns_buffer_size := 65536, ns_response := r2, ns_receives := [Recv_Some b] \<rparr>
     | _ \<Rightarrow> s)" for r1
  have step: "udp_read_max grow (net_log True (Ev_Read bytes) (?s\<lparr> ns_response := r1 \<rparr>)) = Inr (nxt r1)"
    if "sb_ok r1" "sb_data r1 = []" "sb_max r1 = sb_max r" "sb_buf r1 = sb_buf r" "sb_cap r1 = sb_cap r" for r1
    using prep [OF that] by (auto simp: udp_read_max_def udp_read_some_def res_def nxt_def net_log_def)
  obtain r1 es where on: "sb_ok r1" "sb_data r1 = []" "sb_max r1 = sb_max r" "sb_buf r1 = sb_buf r" "sb_cap r1 = sb_cap r"
    "sb_gen r1 = sb_gen r" "ev_reads es = []"
    "net_on_read (Some (\<lambda>_. udp_read_max grow)) No_Error (length bytes) (?s\<lparr> ns_response := r \<rparr>)
      = Inr ((nxt r1)\<lparr> ns_log := ns_log (nxt r1) @ es,
                         ns_response := sb_consume (sb_size (ns_response (nxt r1))) (ns_response (nxt r1)) \<rparr>)"
    using on_read_next [OF assms(3) \<open>sb_ok r\<close> r(2), of "\<lambda>_. udp_read_max grow" ?s nxt] step by blast
  obtain b r2 where p: "res r1 = Inr (b, r2)" "ar_len b = 65536" "sb_ok r2" "area_open b (sb_consume (sb_size r2) r2)"
    "length (sb_buf r2) \<le> 65536" "sb_gen r2 = sb_gen r1" "sb_cap r2 = sb_cap r1"
    using prep [OF on(1-5)] by blast
  show ?thesis
    using a(1) r on p len consume_all(3-6) [OF p(3)]
    by (auto simp: net_received_def nxt_def net_log_def udp_waiting_def)
qed

lemma tcp_waiting_receive:
  assumes "tcp_waiting s" "grows grow" "bytes \<noteq> []" "length bytes \<le> ar_len (receive_area (hd (ns_receives s)))"
  shows "\<exists>s'. net_received grow (Some (\<lambda>_. tcp_read grow)) No_Error bytes s = Inr s' \<and> tcp_waiting s'
    \<and> ev_reads (ns_log s') = ev_reads (ns_log s) @ [bytes]"
proof -
  obtain a where a: "ns_receives s = [Recv_Stream a 0]" "area_open a (ns_response s)" "512 \<le> ar_len a" "ar_len a \<le> 65536"
    and s: "ns_open s" "ns_buffer_size s = 0" "length (sb_buf (ns_response s)) \<le> 2 * 65536"
    using assms(1) by (auto simp: tcp_waiting_def)
  have big: "2 ^ 31 \<le> sb_max (ns_response s)" using a(2) by (simp add: area_open_def)
  have n: "length bytes \<le> ar_len a" using assms(4) a(1) by simp
  obtain r where r: "area_fill a bytes (ns_response s) = Inr r" "sb_ok (sb_commit (length bytes) r)"
    "sb_data (sb_commit (length bytes) r) = bytes" "sb_max r = sb_max (ns_response s)"
    "length (sb_buf r) = length (sb_buf (ns_response s))"
    using area_fill_commit [OF a(2) n] by blast
  let ?r = "sb_commit (length bytes) r"
  define rest where "rest = slice_of (sb_buf ?r) (sb_pnext ?r) (min (length bytes) (sb_pend ?r - sb_pnext ?r))"
  have twice: "sb_data (sb_commit (length bytes) ?r) = bytes @ rest"
    using sb_commit_ok(2) [OF r(2)] r(3) by (simp add: rest_def)
  have rest: "length rest \<le> 65536" using n a(4) by (simp add: rest_def slice_of_def)
  define ask where "ask r1 = read_size_helper 65536 r1" for r1
  define res where "res r1 = sb_prepare grow (ask r1) r1" for r1
  have prep: "\<exists>b r2. res r1 = Inr (b, r2) \<and> 512 \<le> ar_len b \<and> ar_len b \<le> 65536 \<and> sb_ok r2 \<and> sb_max r2 = sb_max r1
      \<and> area_open b (sb_consume (sb_size r2) r2) \<and> length (sb_buf r2) \<le> 2 * 65536"
    if "sb_ok r1" "sb_data r1 = rest" "sb_max r1 = sb_max ?r" "sb_buf r1 = sb_buf ?r" for r1
  proof -
    have size: "sb_size r1 \<le> 65536" using length_sb_data [OF that(1)] that(2) rest by simp
    have "ask r1 \<le> 65536" "512 \<le> ask r1" using size that(3) r(4) big by (auto simp: ask_def read_size_helper_def)
    then show ?thesis
      using prepare_open [OF that(1) assms(2) size, of "ask r1"] that r big s(3) size by (auto simp: res_def)
  qed
  let ?s = "s\<lparr> ns_receives := [] \<rparr>"
  define nxt where "nxt r1 = (case res r1 of Inr (b, r2) \<Rightarrow>
     (net_log True (Ev_Read bytes) (?s\<lparr> ns_response := r1 \<rparr>))\<lparr> ns_response := r2, ns_receives := [Recv_Stream b 0] \<rparr> | _ \<Rightarrow> s)" for r1
  have step: "tcp_read grow (net_log True (Ev_Read bytes) (?s\<lparr> ns_response := r1 \<rparr>)) = Inr (nxt r1)"
    if "sb_ok r1" "sb_data r1 = rest" "sb_max r1 = sb_max ?r" "sb_buf r1 = sb_buf ?r" for r1
    using prep [OF that] s(1)
    by (auto simp: tcp_read_def transfer_at_least_def default_max_transfer_size_def res_def ask_def nxt_def net_log_def)
  obtain r1 es where on: "sb_ok r1" "sb_data r1 = rest" "sb_max r1 = sb_max ?r" "sb_buf r1 = sb_buf ?r" "ev_reads es = []"
    "net_on_read (Some (\<lambda>_. tcp_read grow)) No_Error (length bytes) (?s\<lparr> ns_response := ?r \<rparr>)
      = Inr ((nxt r1)\<lparr> ns_log := ns_log (nxt r1) @ es,
                         ns_response := sb_consume (sb_size (ns_response (nxt r1))) (ns_response (nxt r1)) \<rparr>)"
    using on_read_next [OF assms(3) r(2) twice, of "\<lambda>_. tcp_read grow" ?s nxt] step by blast
  obtain b r2 where p: "res r1 = Inr (b, r2)" "512 \<le> ar_len b" "ar_len b \<le> 65536" "sb_ok r2"
    "area_open b (sb_consume (sb_size r2) r2)" "length (sb_buf r2) \<le> 2 * 65536"
    using prep [OF on(1-4)] by blast
  have "net_received grow (Some (\<lambda>_. tcp_read grow)) No_Error bytes s
      = net_on_read (Some (\<lambda>_. tcp_read grow)) No_Error (length bytes) (?s\<lparr> ns_response := ?r \<rparr>)"
    using a(1) r(1) assms(3) by (cases bytes) (simp_all add: net_received_def transfer_at_least_def read_size_helper_def)
  then show ?thesis
    using a(1) s on p consume_all(3-6) [OF p(4)] by (auto simp: nxt_def net_log_def tcp_waiting_def)
qed

fun arrivals :: "'a arrival list \<Rightarrow> 'a list" where
  "arrivals [] = []"
| "arrivals (Arrive x # as) = x # arrivals as"
| "arrivals (Receive k # as) = arrivals as"

lemma tcp_run_delivers:
  assumes "grows grow" "tcp_waiting s"
  shows "\<exists>s' inbox'. tcp_run grow (Some (\<lambda>_. tcp_read grow)) as (s, inbox) = Inr (s', inbox') \<and> tcp_waiting s'
    \<and> concat (ev_reads (ns_log s')) @ inbox' = concat (ev_reads (ns_log s)) @ inbox @ concat (arrivals as)"
  using assms(2)
proof (induction as arbitrary: s inbox)
  case (Cons x as)
  show ?case
  proof (cases x)
    case (Arrive bytes)
    then show ?thesis using Cons.IH [OF Cons.prems, of "inbox @ bytes"] by simp
  next
    case (Receive k)
    show ?thesis
    proof (cases "inbox = []")
      case True
      then show ?thesis using Cons.IH [OF Cons.prems, of "[]"] Receive by simp
    next
      case False
      let ?n = "min (Suc k) (ar_len (receive_area (hd (ns_receives s))))"
      have some: "ns_receives s \<noteq> []" "0 < ?n" using Cons.prems by (auto simp: tcp_waiting_def)
      then have "take ?n inbox \<noteq> []" "length (take ?n inbox) \<le> ar_len (receive_area (hd (ns_receives s)))" using False by auto
      then obtain s1 where s1: "net_received grow (Some (\<lambda>_. tcp_read grow)) No_Error (take ?n inbox) s = Inr s1"
        "tcp_waiting s1" "ev_reads (ns_log s1) = ev_reads (ns_log s) @ [take ?n inbox]"
        using tcp_waiting_receive [OF Cons.prems assms(1)] by blast
      have run: "tcp_run grow (Some (\<lambda>_. tcp_read grow)) (x # as) (s, inbox)
          = tcp_run grow (Some (\<lambda>_. tcp_read grow)) as (s1, drop ?n inbox)"
        using s1(1) some(1) False Receive by (simp only: tcp_run.simps Let_def res_bind_simps if_False simp_thms)
      have "concat (ev_reads (ns_log s1)) @ drop ?n inbox = concat (ev_reads (ns_log s)) @ inbox"
        unfolding s1(3) by simp
      then show ?thesis
        using Cons.IH [OF s1(2), of "drop ?n inbox"] Receive unfolding run append.assoc [symmetric] by (simp only: arrivals.simps)
    qed
  qed
qed simp

lemma udp_run_delivers:
  assumes "grows grow" "udp_waiting s" "\<forall>d\<in>set (inbox @ arrivals as). d \<noteq> [] \<and> length d \<le> 65536"
  shows "\<exists>s' inbox'. udp_run grow (Some (\<lambda>_. udp_read_max grow)) as (s, inbox) = Inr (s', inbox') \<and> udp_waiting s'
    \<and> ev_reads (ns_log s') @ inbox' = ev_reads (ns_log s) @ inbox @ arrivals as
    \<and> sb_gen (ns_response s') = sb_gen (ns_response s)"
  using assms(2,3)
proof (induction as arbitrary: s inbox)
  case (Cons x as)
  show ?case
  proof (cases x)
    case (Arrive bytes)
    then show ?thesis using Cons.IH [OF Cons.prems(1), of "inbox @ [bytes]"] Cons.prems(2) by simp
  next
    case (Receive k)
    show ?thesis
    proof (cases inbox)
      case Nil
      then show ?thesis using Cons.IH [OF Cons.prems(1), of "[]"] Cons.prems(2) Receive by simp
    next
      case (Cons d ds)
      obtain a where a: "ns_receives s = [Recv_Some a]" "ar_len a = 65536" using Cons.prems(1) by (auto simp: udp_waiting_def)
      have d: "d \<noteq> []" "length d \<le> 65536" using Cons.prems(2) Cons by auto
      obtain s1 where s1: "net_received grow (Some (\<lambda>_. udp_read_max grow)) No_Error d s = Inr s1"
        "udp_waiting s1" "ev_reads (ns_log s1) = ev_reads (ns_log s) @ [d]" "sb_gen (ns_response s1) = sb_gen (ns_response s)"
        using udp_waiting_receive [OF Cons.prems(1) assms(1) d] by blast
      show ?thesis using Cons.IH [OF s1(2), of ds] Cons.prems(2) s1 a d Cons Receive by simp
    qed
  qed
qed simp

text \<open>A session starts to read.\<close>

definition tcp_connected :: "nat \<Rightarrow> net_session" where
  "tcp_connected size_max = (net_session_new size_max)\<lparr> ns_open := True \<rparr>"

lemma request_new: "ns_response (net_session_new m) = sb_new m" "ns_receives (net_session_new m) = []"
  "ns_log (net_session_new m) = []" "ns_buffer_size (net_session_new m) = 0"
  by (simp_all add: net_session_new_def)

lemma sb_new_size: "128 \<le> m \<Longrightarrow> sb_size (sb_new m) = 0 \<and> sb_max (sb_new m) = m \<and> length (sb_buf (sb_new m)) = 128
    \<and> sb_cap (sb_new m) = 128 \<and> sb_pnext (sb_new m) = 0 \<and> sb_pend (sb_new m) = 128 \<and> sb_gnext (sb_new m) = 0"
  by (simp add: sb_new_def sb_size_def buffer_delta_def Let_def)

lemma prepare_fresh:
  assumes "2 ^ 31 \<le> m" "grows grow" "n \<le> 65536"
  shows "\<exists>a r'. sb_prepare grow n (sb_new m) = Inr (a, r') \<and> ar_len a = n \<and> area_open a r' \<and> length (sb_buf r') \<le> max 128 n"
proof -
  have m: "128 \<le> m" using assms(1) by simp
  note new = sb_new_size [OF m]
  have b: "sb_size (sb_new m) + n \<le> sb_max (sb_new m)" "sb_size (sb_new m) + n < 2 ^ 31" using new assms(1,3) by auto
  show ?thesis
    using sb_prepare_ok [OF sb_new_ok(1) assms(2) b] new assms(1) by (auto simp: area_open_def)
qed

lemma tcp_read_first:
  assumes "2 ^ 31 \<le> m" "grows grow"
  shows "\<exists>s. tcp_read grow (tcp_connected m) = Inr s \<and> tcp_waiting s \<and> ns_log s = []"
proof -
  have "128 \<le> m" using assms(1) by simp
  then have ask: "read_size_helper 65536 (sb_new m) = 512" using sb_new_size [of m] assms(1) by (simp add: read_size_helper_def)
  have le: "(512 :: nat) \<le> 65536" by simp
  obtain a r where "sb_prepare grow 512 (sb_new m) = Inr (a, r)" "ar_len a = 512" "area_open a r" "length (sb_buf r) \<le> max 128 512"
    using prepare_fresh [OF assms le] by blast
  then show ?thesis
    by (auto simp: tcp_read_def tcp_connected_def request_new transfer_at_least_def default_max_transfer_size_def ask tcp_waiting_def)
qed

lemma udp_read_first:
  assumes "2 ^ 31 \<le> m" "grows grow"
  shows "\<exists>s. udp_read_max grow (net_session_new m) = Inr s \<and> udp_waiting s \<and> ns_log s = []"
proof -
  obtain a r where p: "sb_prepare grow 65536 (sb_new m) = Inr (a, r)" "ar_len a = 65536" "area_open a r"
    "length (sb_buf r) \<le> max 128 65536"
    using prepare_fresh [OF assms order_refl] by blast
  then have "65536 \<le> length (sb_buf r)" "length (sb_buf r) \<le> sb_cap r" by (auto simp: area_open_def sb_ok_def)
  then show ?thesis
    using p by (auto simp: udp_read_max_def udp_read_some_def request_new udp_waiting_def)
qed

text \<open>
  C9: a TCP session is a pipe: however the bytes of the peer are cut up on the way, and whenever they arrive, a
  client that reads on in its read handler is given exactly these bytes, in order; what was not given to it yet
  is still in the socket. This is so although \<open>async_read\<close> has committed the bytes that \<open>on_read\<close> commits once
  more, and although the next receive is started before \<open>on_read\<close> has cleared the buffer. The buffer never
  exceeds 128 KiB, and a receive is always pending.
\<close>

theorem tcp_session_pipe:
  assumes "grows grow" "2 ^ 31 \<le> size_max"
  shows "\<exists>s0. tcp_read grow (tcp_connected size_max) = Inr s0
    \<and> (\<forall>as. \<exists>s inbox. tcp_run grow (Some (\<lambda>_. tcp_read grow)) as (s0, []) = Inr (s, inbox)
          \<and> concat (ev_reads (ns_log s)) @ inbox = concat (arrivals as)
          \<and> length (sb_buf (ns_response s)) \<le> 2 * 65536 \<and> length (ns_receives s) = 1)"
proof -
  obtain s0 where s0: "tcp_read grow (tcp_connected size_max) = Inr s0" "tcp_waiting s0" "ns_log s0 = []"
    using tcp_read_first [OF assms(2,1)] by blast
  have "\<exists>s inbox. tcp_run grow (Some (\<lambda>_. tcp_read grow)) as (s0, []) = Inr (s, inbox)
      \<and> concat (ev_reads (ns_log s)) @ inbox = concat (arrivals as)
      \<and> length (sb_buf (ns_response s)) \<le> 2 * 65536 \<and> length (ns_receives s) = 1" for as
    using tcp_run_delivers [OF assms(1) s0(2), of as "[]"] s0(3) by (auto simp: tcp_waiting_def)
  then show ?thesis using s0(1) by blast
qed

theorem tcp_session_pipe_witness:
  "\<exists>s0 s inbox. tcp_read max (tcp_connected (2 ^ 32)) = Inr s0
     \<and> tcp_run max (Some (\<lambda>_. tcp_read max)) [Arrive [1, 2, 3], Receive 1, Arrive [4], Receive 5] (s0, []) = Inr (s, inbox)
     \<and> concat (ev_reads (ns_log s)) @ inbox = [1, 2, 3, 4]"
proof -
  have g: "grows max" "2 ^ 31 \<le> (2 ^ 32 :: nat)" by (simp_all add: grows_def)
  obtain s0 where s0: "tcp_read max (tcp_connected (2 ^ 32)) = Inr s0"
    and run: "\<forall>as. \<exists>s inbox. tcp_run max (Some (\<lambda>_. tcp_read max)) as (s0, []) = Inr (s, inbox)
          \<and> concat (ev_reads (ns_log s)) @ inbox = concat (arrivals as)
          \<and> length (sb_buf (ns_response s)) \<le> 2 * 65536 \<and> length (ns_receives s) = 1"
    using tcp_session_pipe [OF g] by blast
  show ?thesis using s0 run [rule_format, of "[Arrive [1, 2, 3], Receive 1, Arrive [4], Receive 5]"] by auto
qed



section \<open>Sending\<close>

fun send_run :: "nat list \<Rightarrow> net_session \<Rightarrow> (byte list \<times> net_session) res" where
  "send_run [] s = Inr ([], s)"
| "send_run (k # ks) s =
     res_bind (net_sent No_Error k s) (\<lambda>(bytes, s). res_bind (send_run ks s) (\<lambda>(more, s). Inr (bytes @ more, s)))"

text \<open>Write, and let the socket take it, again and again.\<close>

fun write_run :: "(nat \<Rightarrow> nat \<Rightarrow> nat) \<Rightarrow> (byte list \<times> nat list) list \<Rightarrow> net_session \<Rightarrow> (byte list \<times> net_session) res" where
  "write_run grow [] s = Inr ([], s)"
| "write_run grow ((data, ks) # ws) s =
     res_bind (tcp_write grow data s) (\<lambda>s.
     res_bind (send_run ks s) (\<lambda>(bytes, s).
     res_bind (write_run grow ws s) (\<lambda>(more, s). Inr (bytes @ more, s))))"

definition send_idle :: "net_session \<Rightarrow> bool" where
  "send_idle s \<longleftrightarrow> ns_sends s = [] \<and> sb_ok (ns_request s) \<and> sb_size (ns_request s) = 0 \<and> 2 ^ 31 \<le> sb_max (ns_request s)"

definition sending :: "byte list \<Rightarrow> nat \<Rightarrow> net_session \<Rightarrow> bool" where
  "sending data n s \<longleftrightarrow> sb_ok (ns_request s) \<and> sb_size (ns_request s) = 0 \<and> 2 ^ 31 \<le> sb_max (ns_request s) \<and> n < length data
     \<and> (\<exists>a. ns_sends s = [Send_Stream a n] \<and> ar_gen a = sb_gen (ns_request s) \<and> ar_len a = length data
          \<and> ar_pos a + length data \<le> length (sb_buf (ns_request s))
          \<and> slice_of (sb_buf (ns_request s)) (ar_pos a) (length data) = data)"

lemma tcp_write_sending:
  assumes "send_idle s" "grows grow" "data \<noteq> []" "length data + 128 < 2 ^ 31"
  shows "\<exists>s'. tcp_write grow data s = Inr s' \<and> sending data 0 s' \<and> ns_on_write s' = ns_on_write s \<and> ns_log s' = ns_log s"
proof -
  have q: "sb_ok (ns_request s)" "sb_size (ns_request s) = 0" "2 ^ 31 \<le> sb_max (ns_request s)" "ns_sends s = []"
    using assms(1) by (auto simp: send_idle_def)
  have b: "sb_size (ns_request s) + length data \<le> sb_max (ns_request s)"
    "sb_size (ns_request s) + length data + buffer_delta < 2 ^ 31"
    using q assms(4) by (auto simp: buffer_delta_def)
  have "sb_data (ns_request s) = []" using q data_nil_size by simp
  then obtain r where r: "sb_sputn grow data (ns_request s) = Inr r" "sb_ok r" "sb_data r = data"
    "sb_max r = sb_max (ns_request s)"
    using sb_sputn_ok [OF q(1) assms(2) b] by auto
  have size: "sb_size r = length data" using r(2,3) length_sb_data by metis
  have "sb_gnext r + length data \<le> length (sb_buf r)" using r(2) size by (auto simp: sb_ok_def sb_size_def)
  moreover have "slice_of (sb_buf r) (sb_gnext r) (length data) = data" using r(3) size by (simp add: sb_data_def)
  ultimately show ?thesis
    using r(1,4) q assms(3) consume_all [OF r(2)] size by (simp add: tcp_write_def sending_def sb_data_area_def)
qed

lemma sending_step:
  assumes "sending data n s" "0 < k"
  shows "\<exists>s'. net_sent No_Error k s = Inr (take k (drop n data), s')
    \<and> (if n + k < length data then sending data (n + k) s' \<and> ns_on_write s' = ns_on_write s \<and> ns_log s' = ns_log s
       else send_idle s' \<and> ns_on_write s' = ns_on_write s
          \<and> ns_log s' = ns_log s @ (if ns_on_write s then [Ev_Write (length data)] else []))"
proof -
  let ?q = "ns_request s"
  obtain a where a: "ns_sends s = [Send_Stream a n]" "ar_gen a = sb_gen ?q" "ar_len a = length data"
    "ar_pos a + length data \<le> length (sb_buf ?q)" "slice_of (sb_buf ?q) (ar_pos a) (length data) = data"
    using assms(1) by (auto simp: sending_def)
  have q: "sb_ok ?q" "sb_size ?q = 0" "2 ^ 31 \<le> sb_max ?q" "n < length data" using assms(1) by (auto simp: sending_def)
  let ?m = "min k (length data - n)"
  have "slice_of (sb_buf ?q) (ar_pos a + n) ?m = take k (drop n (slice_of (sb_buf ?q) (ar_pos a) (length data)))"
    by (simp add: slice_of_def drop_take min_def add.commute)
  then have bytes: "slice_of (sb_buf ?q) (ar_pos a + n) ?m = take k (drop n data)" using a(5) by simp
  have "area_read (a\<lparr> ar_pos := ar_pos a + n, ar_len := min k (ar_len a - n) \<rparr>) ?q = Inr (take k (drop n data))"
    using a q(4) bytes by (simp add: area_read_def)
  then have sent: "net_sent No_Error k s = (if n + ?m < length data
      then Inr (take k (drop n data), s\<lparr> ns_sends := [Send_Stream a (n + ?m)] \<rparr>)
      else Inr (take k (drop n data), net_on_write No_Error (n + ?m) (s\<lparr> ns_sends := [], ns_request := sb_consume (n + ?m) ?q \<rparr>)))"
    using a(1,3) q(4) assms(2) by (auto simp: net_sent_def Let_def min_def)
  have idle: "sb_ok (sb_consume i ?q)" "sb_size (sb_consume i ?q) = 0" for i
  proof -
    show ok: "sb_ok (sb_consume i ?q)" by (rule sb_consume_ok(1) [OF q(1)])
    have "sb_data ?q = []" using data_nil_size [OF q(1)] q(2) by blast
    then have "sb_data (sb_consume i ?q) = []" using sb_consume_ok(2) [OF q(1), of i] by (simp only: drop_Nil)
    then show "sb_size (sb_consume i ?q) = 0" using data_nil_size [OF ok] by blast
  qed
  show ?thesis
  proof (cases "n + k < length data")
    case True
    then show ?thesis using sent a q by (simp add: sending_def)
  next
    case False
    then have "n + ?m = length data" using q(4) by simp
    then show ?thesis
      using sent False idle consume_all(3) [OF q(1)] q(3)
      by (simp add: net_on_write_def check_error_def net_log_def send_idle_def)
  qed
qed

lemma send_run_idle: "ns_sends s = [] \<Longrightarrow> send_run ks s = Inr ([], s)"
  by (induction ks) (simp_all add: net_sent_def)

lemma sending_run:
  assumes "sending data n s" "\<forall>k\<in>set ks. 0 < k" "length data \<le> n + sum_list ks"
  shows "\<exists>s'. send_run ks s = Inr (drop n data, s') \<and> send_idle s' \<and> ns_on_write s' = ns_on_write s
    \<and> ns_log s' = ns_log s @ (if ns_on_write s then [Ev_Write (length data)] else [])"
  using assms
proof (induction ks arbitrary: n s)
  case Nil
  then show ?case by (simp add: sending_def)
next
  case (Cons k ks)
  obtain s1 where s1: "net_sent No_Error k s = Inr (take k (drop n data), s1)"
    "if n + k < length data then sending data (n + k) s1 \<and> ns_on_write s1 = ns_on_write s \<and> ns_log s1 = ns_log s
     else send_idle s1 \<and> ns_on_write s1 = ns_on_write s
        \<and> ns_log s1 = ns_log s @ (if ns_on_write s then [Ev_Write (length data)] else [])"
    using sending_step [OF Cons.prems(1), of k] Cons.prems(2) by auto
  show ?case
  proof (cases "n + k < length data")
    case True
    have d: "take k (drop n data) @ drop (n + k) data = drop n data"
      by (metis append_take_drop_id drop_drop add.commute)
    have "sending data (n + k) s1" "length data \<le> (n + k) + sum_list ks" using s1(2) True Cons.prems(3) by auto
    then obtain s' where "send_run ks s1 = Inr (drop (n + k) data, s')" "send_idle s'" "ns_on_write s' = ns_on_write s1"
      "ns_log s' = ns_log s1 @ (if ns_on_write s1 then [Ev_Write (length data)] else [])"
      using Cons.IH [of "n + k" s1] Cons.prems(2) by auto
    then show ?thesis using s1 True d by simp
  next
    case False
    then have "send_run ks s1 = Inr ([], s1)" using s1(2) by (intro send_run_idle) (simp add: send_idle_def)
    then show ?thesis using s1 False by simp
  qed
qed

text \<open>Writing and waiting for the write handler each time sends everything, in order.\<close>

lemma tcp_writes_in_turn:
  assumes "send_idle s" "grows grow" "\<forall>(data, ks)\<in>set ws. data \<noteq> [] \<and> length data + 128 < 2 ^ 31 \<and> (\<forall>k\<in>set ks. 0 < k)
    \<and> length data \<le> sum_list ks"
  shows "\<exists>s'. write_run grow ws s = Inr (concat (map fst ws), s') \<and> send_idle s'
    \<and> ns_log s' = ns_log s @ (if ns_on_write s then map (\<lambda>w. Ev_Write (length (fst w))) ws else [])"
  using assms(1,3)
proof (induction ws arbitrary: s)
  case (Cons w ws)
  obtain data ks where w: "w = (data, ks)" by force
  have d: "data \<noteq> []" "length data + 128 < 2 ^ 31" "\<forall>k\<in>set ks. 0 < k" "length data \<le> 0 + sum_list ks"
    using Cons.prems(2) w by auto
  obtain s1 where s1: "tcp_write grow data s = Inr s1" "sending data 0 s1" "ns_on_write s1 = ns_on_write s" "ns_log s1 = ns_log s"
    using tcp_write_sending [OF Cons.prems(1) assms(2) d(1,2)] by blast
  obtain s2 where s2: "send_run ks s1 = Inr (drop 0 data, s2)" "send_idle s2" "ns_on_write s2 = ns_on_write s1"
    "ns_log s2 = ns_log s1 @ (if ns_on_write s1 then [Ev_Write (length data)] else [])"
    using sending_run [OF s1(2) d(3,4)] by blast
  show ?case using Cons.IH [OF s2(2)] Cons.prems(2) s1 s2 w by auto
qed simp

text \<open>Not waiting: the second write makes room by throwing away the memory of the first.\<close>

lemma vector_moved: "sb_cap s < n \<Longrightarrow> sb_gen s < sb_gen (vector_resize grow n s)"
  by (simp add: vector_resize_def Let_def)

lemma sputn_gen: "sb_sputn grow bs s = Inr s' \<Longrightarrow> sb_gen s \<le> sb_gen s'"
proof (induction bs arbitrary: s)
  case (Cons b bs)
  have res: "sb_gen s \<le> sb_gen s'" if "sb_reserve grow n s = Inr s'" for n and s s' :: streambuf
    using that by (auto simp: sb_reserve_def Let_def vector_resize_def split: if_splits)
  obtain s1 where s1: "sb_sputc grow b s = Inr s1" "sb_sputn grow bs s1 = Inr s'" using Cons.prems by (auto simp: res_bind_Inr_iff)
  have "sb_gen s \<le> sb_gen s1"
    using s1(1) res by (auto simp: sb_sputc_def sb_overflow_def sb_put_def res_bind_Inr_iff Let_def split: if_splits)
  then show ?case using Cons.IH [OF s1(2)] by simp
qed simp


lemma sputn_append: "sb_sputn grow (xs @ ys) s = res_bind (sb_sputn grow xs s) (sb_sputn grow ys)"
proof (induction xs arbitrary: s)
  case (Cons x xs)
  show ?case by (cases "sb_sputc grow x s") (simp_all add: Cons.IH)
qed simp

lemma overflow_moves:
  assumes "sb_ok s" "sb_pnext s = sb_pend s" "0 < sb_gnext s" "sb_gnext s < 128" "sb_cap s = sb_pend s" "sb_pend s = 128"
    "2 ^ 31 \<le> sb_max s" "sb_sputc grow c s = Inr s'"
  shows "sb_gen s < sb_gen s'"
proof -
  define n where "n = 128 - sb_gnext s + 128"
  define t where "t = s\<lparr> sb_buf := memmove_down (sb_buf s) (sb_gnext s) (sb_pnext s - sb_gnext s) \<rparr>"
  have big: "256 < sb_max s" using assms(7) by simp
  have n: "128 < n" "max n 1 = n" using assms(4) by (auto simp: n_def)
  have t: "sb_cap t = 128" "sb_gen t = sb_gen s" using assms(5,6) by (simp_all add: t_def)
  have "sb_reserve grow 128 s = Inr ((vector_resize grow n t)\<lparr> sb_gnext := 0, sb_gend := 128 - sb_gnext s,
      sb_pnext := 128 - sb_gnext s, sb_pend := n \<rparr>)"
    using assms(2-4,6) big n(2) by (simp add: sb_reserve_def t_def n_def Let_def)
  moreover have "sb_sputc grow c s = res_bind (sb_reserve grow 128 s) (\<lambda>s. Inr (sb_put c s))"
  proof -
    have "\<not> sb_max s - (sb_pnext s - sb_gnext s) < 128" using assms(2,6) big by linarith
    then show ?thesis using assms(2) by (simp add: sb_sputc_def sb_overflow_def buffer_delta_def Let_def)
  qed
  ultimately have "sb_gen s' = sb_gen (vector_resize grow n t)" using assms(8) by (auto simp: sb_put_def)
  then show ?thesis using vector_moved [of t n grow] n(1) t by simp
qed

text \<open>
  Writing again before the first write is done corrupts it: \<open>write\<close> empties the buffer right after it has
  started the operation, so that the bytes under way count as free. When the second write does not fit behind
  them, it moves the buffer, and the first operation goes on reading memory that was freed.
\<close>

lemma tcp_write_overtaken:
  assumes "grows grow" "2 ^ 31 \<le> size_max" "data1 \<noteq> []" "length data1 < 128" "128 < length data1 + length data2"
    "length data2 + 128 < 2 ^ 31" "0 < k"
  shows "\<exists>s1 s2. tcp_write grow data1 (tcp_connected size_max) = Inr s1 \<and> tcp_write grow data2 s1 = Inr s2
    \<and> net_sent err k s2 = Inl Use_After_Free"
proof -
  have m: "128 \<le> size_max" using assms(2) by simp
  note new = sb_new_size [OF m]
  have "sb_pnext (sb_new size_max) + length data1 \<le> sb_pend (sb_new size_max)" using new assms(4) by simp
  then obtain r where r: "sb_sputn grow data1 (sb_new size_max) = Inr r" "sb_ok r" "sb_data r = data1" "sb_max r = size_max"
    "sb_gen r = 0" "sb_gnext r = 0" "sb_pnext r = length data1" "sb_pend r = 128" "sb_cap r = 128"
    using sb_sputn_room [OF sb_new_ok(1)] new sb_new_ok(2,3) by (metis add_0 append_Nil)
  have size: "sb_size r = length data1" using length_sb_data [OF r(2)] r(3) by simp
  define q where "q = sb_consume (sb_size r) r"
  have q: "sb_ok q" "sb_size q = 0" "sb_gen q = 0" "sb_pnext q = length data1" "sb_gnext q = length data1" "sb_pend q = 128"
    "sb_cap q = 128" "sb_max q = size_max"
    using consume_all [OF r(2)] r size by (simp_all add: q_def sb_consume_eq)
  define s1 where "s1 = (tcp_connected size_max)\<lparr> ns_request := q, ns_sends := [Send_Stream (sb_data_area r) 0] \<rparr>"
  have w1: "tcp_write grow data1 (tcp_connected size_max) = Inr s1"
    using r(1) by (simp add: tcp_write_def tcp_connected_def net_session_new_def s1_def q_def)
  obtain x c y where d2: "data2 = x @ c # y" "length x = 128 - length data1"
  proof
    let ?n = "128 - length data1"
    show "data2 = take ?n data2 @ data2 ! ?n # drop (Suc ?n) data2" using assms(4,5) by (intro id_take_nth_drop) linarith
    show "length (take ?n data2) = ?n" using assms(4,5) by simp
  qed
  have b: "sb_size q + length data2 \<le> sb_max q" "sb_size q + length data2 + buffer_delta < 2 ^ 31"
    using q assms(2,6) by (auto simp: buffer_delta_def)
  obtain q2 where q2: "sb_sputn grow data2 q = Inr q2" using sb_sputn_ok [OF q(1) assms(1) b] by blast
  have "sb_pnext q + length x \<le> sb_pend q" using q d2(2) assms(4) by simp
  then obtain qx where qx: "sb_sputn grow x q = Inr qx" "sb_ok qx" "sb_gen qx = 0" "sb_gnext qx = length data1"
    "sb_pnext qx = 128" "sb_pend qx = 128" "sb_cap qx = 128" "sb_max qx = size_max"
    using sb_sputn_room [OF q(1)] q d2(2) assms(4) by (metis le_add_diff_inverse less_imp_le)
  obtain qc where qc: "sb_sputc grow c qx = Inr qc" "sb_sputn grow y qc = Inr q2"
    using q2 qx(1) d2(1) by (auto simp: sputn_append res_bind_Inr_iff)
  have "sb_gen qx < sb_gen qc"
    using overflow_moves [OF qx(2) _ _ _ _ _ _ qc(1)] qx assms(2-4) by simp
  then have moved: "sb_gen q2 \<noteq> 0" using sputn_gen [OF qc(2)] by simp
  define s2 where "s2 = s1\<lparr> ns_request := sb_consume (sb_size q2) q2,
     ns_sends := [Send_Stream (sb_data_area r) 0, Send_Stream (sb_data_area q2) 0] \<rparr>"
  have w2: "tcp_write grow data2 s1 = Inr s2" using q2 by (simp add: tcp_write_def s1_def s2_def)
  have "sb_gen (sb_consume (sb_size q2) q2) = sb_gen q2" by (simp add: sb_consume_def Let_def)
  then have "net_sent err k s2 = Inl Use_After_Free"
    using moved r(5) by (simp add: net_sent_def s2_def sb_data_area_def area_read_def)
  then show ?thesis using w1 w2 by blast
qed

lemma tcp_write_overtaken_witness:
  "\<exists>s1 s2. tcp_write max (replicate 100 1) (tcp_connected (2 ^ 32)) = Inr s1 \<and> tcp_write max (replicate 100 2) s1 = Inr s2
     \<and> net_sent No_Error 100 s2 = Inl Use_After_Free"
  using tcp_write_overtaken [of max "2 ^ 32" "replicate 100 1" "replicate 100 2" 100 No_Error] by (simp add: grows_def)

text \<open>The session of a server that accepted it is idle, and what it writes in turn arrives.\<close>

lemma tcp_connected_idle: "2 ^ 31 \<le> size_max \<Longrightarrow> send_idle (tcp_connected size_max)"
  using sb_new_size [of size_max] sb_new_ok(1)
  by (simp add: send_idle_def tcp_connected_def net_session_new_def)

end
