(* ===== verification/Net_Peers.thy ===== *)
theory Net_Peers
  imports Net_Session
begin

text \<open>
  Who makes sessions: \<open>Networks/TcpServer\<close>, \<open>TcpClient\<close> and \<open>UdpClient\<close>. A session is a number here; an
  operation that was started is pending until the system completes it, with or without an error. The lemmas
  count what becomes of every operation, and show when a server stops accepting.
\<close>

datatype peer_event =
    Peer_Error
  | Peer_Accept nat
  | Peer_Cancel
  | Peer_Resolve
  | Peer_Connect nat

section \<open>The server\<close>

text \<open>\<open>tv_acceptor\<close>: none, or one that is open or closed.\<close>

record tcp_server =
  tv_acceptor :: "bool option"
  tv_accepts :: "nat list"
  tv_next :: nat
  tv_on_accept :: bool
  tv_on_cancel :: bool
  tv_on_error :: bool
  tv_log :: "peer_event list"

definition tcp_server_new :: tcp_server where
  "tcp_server_new = \<lparr> tv_acceptor = None, tv_accepts = [], tv_next = 0, tv_on_accept = False, tv_on_cancel = False,
     tv_on_error = False, tv_log = [] \<rparr>"

definition tv_note :: "bool \<Rightarrow> peer_event \<Rightarrow> tcp_server \<Rightarrow> tcp_server" where
  "tv_note connected e sv = (if connected then sv\<lparr> tv_log := tv_log sv @ [e] \<rparr> else sv)"

definition tcp_server_listen :: "tcp_server \<Rightarrow> tcp_server res" where
  "tcp_server_listen sv =
     (case tv_acceptor sv of
        None \<Rightarrow> Inl Null_Deref
      | Some False \<Rightarrow> Inr sv
      | Some True \<Rightarrow> Inr (sv\<lparr> tv_accepts := tv_accepts sv @ [tv_next sv], tv_next := tv_next sv + 1 \<rparr>))"

text \<open>The constructor of the acceptor throws when the port cannot be bound. What was pending is aborted.\<close>

definition tcp_server_accept :: "bool \<Rightarrow> tcp_server \<Rightarrow> tcp_server res" where
  "tcp_server_accept bind_ok sv =
     (if \<not> bind_ok then Inl Uncaught_Exception else tcp_server_listen (sv\<lparr> tv_acceptor := Some True \<rparr>))"

definition tcp_server_cancel :: "bool \<Rightarrow> bool \<Rightarrow> tcp_server \<Rightarrow> tcp_server" where
  "tcp_server_cancel cancel_err close_err sv =
     (case tv_acceptor sv of
        None \<Rightarrow> sv
      | Some _ \<Rightarrow>
          let sv = (if cancel_err then tv_note (tv_on_error sv) Peer_Error sv else tv_note (tv_on_cancel sv) Peer_Cancel sv);
              sv = sv\<lparr> tv_acceptor := Some False \<rparr>
          in if close_err then tv_note (tv_on_error sv) Peer_Error sv else sv)"

definition tcp_server_on_accept :: "nat \<Rightarrow> bool \<Rightarrow> tcp_server \<Rightarrow> tcp_server res" where
  "tcp_server_on_accept session err sv =
     (if err then Inr (tv_note (tv_on_error sv) Peer_Error sv)
      else tcp_server_listen (tv_note (tv_on_accept sv) (Peer_Accept session) sv))"

text \<open>The system completes the oldest accept.\<close>

definition tcp_server_done :: "bool \<Rightarrow> tcp_server \<Rightarrow> tcp_server res" where
  "tcp_server_done err sv =
     (case tv_accepts sv of [] \<Rightarrow> Inr sv
      | session # ss \<Rightarrow> tcp_server_on_accept session err (sv\<lparr> tv_accepts := ss \<rparr>))"

fun tcp_server_run :: "bool list \<Rightarrow> tcp_server \<Rightarrow> tcp_server res" where
  "tcp_server_run [] sv = Inr sv"
| "tcp_server_run (err # errs) sv = res_bind (tcp_server_done err sv) (tcp_server_run errs)"

text \<open>While nothing fails, one accept is pending and every connection is handed over, in order.\<close>

lemma tcp_server_listens:
  assumes "tv_acceptor sv = Some True" "tv_accepts sv = [n]" "tv_next sv = n + 1" "tv_on_accept sv"
  shows "\<exists>sv'. tcp_server_run (replicate k False) sv = Inr sv' \<and> tv_log sv' = tv_log sv @ map Peer_Accept [n..<n + k]
    \<and> tv_accepts sv' = [n + k] \<and> tv_next sv' = n + k + 1 \<and> tv_acceptor sv' = Some True \<and> tv_on_error sv' = tv_on_error sv"
  using assms
proof (induction k arbitrary: sv n)
  case (Suc k)
  let ?sv = "sv\<lparr> tv_accepts := [n + 1], tv_next := n + 2, tv_log := tv_log sv @ [Peer_Accept n] \<rparr>"
  have one: "tcp_server_done False sv = Inr ?sv"
    using Suc.prems by (simp add: tcp_server_done_def tcp_server_on_accept_def tcp_server_listen_def tv_note_def)
  have "[n..<n + Suc k] = n # [Suc n..<Suc n + k]" by (simp add: upt_rec)
  then show ?case using Suc.IH [of ?sv "n + 1"] Suc.prems one by simp
qed simp

text \<open>
  A failed accept, of which there are harmless ones (the peer gave up, or no descriptor was free), is the last:
  nothing is pending any more, so that no later connection is accepted.
\<close>

lemma tcp_server_goes_deaf:
  assumes "tv_accepts sv = [n]" "tv_on_error sv"
  shows "\<exists>sv'. tcp_server_run (True # errs) sv = Inr sv' \<and> tv_accepts sv' = [] \<and> tv_acceptor sv' = tv_acceptor sv
    \<and> tv_log sv' = tv_log sv @ [Peer_Error]"
proof -
  let ?sv = "sv\<lparr> tv_accepts := [], tv_log := tv_log sv @ [Peer_Error] \<rparr>"
  have "tcp_server_done True sv = Inr ?sv"
    using assms by (simp add: tcp_server_done_def tcp_server_on_accept_def tv_note_def)
  moreover have "tcp_server_run errs ?sv = Inr ?sv" for errs
    by (induction errs) (simp_all add: tcp_server_done_def)
  ultimately show ?thesis by simp
qed

text \<open>
  A TCP server hands over the connections it is given in the order they come, for as long as none fails; the
  first accept that fails is reported and is the last: the acceptor stays open but no accept is pending, whatever
  arrives later, until \<open>accept\<close> is called again.
\<close>

lemma tcp_server_until_error:
  assumes "tcp_server_accept True (tcp_server_new\<lparr> tv_on_accept := True, tv_on_error := True \<rparr>) = Inr sv"
  shows "\<exists>sv'. tcp_server_run (replicate k False @ True # errs) sv = Inr sv'
    \<and> tv_log sv' = map Peer_Accept [0..<k] @ [Peer_Error] \<and> tv_accepts sv' = [] \<and> tv_acceptor sv' = Some True"
proof -
  have sv: "tv_acceptor sv = Some True" "tv_accepts sv = [0]" "tv_next sv = 0 + 1" "tv_on_accept sv" "tv_on_error sv" "tv_log sv = []"
    using assms by (auto simp: tcp_server_accept_def tcp_server_listen_def tcp_server_new_def)
  have app: "tcp_server_run (xs @ ys) s = res_bind (tcp_server_run xs s) (tcp_server_run ys)" for xs ys s
  proof (induction xs arbitrary: s)
    case (Cons x xs)
    show ?case by (cases "tcp_server_done x s") (simp_all add: Cons.IH)
  qed simp
  obtain s1 where s1: "tcp_server_run (replicate k False) sv = Inr s1" "tv_log s1 = map Peer_Accept [0..<k]"
    "tv_accepts s1 = [k]" "tv_acceptor s1 = Some True" "tv_on_error s1"
    using tcp_server_listens [OF sv(1-4), of k] sv(5,6) by auto
  show ?thesis using tcp_server_goes_deaf [OF s1(3,5), of errs] s1 by (auto simp: app)
qed

lemma tcp_server_until_error_witness:
  "\<exists>sv sv'. tcp_server_accept True (tcp_server_new\<lparr> tv_on_accept := True, tv_on_error := True \<rparr>) = Inr sv
     \<and> tcp_server_run [False, False, True, False] sv = Inr sv' \<and> tv_log sv' = [Peer_Accept 0, Peer_Accept 1, Peer_Error]"
proof -
  obtain sv where sv: "tcp_server_accept True (tcp_server_new\<lparr> tv_on_accept := True, tv_on_error := True \<rparr>) = Inr sv"
    by (simp add: tcp_server_accept_def tcp_server_listen_def)
  show ?thesis using tcp_server_until_error [OF sv, of 2 "[False]"] sv by (auto simp: numeral_2_eq_2)
qed

section \<open>The clients\<close>

text \<open>A client over UDP or over TCP: the resolutions and connections under way.\<close>

record net_client =
  nc_resolving :: nat
  nc_connecting :: "nat list"
  nc_next :: nat
  nc_on_resolve :: bool
  nc_on_connect :: bool
  nc_on_error :: bool
  nc_log :: "peer_event list"

definition net_client_new :: net_client where
  "net_client_new = \<lparr> nc_resolving = 0, nc_connecting = [], nc_next = 0, nc_on_resolve = False, nc_on_connect = False,
     nc_on_error = False, nc_log = [] \<rparr>"

definition nc_note :: "bool \<Rightarrow> peer_event \<Rightarrow> net_client \<Rightarrow> net_client" where
  "nc_note connected e c = (if connected then c\<lparr> nc_log := nc_log c @ [e] \<rparr> else c)"

definition net_client_connect :: "net_client \<Rightarrow> net_client" where
  "net_client_connect c = c\<lparr> nc_resolving := nc_resolving c + 1 \<rparr>"

definition net_client_on_resolve :: "bool \<Rightarrow> net_client \<Rightarrow> net_client" where
  "net_client_on_resolve err c =
     (if err then nc_note (nc_on_error c) Peer_Error c
      else
        let c = nc_note (nc_on_resolve c) Peer_Resolve c
        in c\<lparr> nc_connecting := nc_connecting c @ [nc_next c], nc_next := nc_next c + 1 \<rparr>)"

definition tcp_client_on_connect :: "nat \<Rightarrow> bool \<Rightarrow> net_client \<Rightarrow> net_client" where
  "tcp_client_on_connect session err c =
     (if err then nc_note (nc_on_error c) Peer_Error c else nc_note (nc_on_connect c) (Peer_Connect session) c)"

definition udp_client_on_connect :: "bool \<Rightarrow> nat \<Rightarrow> bool \<Rightarrow> net_client \<Rightarrow> net_client res" where
  "udp_client_on_connect option_ok session err c =
     (if err then Inr (nc_note (nc_on_error c) Peer_Error c)
      else if nc_on_connect c then
        if \<not> option_ok then Inl Uncaught_Exception else Inr (nc_note True (Peer_Connect session) c)
      else Inr c)"

text \<open>A call of \<open>connect\<close>, and the completions.\<close>

datatype client_step = Cl_Connect | Cl_Resolved bool | Cl_Connected bool

fun net_client_step :: "(nat \<Rightarrow> bool \<Rightarrow> net_client \<Rightarrow> net_client res) \<Rightarrow> client_step \<Rightarrow> net_client \<Rightarrow> net_client res" where
  "net_client_step on_connect Cl_Connect c = Inr (net_client_connect c)"
| "net_client_step on_connect (Cl_Resolved err) c =
     (case nc_resolving c of 0 \<Rightarrow> Inr c | Suc n \<Rightarrow> Inr (net_client_on_resolve err (c\<lparr> nc_resolving := n \<rparr>)))"
| "net_client_step on_connect (Cl_Connected err) c =
     (case nc_connecting c of [] \<Rightarrow> Inr c | s # ss \<Rightarrow> on_connect s err (c\<lparr> nc_connecting := ss \<rparr>))"

fun net_client_run where
  "net_client_run on_connect [] c = Inr c"
| "net_client_run on_connect (a # as) c = res_bind (net_client_step on_connect a c) (net_client_run on_connect as)"

text \<open>Every call of \<open>connect\<close> is under way or has ended, in one call of a handler.\<close>

fun is_outcome :: "peer_event \<Rightarrow> bool" where
  "is_outcome Peer_Error = True"
| "is_outcome (Peer_Connect s) = True"
| "is_outcome _ = False"

definition client_calls :: "net_client \<Rightarrow> nat" where
  "client_calls c = nc_resolving c + length (nc_connecting c) + length (filter is_outcome (nc_log c))"

definition handlers_on :: "net_client \<Rightarrow> bool" where
  "handlers_on c \<longleftrightarrow> nc_on_connect c \<and> nc_on_error c"

lemma client_step_counts:
  assumes "handlers_on c" "net_client_step on_connect a c = Inr c'"
    and "on_connect = udp_client_on_connect True \<or> on_connect = (\<lambda>s err c. Inr (tcp_client_on_connect s err c))"
  shows "handlers_on c' \<and> client_calls c' = client_calls c + (if a = Cl_Connect then 1 else 0)"
  using assms
  by (cases a) (auto simp: handlers_on_def client_calls_def net_client_connect_def net_client_on_resolve_def nc_note_def
      udp_client_on_connect_def tcp_client_on_connect_def Let_def split: nat.splits list.splits if_splits)

lemma client_run_counts:
  assumes "handlers_on c"
    and "on_connect = udp_client_on_connect True \<or> on_connect = (\<lambda>s err c. Inr (tcp_client_on_connect s err c))"
  shows "\<exists>c'. net_client_run on_connect as c = Inr c' \<and> client_calls c' = client_calls c + count_list as Cl_Connect"
  using assms(1)
proof (induction as arbitrary: c)
  case (Cons a as)
  have "\<exists>c1. net_client_step on_connect a c = Inr c1"
    using assms(2) by (cases a) (auto simp: udp_client_on_connect_def split: nat.splits list.splits)
  then obtain c1 where c1: "net_client_step on_connect a c = Inr c1" by blast
  then show ?case using client_step_counts [OF Cons.prems c1 assms(2)] Cons.IH [of c1] by auto
qed simp

end
