(* ===== verification/Log.thy ===== *)
theory Log
  imports Prelude
begin

text \<open>
  Logging: \<open>Common/Log.h\<close>, and the call site of \<open>Common/Utils.h\<close>. A logger is what it has written. The lemmas
  show which lines a logger gets, and for which messages the code leaves its buffer or reads arguments that
  are not there.
\<close>

section \<open>Lines\<close>

datatype log_level =
    LOG_LEVEL_VERBOSE
  | LOG_LEVEL_DEBUG
  | LOG_LEVEL_INFO
  | LOG_LEVEL_WARNING
  | LOG_LEVEL_ERROR
  | LOG_LEVEL_FATAL

fun level_number :: "log_level \<Rightarrow> nat" where
  "level_number LOG_LEVEL_VERBOSE = 0"
| "level_number LOG_LEVEL_DEBUG = 1"
| "level_number LOG_LEVEL_INFO = 2"
| "level_number LOG_LEVEL_WARNING = 3"
| "level_number LOG_LEVEL_ERROR = 4"
| "level_number LOG_LEVEL_FATAL = 5"

fun level_text :: "log_level \<Rightarrow> string" where
  "level_text LOG_LEVEL_VERBOSE = ''[verbose]''"
| "level_text LOG_LEVEL_DEBUG = ''[debug  ]''"
| "level_text LOG_LEVEL_INFO = ''[info   ]''"
| "level_text LOG_LEVEL_WARNING = ''[warning]''"
| "level_text LOG_LEVEL_ERROR = ''[error  ]''"
| "level_text LOG_LEVEL_FATAL = ''[fatal  ]''"

record log_metadata =
  lm_level :: log_level
  lm_location :: string

text \<open>\<open>where\<close>: the file, the function and the line of the call; \<open>dec\<close> writes a number in digits.\<close>

definition log_where :: "(nat \<Rightarrow> string) \<Rightarrow> string \<Rightarrow> string \<Rightarrow> nat \<Rightarrow> string" where
  "log_where dec file function line = file @ ''['' @ function @ ''('' @ dec line @ '')'' @ '']''"

definition metadata_to_string :: "log_metadata \<Rightarrow> string" where
  "metadata_to_string meta = level_text (lm_level meta) @ '' '' @ lm_location meta"

section \<open>Loggers\<close>

text \<open>
  The three classes of loggers with what they have put out: nothing, the file (when it could be opened), the
  lines of the system's log with their priority, of which debug is that of the level of the same name.
\<close>

datatype logger =
    Logger_Console bool
  | Logger_File bool "string option"
  | Logger_System bool "(log_level \<times> string) list"

definition logger_file :: "bool \<Rightarrow> logger" where
  "logger_file open_ok = Logger_File False (if open_ok then Some [] else None)"

definition logger_system :: logger where
  "logger_system = Logger_System False []"

fun set_timestamp_enabled :: "bool \<Rightarrow> logger \<Rightarrow> logger" where
  "set_timestamp_enabled enable (Logger_Console _) = Logger_Console enable"
| "set_timestamp_enabled enable (Logger_File _ f) = Logger_File enable f"
| "set_timestamp_enabled enable (Logger_System _ ls) = Logger_System enable ls"

definition write_default :: "string \<Rightarrow> bool \<Rightarrow> log_metadata \<Rightarrow> string \<Rightarrow> string" where
  "write_default now_s timestamp meta msg =
     level_text (lm_level meta) @ '' '' @ (if timestamp then now_s @ '' '' else []) @ lm_location meta @ '' '' @ msg @ [CHR 0x0A]"

text \<open>
  The system's log takes the line as a format, without arguments: a percent sign is put in by doubling it, and any
  other conversion is undefined: it is none, or it reads an argument that is not there.
\<close>

fun format_plain :: "string \<Rightarrow> string res" where
  "format_plain [] = Inr []"
| "format_plain (c # cs) =
     (if c = CHR ''%'' then
        (case cs of d # ds \<Rightarrow> if d = CHR ''%'' then res_bind (format_plain ds) (\<lambda>out. Inr (c # out)) else Inl Oob_Read
         | [] \<Rightarrow> Inl Oob_Read)
      else res_bind (format_plain cs) (\<lambda>out. Inr (c # out)))"

fun logger_write :: "string \<Rightarrow> log_metadata \<Rightarrow> string \<Rightarrow> logger \<Rightarrow> logger res" where
  "logger_write now_s meta msg (Logger_Console ts) = Inr (Logger_Console ts)"
| "logger_write now_s meta msg (Logger_File ts f) =
     Inr (Logger_File ts (map_option (\<lambda>out. out @ write_default now_s ts meta msg) f))"
| "logger_write now_s meta msg (Logger_System ts ls) =
     res_bind (format_plain (write_default now_s ts meta msg)) (\<lambda>line. Inr (Logger_System ts (ls @ [(lm_level meta, line)])))"

section \<open>The manager\<close>

text \<open>The manager is the list of its loggers, in the order they were created.\<close>

definition create_logger :: "logger \<Rightarrow> logger list \<Rightarrow> logger list" where
  "create_logger l m = m @ [set_timestamp_enabled True l]"

fun manager_write :: "string \<Rightarrow> log_metadata \<Rightarrow> string \<Rightarrow> logger list \<Rightarrow> logger list res" where
  "manager_write now_s meta msg [] = Inr []"
| "manager_write now_s meta msg (l # ls) =
     res_bind (logger_write now_s meta msg l) (\<lambda>l. res_bind (manager_write now_s meta msg ls) (\<lambda>ls. Inr (l # ls)))"

text \<open>The destructor of the entry writes what was streamed into it, when there is anything.\<close>

definition log_entry :: "string \<Rightarrow> log_level \<Rightarrow> string \<Rightarrow> string \<Rightarrow> logger list \<Rightarrow> logger list res" where
  "log_entry now_s level location msg m =
     (if msg = [] then Inr m else manager_write now_s \<lparr> lm_level = level, lm_location = location \<rparr> msg m)"

text \<open>\<open>msg\<close> is the format with its arguments; \<open>vsprintf\<close> puts it, and a zero, into 1024 bytes.\<close>

definition rp_log_printf :: "string \<Rightarrow> string \<Rightarrow> log_level \<Rightarrow> string \<Rightarrow> logger list \<Rightarrow> logger list res" where
  "rp_log_printf now_s location level msg m =
     (if length msg \<ge> 1024 then Inl Oob_Write else log_entry now_s level location msg m)"

text \<open>The macros: below the least level there would be no call. That level is \<open>VERBOSE\<close>, or \<open>INFO\<close> in a release.\<close>

definition RP_MIN_LOG_LEVEL :: "bool \<Rightarrow> log_level" where
  "RP_MIN_LOG_LEVEL ndebug = (if ndebug then LOG_LEVEL_INFO else LOG_LEVEL_VERBOSE)"

text \<open>
  The comparison is the preprocessor's, which knows no enumerators: every identifier that is no macro is 0 there.
\<close>

definition preprocessor_value :: "log_level \<Rightarrow> nat" where
  "preprocessor_value level = 0"

definition rp_log :: "bool \<Rightarrow> string \<Rightarrow> string \<Rightarrow> log_level \<Rightarrow> string \<Rightarrow> logger list \<Rightarrow> logger list res" where
  "rp_log ndebug now_s location level msg m =
     (if preprocessor_value (RP_MIN_LOG_LEVEL ndebug) \<le> preprocessor_value level then rp_log_printf now_s location level msg m else Inr m)"

section \<open>What a logger gets\<close>

lemma format_plain_same: "CHR ''%'' \<notin> set cs \<Longrightarrow> format_plain cs = Inr cs"
  by (induction cs rule: format_plain.induct) auto

fun log_run :: "bool \<Rightarrow> (string \<times> string \<times> log_level \<times> string) list \<Rightarrow> logger list \<Rightarrow> logger list res" where
  "log_run ndebug [] m = Inr m"
| "log_run ndebug ((now_s, location, level, msg) # es) m =
     res_bind (rp_log ndebug now_s location level msg m) (log_run ndebug es)"

text \<open>The lines of those messages that are not empty: of every level, also in a release.\<close>

fun log_lines :: "(string \<times> string \<times> log_level \<times> string) list \<Rightarrow> (log_level \<times> string) list" where
  "log_lines [] = []"
| "log_lines ((now_s, location, level, msg) # es) =
     (if msg \<noteq> []
      then [(level, write_default now_s True \<lparr> lm_level = level, lm_location = location \<rparr> msg)] else []) @ log_lines es"

definition log_fits :: "(string \<times> string \<times> log_level \<times> string) list \<Rightarrow> bool" where
  "log_fits es \<longleftrightarrow> (\<forall>(now_s, location, level, msg)\<in>set es. length msg < 1024 \<and> CHR ''%'' \<notin> set (now_s @ location @ msg))"

fun logger_add :: "(log_level \<times> string) list \<Rightarrow> logger \<Rightarrow> logger" where
  "logger_add ls (Logger_Console ts) = Logger_Console ts"
| "logger_add ls (Logger_File ts f) = Logger_File ts (map_option (\<lambda>out. out @ concat (map snd ls)) f)"
| "logger_add ls (Logger_System ts out) = Logger_System ts (out @ ls)"

fun timestamps :: "logger \<Rightarrow> bool" where
  "timestamps (Logger_Console ts) = ts"
| "timestamps (Logger_File ts f) = ts"
| "timestamps (Logger_System ts ls) = ts"

lemma logger_add_Nil: "logger_add [] l = l"
  by (cases l) (auto simp: option.map_ident)

lemma logger_add_add: "logger_add (ls @ ls') l = logger_add ls' (logger_add ls l)"
  by (cases l) (auto simp: option.map_comp comp_def)

lemma timestamps_add [simp]: "timestamps (logger_add ls l) = timestamps l"
  by (cases l) auto

lemma level_text_plain: "CHR ''%'' \<notin> set (level_text l)"
  by (cases l) auto

lemma logger_write_line:
  assumes "timestamps l" "CHR ''%'' \<notin> set (now_s @ lm_location meta @ msg)"
  shows "logger_write now_s meta msg l = Inr (logger_add [(lm_level meta, write_default now_s True meta msg)] l)"
proof -
  have "CHR ''%'' \<notin> set (write_default now_s True meta msg)"
    using assms(2) level_text_plain by (auto simp: write_default_def)
  then show ?thesis using assms(1) by (cases l) (auto simp: format_plain_same)
qed

lemma manager_write_line:
  assumes "\<forall>l\<in>set m. timestamps l" "CHR ''%'' \<notin> set (now_s @ lm_location meta @ msg)"
  shows "manager_write now_s meta msg m = Inr (map (logger_add [(lm_level meta, write_default now_s True meta msg)]) m)"
  using assms(1) logger_write_line [OF _ assms(2)] by (induction m) auto

text \<open>Every logger gets every line once, in order.\<close>

lemma log_run_lines:
  assumes "log_fits es" "\<forall>l\<in>set m. timestamps l"
  shows "log_run ndebug es m = Inr (map (logger_add (log_lines es)) m)"
  using assms
proof (induction es arbitrary: m)
  case Nil
  then show ?case by (simp add: logger_add_Nil cong: map_cong)
next
  case (Cons e es)
  obtain now_s location level msg where e: "e = (now_s, location, level, msg)" by (cases e) auto
  have fits: "length msg < 1024" "CHR ''%'' \<notin> set (now_s @ location @ msg)" "log_fits es"
    using Cons.prems(1) e by (auto simp: log_fits_def)
  let ?one = "if msg \<noteq> []
    then [(level, write_default now_s True \<lparr> lm_level = level, lm_location = location \<rparr> msg)] else []"
  have "rp_log ndebug now_s location level msg m = Inr (map (logger_add ?one) m)"
    using fits(1,2) manager_write_line [OF Cons.prems(2), of now_s "\<lparr> lm_level = level, lm_location = location \<rparr>" msg]
    by (simp add: rp_log_def preprocessor_value_def rp_log_printf_def log_entry_def logger_add_Nil cong: map_cong)
  then show ?case
    using Cons.IH [OF fits(3), of "map (logger_add ?one) m"] Cons.prems(2) e by (simp add: logger_add_add comp_def)
qed

text \<open>A release puts out the same as a debug build; a long message; a message with a percent sign.\<close>

lemma release_logs_everything: "rp_log True = rp_log False"
  by (intro ext) (simp add: rp_log_def preprocessor_value_def)

lemma rp_log_overflows:
  "1024 \<le> length msg \<Longrightarrow> rp_log ndebug now_s location level msg m = Inl Oob_Write"
  by (simp add: rp_log_def preprocessor_value_def rp_log_printf_def)

lemma format_plain_conversion: "CHR ''%'' \<notin> set xs \<Longrightarrow> d \<noteq> CHR ''%'' \<Longrightarrow> format_plain (xs @ CHR ''%'' # d # ds) = Inl Oob_Read"
  by (induction xs) auto


lemma manager_write_fault:
  "l \<in> set m \<Longrightarrow> \<exists>e. logger_write now_s meta msg l = Inl e \<Longrightarrow> \<exists>e. manager_write now_s meta msg m = Inl e"
proof (induction m)
  case (Cons k m)
  show ?case
  proof (cases "logger_write now_s meta msg k")
    case (Inr k')
    then have "l \<in> set m" using Cons.prems by auto
    then obtain e where "manager_write now_s meta msg m = Inl e" using Cons.IH Cons.prems(2) by blast
    then show ?thesis using Inr by simp
  qed simp
qed simp

text \<open>
  The line of \<open>RtpStream\<close> about lost packets has a percent sign and a bracket behind the loss rate: with the
  system's logger there is none of them that is written.
\<close>

lemma packet_loss_line_faults:
  assumes "Logger_System ts ls \<in> set m" "msg = before @ ''%), current rtp packet: '' @ after" "length msg < 1024"
    "CHR ''%'' \<notin> set (now_s @ location @ before)"
  shows "\<exists>e. rp_log ndebug now_s location LOG_LEVEL_ERROR msg m = Inl e"
proof -
  let ?meta = "\<lparr> lm_level = LOG_LEVEL_ERROR, lm_location = location \<rparr>"
  let ?xs = "level_text LOG_LEVEL_ERROR @ '' '' @ (if ts then now_s @ '' '' else []) @ location @ '' '' @ before"
  have "CHR ''%'' \<notin> set ?xs" using assms(4) by auto
  from format_plain_conversion [OF this, of "CHR '')''" "'', current rtp packet: '' @ after @ [CHR 0x0A]"]
  have "format_plain (write_default now_s ts ?meta msg) = Inl Oob_Read"
    by (simp add: write_default_def assms(2))
  then have "\<exists>e. logger_write now_s ?meta msg (Logger_System ts ls) = Inl e" by simp
  from manager_write_fault [OF assms(1) this] show ?thesis
    using assms(2,3) by (simp add: rp_log_def preprocessor_value_def rp_log_printf_def log_entry_def)
qed

end
