(* ===== verification/Player_Jni.thy ===== *)
theory Player_Jni
  imports Player Log
begin

text \<open>
  The native methods of the Java class, \<open>RtpPlayer_jni.cc\<close>, with the getters of the players they call. A handle
  is a number, 0 is null. Objects of a player are in the heap of \<open>Player\<close>; what the glue itself acquires from
  Android is counted. The lemmas show what a client may call and what is left when it is done.
\<close>

section \<open>The getters of the players\<close>

text \<open>What the counters of a stream say; floating point numbers are of any type \<open>'f\<close>, with the conversions used.\<close>

record 'f stat_env =
  st_framerate :: "nat \<Rightarrow> 'f"
  st_bitrate :: "nat \<Rightarrow> 'f"
  st_loss_count :: "nat \<Rightarrow> 'f"
  st_loss_rate :: "nat \<Rightarrow> 'f"
  st_kilo :: "'f \<Rightarrow> 'f"
  st_int :: "'f \<Rightarrow> int"
  st_render_time :: "nat \<Rightarrow> int"

definition video_stream_info :: "'f stat_env \<Rightarrow> nat \<Rightarrow> 'f \<times> int \<times> int \<times> 'f" where
  "video_stream_info env stream =
     (st_framerate env stream, st_int env (st_kilo env (st_bitrate env stream)), st_int env (st_loss_count env stream),
      st_loss_rate env stream)"

definition audio_stream_info :: "'f stat_env \<Rightarrow> nat \<Rightarrow> int \<times> int \<times> 'f" where
  "audio_stream_info env stream =
     (st_int env (st_kilo env (st_bitrate env stream)), st_int env (st_loss_count env stream), st_loss_rate env stream)"

text \<open>Reading a member of an object that was freed is a fault.\<close>

definition alive :: "objects \<Rightarrow> nat \<Rightarrow> 'a \<Rightarrow> 'a res" where
  "alive h i x = (if ob_refs h i = None then Inl Use_After_Free else Inr x)"

definition video_player_info :: "'f stat_env \<Rightarrow> player \<Rightarrow> objects \<Rightarrow> (int list \<times> 'f \<times> int \<times> int \<times> 'f) option res" where
  "video_player_info env pl h =
     (case pl_stream pl of None \<Rightarrow> Inr None
      | Some t \<Rightarrow> alive h t (Some (pl_params pl, video_stream_info env t)))"

text \<open>On its way out the function of the audio player has no \<open>return\<close>: its caller tests a value that was never set.\<close>

definition audio_player_info :: "'f stat_env \<Rightarrow> player \<Rightarrow> objects \<Rightarrow> (int list \<times> int \<times> int \<times> 'f) option res" where
  "audio_player_info env pl h =
     (case pl_stream pl of None \<Rightarrow> Inr None
      | Some t \<Rightarrow> res_bind (alive h t (audio_stream_info env t)) (\<lambda>_. Inl Uninit_Read))"

definition base_player_play_time_ms :: "'f stat_env \<Rightarrow> player \<Rightarrow> objects \<Rightarrow> int res" where
  "base_player_play_time_ms env pl h =
     (case pl_renderer pl of None \<Rightarrow> Inr 0 | Some r \<Rightarrow> alive h r (st_render_time env r))"

definition rtp_player_video_info :: "'f stat_env \<Rightarrow> rtp_player \<Rightarrow> (int list \<times> 'f \<times> int \<times> int \<times> 'f) option res" where
  "rtp_player_video_info env rp =
     (case rp_video rp of None \<Rightarrow> Inr None
      | Some (i, pl) \<Rightarrow> res_bind (alive (rp_heap rp) i pl) (\<lambda>pl. video_player_info env pl (rp_heap rp)))"

definition rtp_player_audio_info :: "'f stat_env \<Rightarrow> rtp_player \<Rightarrow> (int list \<times> int \<times> int \<times> 'f) option res" where
  "rtp_player_audio_info env rp =
     (case rp_audio rp of None \<Rightarrow> Inr None
      | Some (i, pl) \<Rightarrow> res_bind (alive (rp_heap rp) i pl) (\<lambda>pl. audio_player_info env pl (rp_heap rp)))"

definition rtp_player_play_time_ms :: "'f stat_env \<Rightarrow> rtp_player \<Rightarrow> int res" where
  "rtp_player_play_time_ms env rp =
     (case rp_audio rp of
        Some (i, pl) \<Rightarrow> res_bind (alive (rp_heap rp) i pl) (\<lambda>pl. base_player_play_time_ms env pl (rp_heap rp))
      | None \<Rightarrow>
          (case rp_video rp of
             Some (i, pl) \<Rightarrow> res_bind (alive (rp_heap rp) i pl) (\<lambda>pl. base_player_play_time_ms env pl (rp_heap rp))
           | None \<Rightarrow> Inr 0))"

section \<open>The native methods\<close>

text \<open>
  \<open>jn_players\<close>: the structures that are allocated, each with its player. \<open>jn_windows\<close> and \<open>jn_globals\<close> count the
  references to native windows and the global references to Java objects that were acquired and not released.
\<close>

record jni =
  jn_players :: "nat \<Rightarrow> rtp_player option"
  jn_next :: nat
  jn_loggers :: "logger list"
  jn_windows :: nat
  jn_globals :: nat

definition jni_new :: jni where
  "jni_new = \<lparr> jn_players = (\<lambda>_. None), jn_next = 1, jn_loggers = [], jn_windows = 0, jn_globals = 0 \<rparr>"

definition g_media :: "(int \<times> rtp_media_type) list" where
  "g_media = [(1, RTP_MEDIA_AUDIO_AAC), (2, RTP_MEDIA_AUDIO_OPUS), (5, RTP_MEDIA_VIDEO_AVC), (6, RTP_MEDIA_VIDEO_VP8)]"

text \<open>
  How the calls to the system turn out: the log file, the surface, the two allocations and the synchroniser.
  Deleting a player whose \<open>build\<close> failed tears it down.
\<close>

definition create_rtp_player :: "bool \<Rightarrow> bool \<Rightarrow> bool \<Rightarrow> bool \<Rightarrow> bool \<Rightarrow> jni \<Rightarrow> (nat \<times> jni) res" where
  "create_rtp_player file_ok surface_ok new_ok player_ok sync_ok j =
     (let j = j\<lparr> jn_loggers := create_logger (logger_file file_ok) (create_logger logger_system (jn_loggers j)) \<rparr>
      in if \<not> surface_ok then Inr (0, j)
         else
           let j = j\<lparr> jn_windows := jn_windows j + 1 \<rparr>
           in if \<not> new_ok then Inl Null_Deref
              else if \<not> player_ok then Inr (0, j)
              else
                let (ok, rp) = rtp_player_build sync_ok rtp_player_new
                in if \<not> ok then res_bind (rtp_player_tear rp) (\<lambda>_. Inr (0, j))
                   else Inr (jn_next j, j\<lparr> jn_players := (jn_players j)(jn_next j := Some rp), jn_next := jn_next j + 1,
                                           jn_globals := jn_globals j + 1 \<rparr>))"

text \<open>A method gets the player of its handle; a handle of a structure that was freed is used all the same.\<close>

definition jni_player :: "nat \<Rightarrow> jni \<Rightarrow> rtp_player option res" where
  "jni_player handle j =
     (if handle = 0 then Inr None
      else case jn_players j handle of None \<Rightarrow> Inl Use_After_Free | Some rp \<Rightarrow> Inr (Some rp))"

text \<open>The clock rate is a parameter of the method that nothing uses.\<close>

definition add_stream :: "bool \<Rightarrow> build_env \<Rightarrow> int list \<Rightarrow> nat \<Rightarrow> int \<Rightarrow> jni \<Rightarrow> (int \<times> jni) res" where
  "add_stream new_ok be junk handle type j =
     res_bind (jni_player handle j) (\<lambda>p.
       case p of None \<Rightarrow> Inr (- 1, j)
       | Some rp \<Rightarrow>
           (case map_of g_media type of None \<Rightarrow> Inr (0, j)
            | Some media \<Rightarrow>
                res_bind
                  (if ISVIDEO media then res_bind (play_video new_ok be junk media rp) (\<lambda>(ok, rp). Inr rp)
                   else if ISAUDIO media then res_bind (play_audio new_ok be junk media rp) (\<lambda>(ok, rp). Inr rp)
                   else Inr rp) (\<lambda>rp.
                Inr (0, j\<lparr> jn_players := (jn_players j)(handle := Some rp) \<rparr>))))"

text \<open>The object a method returns when there is no information was never set.\<close>

definition jni_video_info :: "'f stat_env \<Rightarrow> nat \<Rightarrow> jni \<Rightarrow> (int list \<times> 'f \<times> int \<times> int \<times> 'f) res" where
  "jni_video_info env handle j =
     res_bind (jni_player handle j) (\<lambda>p.
       case p of None \<Rightarrow> Inl Uninit_Read
       | Some rp \<Rightarrow> res_bind (rtp_player_video_info env rp) (\<lambda>info.
           case info of None \<Rightarrow> Inl Uninit_Read | Some x \<Rightarrow> Inr x))"

definition jni_audio_info :: "'f stat_env \<Rightarrow> nat \<Rightarrow> jni \<Rightarrow> (int list \<times> int \<times> int \<times> 'f) res" where
  "jni_audio_info env handle j =
     res_bind (jni_player handle j) (\<lambda>p.
       case p of None \<Rightarrow> Inl Uninit_Read
       | Some rp \<Rightarrow> res_bind (rtp_player_audio_info env rp) (\<lambda>info.
           case info of None \<Rightarrow> Inl Uninit_Read | Some x \<Rightarrow> Inr x))"

definition get_play_time_ms :: "'f stat_env \<Rightarrow> nat \<Rightarrow> jni \<Rightarrow> int res" where
  "get_play_time_ms env handle j =
     res_bind (jni_player handle j) (\<lambda>p. case p of None \<Rightarrow> Inr (- 1) | Some rp \<Rightarrow> rtp_player_play_time_ms env rp)"

text \<open>The result is the heap the player leaves behind.\<close>

definition destroy_rtp_player :: "nat \<Rightarrow> jni \<Rightarrow> (objects \<times> jni) res" where
  "destroy_rtp_player handle j =
     res_bind (jni_player handle j) (\<lambda>p.
       case p of None \<Rightarrow> Inr (no_objects, j)
       | Some rp \<Rightarrow> res_bind (rtp_player_tear rp) (\<lambda>rp.
           Inr (rp_heap rp, j\<lparr> jn_players := (jn_players j)(handle := None) \<rparr>)))"

section \<open>A program\<close>

datatype jni_call =
    Jni_Create bool bool bool bool bool
  | Jni_Add bool build_env "int list" nat int
  | Jni_Video_Info nat
  | Jni_Time nat
  | Jni_Destroy nat

text \<open>What a call hands back to the program: a handle or a number, and what a destroyed player left.\<close>

fun jni_do :: "'f stat_env \<Rightarrow> jni_call \<Rightarrow> jni \<Rightarrow> (objects \<times> jni) res" where
  "jni_do env (Jni_Create f s n p y) j = res_bind (create_rtp_player f s n p y j) (\<lambda>(_, j). Inr (no_objects, j))"
| "jni_do env (Jni_Add n be junk handle type) j = res_bind (add_stream n be junk handle type j) (\<lambda>(_, j). Inr (no_objects, j))"
| "jni_do env (Jni_Video_Info handle) j = res_bind (jni_video_info env handle j) (\<lambda>_. Inr (no_objects, j))"
| "jni_do env (Jni_Time handle) j = res_bind (get_play_time_ms env handle j) (\<lambda>_. Inr (no_objects, j))"
| "jni_do env (Jni_Destroy handle) j = destroy_rtp_player handle j"

fun jni_run :: "'f stat_env \<Rightarrow> jni_call list \<Rightarrow> jni \<Rightarrow> (objects list \<times> jni) res" where
  "jni_run env [] j = Inr ([], j)"
| "jni_run env (c # cs) j =
     res_bind (jni_do env c j) (\<lambda>(h, j). res_bind (jni_run env cs j) (\<lambda>(hs, j). Inr (h # hs, j)))"

text \<open>
  A program that only uses handles that are null or alive, asks for information only where there is a video, and
  whose structure could be allocated.
\<close>

fun jni_call_ok :: "jni_call \<Rightarrow> jni \<Rightarrow> bool" where
  "jni_call_ok (Jni_Create f s n p y) j = (s \<longrightarrow> n)"
| "jni_call_ok (Jni_Add n be junk handle type) j = (handle = 0 \<or> jn_players j handle \<noteq> None)"
| "jni_call_ok (Jni_Video_Info handle) j =
     (handle \<noteq> 0 \<and> (case jn_players j handle of None \<Rightarrow> False
        | Some rp \<Rightarrow> (case rp_video rp of None \<Rightarrow> False | Some (i, pl) \<Rightarrow> pl_stream pl \<noteq> None)))"
| "jni_call_ok (Jni_Time handle) j = (handle = 0 \<or> jn_players j handle \<noteq> None)"
| "jni_call_ok (Jni_Destroy handle) j = (handle = 0 \<or> jn_players j handle \<noteq> None)"

fun jni_calls_ok :: "'f stat_env \<Rightarrow> jni_call list \<Rightarrow> jni \<Rightarrow> bool" where
  "jni_calls_ok env [] j = True"
| "jni_calls_ok env (c # cs) j =
     (jni_call_ok c j \<and> (case jni_do env c j of Inl _ \<Rightarrow> True | Inr (h, j) \<Rightarrow> jni_calls_ok env cs j))"

definition jni_inv :: "jni \<Rightarrow> bool" where
  "jni_inv j \<longleftrightarrow> 0 < jn_next j \<and> (\<forall>i rp. jn_players j i = Some rp \<longrightarrow> rp_inv rp)"

lemma alive_ok: "rp_inv rp \<Longrightarrow> i \<in># rp_refs rp \<Longrightarrow> alive (rp_heap rp) i x = Inr x"
  by (simp add: alive_def rp_inv_def owns_def)

lemma video_in_refs:
  "rp_video rp = Some (i, pl) \<Longrightarrow> i \<in># rp_refs rp \<and> (\<forall>x\<in>#player_refs pl. x \<in># rp_refs rp)"
  by (simp add: rp_refs_def)

lemma audio_in_refs:
  "rp_audio rp = Some (i, pl) \<Longrightarrow> i \<in># rp_refs rp \<and> (\<forall>x\<in>#player_refs pl. x \<in># rp_refs rp)"
  by (simp add: rp_refs_def)

lemma play_time_ok:
  assumes "rp_inv rp" "i \<in># rp_refs rp" "\<forall>x\<in>#player_refs pl. x \<in># rp_refs rp"
  shows "\<exists>t. res_bind (alive (rp_heap rp) i pl) (\<lambda>pl. base_player_play_time_ms env pl (rp_heap rp)) = Inr t"
  using assms(2,3)
  by (cases "pl_renderer pl") (auto simp: alive_ok [OF assms(1)] base_player_play_time_ms_def player_refs_def opt_mset_def)

lemma rtp_play_time_ok: "rp_inv rp \<Longrightarrow> \<exists>t. rtp_player_play_time_ms env rp = Inr t"
  using play_time_ok [of rp] video_in_refs [of rp] audio_in_refs [of rp]
  by (fastforce simp: rtp_player_play_time_ms_def split: option.split)

lemma rtp_video_info_ok:
  assumes "rp_inv rp" "rp_video rp = Some (i, pl)" "pl_stream pl = Some t"
  shows "rtp_player_video_info env rp = Inr (Some (pl_params pl, video_stream_info env t))"
proof -
  have "t \<in># player_refs pl" using assms(3) by (simp add: player_refs_def)
  then show ?thesis
    using video_in_refs [OF assms(2)] assms
    by (simp add: alive_ok [OF assms(1)] rtp_player_video_info_def video_player_info_def)
qed


lemma create_ok:
  assumes "jni_inv j" "s \<longrightarrow> n"
  shows "\<exists>h j'. create_rtp_player f s n p y j = Inr (h, j') \<and> jni_inv j'
    \<and> jn_windows j' = jn_windows j + (if s then 1 else 0)
    \<and> jn_globals j' = jn_globals j + (if s \<and> p \<and> y then 1 else 0)
    \<and> (h \<noteq> 0 \<longleftrightarrow> s \<and> p \<and> y) \<and> (h \<noteq> 0 \<longrightarrow> jn_players j h = None \<or> h = jn_next j)"
proof -
  obtain ok rp where b: "rtp_player_build y rtp_player_new = (ok, rp)" by force
  have none: "case Call_Build y of Call_Build ok \<Rightarrow> rp_sync rtp_player_new = None | _ \<Rightarrow> True"
    by (simp add: rtp_player_new_def)
  have inv: "rp_inv rp" using player_do_ok [OF rp_inv_new none] b by simp
  have "ok = y" using b by (auto simp: rtp_player_build_def obj_make_def obj_new_def split: if_splits)
  moreover obtain rp' where "rtp_player_tear rp = Inr rp'" using rp_tear_ok [OF inv] by blast
  ultimately show ?thesis
    using assms inv b by (auto simp: create_rtp_player_def jni_inv_def Let_def)
qed

lemma jni_player_ok:
  assumes "jni_inv j" "handle = 0 \<or> jn_players j handle \<noteq> None"
  obtains "jni_player handle j = Inr None"
    | rp where "jni_player handle j = Inr (Some rp)" "rp_inv rp" "jn_players j handle = Some rp"
  using assms by (cases "handle = 0") (auto simp: jni_player_def jni_inv_def)

lemma add_stream_ok:
  assumes "jni_inv j" "handle = 0 \<or> jn_players j handle \<noteq> None"
  shows "\<exists>j'. add_stream n be junk handle type j = Inr (if handle = 0 then - 1 else 0, j') \<and> jni_inv j'
    \<and> jn_windows j' = jn_windows j \<and> jn_globals j' = jn_globals j"
  using assms
proof (cases rule: jni_player_ok)
  case 1
  then show ?thesis using assms by (auto simp: add_stream_def jni_player_def split: if_splits option.splits)
next
  case (2 rp)
  have nz: "handle \<noteq> 0" using 2(1) by (cases "handle = 0") (auto simp: jni_player_def)
  have put: "jni_inv (j\<lparr> jn_players := (jn_players j)(handle := Some rp') \<rparr>)" if "rp_inv rp'" for rp'
    using assms(1) that by (auto simp: jni_inv_def)
  show ?thesis
  proof (cases "map_of g_media type")
    case None
    then show ?thesis using 2 nz assms(1) by (simp add: add_stream_def)
  next
    case (Some media)
    have "\<exists>rp'. (if ISVIDEO media then res_bind (play_video n be junk media rp) (\<lambda>(ok, rp). Inr rp)
          else if ISAUDIO media then res_bind (play_audio n be junk media rp) (\<lambda>(ok, rp). Inr rp) else Inr rp) = Inr rp' \<and> rp_inv rp'"
      using play_video_ok [OF 2(2), of n be junk media] play_audio_ok [OF 2(2), of n be junk media] 2(2) by auto
    then obtain rp' where "(if ISVIDEO media then res_bind (play_video n be junk media rp) (\<lambda>(ok, rp). Inr rp)
          else if ISAUDIO media then res_bind (play_audio n be junk media rp) (\<lambda>(ok, rp). Inr rp) else Inr rp) = Inr rp'" "rp_inv rp'"
      by blast
    then show ?thesis using put [of rp'] 2(1) Some nz by (simp add: add_stream_def)
  qed
qed

lemma destroy_ok:
  assumes "jni_inv j" "handle = 0 \<or> jn_players j handle \<noteq> None"
  shows "\<exists>h j'. destroy_rtp_player handle j = Inr (h, j') \<and> jni_inv j' \<and> ob_refs h = (\<lambda>_. None)
    \<and> jn_windows j' = jn_windows j \<and> jn_globals j' = jn_globals j \<and> (handle \<noteq> 0 \<longrightarrow> jn_players j' handle = None)"
  using assms
proof (cases rule: jni_player_ok)
  case 1
  then show ?thesis using assms by (auto simp: destroy_rtp_player_def no_objects_def jni_player_def split: if_splits option.splits)
next
  case (2 rp)
  obtain rp' where "rtp_player_tear rp = Inr rp'" "ob_refs (rp_heap rp') = (\<lambda>_. None)" using rp_tear_ok [OF 2(2)] by blast
  then show ?thesis using 2 assms(1) by (auto simp: destroy_rtp_player_def jni_inv_def)
qed

text \<open>How many of the calls acquire a window, and how many succeed.\<close>

fun takes_window :: "jni_call \<Rightarrow> bool" where
  "takes_window (Jni_Create f s n p y) = s"
| "takes_window _ = False"

fun makes_player :: "jni_call \<Rightarrow> bool" where
  "makes_player (Jni_Create f s n p y) = (s \<and> p \<and> y)"
| "makes_player _ = False"

lemma jni_do_ok:
  assumes "jni_inv j" "jni_call_ok c j"
  shows "\<exists>h j'. jni_do env c j = Inr (h, j') \<and> jni_inv j' \<and> ob_refs h = (\<lambda>_. None)
    \<and> jn_windows j' = jn_windows j + (if takes_window c then 1 else 0)
    \<and> jn_globals j' = jn_globals j + (if makes_player c then 1 else 0)"
proof (cases c)
  case (Jni_Create f s n p y)
  then show ?thesis using create_ok [OF assms(1), of s n f p y] assms(2) by (auto simp: no_objects_def)
next
  case (Jni_Add n be junk handle type)
  then have "handle = 0 \<or> jn_players j handle \<noteq> None" using assms(2) by simp
  then show ?thesis using add_stream_ok [OF assms(1), of handle n be junk type] Jni_Add by (auto simp: no_objects_def)
next
  case (Jni_Video_Info handle)
  then obtain rp i pl t where rp: "handle \<noteq> 0" "jn_players j handle = Some rp" "rp_video rp = Some (i, pl)" "pl_stream pl = Some t"
    using assms(2) by (auto split: option.splits)
  then have "rp_inv rp" using assms(1) by (simp add: jni_inv_def)
  then show ?thesis using rtp_video_info_ok [of rp i pl t env] rp Jni_Video_Info assms(1)
    by (simp add: jni_video_info_def jni_player_def no_objects_def)
next
  case (Jni_Time handle)
  then have h: "handle = 0 \<or> jn_players j handle \<noteq> None" using assms(2) by simp
  show ?thesis
    using assms(1) h
  proof (cases rule: jni_player_ok)
    case 1
    then show ?thesis using Jni_Time assms(1) by (simp add: get_play_time_ms_def no_objects_def)
  next
    case (2 rp)
    then show ?thesis using rtp_play_time_ok [of rp env] Jni_Time assms(1) by (auto simp: get_play_time_ms_def no_objects_def)
  qed
next
  case (Jni_Destroy handle)
  then show ?thesis using destroy_ok [OF assms(1), of handle] assms(2) by auto
qed


definition plain_stats :: "int stat_env" where
  "plain_stats = \<lparr> st_framerate = (\<lambda>_. 0), st_bitrate = (\<lambda>_. 0), st_loss_count = (\<lambda>_. 0), st_loss_rate = (\<lambda>_. 0),
     st_kilo = (\<lambda>x. x div 1000), st_int = (\<lambda>x. x), st_render_time = (\<lambda>_. 0) \<rparr>"

definition demo_program :: "jni_call list" where
  "demo_program = [Jni_Create True True True True True, Jni_Add True all_ok [0, 0] 1 6, Jni_Video_Info 1, Jni_Time 1, Jni_Destroy 1]"

lemma demo_program_ok: "jni_calls_ok plain_stats demo_program jni_new"
  by code_simp


text \<open>The statistics of the audio are never returned: every path of the two functions ends without a value.\<close>

lemma jni_audio_info_never: "\<exists>e. jni_audio_info env handle j = Inl e"
  by (auto simp: jni_audio_info_def jni_player_def rtp_player_audio_info_def audio_player_info_def alive_def
      split: option.split)

text \<open>A stream that could not be set up is reported like one that plays.\<close>

lemma add_stream_hides_failure:
  assumes "jni_inv j" "jn_players j handle = Some rp" "handle \<noteq> 0"
  shows "\<exists>j'. add_stream False be junk handle type j = Inr (0, j')"
  using add_stream_ok [OF assms(1), of handle False be junk type] assms(2,3) by auto

text \<open>Every player made adds two loggers: from the second on, every line is written twice.\<close>

lemma create_adds_loggers:
  "create_rtp_player f s n p y j = Inr (h, j') \<Longrightarrow> length (jn_loggers j') = length (jn_loggers j) + 2"
  by (auto simp: create_rtp_player_def create_logger_def Let_def res_bind_Inr_iff split: if_splits prod.splits)

end
