(* ===== verification/Spec2Isabelle.thy ===== *)
theory Spec2Isabelle
  imports Opus_Enc Ivf_Writer Video_Enc Video_Dec Opus_Dec Event_Bus Rtp_Stream Player Video_Out Render_Loop Av_Frame Audio_Path Video_Path Bool_Coder Net_Peers Player_Jni
begin

text \<open>
  RtpPlayer: a verification development for the core of the player and of its codec library.

  The program. RTP packets come in over UDP (\<open>Networks\<close>, \<open>Rtp/RtpClient\<close>), are parsed
  (\<open>Rtp/RtpPacket\<close>) and handed to a stream (\<open>Streams\<close>). A video stream puts frames together with a
  depacketizer (\<open>Depacketizers\<close>), an audio stream passes the payload on. A player (\<open>Player\<close>) owns a
  stream, a decoder and a renderer: media frames go to the decoder (\<open>src/MediaCodec\<close>), decoded frames
  to the synchroniser (\<open>Player/AVSync\<close>), from where the threads of the renderers (\<open>Renders\<close>) fetch them;
  the audio renderer is the clock of the synchroniser. All parts are modules with a reference count on an
  event bus (\<open>Events\<close>). \<open>src/MediaCodec\<close> also holds the encoders of the sending side.

  Theories. Paths are below \<open>src/RtpPlayer/app/src/main/jni\<close> or, for the codecs, \<open>src/MediaCodec/jni\<close>.

    \<^item> \<open>Prelude\<close>: faults as values (\<open>'a res\<close>), pointers, memory blocks with their bounds, byte order.
    \<^item> \<open>Media\<close>: \<open>Common/common.h\<close>, and what feeding packets to a depacketizer means.
    \<^item> \<open>Rtp_Packet\<close>: \<open>Rtp/RtpPacket\<close>; the parser against the header layout of RFC 3550.
    \<^item> \<open>Depack_H264\<close>, \<open>Depack_Vp8\<close>: the two depacketizers; frames come out whole, memory is not left,
      nothing comes out before a random access point. \<open>Depacketizer\<close>: their common interface.
    \<^item> \<open>Rtp_Stream\<close>: \<open>RtpClient\<close>, \<open>Session\<close>, \<open>UdpSession\<close>, \<open>UdpServer\<close> and \<open>Streams\<close>; a stream that
      receives datagrams delivers exactly the frames of its depacketizer.
    \<^item> \<open>Stream_Buf\<close>: \<open>src/asio/basic_streambuf.hpp\<close>, the buffer sessions receive into and send from, as a queue of
      bytes. \<open>Net_Session\<close>: \<open>Session\<close>, \<open>UdpSession\<close>, \<open>TcpSession\<close> over it, with the operations under way; what arrives
      reaches the handler whole and in order. \<open>Net_Peers\<close>: \<open>TcpServer\<close>, \<open>TcpClient\<close>, \<open>UdpClient\<close>.
    \<^item> \<open>Av_Sync\<close>: \<open>AVTimer\<close>, \<open>AVClock\<close>, \<open>AVSync\<close>; order, references and schedule of the frames.
    \<^item> \<open>Audio_Out\<close>: \<open>Renders/AudioOut\<close>; the samples and the clock.
    \<^item> \<open>Video_Out\<close>: \<open>Renders/VideoOut\<close>; the pixels a decoded picture has on the screen.
    \<^item> \<open>Render_Loop\<close>: \<open>Renders/AVOutBase\<close>, \<open>AVOut.h\<close>; the threads of the renderers over the synchroniser.
    \<^item> \<open>Av_Frame\<close>: \<open>Common/AVFrame.h\<close> and \<open>Decoders/VideoDecoder\<close>; the references between frames and their decoder.
    \<^item> \<open>Audio_Path\<close>: \<open>Decoders/AudioDecoder\<close>, the samples of \<open>AVFrame.h\<close>, \<open>BasePlayer::on_media_frame\<close>; the way of
      the sound from the datagram to the device, with the memory of every frame.
    \<^item> \<open>Video_Path\<close>: \<open>Decoders/VideoDecoder\<close> and the pictures of \<open>AVFrame.h\<close> between the video player, the
      synchroniser and the renderer; the way of a picture from the datagram to the screen, and when it gets there.
    \<^item> \<open>Player\<close>: \<open>BasePlayer\<close>, \<open>VideoPlayer\<close>, \<open>AudioPlayer\<close>, \<open>RtpPlayer\<close>; ownership over every sequence of
      operations and every pattern of failures.
    \<^item> \<open>Player_Jni\<close>: \<open>RtpPlayer_jni.cc\<close> and the getters below it; what a Java program may call, and what is left
      when it is done. \<open>Log\<close>: \<open>Common/Log.h\<close>; which lines the loggers get.
    \<^item> \<open>Event_Bus\<close>: \<open>Events\<close>, \<open>RefCount.h\<close>, \<open>AVModule.h\<close>; the bus thread and the threads of the modules.
    \<^item> \<open>Video_Defs\<close>, \<open>Vp8_Enc\<close>, \<open>Avc_Enc\<close>, \<open>Video_Enc\<close>, \<open>Video_Dec\<close>: the video codecs; \<open>Opus_Enc\<close>,
      \<open>Opus_Dec\<close>: the audio codecs; \<open>Ivf_Writer\<close>: the dump file, with the reader of libvpx.
    \<^item> \<open>Bool_Coder\<close>: the entropy coder of VP8 in libvpx (\<open>vp8/encoder/boolhuff\<close>, \<open>vp8/decoder/dboolhuff\<close>); what
      is encoded is decoded, by way of an arithmetic coder over unbounded numbers that both sides refine.
    \<^item> \<open>Opus_Packet\<close>: the packet parser and the repacketizer of libopus; \<open>Vpx_Mem\<close>: the aligned allocator
      of libvpx, of which the codecs use memory.

  How state corresponds. A class or a struct is a record with a field for each member that some
  operation reads; an operation takes the state, and returns the state updated or a fault of the
  prelude where the code would leave a block, use freed or uninitialised memory, or dereference null.
  Machine integers are words where wrap-around matters and \<open>int\<close> otherwise. Memory that is allocated and not
  written holds an arbitrary parameter (\<open>junk\<close>). Threads are steps: where two threads share a state
  (\<open>Event_Bus\<close>, \<open>Av_Sync\<close>) the steps are the critical sections of the code, and the invariants hold for every
  interleaving by rule induction over the reachable states.

  Interfaces. \<open>fifo\<close> is what the bus needs of its queue, \<open>av_clock\<close> what the synchroniser needs of a
  clock (interpreted on the timer and on the audio renderer), \<open>packet_parser\<close> what a stream needs of a
  depacketizer (interpreted on the two depacketizers and on their sum), \<open>av_source\<close> what a renderer thread
  needs of its source (interpreted on the two queues of the synchroniser, and on the audio and the
  video player as a whole, with their decoder and the memory of their frames).

  Parameters. asio, OpenSL ES, libvpx, libx264, libavcodec, the codec part of libopus, \<open>malloc\<close> and the
  time of day are arguments of the definitions; what a property needs of them is a hypothesis, and
  its witness gives concrete functions for which it holds.

  Bounds and fuel. No definition uses fuel: the loops of the code are structural recursions over a list or a
  count, or have a measure (the bytes or events left) with its termination proof. The sample loop of
  \<open>opus_enc_encode\<close> may run forever for a frame size that holds no sample; it is a partial function whose value
  \<open>None\<close> is that it does not return, and that it does return is part of what is proved about it. So is
  the loop of the renderer threads: it returns when and because \<open>stop\<close> has set the exit flag.

  Two levels of the network. \<open>Rtp_Stream\<close> has a UDP session as the count of its receives, and a datagram as the
  bytes that \<open>on_read\<close> hands to the client; \<open>Net_Session\<close> has the same functions over the memory of the stream
  buffer and shows that the bytes handed over are those of the datagram, one receive after the other.

  Not modelled: the jitter statistic (floating point, read by nothing), the counters of the streams and the task
  threads (libraries that come as binaries), and the third-party libraries except for the parts named above.
\<close>

end
